(* ===== verification/Work_Pool.thy ===== *)
theory Work_Pool
  imports Prelude
begin

text \<open>
  The shared work pool (\<open>.agents/skills/rsi/scripts/work_pool.py\<close>, class \<open>WorkPool\<close>). The SQLite
  store is a record of tables; a table is the list of its rows in insertion order, and every
  operation is a function from the store to a new store or to the exception that rolls its
  transaction back. The harness and session that identify a task form an \<open>ident\<close>. Each reading
  of \<open>time.time()\<close> is an argument of its own: an operation that reads the clock several times takes a
  function from the number of the reading to its value, so no two readings need agree.
\<close>

section \<open>Tables\<close>

datatype ident = Ident (i_harness: string) (i_session: string)

datatype kind = KExplorer | KWorker | KExperimenter | KReview | KEvaluation

datatype role = Explorer | Worker | Experimenter

datatype work_state = Ready | Active | Done | Cancelled

datatype task_state = TActive | TPaused | TComplete | TExpired

datatype member_state = Working | Waiting | MDone | MExpired | MFailed

datatype dispatch_state = Pending | Dispatching | Running | Released

datatype pool_error =
    NotActivated | TaskIs task_state | DeadlinePassed | SelfDependency | IntegrityError
  | BadSchedule | StartUnknown | ZeroDivision | NoFreshId | RegisterFirst | ResumeFirst
  | ResultMissing | NotActiveOwner | OwnerChanged | NoSuchItem
  | TaskNotFile | OtherTask | CompletedNotResumable | DeadlineDiffers | StartDiffers
  | EmptyReason | CompletedUnchangeable | BadMemberState | OwnsWork "string list"
  | NotRegistered | BadTaskState | NegativeWait

record session_row =
  s_ident :: ident
  s_task :: string
  s_deadline :: "time option"
  s_started :: "time option"
  s_state :: task_state
  s_reason :: "string option"
  s_review_pending :: bool

record member_row =
  m_ident :: ident
  m_agent :: string
  m_role :: role
  m_state :: member_state
  m_next_step :: "string option"
  m_reason :: "string option"
  m_notice :: "string option"
  m_responsibility :: "string option"
  m_thread_id :: "string option"
  m_dispatch_state :: dispatch_state
  m_lease_owner :: "string option"
  m_lease_until :: "time option"
  m_dispatch_id :: "string option"
  m_turn_id :: "string option"
  m_last_error :: "string option"

record work_row =
  w_ident :: ident
  w_id :: string
  w_kind :: kind
  w_description :: string
  w_creator :: string
  w_topic :: string
  w_environment :: string
  w_state :: work_state
  w_owner :: "string option"
  w_previous_owner :: "string option"
  w_result :: "string option"
  w_reason :: "string option"
  w_created :: time

record schedule_row =
  e_ident :: ident
  e_interval :: time
  e_count :: int
  e_next_due :: time

record heartbeat_row =
  h_ident :: ident
  h_owner :: string
  h_state :: string
  h_last_seen :: time
  h_last_error :: "string option"

record store =
  sessions :: "session_row list"
  members :: "member_row list"
  heartbeats :: "heartbeat_row list"
  capabilities :: "(ident \<times> string \<times> kind) list"
  work :: "work_row list"
  participants :: "(ident \<times> string \<times> string) list"
  dependencies :: "(ident \<times> string \<times> string) list"
  exclusions :: "(ident \<times> string \<times> string) list"
  schedules :: "schedule_row list"

type_synonym clock = "nat \<Rightarrow> time"

fun CAPABILITIES :: "role \<Rightarrow> kind list" where
  "CAPABILITIES Explorer = [KExplorer, KEvaluation]"
| "CAPABILITIES Worker = [KWorker, KEvaluation]"
| "CAPABILITIES Experimenter = [KExperimenter, KEvaluation]"

fun role_name :: "role \<Rightarrow> string" where
  "role_name Explorer = ''explorer''"
| "role_name Worker = ''worker''"
| "role_name Experimenter = ''experimenter''"

text \<open>Primary keys.\<close>

definition work_key :: "work_row \<Rightarrow> ident \<times> string" where
  "work_key r = (w_ident r, w_id r)"

definition member_key :: "member_row \<Rightarrow> ident \<times> string" where
  "member_key m = (m_ident m, m_agent m)"

definition is_work :: "ident \<Rightarrow> string \<Rightarrow> work_row \<Rightarrow> bool" where
  "is_work i w r \<longleftrightarrow> w_ident r = i \<and> w_id r = w"

definition is_member :: "ident \<Rightarrow> string \<Rightarrow> member_row \<Rightarrow> bool" where
  "is_member i a m \<longleftrightarrow> m_ident m = i \<and> m_agent m = a"

definition find_session :: "store \<Rightarrow> ident \<Rightarrow> session_row option" where
  "find_session d i = find (\<lambda>s. s_ident s = i) (sessions d)"

definition find_member :: "store \<Rightarrow> ident \<Rightarrow> string \<Rightarrow> member_row option" where
  "find_member d i a = find (is_member i a) (members d)"

definition find_work :: "store \<Rightarrow> ident \<Rightarrow> string \<Rightarrow> work_row option" where
  "find_work d i w = find (is_work i w) (work d)"

definition work_exists :: "store \<Rightarrow> ident \<Rightarrow> string \<Rightarrow> bool" where
  "work_exists d i w \<longleftrightarrow> (\<exists>r \<in> set (work d). is_work i w r)"

section \<open>Opening the store\<close>

text \<open>\<open>WorkPool.create\<close>: the upgrade of ready rows a legacy handoff left with an owner.\<close>

definition disown_row :: "work_row \<Rightarrow> work_row" where
  "disown_row r = r\<lparr>w_previous_owner := (case w_previous_owner r of None \<Rightarrow> w_owner r | p \<Rightarrow> p),
                    w_owner := None\<rparr>"

definition pool_create :: "store \<Rightarrow> store" where
  "pool_create d =
     d\<lparr>work := update_where (\<lambda>r. w_state r = Ready \<and> w_owner r \<noteq> None) disown_row (work d)\<rparr>"

section \<open>Admission\<close>

definition active :: "store \<Rightarrow> ident \<Rightarrow> time \<Rightarrow> pool_error + session_row" where
  "active d i now =
     (case find_session d i of
        None \<Rightarrow> Inl NotActivated
      | Some task \<Rightarrow>
          if s_state task \<noteq> TActive then Inl (TaskIs (s_state task))
          else if (case s_deadline task of None \<Rightarrow> False | Some dl \<Rightarrow> dl \<le> now) then Inl DeadlinePassed
          else Inr task)"

definition default_responsibility :: "role \<Rightarrow> string \<Rightarrow> string" where
  "default_responsibility role responsibility =
     (if responsibility \<noteq> '''' then responsibility
      else ''Continue the complete '' @ role_name role @ '' responsibility for the active RSI task, '' @
        ''using the latest retained configuration and recording every result and dependency.'')"

definition new_member :: "ident \<Rightarrow> string \<Rightarrow> role \<Rightarrow> string \<Rightarrow> string \<Rightarrow> member_row" where
  "new_member i agent role responsibility thread =
     \<lparr>m_ident = i, m_agent = agent, m_role = role, m_state = Working, m_next_step = None,
      m_reason = None, m_notice = None, m_responsibility = Some responsibility,
      m_thread_id = Some thread, m_dispatch_state = Pending, m_lease_owner = None,
      m_lease_until = None, m_dispatch_id = None, m_turn_id = None, m_last_error = None\<rparr>"

text \<open>The \<open>ON CONFLICT DO UPDATE\<close> branch of the member insert.\<close>

definition reregister :: "member_row \<Rightarrow> member_row \<Rightarrow> member_row" where
  "reregister excluded m =
     m\<lparr>m_role := m_role excluded, m_state := Working, m_next_step := None, m_reason := None,
       m_notice := None,
       m_responsibility :=
         (if m_responsibility excluded \<noteq> Some '''' then m_responsibility excluded
          else m_responsibility m),
       m_thread_id :=
         (if m_thread_id excluded \<noteq> Some '''' then m_thread_id excluded else m_thread_id m),
       m_dispatch_state := (if m_dispatch_state m = Running then Running else Pending),
       m_lease_owner := None, m_lease_until := None, m_dispatch_id := None, m_turn_id := None,
       m_last_error := None\<rparr>"

definition upsert_member :: "member_row \<Rightarrow> member_row list \<Rightarrow> member_row list" where
  "upsert_member new ms =
     (if \<exists>m \<in> set ms. member_key m = member_key new
      then update_where (\<lambda>m. member_key m = member_key new) (reregister new) ms
      else ms @ [new])"

definition register ::
  "store \<Rightarrow> ident \<Rightarrow> string \<Rightarrow> role \<Rightarrow> kind list \<Rightarrow> string \<Rightarrow> string \<Rightarrow> time \<Rightarrow> pool_error + store" where
  "register d i agent role accepts responsibility thread now =
     rbind (active d i now) (\<lambda>_.
       Inr (d\<lparr>members :=
                upsert_member
                  (new_member i agent role (default_responsibility role responsibility) thread)
                  (members d),
              capabilities :=
                filter (\<lambda>(j, a, _). \<not> (j = i \<and> a = agent)) (capabilities d) @
                map (\<lambda>k. (i, agent, k)) (fromkeys (CAPABILITIES role @ accepts))\<rparr>))"

definition new_work ::
  "ident \<Rightarrow> string \<Rightarrow> kind \<Rightarrow> string \<Rightarrow> string \<Rightarrow> string \<Rightarrow> string \<Rightarrow> time \<Rightarrow> work_row" where
  "new_work i w k description agent topic environment created =
     \<lparr>w_ident = i, w_id = w, w_kind = k, w_description = description, w_creator = agent,
      w_topic = topic, w_environment = environment, w_state = Ready, w_owner = None,
      w_previous_owner = None, w_result = None, w_reason = None, w_created = created\<rparr>"

text \<open>\<open>executemany\<close>: one INSERT per row, each checking its primary and foreign keys.\<close>

primrec insert_dependencies :: "ident \<Rightarrow> string \<Rightarrow> string list \<Rightarrow> store \<Rightarrow> pool_error + store" where
  "insert_dependencies i w [] d = Inr d"
| "insert_dependencies i w (p # ps) d =
     (if (i, w, p) \<in> set (dependencies d) \<or> \<not> work_exists d i w \<or> \<not> work_exists d i p
      then Inl IntegrityError
      else insert_dependencies i w ps (d\<lparr>dependencies := dependencies d @ [(i, w, p)]\<rparr>))"

primrec insert_exclusions :: "ident \<Rightarrow> string \<Rightarrow> string list \<Rightarrow> store \<Rightarrow> pool_error + store" where
  "insert_exclusions i w [] d = Inr d"
| "insert_exclusions i w (a # as) d =
     (if (i, w, a) \<in> set (exclusions d) \<or> \<not> work_exists d i w
      then Inl IntegrityError
      else insert_exclusions i w as (d\<lparr>exclusions := exclusions d @ [(i, w, a)]\<rparr>))"

definition submit ::
  "store \<Rightarrow> ident \<Rightarrow> string \<Rightarrow> kind \<Rightarrow> string \<Rightarrow> string \<Rightarrow> string \<Rightarrow> string \<Rightarrow> string list \<Rightarrow>
   string list \<Rightarrow> clock \<Rightarrow> pool_error + store" where
  "submit d i w k description agent topic environment after exclude now =
     rbind (active d i (now 0)) (\<lambda>_.
       if w \<in> set after then Inl SelfDependency
       else if work_exists d i w then Inl IntegrityError
       else rbind
         (insert_dependencies i w after
           (d\<lparr>work := work d @ [new_work i w k description agent topic environment (now 1)]\<rparr>))
         (insert_exclusions i w (fromkeys exclude)))"

section \<open>Scheduled evaluations\<close>

definition evaluation_creator :: string where
  "evaluation_creator = ''evaluation_schedule''"

definition scheduled_evaluation :: "ident \<Rightarrow> work_row \<Rightarrow> bool" where
  "scheduled_evaluation i r \<longleftrightarrow>
     w_ident r = i \<and> w_kind r = KEvaluation \<and> w_creator r = evaluation_creator"

definition cancel_row :: "string \<Rightarrow> work_row \<Rightarrow> work_row" where
  "cancel_row reason r = r\<lparr>w_state := Cancelled, w_reason := Some reason\<rparr>"

definition find_schedule :: "store \<Rightarrow> ident \<Rightarrow> schedule_row option" where
  "find_schedule d i = find (\<lambda>e. e_ident e = i) (schedules d)"

definition upsert_schedule :: "schedule_row \<Rightarrow> schedule_row list \<Rightarrow> schedule_row list" where
  "upsert_schedule new es =
     (if \<exists>e \<in> set es. e_ident e = e_ident new
      then update_where (\<lambda>e. e_ident e = e_ident new)
             (\<lambda>e. e\<lparr>e_interval := e_interval new, e_count := e_count new\<rparr>) es
      else es @ [new])"

definition withdraw_evaluations :: "ident \<Rightarrow> int \<Rightarrow> store \<Rightarrow> store" where
  "withdraw_evaluations i count d =
     (if count = 0
      then d\<lparr>work := update_where (\<lambda>r. scheduled_evaluation i r \<and> w_state r = Ready)
                       (cancel_row ''Evaluator count is zero'') (work d)\<rparr>
      else d)"

definition schedule :: "store \<Rightarrow> ident \<Rightarrow> time \<Rightarrow> int \<Rightarrow> time \<Rightarrow> pool_error + store" where
  "schedule d i interval count now =
     rbind (active d i now) (\<lambda>task.
       if interval \<le> 0 \<or> count < 0 then Inl BadSchedule
       else case s_started task of
         None \<Rightarrow> Inl StartUnknown
       | Some started \<Rightarrow>
           Inr ((withdraw_evaluations i count d)\<lparr>schedules :=
                upsert_schedule
                  \<lparr>e_ident = i, e_interval = interval, e_count = count, e_next_due = started + interval\<rparr>
                  (schedules d)\<rparr>))"

text \<open>
  The name of one evaluation item, and the loop that appends \<open>:retry<n>\<close> until the name is unused.
  The loop is bounded by the number of work rows: \<open>fresh_id_some\<close> below shows that the bound is
  never reached.
\<close>

definition evaluation_id :: "string \<Rightarrow> nat \<Rightarrow> nat \<Rightarrow> string" where
  "evaluation_id due index retry =
     ''evaluation:'' @ due @ '':'' @ show_nat index @
     (if retry = 0 then '''' else '':retry'' @ show_nat retry)"

fun fresh_id :: "nat \<Rightarrow> store \<Rightarrow> ident \<Rightarrow> (nat \<Rightarrow> string) \<Rightarrow> nat \<Rightarrow> string option" where
  "fresh_id 0 d i name retry = None"
| "fresh_id (Suc n) d i name retry =
     (if work_exists d i (name retry) then fresh_id n d i name (Suc retry) else Some (name retry))"

definition evaluation_description :: "string \<Rightarrow> string" where
  "evaluation_description task =
     ''Create one fresh Evaluator without inherited history for '' @ task @ ''. '' @
     ''Give only the task, Evaluator role and working directory. Deliver findings directly to their owners; '' @
     ''finish this item with the completed assessment's path, not the child's dispatch notice.''"

primrec submit_evaluations ::
  "nat \<Rightarrow> nat \<Rightarrow> store \<Rightarrow> ident \<Rightarrow> string \<Rightarrow> string \<Rightarrow> clock \<Rightarrow> pool_error + store" where
  "submit_evaluations 0 index d i task due now = Inr d"
| "submit_evaluations (Suc n) index d i task due now =
     (case fresh_id (Suc (length (work d))) d i (evaluation_id due index) 0 of
        None \<Rightarrow> Inl NoFreshId
      | Some w \<Rightarrow>
          rbind (submit d i w KEvaluation (evaluation_description task) evaluation_creator
                   '''' '''' [] [] now)
            (\<lambda>d1. submit_evaluations n (Suc index) d1 i task due (\<lambda>k. now (k + 2))))"

text \<open>
  \<open>due_evaluations\<close>. Reading 0 decides whether the schedule is due, readings 1 to 2n serve the
  submissions, and the last reading advances the schedule. \<open>fmt\<close> is Python's formatting of a float.
\<close>

definition due_evaluations ::
  "(time \<Rightarrow> string) \<Rightarrow> store \<Rightarrow> ident \<Rightarrow> session_row \<Rightarrow> clock \<Rightarrow> pool_error + store" where
  "due_evaluations fmt d i task now =
     (case find_schedule d i of
        None \<Rightarrow> Inr d
      | Some e \<Rightarrow>
          if e_count e = 0 \<or> now 0 < e_next_due e then Inr d
          else if \<exists>r \<in> set (work d). scheduled_evaluation i r \<and> w_state r \<in> {Ready, Active} then Inr d
          else let due = e_next_due e; n = nat (e_count e) in
            rbind (submit_evaluations n 0 d i (s_task task) (fmt due) (\<lambda>k. now (Suc k))) (\<lambda>d1.
              if e_interval e = 0 then Inl ZeroDivision
              else let elapsed = \<lfloor>(now (Suc (2 * n)) - due) / e_interval e\<rfloor> + 1 in
                Inr (d1\<lparr>schedules :=
                  update_where (\<lambda>x. e_ident x = i)
                    (\<lambda>x. x\<lparr>e_next_due := due + of_int elapsed * e_interval e\<rparr>) (schedules d1)\<rparr>)))"

section \<open>Eligibility\<close>

definition edges :: "store \<Rightarrow> ident \<Rightarrow> (string \<times> string) list" where
  "edges d i = map snd (filter (\<lambda>(j, _). j = i) (dependencies d))"

definition dependencies_done :: "store \<Rightarrow> work_row \<Rightarrow> bool" where
  "dependencies_done d r \<longleftrightarrow>
     (\<forall>(w, p) \<in> set (edges d (w_ident r)). w = w_id r \<longrightarrow>
        (\<forall>q \<in> set (work d). is_work (w_ident r) p q \<longrightarrow> w_state q = Done))"

definition ready :: "store \<Rightarrow> ident \<Rightarrow> work_row list" where
  "ready d i = sort_key (\<lambda>r. (w_created r, w_id r))
     (filter (\<lambda>r. w_ident r = i \<and> w_state r = Ready \<and> dependencies_done d r) (work d))"

text \<open>The recursive query \<open>ancestry\<close>, with as many rounds as there are dependency rows.\<close>

primrec ancestry_rounds :: "nat \<Rightarrow> (string \<times> string) list \<Rightarrow> string list \<Rightarrow> string list" where
  "ancestry_rounds 0 es seen = seen"
| "ancestry_rounds (Suc n) es seen =
     ancestry_rounds n es
       (seen @ map snd (filter (\<lambda>(w, p). w \<in> set seen \<and> p \<notin> set seen) es))"

definition ancestry :: "store \<Rightarrow> ident \<Rightarrow> string \<Rightarrow> string list" where
  "ancestry d i w = ancestry_rounds (length (edges d i)) (edges d i) [w]"

definition contributors :: "store \<Rightarrow> ident \<Rightarrow> string \<Rightarrow> string list" where
  "contributors d i w =
     map (\<lambda>(_, _, a). a)
       (filter (\<lambda>(j, p, _). j = i \<and> p \<in> set (ancestry d i w) \<and>
                  (\<exists>r \<in> set (work d). is_work i p r \<and> w_kind r \<in> {KWorker, KExperimenter}))
          (participants d))"

definition capable :: "store \<Rightarrow> ident \<Rightarrow> string \<Rightarrow> kind list" where
  "capable d i agent =
     map (\<lambda>(_, _, k). k) (filter (\<lambda>(j, a, _). j = i \<and> a = agent) (capabilities d))"

definition eligible :: "store \<Rightarrow> ident \<Rightarrow> work_row \<Rightarrow> string \<Rightarrow> kind list \<Rightarrow> bool" where
  "eligible d i r agent kinds \<longleftrightarrow>
     w_kind r \<in> set kinds \<and> (i, w_id r, agent) \<notin> set (exclusions d) \<and>
     (w_kind r \<noteq> KReview \<or> agent \<notin> set (contributors d i (w_id r)))"

section \<open>Claiming\<close>

text \<open>The work an agent has taken part in: \<open>work JOIN work_participants\<close>.\<close>

definition participated :: "store \<Rightarrow> ident \<Rightarrow> string \<Rightarrow> work_row list" where
  "participated d i agent =
     filter (\<lambda>r. w_ident r = i \<and> (i, w_id r, agent) \<in> set (participants d)) (work d)"

definition frontier :: "store \<Rightarrow> ident \<Rightarrow> string \<Rightarrow> time option" where
  "frontier d i agent = map_option w_created (max_by w_created (participated d i agent))"

definition topics_of :: "work_row list \<Rightarrow> string list" where
  "topics_of rows = filter (\<lambda>t. t \<noteq> '''') (map w_topic rows)"

definition environments_of :: "work_row list \<Rightarrow> string list" where
  "environments_of rows = filter (\<lambda>t. t \<noteq> '''') (map w_environment rows)"

definition affinity :: "string list \<Rightarrow> string list \<Rightarrow> work_row \<Rightarrow> bool \<times> bool \<times> time \<times> string" where
  "affinity topics environments r =
     (w_topic r \<notin> set topics, w_environment r \<notin> set environments, w_created r, w_id r)"

definition claim_candidates :: "store \<Rightarrow> ident \<Rightarrow> string \<Rightarrow> work_row list" where
  "claim_candidates d i agent =
     filter (\<lambda>r. eligible d i r agent (capable d i agent)) (ready d i)"

definition claim_choice :: "store \<Rightarrow> ident \<Rightarrow> string \<Rightarrow> work_row option" where
  "claim_choice d i agent =
     (let history = filter (\<lambda>r. w_state r \<in> {Active, Done}) (participated d i agent);
          rows = claim_candidates d i agent;
          older = filter (\<lambda>r. case frontier d i agent of None \<Rightarrow> False | Some f \<Rightarrow> w_created r < f) rows
      in min_by (affinity (topics_of history) (environments_of history))
           (if older \<noteq> [] then older else rows))"

definition claim_row :: "string \<Rightarrow> work_row \<Rightarrow> work_row" where
  "claim_row agent r = r\<lparr>w_state := Active, w_owner := Some agent\<rparr>"

definition take_work :: "store \<Rightarrow> ident \<Rightarrow> string \<Rightarrow> string \<Rightarrow> store" where
  "take_work d i w agent =
     d\<lparr>work := update_where (\<lambda>r. is_work i w r \<and> w_state r = Ready) (claim_row agent) (work d),
       participants :=
         (if (i, w, agent) \<in> set (participants d) then participants d
          else participants d @ [(i, w, agent)]),
       members := update_where (is_member i agent) (m_state_update (\<lambda>_. Working)) (members d)\<rparr>"

definition dependency_results :: "store \<Rightarrow> ident \<Rightarrow> string \<Rightarrow> (string \<times> string option) list" where
  "dependency_results d i w =
     concat (map (\<lambda>(_, p). map (\<lambda>q. (w_id q, w_result q)) (filter (is_work i p) (work d)))
       (filter (\<lambda>(v, _). v = w) (edges d i)))"

definition claim ::
  "(time \<Rightarrow> string) \<Rightarrow> store \<Rightarrow> ident \<Rightarrow> string \<Rightarrow> clock \<Rightarrow>
   pool_error + store \<times> (work_row \<times> (string \<times> string option) list) option" where
  "claim fmt d i agent now =
     rbind (active d i (now 0)) (\<lambda>task.
     rbind (due_evaluations fmt d i task (\<lambda>k. now (Suc k))) (\<lambda>d1.
       if capable d1 i agent = [] then Inl RegisterFirst
       else case find_member d1 i agent of
         None \<Rightarrow> Inl ResumeFirst
       | Some m \<Rightarrow>
           if m_state m \<noteq> Working then Inl ResumeFirst
           else case claim_choice d1 i agent of
             None \<Rightarrow> Inr (d1, None)
           | Some r \<Rightarrow>
               let d2 = take_work d1 i (w_id r) agent
               in Inr (d2, Some (claim_row agent r, dependency_results d2 i (w_id r)))))"

section \<open>Completion and handoff\<close>

text \<open>\<open>resolve\<close> is \<open>Path.resolve(strict=True)\<close> on the artifact path: \<open>None\<close> when it does not exist.\<close>

definition owned_by :: "ident \<Rightarrow> string \<Rightarrow> string \<Rightarrow> work_row \<Rightarrow> bool" where
  "owned_by i w agent r \<longleftrightarrow> is_work i w r \<and> w_state r = Active \<and> w_owner r = Some agent"

definition finish_row :: "string \<Rightarrow> work_row \<Rightarrow> work_row" where
  "finish_row path r = r\<lparr>w_state := Done, w_result := Some path, w_reason := None\<rparr>"

definition finish ::
  "(string \<Rightarrow> string option) \<Rightarrow> store \<Rightarrow> ident \<Rightarrow> string \<Rightarrow> string \<Rightarrow> string \<Rightarrow> pool_error + store" where
  "finish resolve d i w agent result =
     (case resolve result of
        None \<Rightarrow> Inl ResultMissing
      | Some path \<Rightarrow>
          if \<exists>r \<in> set (work d). owned_by i w agent r
          then Inr (d\<lparr>work := update_where (owned_by i w agent) (finish_row path) (work d)\<rparr>)
          else Inl NotActiveOwner)"

definition handoff_row :: "string \<Rightarrow> string \<Rightarrow> work_row \<Rightarrow> work_row" where
  "handoff_row previous reason r =
     r\<lparr>w_state := Ready, w_owner := None, w_previous_owner := Some previous, w_reason := Some reason\<rparr>"

definition named_owner :: "string \<Rightarrow> string option \<Rightarrow> string" where
  "named_owner agent from_agent =
     (case from_agent of None \<Rightarrow> agent | Some f \<Rightarrow> if f = '''' then agent else f)"

definition handoff ::
  "store \<Rightarrow> ident \<Rightarrow> string \<Rightarrow> string \<Rightarrow> string \<Rightarrow> string option \<Rightarrow> pool_error + store" where
  "handoff d i w agent reason from_agent =
     (let previous = named_owner agent from_agent in
      if \<exists>r \<in> set (work d). owned_by i w previous r
      then Inr (d\<lparr>work := update_where (owned_by i w previous) (handoff_row previous reason) (work d)\<rparr>)
      else Inl OwnerChanged)"

section \<open>Notices and reports\<close>

record candidate =
  c_agent :: string
  c_state :: member_state
  c_kinds :: "kind list"
  c_topics :: "string list"
  c_environments :: "string list"
  c_active :: nat

definition owned_active :: "store \<Rightarrow> ident \<Rightarrow> string \<Rightarrow> work_row list" where
  "owned_active d i agent =
     filter (\<lambda>r. w_ident r = i \<and> w_owner r = Some agent \<and> w_state r = Active) (work d)"

definition notice_candidate :: "store \<Rightarrow> ident \<Rightarrow> member_row \<Rightarrow> candidate" where
  "notice_candidate d i m =
     (let agent = m_agent m; history = participated d i agent in
      \<lparr>c_agent = agent, c_state = m_state m, c_kinds = capable d i agent,
       c_topics = topics_of history, c_environments = environments_of history,
       c_active = length (owned_active d i agent)\<rparr>)"

definition notice_candidates :: "store \<Rightarrow> ident \<Rightarrow> string \<Rightarrow> candidate list" where
  "notice_candidates d i sender =
     map (notice_candidate d i)
       (filter (\<lambda>m. m_ident m = i \<and> m_state m \<in> {Working, Waiting} \<and> m_agent m \<noteq> sender) (members d))"

definition notice_rank :: "work_row \<Rightarrow> candidate \<Rightarrow> bool \<times> bool \<times> bool \<times> bool \<times> nat \<times> string" where
  "notice_rank r c =
     (w_creator r \<noteq> c_agent c, c_state c \<noteq> Waiting, w_topic r \<notin> set (c_topics c),
      w_environment r \<notin> set (c_environments c), c_active c, c_agent c)"

definition recipients :: "store \<Rightarrow> ident \<Rightarrow> candidate list \<Rightarrow> work_row \<Rightarrow> string list" where
  "recipients d i candidates r =
     (case sort_key (notice_rank r)
             (filter (\<lambda>c. eligible d i r (c_agent c) (c_kinds c) \<and>
                          (c_state c \<noteq> Waiting \<or> w_creator r = c_agent c)) candidates) of
        [] \<Rightarrow> []
      | first # rest \<Rightarrow>
          (case find (\<lambda>c. c_state c = Working \<and> c_active c = 0) (first # rest) of
             None \<Rightarrow> [c_agent first]
           | Some idle \<Rightarrow>
               if c_agent idle \<noteq> c_agent first then [c_agent first, c_agent idle] else [c_agent first]))"

definition route :: "string \<Rightarrow> string \<Rightarrow> (string \<times> string list) list \<Rightarrow> (string \<times> string list) list" where
  "route w agent routed =
     dict_set agent ((case map_of routed agent of None \<Rightarrow> [] | Some ws \<Rightarrow> ws) @ [w]) routed"

definition notifications :: "store \<Rightarrow> ident \<Rightarrow> string list \<Rightarrow> string \<Rightarrow> (string \<times> string list) list" where
  "notifications d i ids sender =
     fold (\<lambda>r routed. fold (route (w_id r)) (recipients d i (notice_candidates d i sender) r) routed)
       (filter (\<lambda>r. w_id r \<in> set ids) (ready d i)) []"

definition dependants :: "store \<Rightarrow> ident \<Rightarrow> string \<Rightarrow> string list" where
  "dependants d i w = map fst (filter (\<lambda>(_, p). p = w) (edges d i))"

text \<open>\<open>idle_action\<close> returns the action, the task and the instruction.\<close>

definition idle_instruction :: "string \<Rightarrow> string" where
  "idle_instruction name =
     ''Continue your '' @ name @ '' responsibility from the latest retained configuration and unresolved task questions. '' @
     ''Claim eligible ready work first; if none is ready, choose the next substantive investigation or validation '' @
     ''within the task scope, record the evidence, and submit the next implementation or experiment stage when needed. '' @
     ''An empty queue is not a dependency. Release as waiting only for a concrete unavailable prerequisite, '' @
     ''or done only when this responsibility is actually answered.''"

definition idle_action :: "store \<Rightarrow> ident \<Rightarrow> string \<Rightarrow> time \<Rightarrow> pool_error + string \<times> string \<times> string" where
  "idle_action d i agent now =
     rbind (active d i now) (\<lambda>task.
       Inr (''research'', s_task task,
         idle_instruction (case find_member d i agent of None \<Rightarrow> ''member'' | Some m \<Rightarrow> role_name (m_role m))))"

definition item :: "store \<Rightarrow> ident \<Rightarrow> string \<Rightarrow> pool_error + work_row" where
  "item d i w = (case find_work d i w of None \<Rightarrow> Inl NoSuchItem | Some r \<Rightarrow> Inr r)"

definition pool_status :: "store \<Rightarrow> ident \<Rightarrow> work_row list" where
  "pool_status d i = sort_key (\<lambda>r. (w_created r, w_id r)) (filter (\<lambda>r. w_ident r = i) (work d))"

section \<open>Invariants of the store\<close>

definition keys_ok :: "store \<Rightarrow> bool" where
  "keys_ok d \<longleftrightarrow> distinct (map work_key (work d)) \<and> distinct (map member_key (members d)) \<and>
     distinct (map s_ident (sessions d)) \<and> distinct (map e_ident (schedules d))"

definition owner_ok :: "store \<Rightarrow> work_row \<Rightarrow> bool" where
  "owner_ok d r \<longleftrightarrow>
     (w_state r = Ready \<longrightarrow> w_owner r = None) \<and>
     (w_state r = Active \<longrightarrow>
        (\<exists>a. w_owner r = Some a \<and> (w_ident r, w_id r, a) \<in> set (participants d)))"

definition owners_ok :: "store \<Rightarrow> bool" where
  "owners_ok d \<longleftrightarrow> (\<forall>r \<in> set (work d). owner_ok d r)"

definition references_ok :: "store \<Rightarrow> bool" where
  "references_ok d \<longleftrightarrow> (\<forall>(i, w, p) \<in> set (dependencies d). work_exists d i w \<and> work_exists d i p)"

definition graph_ok :: "store \<Rightarrow> bool" where
  "graph_ok d \<longleftrightarrow> (\<forall>i. acyclic (set (edges d i)))"

definition schedules_ok :: "store \<Rightarrow> bool" where
  "schedules_ok d \<longleftrightarrow> (\<forall>e \<in> set (schedules d). 0 < e_interval e \<and> 0 \<le> e_count e)"

definition inputs_ok :: "store \<Rightarrow> bool" where
  "inputs_ok d \<longleftrightarrow> (\<forall>r \<in> set (work d). w_state r \<in> {Active, Done} \<longrightarrow> dependencies_done d r)"

definition pool_inv :: "store \<Rightarrow> bool" where
  "pool_inv d \<longleftrightarrow>
     keys_ok d \<and> owners_ok d \<and> references_ok d \<and> graph_ok d \<and> schedules_ok d \<and> inputs_ok d"

text \<open>The rows of one task.\<close>

definition task_view :: "ident \<Rightarrow> store \<Rightarrow> store" where
  "task_view i d =
     \<lparr>sessions = filter (\<lambda>s. s_ident s = i) (sessions d),
      members = filter (\<lambda>m. m_ident m = i) (members d),
      heartbeats = filter (\<lambda>h. h_ident h = i) (heartbeats d),
      capabilities = filter (\<lambda>c. fst c = i) (capabilities d),
      work = filter (\<lambda>r. w_ident r = i) (work d),
      participants = filter (\<lambda>c. fst c = i) (participants d),
      dependencies = filter (\<lambda>c. fst c = i) (dependencies d),
      exclusions = filter (\<lambda>c. fst c = i) (exclusions d),
      schedules = filter (\<lambda>e. e_ident e = i) (schedules d)\<rparr>"

section \<open>Updates keep the primary keys\<close>

interpretation disown: key_preserving work_key disown_row
  by unfold_locales (simp add: work_key_def disown_row_def)

interpretation cancel: key_preserving work_key "cancel_row reason"
  by unfold_locales (simp add: work_key_def cancel_row_def)

interpretation take_row: key_preserving work_key "claim_row agent"
  by unfold_locales (simp add: work_key_def claim_row_def)

interpretation close_row: key_preserving work_key "finish_row path"
  by unfold_locales (simp add: work_key_def finish_row_def)

interpretation return_row: key_preserving work_key "handoff_row previous reason"
  by unfold_locales (simp add: work_key_def handoff_row_def)

interpretation rejoin: key_preserving member_key "reregister new"
  by unfold_locales (simp add: member_key_def reregister_def)

interpretation resume: key_preserving member_key "m_state_update (\<lambda>_. s)"
  by unfold_locales (simp add: member_key_def)

named_theorems row_simps

lemmas [row_simps] =
  disown_row_def cancel_row_def claim_row_def finish_row_def handoff_row_def is_work_def owned_by_def

lemma work_exists_key: "work_exists d i w \<longleftrightarrow> (i, w) \<in> work_key ` set (work d)"
  by (force simp: work_exists_def is_work_def work_key_def)

lemma work_exists_cong:
  "map work_key (work d) = map work_key (work d') \<Longrightarrow> work_exists d i w = work_exists d' i w"
  by (metis work_exists_key list.set_map)

lemma work_exists_append [simp]:
  "work_exists (d\<lparr>work := work d @ rows\<rparr>) i w \<longleftrightarrow>
     work_exists d i w \<or> (\<exists>r \<in> set rows. is_work i w r)"
  by (auto simp: work_exists_def)

lemma work_exists_frame [simp]:
  "work_exists (d\<lparr>dependencies := x\<rparr>) i w = work_exists d i w"
  "work_exists (d\<lparr>exclusions := x\<rparr>) i w = work_exists d i w"
  "work_exists (d\<lparr>participants := x\<rparr>) i w = work_exists d i w"
  "work_exists (d\<lparr>members := y\<rparr>) i w = work_exists d i w"
  "work_exists (d\<lparr>capabilities := z\<rparr>) i w = work_exists d i w"
  "work_exists (d\<lparr>schedules := u\<rparr>) i w = work_exists d i w"
  by (simp_all add: work_exists_def)

lemma is_work_new [simp]: "is_work i w (new_work j v k de a t e c) \<longleftrightarrow> j = i \<and> v = w"
  by (simp add: is_work_def new_work_def)

section \<open>Submission\<close>

lemma active_Inr_iff:
  "active d i now = Inr t \<longleftrightarrow>
     find_session d i = Some t \<and> s_state t = TActive \<and>
     (case s_deadline t of None \<Rightarrow> True | Some dl \<Rightarrow> now < dl)"
  by (auto simp: active_def not_le split: option.splits)

lemma insert_dependencies_Inr:
  "insert_dependencies i w ps d = Inr d' \<longleftrightarrow>
     d' = d\<lparr>dependencies := dependencies d @ map (\<lambda>p. (i, w, p)) ps\<rparr> \<and> distinct ps \<and>
     (\<forall>p \<in> set ps. (i, w, p) \<notin> set (dependencies d) \<and> work_exists d i w \<and> work_exists d i p)"
  by (induction ps arbitrary: d) auto

lemma insert_exclusions_Inr:
  "insert_exclusions i w as d = Inr d' \<longleftrightarrow>
     d' = d\<lparr>exclusions := exclusions d @ map (\<lambda>a. (i, w, a)) as\<rparr> \<and> distinct as \<and>
     (\<forall>a \<in> set as. (i, w, a) \<notin> set (exclusions d) \<and> work_exists d i w)"
  by (induction as arbitrary: d) auto

lemma submit_InrD:
  assumes "submit d i w k de a t e after exclude now = Inr d'"
  shows "\<not> work_exists d i w" "w \<notin> set after" "distinct after"
    "\<forall>p \<in> set after. work_exists d i p" "\<exists>s. active d i (now 0) = Inr s"
    "d' = d\<lparr>work := work d @ [new_work i w k de a t e (now 1)],
           dependencies := dependencies d @ map (\<lambda>p. (i, w, p)) after,
           exclusions := exclusions d @ map (\<lambda>x. (i, w, x)) (fromkeys exclude)\<rparr>"
  using assms
  by (auto simp: submit_def rbind_eq_Inr_iff insert_dependencies_Inr insert_exclusions_Inr
      split: if_splits)

lemma submit_plain:
  assumes "active d i (now 0) = Inr s" and "\<not> work_exists d i w"
  shows "submit d i w k de a t e [] [] now =
           Inr (d\<lparr>work := work d @ [new_work i w k de a t e (now 1)]\<rparr>)"
  using assms by (simp add: submit_def fromkeys_def)

lemma acyclic_fresh_source:
  assumes "acyclic r" and "w \<notin> Range r" and "w \<notin> ps"
  shows "acyclic (r \<union> {w} \<times> ps)"
proof -
  have no_in: "w \<notin> Range (r \<union> {w} \<times> ps)" using assms by auto
  have "(x, y) \<in> (r \<union> {w} \<times> ps)\<^sup>+ \<Longrightarrow> x \<noteq> w \<Longrightarrow> (x, y) \<in> r\<^sup>+" for x y
  proof (induction rule: trancl_induct)
    case (step y z)
    then have "y \<noteq> w"
      using no_in by (metis Range.simps trancl_range)
    then show ?case using step by (auto intro: trancl_into_trancl)
  qed auto
  moreover have "(w, w) \<notin> (r \<union> {w} \<times> ps)\<^sup>+"
    using no_in by (metis Range.intros trancl_range)
  ultimately show ?thesis
    using assms(1) unfolding acyclic_def by metis
qed

lemma edges_append: "edges (d\<lparr>dependencies := dependencies d @ map (\<lambda>p. (i, w, p)) ps\<rparr>) j =
    edges d j @ (if j = i then map (\<lambda>p. (w, p)) ps else [])"
  by (auto simp: edges_def filter_map comp_def)

lemma in_edges: "(w, p) \<in> set (edges d i) \<longleftrightarrow> (i, w, p) \<in> set (dependencies d)"
  by (force simp: edges_def)

lemma edges_cong: "dependencies d = dependencies d' \<Longrightarrow> edges d i = edges d' i"
  by (simp add: edges_def)

lemma dependencies_done_iff:
  "dependencies_done d r \<longleftrightarrow>
     (\<forall>p q. (w_ident r, w_id r, p) \<in> set (dependencies d) \<longrightarrow> q \<in> set (work d) \<longrightarrow>
        is_work (w_ident r) p q \<longrightarrow> w_state q = Done)"
  by (fastforce simp: dependencies_done_def in_edges)

lemma pool_inv_inputsD:
  "pool_inv d \<Longrightarrow> r \<in> set (work d) \<Longrightarrow> w_state r \<in> {Active, Done} \<Longrightarrow> dependencies_done d r"
  unfolding pool_inv_def inputs_ok_def by blast

lemma graph_ok_submit:
  assumes "graph_ok d" and "references_ok d" and "submit d i w k de a t e after exclude now = Inr d'"
  shows "graph_ok d'"
proof -
  note sub = submit_InrD [OF assms(3)]
  have "edges d' j = edges d j @ (if j = i then map (\<lambda>p. (w, p)) after else [])" for j
    using sub(6) edges_append [of d i w after j] by (simp add: edges_def)
  then have "set (edges d' j) = set (edges d j) \<union> (if j = i then {w} \<times> set after else {})" for j
    by auto
  moreover have "w \<notin> Range (set (edges d i))"
    using assms(2) sub(1) by (auto simp: references_ok_def in_edges)
  ultimately show ?thesis
    using assms(1) sub(2) acyclic_fresh_source [of "set (edges d i)" w "set after"]
    unfolding graph_ok_def by simp
qed

lemma pool_inv_submit:
  assumes inv: "pool_inv d" and sub: "submit d i w k de a t e after exclude now = Inr d'"
  shows "pool_inv d'"
proof -
  note facts = submit_InrD [OF sub]
  have "graph_ok d'" using graph_ok_submit [OF _ _ sub] inv by (simp add: pool_inv_def)
  moreover have "keys_ok d'"
    using inv facts(1) by (auto simp: pool_inv_def keys_ok_def facts(6) work_exists_def is_work_def
        work_key_def new_work_def)
  moreover have "owners_ok d'"
    using inv by (auto simp: pool_inv_def owners_ok_def owner_ok_def facts(6) new_work_def)
  moreover have "references_ok d'"
    using inv facts(4) by (auto simp: pool_inv_def references_ok_def facts(6) work_exists_def)
  moreover have "schedules_ok d'"
    using inv by (simp add: pool_inv_def schedules_ok_def facts(6))
  moreover have "inputs_ok d'"
  proof -
    have "dependencies_done d' r" if "r \<in> set (work d)" "w_state r \<in> {Active, Done}" for r
    proof -
      have old: "dependencies_done d r" using pool_inv_inputsD [OF inv that] .
      have "\<not> is_work i w r" using that facts(1) by (auto simp: work_exists_def)
      moreover have "\<not> (w_ident r = i \<and> p = w)" if "(w_id r, p) \<in> set (edges d (w_ident r))" for p
        using that facts(1) inv by (auto simp: in_edges pool_inv_def references_ok_def)
      ultimately show ?thesis
        using old unfolding dependencies_done_iff
        by (auto simp: in_edges facts(6) is_work_def new_work_def)
    qed
    then show ?thesis by (auto simp: inputs_ok_def facts(6) new_work_def)
  qed
  ultimately show ?thesis by (simp add: pool_inv_def)
qed

section \<open>Every operation keeps the invariant\<close>

lemma dependencies_done_mono:
  assumes "dependencies_done d r" and "dependencies d' = dependencies d"
    and "w_ident r' = w_ident r" "w_id r' = w_id r"
    and "\<And>q'. q' \<in> set (work d') \<Longrightarrow>
      \<exists>q \<in> set (work d). work_key q = work_key q' \<and> (w_state q = Done \<longrightarrow> w_state q' = Done)"
  shows "dependencies_done d' r'"
  using assms by (fastforce simp: dependencies_done_iff is_work_def work_key_def)

lemma pool_inv_update_work:
  assumes inv: "pool_inv d" and key: "\<And>r. work_key (f r) = work_key r"
    and rows: "\<And>r. r \<in> set (work d) \<Longrightarrow> p r \<Longrightarrow> owner_ok d r \<Longrightarrow> owner_ok d (f r)"
    and open_only: "\<And>r. r \<in> set (work d) \<Longrightarrow> p r \<Longrightarrow> w_state r \<noteq> Done"
    and inputs: "\<And>r. r \<in> set (work d) \<Longrightarrow> p r \<Longrightarrow> w_state (f r) \<in> {Active, Done} \<Longrightarrow> dependencies_done d r"
  shows "pool_inv (d\<lparr>work := update_where p f (work d)\<rparr>)"
proof -
  let ?d = "d\<lparr>work := update_where p f (work d)\<rparr>"
  have keys: "map work_key (update_where p f (work d)) = map work_key (work d)"
    by (rule key_preserving.keys_update) (unfold_locales, rule key)
  then have exists: "work_exists ?d i w = work_exists d i w" for i w
    by (intro work_exists_cong) simp
  have "inputs_ok ?d"
    unfolding inputs_ok_def
  proof (intro ballI impI)
    fix r assume r: "r \<in> set (work ?d)" "w_state r \<in> {Active, Done}"
    then obtain r0 where r0: "r0 \<in> set (work d)" "r = (if p r0 then f r0 else r0)"
      by (auto simp: in_update_where)
    have "dependencies_done d r0"
      using r r0 inputs [of r0] pool_inv_inputsD [OF inv, of r0] by (cases "p r0") auto
    moreover have "w_ident r = w_ident r0" "w_id r = w_id r0"
      using key [of r0] r0(2) by (auto simp: work_key_def)
    ultimately show "dependencies_done ?d r"
      using open_only key
      by (elim dependencies_done_mono) (auto simp: in_update_where split: if_splits)
  qed
  moreover have "owners_ok ?d"
  proof -
    have "owner_ok ?d r = owner_ok d r" for r by (simp add: owner_ok_def)
    moreover have "\<forall>r \<in> set (work d). owner_ok d r" using inv by (simp add: pool_inv_def owners_ok_def)
    ultimately show ?thesis using rows by (auto simp: owners_ok_def in_update_where)
  qed
  moreover have "keys_ok ?d" using inv by (simp add: pool_inv_def keys_ok_def keys)
  moreover have "references_ok ?d" using inv by (simp add: pool_inv_def references_ok_def exists)
  moreover have "graph_ok ?d" "schedules_ok ?d"
    using inv by (simp_all add: pool_inv_def graph_ok_def edges_def schedules_ok_def)
  ultimately show ?thesis by (simp add: pool_inv_def)
qed

text \<open>The predicates only read the tables they speak about.\<close>

lemma edges_frame [simp]:
  "edges (d\<lparr>work := ws\<rparr>) i = edges d i"
  "edges (d\<lparr>members := ms\<rparr>) i = edges d i"
  "edges (d\<lparr>capabilities := cs\<rparr>) i = edges d i"
  "edges (d\<lparr>participants := ps\<rparr>) i = edges d i"
  "edges (d\<lparr>schedules := es\<rparr>) i = edges d i"
  "edges (d\<lparr>sessions := ss\<rparr>) i = edges d i"
  "edges (d\<lparr>heartbeats := hs\<rparr>) i = edges d i"
  by (simp_all add: edges_def)

lemma dependencies_done_frame [simp]:
  "dependencies_done (d\<lparr>members := ms\<rparr>) r = dependencies_done d r"
  "dependencies_done (d\<lparr>capabilities := cs\<rparr>) r = dependencies_done d r"
  "dependencies_done (d\<lparr>participants := ps\<rparr>) r = dependencies_done d r"
  "dependencies_done (d\<lparr>schedules := es\<rparr>) r = dependencies_done d r"
  "dependencies_done (d\<lparr>sessions := ss\<rparr>) r = dependencies_done d r"
  "dependencies_done (d\<lparr>heartbeats := hs\<rparr>) r = dependencies_done d r"
  by (simp_all add: dependencies_done_iff)

lemma owner_ok_frame [simp]:
  "owner_ok (d\<lparr>work := ws\<rparr>) r = owner_ok d r"
  "owner_ok (d\<lparr>members := ms\<rparr>) r = owner_ok d r"
  "owner_ok (d\<lparr>capabilities := cs\<rparr>) r = owner_ok d r"
  "owner_ok (d\<lparr>schedules := es\<rparr>) r = owner_ok d r"
  "owner_ok (d\<lparr>sessions := ss\<rparr>) r = owner_ok d r"
  "owner_ok (d\<lparr>heartbeats := hs\<rparr>) r = owner_ok d r"
  by (simp_all add: owner_ok_def)

lemma work_exists_frame2 [simp]:
  "work_exists (d\<lparr>sessions := ss\<rparr>) i w = work_exists d i w"
  "work_exists (d\<lparr>heartbeats := hs\<rparr>) i w = work_exists d i w"
  by (simp_all add: work_exists_def)

lemmas pool_inv_parts =
  pool_inv_def keys_ok_def owners_ok_def references_ok_def graph_ok_def schedules_ok_def inputs_ok_def

lemma pool_inv_members:
  "pool_inv d \<Longrightarrow> distinct (map member_key ms) \<Longrightarrow> pool_inv (d\<lparr>members := ms\<rparr>)"
  by (simp add: pool_inv_parts)

lemma pool_inv_sessions:
  "pool_inv d \<Longrightarrow> distinct (map s_ident ss) \<Longrightarrow> pool_inv (d\<lparr>sessions := ss\<rparr>)"
  by (simp add: pool_inv_parts)

lemma pool_inv_capabilities: "pool_inv d \<Longrightarrow> pool_inv (d\<lparr>capabilities := cs\<rparr>)"
  by (simp add: pool_inv_parts)

lemma pool_inv_heartbeats: "pool_inv d \<Longrightarrow> pool_inv (d\<lparr>heartbeats := hs\<rparr>)"
  by (simp add: pool_inv_parts)

lemma owner_ok_participants:
  "owner_ok d r \<Longrightarrow> set (participants d) \<subseteq> set ps \<Longrightarrow> owner_ok (d\<lparr>participants := ps\<rparr>) r"
  by (auto simp: owner_ok_def)

lemma pool_inv_participants:
  "pool_inv d \<Longrightarrow> set (participants d) \<subseteq> set ps \<Longrightarrow> pool_inv (d\<lparr>participants := ps\<rparr>)"
  by (simp add: pool_inv_parts owner_ok_participants)

lemma pool_inv_schedules:
  "pool_inv d \<Longrightarrow> distinct (map e_ident es) \<Longrightarrow> \<forall>e \<in> set es. 0 < e_interval e \<and> 0 \<le> e_count e \<Longrightarrow>
   pool_inv (d\<lparr>schedules := es\<rparr>)"
  by (simp add: pool_inv_parts)

lemma pool_inv_keysD:
  assumes "pool_inv d"
  shows "distinct (map work_key (work d))" "distinct (map member_key (members d))"
    "distinct (map s_ident (sessions d))" "distinct (map e_ident (schedules d))"
  using assms by (simp_all add: pool_inv_def keys_ok_def)

lemma pool_inv_create: "pool_inv d \<Longrightarrow> pool_inv (pool_create d)"
  unfolding pool_create_def
  by (rule pool_inv_update_work) (auto simp: work_key_def owner_ok_def disown_row_def)

lemma distinct_upsert_member:
  "distinct (map member_key ms) \<Longrightarrow> distinct (map member_key (upsert_member new ms))"
  by (auto simp: upsert_member_def rejoin.distinct_update)

lemma upsert_member_row:
  "m \<in> set (upsert_member new ms) \<Longrightarrow> member_key m = member_key new \<Longrightarrow>
   m = new \<or> (\<exists>m0 \<in> set ms. m = reregister new m0)"
  unfolding upsert_member_def by (auto simp: in_update_where rejoin.key_upd split: if_splits)

lemma pool_inv_register:
  assumes "pool_inv d" and "register d i a ro accepts resp th now = Inr d'"
  shows "pool_inv d'"
proof -
  have "d' = d\<lparr>members := members d', capabilities := capabilities d'\<rparr>"
    and "distinct (map member_key (members d'))"
    using assms pool_inv_keysD(2)
    by (auto simp: register_def rbind_eq_Inr_iff distinct_upsert_member)
  then show ?thesis
    using pool_inv_capabilities pool_inv_members assms(1) by metis
qed

interpretation reschedule: key_preserving e_ident "\<lambda>e. e\<lparr>e_interval := x, e_count := n\<rparr>"
  by unfold_locales simp

interpretation advance: key_preserving e_ident "\<lambda>e. e\<lparr>e_next_due := t\<rparr>"
  by unfold_locales simp

lemma upsert_schedule_ok:
  assumes "distinct (map e_ident es)" and "\<forall>e \<in> set es. 0 < e_interval e \<and> 0 \<le> e_count e"
    and "0 < e_interval new \<and> 0 \<le> e_count new"
  shows "distinct (map e_ident (upsert_schedule new es))"
    and "\<forall>e \<in> set (upsert_schedule new es). 0 < e_interval e \<and> 0 \<le> e_count e"
  using assms by (auto simp: upsert_schedule_def reschedule.distinct_update in_update_where)

lemma pool_inv_withdraw: "pool_inv d \<Longrightarrow> pool_inv (withdraw_evaluations i count d)"
  by (auto simp: withdraw_evaluations_def owner_ok_def cancel_row_def work_key_def
      intro!: pool_inv_update_work)

lemma pool_inv_schedule:
  assumes inv: "pool_inv d" and sch: "schedule d i interval count now = Inr d'"
  shows "pool_inv d'"
proof -
  obtain t where pos: "0 < interval" "0 \<le> count"
    and d': "d' = (withdraw_evaluations i count d)\<lparr>schedules :=
      upsert_schedule \<lparr>e_ident = i, e_interval = interval, e_count = count, e_next_due = t\<rparr> (schedules d)\<rparr>"
    using sch by (force simp: schedule_def rbind_eq_Inr_iff split: if_splits option.splits)
  have sok: "\<forall>e \<in> set (schedules d). 0 < e_interval e \<and> 0 \<le> e_count e"
    using inv by (simp add: pool_inv_def schedules_ok_def)
  show ?thesis
    unfolding d' using pos
    by (intro pool_inv_schedules pool_inv_withdraw inv upsert_schedule_ok
        pool_inv_keysD(4) [OF inv] sok) simp_all
qed

lemma pool_inv_finish:
  assumes "pool_inv d" and "finish resolve d i w a res = Inr d'"
  shows "pool_inv d'"
  using assms
  by (auto simp: finish_def owner_ok_def finish_row_def work_key_def owned_by_def
      split: option.splits if_splits intro!: pool_inv_update_work dest: pool_inv_inputsD)

lemma pool_inv_handoff:
  assumes "pool_inv d" and "handoff d i w a reason from_a = Inr d'"
  shows "pool_inv d'"
  using assms
  by (auto simp: handoff_def Let_def owner_ok_def handoff_row_def work_key_def owned_by_def
      split: option.splits if_splits intro!: pool_inv_update_work)

lemma pool_inv_take_work:
  assumes "pool_inv d"
    and inputs_done: "\<And>r. r \<in> set (work d) \<Longrightarrow> is_work i w r \<Longrightarrow> w_state r = Ready \<Longrightarrow> dependencies_done d r"
  shows "pool_inv (take_work d i w a)"
proof -
  define ps where "ps = (if (i, w, a) \<in> set (participants d) then participants d
                         else participants d @ [(i, w, a)])"
  define d1 where "d1 = d\<lparr>participants := ps\<rparr>"
  have d1: "pool_inv d1"
    unfolding d1_def using assms(1) by (rule pool_inv_participants) (auto simp: ps_def)
  have d1_done: "dependencies_done d1 r = dependencies_done d r" for r
    by (simp add: d1_def dependencies_done_def edges_def)
  let ?p = "\<lambda>r. is_work i w r \<and> w_state r = Ready"
  have "pool_inv (d1\<lparr>work := update_where ?p (claim_row a) (work d1)\<rparr>)"
    by (rule pool_inv_update_work [OF d1 take_row.key_upd])
      (auto simp: owner_ok_def claim_row_def is_work_def d1_def ps_def
        intro!: inputs_done d1_done [unfolded d1_def ps_def, THEN iffD2])
  then have "pool_inv (d1\<lparr>work := update_where ?p (claim_row a) (work d1),
      members := update_where (is_member i a) (m_state_update (\<lambda>_. Working)) (members d)\<rparr>)"
    using pool_inv_keysD(2) [OF assms(1)] by (simp add: pool_inv_members resume.distinct_update)
  also have "d1\<lparr>work := update_where ?p (claim_row a) (work d1),
      members := update_where (is_member i a) (m_state_update (\<lambda>_. Working)) (members d)\<rparr> =
      take_work d i w a"
    unfolding take_work_def d1_def ps_def by (cases d) simp
  finally show ?thesis .
qed

section \<open>Scheduled evaluations never collide and never accumulate\<close>

lemma fresh_id_sound:
  "fresh_id n d i name retry = Some w \<Longrightarrow> \<not> work_exists d i w \<and> (\<exists>k. w = name k)"
  by (induction n arbitrary: retry) (auto split: if_splits)

lemma fresh_id_None:
  "fresh_id n d i name retry = None \<Longrightarrow> k < n \<Longrightarrow> work_exists d i (name (retry + k))"
proof (induction n arbitrary: retry k)
  case (Suc n)
  then show ?case
    using Suc.IH [of "Suc retry" "k - 1"] by (cases k) (auto split: if_splits)
qed simp

lemma fresh_id_some:
  assumes "inj name"
  shows "\<exists>w. fresh_id (Suc (length (work d))) d i name retry = Some w"
proof (rule ccontr)
  assume "\<not> ?thesis"
  then have none: "fresh_id (Suc (length (work d))) d i name retry = None" by auto
  let ?names = "(\<lambda>k. name (retry + k)) ` {..length (work d)}"
  have "?names \<subseteq> w_id ` set (work d)"
    using fresh_id_None [OF none] by (force simp: work_exists_def is_work_def less_Suc_eq_le)
  then have "card ?names \<le> length (work d)"
    by (meson List.finite_set card_image_le card_length card_mono finite_imageI le_trans)
  moreover have "inj_on (\<lambda>k. name (retry + k)) {..length (work d)}"
    by (simp add: inj_on_def inj_eq [OF assms])
  then have "card ?names = Suc (length (work d))" by (simp add: card_image)
  ultimately show False by simp
qed

lemma inj_evaluation_id: "inj (evaluation_id due index)"
  by (auto simp: inj_def evaluation_id_def split: if_splits)

definition open_evaluations :: "store \<Rightarrow> ident \<Rightarrow> work_row list" where
  "open_evaluations d i =
     filter (\<lambda>r. scheduled_evaluation i r \<and> w_state r \<in> {Ready, Active}) (work d)"

text \<open>What one batch of submissions adds.\<close>

lemma submit_evaluations_Inr:
  assumes "submit_evaluations n index d i task due now = Inr d'"
  shows "\<exists>rows. d' = d\<lparr>work := work d @ rows\<rparr> \<and> length rows = n \<and>
           (\<forall>r \<in> set rows. scheduled_evaluation i r \<and> w_state r = Ready)"
  using assms
proof (induction n arbitrary: index d now)
  case 0
  then show ?case by simp
next
  case (Suc n)
  let ?new = "\<lambda>w. new_work i w KEvaluation (evaluation_description task) evaluation_creator [] [] (now 1)"
  from Suc.prems obtain w where
    "submit_evaluations n (Suc index) (d\<lparr>work := work d @ [?new w]\<rparr>) i task due (\<lambda>k. now (k + 2)) = Inr d'"
    by (auto split: option.splits simp: rbind_eq_Inr_iff fromkeys_def dest!: submit_InrD(6))
  then obtain rows where "d' = d\<lparr>work := (work d @ [?new w]) @ rows\<rparr>" "length rows = n"
    "\<forall>r \<in> set rows. scheduled_evaluation i r \<and> w_state r = Ready"
    using Suc.IH by fastforce
  then show ?case
    by (intro exI [of _ "?new w # rows"]) (simp add: scheduled_evaluation_def new_work_def)
qed

lemma pool_inv_submit_evaluations:
  "submit_evaluations n index d i task due now = Inr d' \<Longrightarrow> pool_inv d \<Longrightarrow> pool_inv d'"
proof (induction n arbitrary: index d now)
  case (Suc n)
  from Suc.prems(1) obtain w d1 where
    "submit d i w KEvaluation (evaluation_description task) evaluation_creator [] [] [] [] now = Inr d1"
    and "submit_evaluations n (Suc index) d1 i task due (\<lambda>k. now (k + 2)) = Inr d'"
    by (auto split: option.splits simp: rbind_eq_Inr_iff)
  then show ?case using Suc.IH pool_inv_submit Suc.prems(2) by metis
qed simp

lemma find_session_append [simp]: "find_session (d\<lparr>work := ws\<rparr>) i = find_session d i"
  by (simp add: find_session_def)

lemma active_append [simp]: "active (d\<lparr>work := ws\<rparr>) i t = active d i t"
  by (simp add: active_def)

lemma submit_evaluations_Inl:
  "submit_evaluations n index d i task due now = Inl e \<Longrightarrow> \<exists>k. active d i (now k) = Inl e"
proof (induction n arbitrary: index d now)
  case (Suc n)
  obtain w where w: "fresh_id (Suc (length (work d))) d i (evaluation_id due index) 0 = Some w"
    using fresh_id_some [OF inj_evaluation_id] by blast
  show ?case
  proof (cases "active d i (now 0)")
    case (Inr s)
    then show ?thesis
      using Suc.prems Suc.IH fresh_id_sound [OF w] w
      by (simp add: submit_plain del: fresh_id.simps) (metis active_append)
  next
    case (Inl e')
    then show ?thesis
      using Suc.prems w by (auto simp: submit_def simp del: fresh_id.simps)
  qed
qed simp

text \<open>The two outcomes of \<open>due_evaluations\<close>: nothing is due, or one batch is published.\<close>

definition advanced :: "schedule_row \<Rightarrow> time \<Rightarrow> time" where
  "advanced e now = e_next_due e + of_int (\<lfloor>(now - e_next_due e) / e_interval e\<rfloor> + 1) * e_interval e"

lemma due_evaluations_Inr:
  assumes "due_evaluations fmt d i task now = Inr d'"
  obtains "d' = d"
  | e rows where "find_schedule d i = Some e" "e_count e \<noteq> 0" "e_next_due e \<le> now 0"
      "open_evaluations d i = []" "length rows = nat (e_count e)"
      "\<forall>r \<in> set rows. scheduled_evaluation i r \<and> w_state r = Ready"
      "pool_inv d \<Longrightarrow> pool_inv (d\<lparr>work := work d @ rows\<rparr>)"
      "d' = d\<lparr>work := work d @ rows, schedules :=
             update_where (\<lambda>x. e_ident x = i)
               (\<lambda>x. x\<lparr>e_next_due := advanced e (now (Suc (2 * nat (e_count e))))\<rparr>) (schedules d)\<rparr>"
proof (cases "d' = d")
  case False
  with assms obtain e d1 where e: "find_schedule d i = Some e" "e_count e \<noteq> 0" "e_next_due e \<le> now 0"
    "\<not> (\<exists>r \<in> set (work d). scheduled_evaluation i r \<and> w_state r \<in> {Ready, Active})"
    and sub: "submit_evaluations (nat (e_count e)) 0 d i (s_task task) (fmt (e_next_due e))
        (\<lambda>k. now (Suc k)) = Inr d1"
    and d': "d' = d1\<lparr>schedules := update_where (\<lambda>x. e_ident x = i)
               (\<lambda>x. x\<lparr>e_next_due := advanced e (now (Suc (2 * nat (e_count e))))\<rparr>) (schedules d1)\<rparr>"
    unfolding due_evaluations_def Let_def advanced_def
    by (force split: option.splits if_splits simp: rbind_eq_Inr_iff not_less)
  from submit_evaluations_Inr [OF sub] obtain rows where rows: "d1 = d\<lparr>work := work d @ rows\<rparr>"
    "length rows = nat (e_count e)" "\<forall>r \<in> set rows. scheduled_evaluation i r \<and> w_state r = Ready"
    by auto
  have "pool_inv (d\<lparr>work := work d @ rows\<rparr>)" if "pool_inv d"
    using pool_inv_submit_evaluations [OF sub that] rows(1) by simp
  moreover have "open_evaluations d i = []"
    using e(4) by (auto simp: open_evaluations_def filter_empty_conv)
  ultimately show ?thesis
    using that(2) [OF e(1-3) _ rows(2,3)] d' rows(1) by simp
qed (use that(1) in blast)

lemma pool_inv_due_evaluations:
  assumes inv: "pool_inv d" and due: "due_evaluations fmt d i task now = Inr d'"
  shows "pool_inv d'"
  using due
proof (cases rule: due_evaluations_Inr)
  case (2 e rows)
  then have "pool_inv (d\<lparr>work := work d @ rows\<rparr>)" using inv by blast
  moreover have "\<forall>e \<in> set (schedules d). 0 < e_interval e \<and> 0 \<le> e_count e"
    using inv by (simp add: pool_inv_def schedules_ok_def)
  ultimately show ?thesis
    unfolding 2(8)
    by (intro pool_inv_schedules)
      (auto simp: advance.distinct_update pool_inv_keysD [OF inv] in_update_where)
qed (use inv in simp)

lemma advanced_bounds:
  assumes "0 < e_interval e"
  shows "now < advanced e now" and "advanced e now \<le> now + e_interval e"
proof -
  let ?q = "(now - e_next_due e) / e_interval e"
  let ?f = "of_int \<lfloor>?q\<rfloor> :: rat"
  have now: "now = e_next_due e + ?q * e_interval e" using assms by simp
  have "?q * e_interval e < (?f + 1) * e_interval e"
    using assms by (intro mult_strict_right_mono) (linarith, simp)
  then show "now < advanced e now" using now unfolding advanced_def by simp
  have "?f * e_interval e \<le> ?q * e_interval e"
    using assms by (intro mult_right_mono) auto
  then show "advanced e now \<le> now + e_interval e"
    using now unfolding advanced_def by (simp add: distrib_right)
qed

section \<open>The recursive ancestry query\<close>

lemma ancestry_rounds_mono: "set seen \<subseteq> set (ancestry_rounds n es seen)"
proof (induction n arbitrary: seen)
  case (Suc n)
  then show ?case by (metis ancestry_rounds.simps(2) le_sup_iff set_append)
qed simp

lemma ancestry_rounds_sound:
  "x \<in> set (ancestry_rounds n es seen) \<Longrightarrow> \<exists>w \<in> set seen. (w, x) \<in> (set es)\<^sup>*"
proof (induction n arbitrary: seen)
  case (Suc n)
  then obtain w where "w \<in> set (seen @ map snd (filter (\<lambda>(w, p). w \<in> set seen \<and> p \<notin> set seen) es))"
    "(w, x) \<in> (set es)\<^sup>*" by force
  then show ?case by (auto intro: converse_rtrancl_into_rtrancl bexI [rotated])
qed auto

lemma ancestry_rounds_complete:
  "w \<in> set seen \<Longrightarrow> (w, x) \<in> set es ^^ k \<Longrightarrow> k \<le> n \<Longrightarrow> x \<in> set (ancestry_rounds n es seen)"
proof (induction n arbitrary: seen w k)
  case (Suc n)
  let ?seen = "seen @ map snd (filter (\<lambda>(w, p). w \<in> set seen \<and> p \<notin> set seen) es)"
  show ?case
  proof (cases k)
    case 0
    then show ?thesis using Suc.prems ancestry_rounds_mono [of ?seen n es] by auto
  next
    case (Suc m)
    then obtain v where "(w, v) \<in> set es" "(v, x) \<in> set es ^^ m"
      using Suc.prems(2) by (metis relpow_Suc_D2)
    moreover from this have "v \<in> set ?seen"
      using Suc.prems(1) by (force simp: image_iff)
    ultimately show ?thesis
      using Suc.IH [of v ?seen m] Suc.prems(3) Suc by simp
  qed
qed auto

lemma set_ancestry: "set (ancestry d i w) = {p. (w, p) \<in> (set (edges d i))\<^sup>*}"
proof (intro set_eqI iffI)
  fix p assume "p \<in> {p. (w, p) \<in> (set (edges d i))\<^sup>*}"
  then obtain k where "k \<le> card (set (edges d i))" "(w, p) \<in> set (edges d i) ^^ k"
    by (auto simp: rtrancl_finite_eq_relpow)
  then show "p \<in> set (ancestry d i w)"
    using ancestry_rounds_complete [where w = w and x = p and k = k and seen = "[w]" and es = "edges d i"
        and n = "length (edges d i)"]
      card_length [of "edges d i"]
    by (simp add: ancestry_def)
qed (use ancestry_rounds_sound in \<open>fastforce simp: ancestry_def\<close>)

lemma in_contributors:
  "a \<in> set (contributors d i w) \<longleftrightarrow>
     (\<exists>p r. (w, p) \<in> (set (edges d i))\<^sup>* \<and> (i, p, a) \<in> set (participants d) \<and>
            r \<in> set (work d) \<and> is_work i p r \<and> w_kind r \<in> {KWorker, KExperimenter})"
  unfolding contributors_def by (force simp: set_ancestry)

lemma contributors_update_work:
  assumes "\<And>r. work_key (f r) = work_key r \<and> w_kind (f r) = w_kind r"
  shows "set (contributors (d\<lparr>work := update_where p f (work d)\<rparr>) i v) = set (contributors d i v)"
proof -
  have "(\<exists>x \<in> set (update_where p f (work d)). is_work i q x \<and> w_kind x \<in> {KWorker, KExperimenter}) \<longleftrightarrow>
      (\<exists>x \<in> set (work d). is_work i q x \<and> w_kind x \<in> {KWorker, KExperimenter})" for q
    by (rule bex_update_where) (use assms in \<open>auto simp: is_work_def work_key_def\<close>)
  then show ?thesis by (simp add: set_eq_iff in_contributors Bex_def)
qed

section \<open>Facts about claims\<close>

lemma claim_SomeE:
  assumes "claim fmt d i a now = Inr (d', Some (r, deps))"
  obtains task d1 r0 m where "active d i (now 0) = Inr task"
    "due_evaluations fmt d i task (\<lambda>k. now (Suc k)) = Inr d1"
    "find_member d1 i a = Some m" "m_state m = Working"
    "claim_choice d1 i a = Some r0" "r = claim_row a r0"
    "d' = take_work d1 i (w_id r0) a" "deps = dependency_results d' i (w_id r0)"
  using assms unfolding claim_def
  by (auto simp: rbind_eq_Inr_iff Let_def split: if_splits option.splits)

lemma claim_NoneE:
  assumes "claim fmt d i a now = Inr (d', None)"
  obtains task where "active d i (now 0) = Inr task"
    "due_evaluations fmt d i task (\<lambda>k. now (Suc k)) = Inr d'" "claim_choice d' i a = None"
  using assms unfolding claim_def
  by (auto simp: rbind_eq_Inr_iff Let_def split: if_splits option.splits)

lemma claim_candidates_iff:
  "r \<in> set (claim_candidates d i a) \<longleftrightarrow>
     r \<in> set (work d) \<and> w_ident r = i \<and> w_state r = Ready \<and> dependencies_done d r \<and>
     eligible d i r a (capable d i a)"
  by (auto simp: claim_candidates_def ready_def)

definition older_cohort :: "store \<Rightarrow> ident \<Rightarrow> string \<Rightarrow> work_row list" where
  "older_cohort d i a =
     filter (\<lambda>r. case frontier d i a of None \<Rightarrow> False | Some f \<Rightarrow> w_created r < f) (claim_candidates d i a)"

lemma claim_choice_alt:
  "claim_choice d i a =
     min_by (affinity (topics_of (filter (\<lambda>r. w_state r \<in> {Active, Done}) (participated d i a)))
                      (environments_of (filter (\<lambda>r. w_state r \<in> {Active, Done}) (participated d i a))))
       (if older_cohort d i a \<noteq> [] then older_cohort d i a else claim_candidates d i a)"
  by (simp add: claim_choice_def Let_def older_cohort_def)

lemma claim_choice_in: "claim_choice d i a = Some r \<Longrightarrow> r \<in> set (claim_candidates d i a)"
  by (auto simp: claim_choice_alt older_cohort_def split: if_splits dest!: min_by_in)

lemma claim_choice_older:
  "claim_choice d i a = Some r \<Longrightarrow> older_cohort d i a \<noteq> [] \<Longrightarrow> r \<in> set (older_cohort d i a)"
  by (auto simp: claim_choice_alt dest: min_by_in)

lemma claim_choice_None: "claim_choice d i a = None \<longleftrightarrow> claim_candidates d i a = []"
  by (auto simp: claim_choice_alt older_cohort_def)

lemma pool_inv_claim:
  assumes "pool_inv d" and "claim fmt d i a now = Inr (d', res)"
  shows "pool_inv d'"
proof (cases res)
  case None
  then show ?thesis using assms pool_inv_due_evaluations by (metis claim_NoneE)
next
  case (Some p)
  then obtain task d1 r0 where due: "due_evaluations fmt d i task (\<lambda>k. now (Suc k)) = Inr d1"
    and r0: "claim_choice d1 i a = Some r0" and d': "d' = take_work d1 i (w_id r0) a"
    using assms(2) by (cases p) (auto elim!: claim_SomeE)
  have inv: "pool_inv d1" using pool_inv_due_evaluations [OF assms(1) due] .
  have r0': "r0 \<in> set (work d1)" "w_ident r0 = i" "dependencies_done d1 r0"
    using claim_choice_in [OF r0] by (auto simp: claim_candidates_iff)
  have "r = r0" if "r \<in> set (work d1)" "is_work i (w_id r0) r" for r
    using distinct_key_eq [OF pool_inv_keysD(1) [OF inv] that(1) r0'(1)] that(2) r0'(2)
    by (simp add: work_key_def is_work_def)
  then show ?thesis
    unfolding d' using inv r0'(3) by (intro pool_inv_take_work) auto
qed

lemma due_evaluations_frame:
  assumes "due_evaluations fmt d i task now = Inr d'"
  shows "sessions d' = sessions d" "members d' = members d" "capabilities d' = capabilities d"
    "participants d' = participants d" "dependencies d' = dependencies d" "exclusions d' = exclusions d"
    "heartbeats d' = heartbeats d"
    "\<exists>rows. work d' = work d @ rows \<and> (\<forall>r \<in> set rows. scheduled_evaluation i r \<and> w_state r = Ready)"
  using assms by (cases rule: due_evaluations_Inr; simp)+

lemma find_schedule_key: "find_schedule d i = Some e \<Longrightarrow> e \<in> set (schedules d) \<and> e_ident e = i"
  using find_in by (fastforce simp: find_schedule_def)

lemma take_work_row:
  assumes "pool_inv d" and "r \<in> set (work d)" and "w_ident r = i" and "w_state r = Ready"
  shows "q \<in> set (work (take_work d i (w_id r) a)) \<longleftrightarrow>
           q = claim_row a r \<or> (q \<in> set (work d) \<and> q \<noteq> r)"
proof -
  have same: "is_work i (w_id r) x \<longleftrightarrow> x = r" if "x \<in> set (work d)" for x
    using distinct_key_eq [OF pool_inv_keysD(1) [OF assms(1)] that assms(2)] assms(3)
    by (auto simp: is_work_def work_key_def)
  then show ?thesis
    using assms(2,4) by (auto simp: take_work_def in_update_where)
qed

section \<open>Affinity cannot starve older work\<close>

lemma done_ancestors:
  assumes "pool_inv d" and "(w, p) \<in> (set (edges d i))\<^sup>*" and "r \<in> set (work d)" "is_work i w r"
    and "dependencies_done d r" and "q \<in> set (work d)" "is_work i p q"
  shows "p = w \<or> w_state q = Done"
  using assms(2,6,7)
proof (induction arbitrary: q rule: rtrancl_induct)
  case (step v p)
  have "work_exists d i v"
    using step.hyps(2) assms(1) by (fastforce simp: pool_inv_def references_ok_def in_edges)
  then obtain x where x: "x \<in> set (work d)" "is_work i v x" by (auto simp: work_exists_def)
  have "dependencies_done d x"
  proof (cases "v = w")
    case True
    then have "x = r"
      using distinct_key_eq [OF pool_inv_keysD(1) [OF assms(1)] x(1) assms(3)] x(2) assms(4)
      by (simp add: is_work_def work_key_def)
    then show ?thesis using assms(5) by simp
  next
    case False
    then show ?thesis using step.IH [OF x] pool_inv_inputsD [OF assms(1) x(1)] by simp
  qed
  then show ?case
    using step.hyps(2) step.prems x(2) by (auto simp: dependencies_done_iff in_edges is_work_def)
qed simp

lemma take_work_simps [simp]:
  "sessions (take_work d i w a) = sessions d"
  "capabilities (take_work d i w a) = capabilities d"
  "dependencies (take_work d i w a) = dependencies d"
  "exclusions (take_work d i w a) = exclusions d"
  "schedules (take_work d i w a) = schedules d"
  "set (participants (take_work d i w a)) = insert (i, w, a) (set (participants d))"
  by (auto simp: take_work_def)

lemma capable_take_work [simp]: "capable (take_work d i w a) j b = capable d j b"
  by (simp add: capable_def)

lemma edges_take_work [simp]: "edges (take_work d i w a) j = edges d j"
  by (simp add: edges_def)

lemma candidates_take_work:
  assumes inv: "pool_inv d" and r: "r \<in> set (claim_candidates d i a)"
  shows "q \<in> set (claim_candidates (take_work d i (w_id r) a) i a) \<longleftrightarrow>
           q \<in> set (claim_candidates d i a) \<and> q \<noteq> r"
proof -
  let ?d = "take_work d i (w_id r) a"
  have r': "r \<in> set (work d)" "w_ident r = i" "w_state r = Ready"
    using r by (auto simp: claim_candidates_iff)
  note rows = take_work_row [OF inv r']
  have dd: "dependencies_done ?d q = dependencies_done d q" for q
    using r'(1,3) by (auto simp: dependencies_done_iff rows claim_row_def is_work_def)
  have el: "eligible ?d i q a ks = eligible d i q a ks"
    if q: "q \<in> set (work d)" "w_ident q = i" "dependencies_done d q" "q \<noteq> r" for q ks
  proof -
    have not_r: "w_id r \<noteq> p" if "(w_id q, p) \<in> (set (edges d i))\<^sup>*" for p
      using done_ancestors [OF inv that q(1) _ q(3) r'(1)] r' q(2,4)
        distinct_key_eq [OF pool_inv_keysD(1) [OF inv] q(1) r'(1)]
      by (auto simp: is_work_def work_key_def)
    have "x \<in> set (work ?d) \<longleftrightarrow> x \<in> set (work d)"
      if "(w_id q, p) \<in> (set (edges d i))\<^sup>*" "is_work i p x" for p x
      using not_r [OF that(1)] that(2) by (auto simp: rows claim_row_def is_work_def)
    moreover have "(i, p, a) \<in> set (participants ?d) \<longleftrightarrow> (i, p, a) \<in> set (participants d)"
      if "(w_id q, p) \<in> (set (edges d i))\<^sup>*" for p
      using not_r [OF that] by simp
    ultimately have "a \<in> set (contributors ?d i (w_id q)) \<longleftrightarrow> a \<in> set (contributors d i (w_id q))"
      unfolding in_contributors edges_take_work by blast
    then show ?thesis by (simp add: eligible_def)
  qed
  have "w_state (claim_row a r) = Active" by (simp add: claim_row_def)
  then show ?thesis using dd el r' by (auto simp: claim_candidates_iff rows)
qed

lemma frontier_Some:
  "frontier d i a = Some f \<longleftrightarrow>
     (\<exists>r \<in> set (participated d i a). w_created r = f) \<and> (\<forall>r \<in> set (participated d i a). w_created r \<le> f)"
proof
  assume "frontier d i a = Some f"
  then show "(\<exists>r \<in> set (participated d i a). w_created r = f) \<and>
      (\<forall>r \<in> set (participated d i a). w_created r \<le> f)"
    using max_by_in max_by_ge by (fastforce simp: frontier_def)
next
  assume asm: "(\<exists>r \<in> set (participated d i a). w_created r = f) \<and>
      (\<forall>r \<in> set (participated d i a). w_created r \<le> f)"
  then obtain m where m: "max_by w_created (participated d i a) = Some m"
    by (cases "max_by w_created (participated d i a)") auto
  then have "w_created m = f"
    using asm max_by_in [OF m] max_by_ge [OF m] by (blast intro: order.antisym)
  then show "frontier d i a = Some f" using m by (simp add: frontier_def)
qed

lemma older_iff:
  "q \<in> set (older_cohort d i a) \<longleftrightarrow>
     q \<in> set (claim_candidates d i a) \<and> (\<exists>f. frontier d i a = Some f \<and> w_created q < f)"
  by (auto simp: older_cohort_def split: option.splits)

lemma participated_iff:
  "x \<in> set (participated d i a) \<longleftrightarrow>
     x \<in> set (work d) \<and> w_ident x = i \<and> (i, w_id x, a) \<in> set (participants d)"
  by (auto simp: participated_def)

lemma frontier_take_work:
  assumes inv: "pool_inv d" and r: "r \<in> set (older_cohort d i a)"
  shows "frontier (take_work d i (w_id r) a) i a = frontier d i a"
proof -
  obtain f where f: "frontier d i a = Some f" "w_created r < f" and rc: "r \<in> set (claim_candidates d i a)"
    using r by (auto simp: older_iff)
  have r': "r \<in> set (work d)" "w_ident r = i" "w_state r = Ready"
    using rc by (auto simp: claim_candidates_iff)
  note rows = take_work_row [OF inv r']
  obtain x where x: "x \<in> set (participated d i a)" "w_created x = f"
    using f(1) by (auto simp: frontier_Some)
  then have "x \<in> set (participated (take_work d i (w_id r) a) i a)"
    using f(2) by (auto simp: participated_iff rows)
  moreover have "w_created y \<le> f" if "y \<in> set (participated (take_work d i (w_id r) a) i a)" for y
  proof (cases "y = claim_row a r")
    case False
    then have "y \<in> set (work d)" "w_ident y = i" "y \<noteq> r"
      "(i, w_id y, a) \<in> insert (i, w_id r, a) (set (participants d))"
      using that by (auto simp: participated_iff rows)
    moreover from this have "w_id y \<noteq> w_id r"
      using distinct_key_eq [OF pool_inv_keysD(1) [OF inv] _ r'(1), of y] r'(2) by (auto simp: work_key_def)
    ultimately have "y \<in> set (participated d i a)" by (auto simp: participated_iff)
    then show ?thesis using f(1) by (simp add: frontier_Some)
  qed (use f(2) in \<open>simp add: claim_row_def\<close>)
  ultimately show ?thesis
    unfolding f(1) frontier_Some using x(2) by blast
qed

lemma older_take_work:
  assumes "pool_inv d" and "r \<in> set (older_cohort d i a)"
  shows "set (older_cohort (take_work d i (w_id r) a) i a) = set (older_cohort d i a) - {r}"
proof -
  have r: "r \<in> set (claim_candidates d i a)" using assms(2) by (simp add: older_iff)
  show ?thesis
    unfolding set_eq_iff Diff_iff older_iff candidates_take_work [OF assms(1) r]
      frontier_take_work [OF assms] by blast
qed

text \<open>The identifiers one member receives from \<open>n\<close> successive claims.\<close>

primrec successive_claims :: "nat \<Rightarrow> store \<Rightarrow> ident \<Rightarrow> string \<Rightarrow> string list" where
  "successive_claims 0 d i a = []"
| "successive_claims (Suc n) d i a =
     (case claim_choice d i a of
        None \<Rightarrow> []
      | Some r \<Rightarrow> w_id r # successive_claims n (take_work d i (w_id r) a) i a)"

lemma successive_claims_reach:
  assumes "pool_inv d" and "q \<in> set (older_cohort d i a)" and "card (set (older_cohort d i a)) \<le> n"
  shows "w_id q \<in> set (successive_claims n d i a)"
  using assms
proof (induction n arbitrary: d)
  case 0
  then show ?case by (metis List.finite_set card_0_eq empty_iff le_zero_eq)
next
  case (Suc n)
  have ne: "older_cohort d i a \<noteq> []" using Suc.prems(2) by auto
  then have "claim_candidates d i a \<noteq> []" by (auto simp: older_cohort_def)
  then obtain r where r: "claim_choice d i a = Some r"
    using claim_choice_None by (metis not_Some_eq)
  have older: "r \<in> set (older_cohort d i a)" using claim_choice_older [OF r ne] .
  then have cand: "r \<in> set (claim_candidates d i a)" by (simp add: older_iff)
  then have r': "r \<in> set (work d)" "w_ident r = i" "dependencies_done d r"
    by (auto simp: claim_candidates_iff)
  show ?case
  proof (cases "q = r")
    case False
    let ?d = "take_work d i (w_id r) a"
    have "x = r" if "x \<in> set (work d)" "is_work i (w_id r) x" for x
      using distinct_key_eq [OF pool_inv_keysD(1) [OF Suc.prems(1)] that(1) r'(1)] that(2) r'(2)
      by (simp add: work_key_def is_work_def)
    then have "pool_inv ?d" using Suc.prems(1) r'(3) by (intro pool_inv_take_work) auto
    moreover have "q \<in> set (older_cohort ?d i a)"
      using older_take_work [OF Suc.prems(1) older] Suc.prems(2) False by simp
    moreover have "card (set (older_cohort ?d i a)) \<le> n"
      using older_take_work [OF Suc.prems(1) older] Suc.prems(3) older by simp
    ultimately show ?thesis using Suc.IH [of ?d] r by simp
  qed (simp add: r)
qed

section \<open>A small task\<close>

text \<open>A task with two members and two work items, at which the properties below are applied.\<close>

definition demo_ident :: ident where
  "demo_ident = Ident ''codex'' ''s1''"

definition demo_session :: session_row where
  "demo_session = \<lparr>s_ident = demo_ident, s_task = ''task.md'', s_deadline = Some 100, s_started = Some 0,
     s_state = TActive, s_reason = None, s_review_pending = False\<rparr>"

definition demo_work :: "string \<Rightarrow> kind \<Rightarrow> work_row" where
  "demo_work w k = new_work demo_ident w k ''question'' ''lead'' ''cache'' '''' 1"

definition demo_store :: store where
  "demo_store = \<lparr>sessions = [demo_session],
     members = [new_member demo_ident ''ann'' Worker ''own'' ''t1'', new_member demo_ident ''bob'' Worker ''own'' ''t2''],
     heartbeats = [],
     capabilities = [(demo_ident, ''ann'', KWorker), (demo_ident, ''bob'', KWorker), (demo_ident, ''bob'', KReview)],
     work = [demo_work ''w1'' KWorker, demo_work ''w2'' KWorker], participants = [], dependencies = [],
     exclusions = [],
     schedules = [\<lparr>e_ident = demo_ident, e_interval = 10, e_count = 1, e_next_due = 10\<rparr>]\<rparr>"

lemma demo_inv: "pool_inv demo_store"
  by (simp add: pool_inv_parts owner_ok_def demo_store_def demo_work_def new_work_def new_member_def
      work_key_def member_key_def edges_def acyclic_def)

lemma demo_claim:
  "claim (\<lambda>_. ''t'') demo_store demo_ident ''ann'' (\<lambda>_. 5) =
     Inr (take_work demo_store demo_ident ''w1'' ''ann'', Some (claim_row ''ann'' (demo_work ''w1'' KWorker), []))"
  by code_simp

lemma demo_second_claim:
  "claim (\<lambda>_. ''t'') (take_work demo_store demo_ident ''w1'' ''ann'') demo_ident ''bob'' (\<lambda>_. 5) =
     Inr (take_work (take_work demo_store demo_ident ''w1'' ''ann'') demo_ident ''w2'' ''bob'',
       Some (claim_row ''bob'' (demo_work ''w2'' KWorker), []))"
  by code_simp

section \<open>Properties of the pool\<close>

text \<open>C22: A successful claim hands over a row that was ready and unowned, whose dependencies are all
  done, that the member is capable of and not excluded from; afterwards the row is active, owned by
  that member and recorded among its participants.\<close>

theorem claim_safe:
  assumes inv: "pool_inv d" and cl: "claim fmt d i a now = Inr (d', Some (r, deps))"
  shows "r \<in> set (work d') \<and> w_state r = Active \<and> w_owner r = Some a \<and>
    (i, w_id r, a) \<in> set (participants d') \<and> w_kind r \<in> set (capable d i a) \<and>
    (i, w_id r, a) \<notin> set (exclusions d) \<and>
    (\<forall>p. (i, w_id r, p) \<in> set (dependencies d) \<longrightarrow>
       (\<exists>q \<in> set (work d'). is_work i p q \<and> w_state q = Done)) \<and>
    (\<forall>q \<in> set (work d). is_work i (w_id r) q \<longrightarrow> w_state q = Ready \<and> w_owner q = None)"
proof -
  from cl obtain task d1 r0 where due: "due_evaluations fmt d i task (\<lambda>k. now (Suc k)) = Inr d1"
    and ch: "claim_choice d1 i a = Some r0" and r: "r = claim_row a r0"
    and d': "d' = take_work d1 i (w_id r0) a"
    by (elim claim_SomeE) blast
  note fr = due_evaluations_frame [OF due]
  have inv1: "pool_inv d1" using pool_inv_due_evaluations [OF inv due] .
  have inv': "pool_inv d'" using pool_inv_claim [OF inv cl] .
  have r0: "r0 \<in> set (work d1)" "w_ident r0 = i" "w_state r0 = Ready" "eligible d1 i r0 a (capable d1 i a)"
    using claim_choice_in [OF ch] by (auto simp: claim_candidates_iff)
  have rd: "r \<in> set (work d')" "w_state r = Active" "w_owner r = Some a" "w_id r = w_id r0"
    "w_kind r = w_kind r0" "w_ident r = i"
    using take_work_row [OF inv1 r0(1-3)] r0(2) by (auto simp: d' r claim_row_def)
  have "w_kind r \<in> set (capable d i a)" "(i, w_id r, a) \<notin> set (exclusions d)"
    using r0(4) rd(4,5) fr by (auto simp: eligible_def capable_def)
  moreover have "\<exists>q \<in> set (work d'). is_work i p q \<and> w_state q = Done"
    if "(i, w_id r, p) \<in> set (dependencies d)" for p
  proof -
    have dep: "(w_ident r, w_id r, p) \<in> set (dependencies d')" using that fr rd(6) by (simp add: d')
    then have "work_exists d' i p" using inv' rd(6) by (fastforce simp: pool_inv_def references_ok_def)
    then obtain q where "q \<in> set (work d')" "is_work i p q" by (auto simp: work_exists_def)
    moreover have "dependencies_done d' r" using pool_inv_inputsD [OF inv' rd(1)] rd(2) by simp
    ultimately show ?thesis using dep rd(6) by (auto simp: dependencies_done_iff)
  qed
  moreover have "w_state q = Ready \<and> w_owner q = None" if "q \<in> set (work d)" "is_work i (w_id r) q" for q
  proof -
    have "q \<in> set (work d1)" using that(1) fr(8) by auto
    then have "q = r0"
      using distinct_key_eq [OF pool_inv_keysD(1) [OF inv1] _ r0(1)] that(2) r0(2) rd(4)
      by (simp add: is_work_def work_key_def)
    then show ?thesis using r0(1,3) inv1 by (auto simp: pool_inv_def owners_ok_def owner_ok_def)
  qed
  ultimately show ?thesis using rd by (auto simp: d')
qed

theorem claim_safe_witness:
  "w_owner (claim_row ''ann'' (demo_work ''w1'' KWorker)) = Some ''ann'' \<and>
   claim_row ''ann'' (demo_work ''w1'' KWorker) \<in> set (work (take_work demo_store demo_ident ''w1'' ''ann''))"
  using claim_safe [OF demo_inv demo_claim] by simp

text \<open>Two successive claims, by the same member or by two members, never hand over the same work.\<close>

theorem claims_distinct:
  assumes inv: "pool_inv d" and cl1: "claim fmt d i a now = Inr (d1, Some (r1, deps1))"
    and cl2: "claim fmt d1 i b now' = Inr (d2, Some (r2, deps2))"
  shows "w_id r1 \<noteq> w_id r2"
proof
  assume same: "w_id r1 = w_id r2"
  from cl1 obtain e1 r0 where inv1: "pool_inv e1" and ch: "claim_choice e1 i a = Some r0"
    and r1: "r1 = claim_row a r0" and d1: "d1 = take_work e1 i (w_id r0) a"
    using inv pool_inv_due_evaluations by (elim claim_SomeE) metis
  have "r0 \<in> set (work e1)" "w_ident r0 = i" "w_state r0 = Ready"
    using claim_choice_in [OF ch] by (auto simp: claim_candidates_iff)
  from take_work_row [OF inv1 this] have r1d: "r1 \<in> set (work d1)" "w_state r1 = Active" "w_ident r1 = i"
    by (auto simp: d1 r1 claim_row_def claim_choice_in [OF ch] \<open>w_ident r0 = i\<close>)
  from cl2 obtain task e2 s0 where due: "due_evaluations fmt d1 i task (\<lambda>k. now' (Suc k)) = Inr e2"
    and ch2: "claim_choice e2 i b = Some s0" and r2: "r2 = claim_row b s0"
    by (elim claim_SomeE) blast
  have inv2: "pool_inv e2" using pool_inv_due_evaluations [OF pool_inv_claim [OF inv cl1] due] .
  have s0: "s0 \<in> set (work e2)" "w_ident s0 = i" "w_state s0 = Ready"
    using claim_choice_in [OF ch2] by (auto simp: claim_candidates_iff)
  have "r1 \<in> set (work e2)" using r1d(1) due_evaluations_frame(8) [OF due] by auto
  then have "r1 = s0"
    using distinct_key_eq [OF pool_inv_keysD(1) [OF inv2] _ s0(1)] same r1d(3) s0(2)
    by (simp add: r2 claim_row_def work_key_def)
  then show False using r1d(2) s0(3) by simp
qed

theorem claims_distinct_witness:
  "w_id (claim_row ''ann'' (demo_work ''w1'' KWorker)) \<noteq> w_id (claim_row ''bob'' (demo_work ''w2'' KWorker))"
  by (rule claims_distinct [OF demo_inv demo_claim demo_second_claim])

text \<open>C25: A member that claims a review never took part in any worker or experimenter stage the
  review depends on, directly or through any chain of dependencies.\<close>

theorem review_independent:
  assumes cl: "claim fmt d i a now = Inr (d', Some (r, deps))" and rev: "w_kind r = KReview"
    and anc: "(w_id r, p) \<in> (set (edges d i))\<^sup>*"
    and q: "q \<in> set (work d)" "is_work i p q" "w_kind q \<in> {KWorker, KExperimenter}"
  shows "(i, p, a) \<notin> set (participants d)"
proof
  assume part: "(i, p, a) \<in> set (participants d)"
  from cl obtain task d1 r0 where due: "due_evaluations fmt d i task (\<lambda>k. now (Suc k)) = Inr d1"
    and ch: "claim_choice d1 i a = Some r0" and r: "r = claim_row a r0"
    by (elim claim_SomeE) blast
  note fr = due_evaluations_frame [OF due]
  have "q \<in> set (work d1)" using q(1) fr(8) by auto
  moreover have "(w_id r0, p) \<in> (set (edges d1 i))\<^sup>*"
    using anc edges_cong [OF fr(5), of i] by (simp add: r claim_row_def)
  ultimately have "a \<in> set (contributors d1 i (w_id r0))"
    unfolding in_contributors using q(2,3) part fr(4) by metis
  moreover have "eligible d1 i r0 a (capable d1 i a)" "w_kind r0 = KReview"
    using claim_choice_in [OF ch] rev by (auto simp: claim_candidates_iff r claim_row_def)
  ultimately show False by (simp add: eligible_def)
qed

text \<open>A review of finished worker output: \<open>ann\<close> wrote \<open>w1\<close>, so only \<open>bob\<close> may review it.\<close>

definition demo_review :: store where
  "demo_review = demo_store\<lparr>
     work := [(demo_work ''w1'' KWorker)\<lparr>w_state := Done\<rparr>, demo_work ''rv'' KReview],
     capabilities := [(demo_ident, ''ann'', KReview), (demo_ident, ''bob'', KReview)],
     participants := [(demo_ident, ''w1'', ''ann'')],
     dependencies := [(demo_ident, ''rv'', ''w1'')]\<rparr>"

lemma demo_review_claim:
  "claim (\<lambda>_. ''t'') demo_review demo_ident ''bob'' (\<lambda>_. 5) =
     Inr (take_work demo_review demo_ident ''rv'' ''bob'', Some (claim_row ''bob'' (demo_work ''rv'' KReview), [(''w1'', None)]))"
  "claim (\<lambda>_. ''t'') demo_review demo_ident ''ann'' (\<lambda>_. 5) = Inr (demo_review, None)"
  by code_simp+

theorem review_independent_witness:
  "(demo_ident, ''w1'', ''bob'') \<notin> set (participants demo_review) \<and>
   claim (\<lambda>_. ''t'') demo_review demo_ident ''ann'' (\<lambda>_. 5) = Inr (demo_review, None)"
  using review_independent [OF demo_review_claim(1), of "''w1''" "(demo_work ''w1'' KWorker)\<lparr>w_state := Done\<rparr>"]
    demo_review_claim(2)
  by (simp add: claim_row_def demo_review_def demo_work_def new_work_def edges_def is_work_def r_into_rtrancl)

text \<open>C24: Affinity cannot starve cold work: once a member has claimed newer work, every older ready item
  it may claim is handed to it within as many of its claims as that older cohort has items.\<close>

theorem older_work_is_drained:
  assumes "pool_inv d" and "q \<in> set (older_cohort d i a)"
  shows "w_id q \<in> set (successive_claims (card (set (older_cohort d i a))) d i a)"
  using successive_claims_reach [OF assms] by simp

definition demo_backlog :: store where
  "demo_backlog = demo_store\<lparr>
     work := [(demo_work ''new'' KWorker)\<lparr>w_created := 9, w_state := Done\<rparr>,
              (demo_work ''cold'' KWorker)\<lparr>w_topic := ''other''\<rparr>, (demo_work ''hot'' KWorker)\<lparr>w_created := 10\<rparr>],
     participants := [(demo_ident, ''new'', ''ann'')]\<rparr>"

lemma demo_backlog_inv: "pool_inv demo_backlog"
  by (simp add: pool_inv_parts owner_ok_def demo_backlog_def demo_store_def demo_work_def new_work_def
      new_member_def work_key_def member_key_def edges_def acyclic_def dependencies_done_def)

lemma demo_backlog_older:
  "older_cohort demo_backlog demo_ident ''ann'' = [(demo_work ''cold'' KWorker)\<lparr>w_topic := ''other''\<rparr>]"
  by code_simp

theorem older_work_is_drained_witness:
  "''cold'' \<in> set (successive_claims 1 demo_backlog demo_ident ''ann'')"
  using older_work_is_drained [OF demo_backlog_inv, of "(demo_work ''cold'' KWorker)\<lparr>w_topic := ''other''\<rparr>"
      demo_ident "''ann''"]
  by (simp add: demo_backlog_older demo_work_def new_work_def)

lemma open_evaluations_batch:
  assumes "open_evaluations d i = []" and "\<forall>r \<in> set rows. scheduled_evaluation i r \<and> w_state r = Ready"
    and "work d' = work d @ rows"
  shows "open_evaluations d' i = rows"
  using assms by (simp add: open_evaluations_def)

text \<open>Materialising due evaluations either changes nothing or publishes exactly one batch of the
  configured size, never on top of open evaluations, and moves the next due time strictly past the
  clock by at most one interval while staying on the schedule's original grid.\<close>

theorem one_batch_per_round:
  assumes inv: "pool_inv d" and due: "due_evaluations fmt d i task now = Inr d'"
  shows "d' = d \<or>
    (\<exists>e e' k. find_schedule d i = Some e \<and> find_schedule d' i = Some e' \<and>
       open_evaluations d i = [] \<and> length (open_evaluations d' i) = nat (e_count e) \<and>
       e_next_due e' = e_next_due e + of_int k * e_interval e \<and>
       now (Suc (2 * nat (e_count e))) < e_next_due e' \<and>
       e_next_due e' \<le> now (Suc (2 * nat (e_count e))) + e_interval e)"
  using due
proof (cases rule: due_evaluations_Inr)
  case (2 e rows)
  let ?t = "now (Suc (2 * nat (e_count e)))"
  have e: "e \<in> set (schedules d)" "e_ident e = i" using find_schedule_key [OF 2(1)] by auto
  then have pos: "0 < e_interval e" using inv by (simp add: pool_inv_def schedules_ok_def)
  have "find_schedule d' i = Some (e\<lparr>e_next_due := advanced e ?t\<rparr>)"
    using 2(1) e(2) by (simp add: 2(8) find_schedule_def advance.find_update)
  moreover have "open_evaluations d' i = rows"
    using open_evaluations_batch [OF 2(4,6)] by (simp add: 2(8))
  moreover have "advanced e ?t =
      e_next_due e + of_int (\<lfloor>(?t - e_next_due e) / e_interval e\<rfloor> + 1) * e_interval e"
    by (rule advanced_def)
  ultimately show ?thesis
    using 2(1,4,5) advanced_bounds [OF pos, of ?t]
    by (intro disjI2 exI [of _ e] exI [of _ "e\<lparr>e_next_due := advanced e ?t\<rparr>"]
        exI [of _ "\<lfloor>(?t - e_next_due e) / e_interval e\<rfloor> + 1"]) simp
qed simp

definition demo_due :: store where
  "demo_due = demo_store\<lparr>
     work := work demo_store @ [new_work demo_ident ''evaluation:t:0'' KEvaluation
        (evaluation_description ''task.md'') evaluation_creator '''' '''' 47],
     schedules := [\<lparr>e_ident = demo_ident, e_interval = 10, e_count = 1, e_next_due = 50\<rparr>]\<rparr>"

lemma demo_due_runs:
  "due_evaluations (\<lambda>_. ''t'') demo_store demo_ident demo_session (\<lambda>_. 47) = Inr demo_due"
  by code_simp

theorem one_batch_per_round_witness:
  "demo_due = demo_store \<or>
    (\<exists>e e' k. find_schedule demo_store demo_ident = Some e \<and> find_schedule demo_due demo_ident = Some e' \<and>
       open_evaluations demo_store demo_ident = [] \<and>
       length (open_evaluations demo_due demo_ident) = nat (e_count e) \<and>
       e_next_due e' = e_next_due e + of_int k * e_interval e \<and>
       47 < e_next_due e' \<and> e_next_due e' \<le> 47 + e_interval e)"
  by (rule one_batch_per_round [OF demo_inv demo_due_runs])

text \<open>Once a batch has been published, running the check again for any other member at any time
  changes nothing until that batch is finished: the hooks that trigger it are idempotent.\<close>

theorem due_evaluations_idempotent:
  assumes inv: "pool_inv d" and due: "due_evaluations fmt d i task now = Inr d'" and fired: "d' \<noteq> d"
  shows "due_evaluations fmt d' i task' now' = Inr d'"
  using due
proof (cases rule: due_evaluations_Inr)
  case (2 e rows)
  have "0 \<le> e_count e"
    using find_schedule_key [OF 2(1)] inv by (simp add: pool_inv_def schedules_ok_def)
  then have "rows \<noteq> []" using 2(2,5) by auto
  then obtain r where "r \<in> set rows" by (cases rows) auto
  then have "r \<in> set (work d')" "scheduled_evaluation i r" "w_state r = Ready" using 2(6,8) by auto
  then show ?thesis by (auto simp: due_evaluations_def split: option.splits)
qed (use fired in simp)

theorem due_evaluations_idempotent_witness:
  "due_evaluations (\<lambda>_. ''t'') demo_due demo_ident demo_session (\<lambda>_. 90) = Inr demo_due"
proof (rule due_evaluations_idempotent [OF demo_inv demo_due_runs])
  show "demo_due \<noteq> demo_store" by code_simp
qed

text \<open>C28: The check fails only because the task itself stopped being active: the names it generates never
  collide with existing work, whatever identifiers the members chose.\<close>

theorem due_evaluations_error:
  assumes inv: "pool_inv d" and due: "due_evaluations fmt d i task now = Inl e"
  shows "\<exists>k. active d i (now k) = Inl e"
proof -
  from due obtain s where s: "find_schedule d i = Some s" by (auto simp: due_evaluations_def split: option.splits)
  have "e_interval s \<noteq> 0"
    using find_schedule_key [OF s] inv by (auto simp: pool_inv_def schedules_ok_def)
  then have "submit_evaluations (nat (e_count s)) 0 d i (s_task task) (fmt (e_next_due s)) (\<lambda>k. now (Suc k)) = Inl e"
    using due s by (auto simp: due_evaluations_def Let_def rbind_eq_Inl_iff split: if_splits)
  from submit_evaluations_Inl [OF this] show ?thesis by auto
qed

theorem due_evaluations_error_witness:
  "\<exists>k. active demo_store demo_ident (case k of 0 \<Rightarrow> 47 | Suc _ \<Rightarrow> 100) = Inl DeadlinePassed"
proof (rule due_evaluations_error [OF demo_inv, where now = "case_nat 47 (\<lambda>_. 100)"])
  show "due_evaluations (\<lambda>_. ''t'') demo_store demo_ident demo_session (case_nat 47 (\<lambda>_. 100)) = Inl DeadlinePassed"
    by code_simp
qed

text \<open>Finishing succeeds exactly for the active owner with an existing artifact; it completes that one
  row with the resolved artifact path and leaves every other row of the store as it was.\<close>

theorem finish_only_by_owner:
  assumes inv: "pool_inv d"
  shows "finish resolve d i w a res = Inr d' \<longleftrightarrow>
    (\<exists>path r. resolve res = Some path \<and> r \<in> set (work d) \<and> owned_by i w a r \<and>
       d' = d\<lparr>work := map (\<lambda>x. if x = r then finish_row path r else x) (work d)\<rparr>)"
proof -
  have "x = r" if "r \<in> set (work d)" "owned_by i w a r" "x \<in> set (work d)" "owned_by i w a x" for x r
    using distinct_key_eq [OF pool_inv_keysD(1) [OF inv] that(3,1)] that(2,4)
    by (simp add: owned_by_def is_work_def work_key_def)
  then have upd: "update_where (owned_by i w a) f (work d) = map (\<lambda>x. if x = r then f r else x) (work d)"
    if "r \<in> set (work d)" "owned_by i w a r" for r f
    using that unfolding update_where_def by (intro map_cong) auto
  show ?thesis
  proof
    assume "finish resolve d i w a res = Inr d'"
    then obtain path r where r: "resolve res = Some path" "r \<in> set (work d)" "owned_by i w a r"
      "d' = d\<lparr>work := update_where (owned_by i w a) (finish_row path) (work d)\<rparr>"
      by (auto simp: finish_def split: option.splits if_splits)
    then show "\<exists>path r. resolve res = Some path \<and> r \<in> set (work d) \<and> owned_by i w a r \<and>
       d' = d\<lparr>work := map (\<lambda>x. if x = r then finish_row path r else x) (work d)\<rparr>"
      unfolding upd [OF r(2,3)] by blast
  next
    assume "\<exists>path r. resolve res = Some path \<and> r \<in> set (work d) \<and> owned_by i w a r \<and>
       d' = d\<lparr>work := map (\<lambda>x. if x = r then finish_row path r else x) (work d)\<rparr>"
    then obtain path r where r: "resolve res = Some path" "r \<in> set (work d)" "owned_by i w a r"
      "d' = d\<lparr>work := map (\<lambda>x. if x = r then finish_row path r else x) (work d)\<rparr>" by blast
    then have "\<exists>r \<in> set (work d). owned_by i w a r" by blast
    then show "finish resolve d i w a res = Inr d'"
      unfolding finish_def r(1) r(4) upd [OF r(2,3), symmetric] by simp
  qed
qed

definition demo_taken :: store where
  "demo_taken = take_work demo_store demo_ident ''w1'' ''ann''"

lemma demo_taken_inv: "pool_inv demo_taken"
  unfolding demo_taken_def using pool_inv_claim [OF demo_inv demo_claim] .

theorem finish_only_by_owner_witness:
  "(\<exists>d'. finish Some demo_taken demo_ident ''w1'' ''ann'' ''out.md'' = Inr d') \<and>
   (\<forall>d'. finish Some demo_taken demo_ident ''w1'' ''bob'' ''out.md'' \<noteq> Inr d')"
proof
  have "claim_row ''ann'' (demo_work ''w1'' KWorker) \<in> set (work demo_taken)"
    "owned_by demo_ident ''w1'' ''ann'' (claim_row ''ann'' (demo_work ''w1'' KWorker))" by code_simp+
  then show "\<exists>d'. finish Some demo_taken demo_ident ''w1'' ''ann'' ''out.md'' = Inr d'"
    using finish_only_by_owner [OF demo_taken_inv, of Some] by blast
  have "\<not> (\<exists>r \<in> set (work demo_taken). owned_by demo_ident ''w1'' ''bob'' r)" by code_simp
  then show "\<forall>d'. finish Some demo_taken demo_ident ''w1'' ''bob'' ''out.md'' \<noteq> Inr d'"
    using finish_only_by_owner [OF demo_taken_inv, of Some] by blast
qed

text \<open>A handoff is a compare-and-set on the named owner. When that owner no longer holds the work, it
  is refused; when it does, the work becomes claimable again and the people who contributed to any
  review's inputs stay the same, so review independence survives recovery.\<close>

theorem handoff_compare_and_set:
  assumes "handoff d i w a reason from_a = res"
  shows "(res = Inl OwnerChanged \<and>
            (\<forall>r \<in> set (work d). \<not> owned_by i w (named_owner a from_a) r)) \<or>
         (\<exists>d'. res = Inr d' \<and>
            (\<exists>r \<in> set (work d'). is_work i w r \<and> w_state r = Ready \<and> w_owner r = None \<and>
               w_previous_owner r = Some (named_owner a from_a)) \<and>
            (\<forall>v. set (contributors d' i v) = set (contributors d i v)))"
proof (cases "\<exists>r \<in> set (work d). owned_by i w (named_owner a from_a) r")
  case True
  let ?p = "named_owner a from_a"
  let ?d = "d\<lparr>work := update_where (owned_by i w ?p) (handoff_row ?p reason) (work d)\<rparr>"
  from True obtain r where r: "r \<in> set (work d)" "owned_by i w ?p r" by blast
  then have "handoff_row ?p reason r \<in> set (work ?d)" by (auto simp: in_update_where intro!: bexI [of _ r])
  then have "\<exists>r \<in> set (work ?d). is_work i w r \<and> w_state r = Ready \<and> w_owner r = None \<and>
      w_previous_owner r = Some ?p"
    by (rule bexI [rotated]) (use r(2) in \<open>simp add: handoff_row_def owned_by_def is_work_def\<close>)
  moreover have "set (contributors ?d i v) = set (contributors d i v)" for v
    by (rule contributors_update_work) (simp add: handoff_row_def work_key_def)
  moreover have "res = Inr ?d" using assms True unfolding handoff_def Let_def by presburger
  ultimately show ?thesis by blast
next
  case False
  then show ?thesis using assms by (simp add: handoff_def)
qed

theorem handoff_compare_and_set_witness:
  "handoff demo_store demo_ident ''w1'' ''bob'' ''stopped'' None = Inl OwnerChanged"
  using handoff_compare_and_set [of demo_store demo_ident "''w1''" "''bob''" "''stopped''" None, OF refl]
  by (auto simp: handoff_def Let_def owned_by_def demo_store_def demo_work_def new_work_def)

text \<open>C29: Registering again without a responsibility text replaces the member's recorded responsibility
  by the generic sentence: the stored text is never kept, since the default is never empty.\<close>

theorem register_replaces_responsibility:
  assumes reg: "register d i a ro accepts '''' thread now = Inr d'" and m: "find_member d' i a = Some m"
  shows "m_responsibility m = Some (default_responsibility ro '''')"
proof -
  have neq: "default_responsibility ro '''' \<noteq> ''''" by (simp add: default_responsibility_def)
  have d': "members d' = upsert_member (new_member i a ro (default_responsibility ro '''') thread) (members d)"
    using reg by (auto simp: register_def rbind_eq_Inr_iff)
  have m': "m \<in> set (members d')" "member_key m = (i, a)"
    using find_in [OF m [unfolded find_member_def]] by (auto simp: is_member_def member_key_def)
  have "member_key (new_member i a ro (default_responsibility ro '''') thread) = (i, a)"
    by (simp add: member_key_def new_member_def)
  with upsert_member_row [OF m'(1) [unfolded d']] m'(2) show ?thesis
    using neq by (auto simp: reregister_def new_member_def)
qed

theorem register_replaces_responsibility_witness:
  "\<exists>d' m. register demo_store demo_ident ''ann'' Worker [] '''' '''' 5 = Inr d' \<and>
     find_member d' demo_ident ''ann'' = Some m \<and>
     m_responsibility m = Some (default_responsibility Worker '''') \<and>
     map_option m_responsibility (find_member demo_store demo_ident ''ann'') = Some (Some ''own'')"
proof -
  let ?x = "register demo_store demo_ident ''ann'' Worker [] '''' '''' 5"
  have ok: "case ?x of Inr d' \<Rightarrow> find_member d' demo_ident ''ann'' \<noteq> None | Inl _ \<Rightarrow> False" by code_simp
  then obtain d' m where "?x = Inr d'" "find_member d' demo_ident ''ann'' = Some m"
    by (auto split: sum.splits)
  moreover have "map_option m_responsibility (find_member demo_store demo_ident ''ann'') = Some (Some ''own'')"
    by code_simp
  ultimately show ?thesis using register_replaces_responsibility by blast
qed

end
