(* ===== verification/Continuation.thy ===== *)
theory Continuation
  imports Work_Pool
begin

text \<open>
  Task lifecycle and member continuation (\<open>.agents/skills/rsi/scripts/continuation.py\<close>): binding and
  resuming a task, the queued next step, release and expiry, the scheduler's dispatch leases, the
  native hook, and the command dispatcher that runs one operation per transaction. The store and the
  work pool are those of \<open>Work_Pool\<close>.
\<close>

section \<open>Helpers\<close>

text \<open>Truth value of a string or None.\<close>

definition truthy :: "string option \<Rightarrow> bool" where
  "truthy s \<longleftrightarrow> s \<noteq> None \<and> s \<noteq> Some ''''"

fun kind_of_role :: "role \<Rightarrow> kind" where
  "kind_of_role Explorer = KExplorer"
| "kind_of_role Worker = KWorker"
| "kind_of_role Experimenter = KExperimenter"

text \<open>SQLite's \<open>CAST(text AS INTEGER)\<close>: the longest integer prefix after white space, saturated at 64 bits.\<close>

definition sql_cast_int :: "string \<Rightarrow> int" where
  "sql_cast_int s =
     (let t = dropWhile (\<lambda>c. c \<in> set [CHR '' '', CHR 0x09, CHR 0x0A, CHR 0x0B, CHR 0x0C, CHR 0x0D]) s;
          digits = (\<lambda>u. int (read_nat (takeWhile is_digit u)));
          value = (case t of [] \<Rightarrow> 0
                   | c # u \<Rightarrow> if c = CHR ''-'' then - digits u
                              else if c = CHR ''+'' then digits u else digits t)
      in max (- (2 ^ 63)) (min (2 ^ 63 - 1) value))"

definition find_required :: "store \<Rightarrow> ident \<Rightarrow> pool_error + session_row" where
  "find_required d i = (case find_session d i of None \<Rightarrow> Inl NotActivated | Some s \<Rightarrow> Inr s)"

definition update_session :: "ident \<Rightarrow> (session_row \<Rightarrow> session_row) \<Rightarrow> store \<Rightarrow> store" where
  "update_session i f d = d\<lparr>sessions := update_where (\<lambda>s. s_ident s = i) f (sessions d)\<rparr>"

section \<open>Queued next steps\<close>

definition next_prefix :: "string \<Rightarrow> string" where
  "next_prefix agent = ''next:'' @ agent @ '':''"

definition legacy_steps :: "store \<Rightarrow> ident \<Rightarrow> string \<Rightarrow> work_row list" where
  "legacy_steps d i agent =
     filter (\<lambda>r. w_ident r = i \<and> w_creator r = agent \<and> starts_with (next_prefix agent) (w_id r)) (work d)"

definition in_order :: "work_row list \<Rightarrow> work_row list" where
  "in_order rows = sort_key (\<lambda>r. (w_created r, w_id r)) rows"

definition cancel_ids :: "ident \<Rightarrow> string \<Rightarrow> string list \<Rightarrow> store \<Rightarrow> store" where
  "cancel_ids i reason ids d =
     fold (\<lambda>w d. d\<lparr>work := update_where (is_work i w) (cancel_row reason) (work d)\<rparr>) ids d"

definition retarget_row :: "kind \<Rightarrow> string \<Rightarrow> work_row \<Rightarrow> work_row" where
  "retarget_row k description r = r\<lparr>w_kind := k, w_description := description\<rparr>"

definition next_number :: "store \<Rightarrow> ident \<Rightarrow> string \<Rightarrow> int" where
  "next_number d i agent =
     (case max_by id (map (\<lambda>r. sql_cast_int (drop (length (next_prefix agent)) (w_id r))) (legacy_steps d i agent)) of
        None \<Rightarrow> 1
      | Some latest \<Rightarrow> latest + 1)"

text \<open>The part of \<open>queue\<close> after the check for an identical active step.\<close>

definition queue_step ::
  "store \<Rightarrow> ident \<Rightarrow> string \<Rightarrow> role \<Rightarrow> string \<Rightarrow> clock \<Rightarrow> pool_error + store \<times> string" where
  "queue_step d i agent role next_step now =
     (case in_order (filter (\<lambda>r. w_state r = Ready \<and> w_owner r = None \<and> w_previous_owner r = None)
             (legacy_steps d i agent)) of
        first # duplicates \<Rightarrow>
          Inr (cancel_ids i ''Replaced legacy next step'' (map w_id duplicates)
                 (d\<lparr>work := update_where (is_work i (w_id first))
                             (retarget_row (kind_of_role role) next_step) (work d)\<rparr>),
               w_id first)
      | [] \<Rightarrow>
          let w = next_prefix agent @ show_int (next_number d i agent) in
          rbind (submit d i w (kind_of_role role) next_step agent '''' '''' [] [] now)
            (\<lambda>d'. Inr (d', w)))"

definition queue ::
  "store \<Rightarrow> ident \<Rightarrow> string \<Rightarrow> role \<Rightarrow> string \<Rightarrow> clock \<Rightarrow> pool_error + store \<times> string" where
  "queue d0 i agent role next_step now =
     rbind (register d0 i agent role (capable d0 i agent) '''' '''' (now 0)) (\<lambda>d.
       case in_order (filter (\<lambda>r. w_state r = Active) (legacy_steps d i agent)) of
         [] \<Rightarrow> queue_step d i agent role next_step (\<lambda>k. now (Suc k))
       | r # _ \<Rightarrow>
           if w_description r = next_step then Inr (d, w_id r)
           else queue_step d i agent role next_step (\<lambda>k. now (Suc k)))"

section \<open>Activation\<close>

text \<open>
  \<open>resolve\<close> and \<open>is_file\<close> are the file system's answers about the task path. Reading 0 of the clock is
  the deadline check, reading 1 the start of a new task; each requeued member uses three readings.
\<close>

primrec requeue :: "member_row list \<Rightarrow> store \<Rightarrow> ident \<Rightarrow> clock \<Rightarrow> pool_error + store" where
  "requeue [] d i now = Inr d"
| "requeue (m # ms) d i now =
     rbind (queue d i (m_agent m) (m_role m) (case m_next_step m of None \<Rightarrow> '''' | Some s \<Rightarrow> s) now)
       (\<lambda>(d', _). requeue ms d' i (\<lambda>k. now (k + 3)))"

definition resume_session :: "session_row \<Rightarrow> session_row" where
  "resume_session s = s\<lparr>s_state := TActive, s_reason := None, s_review_pending := False\<rparr>"

definition deadline_passed :: "time option \<Rightarrow> time \<Rightarrow> bool" where
  "deadline_passed deadline now = (case deadline of None \<Rightarrow> False | Some dl \<Rightarrow> dl \<le> now)"

definition adopt_start :: "ident \<Rightarrow> time option \<Rightarrow> store \<Rightarrow> store" where
  "adopt_start i started_at d =
     (if started_at = None then d else update_session i (\<lambda>s. s\<lparr>s_started := started_at\<rparr>) d)"

definition queued_members :: "store \<Rightarrow> ident \<Rightarrow> member_row list" where
  "queued_members d i = filter (\<lambda>m. m_ident m = i \<and> m_next_step m \<noteq> None) (members d)"

definition clear_steps :: "ident \<Rightarrow> store \<Rightarrow> store" where
  "clear_steps i d = d\<lparr>members := update_where (\<lambda>m. m_ident m = i) (\<lambda>m. m\<lparr>m_next_step := None\<rparr>) (members d)\<rparr>"

definition resume_task ::
  "store \<Rightarrow> ident \<Rightarrow> session_row \<Rightarrow> string \<Rightarrow> time option \<Rightarrow> time option \<Rightarrow> clock \<Rightarrow> pool_error + store" where
  "resume_task d i s task deadline started_at now =
     (if s_task s \<noteq> task then Inl OtherTask
      else if s_state s = TComplete then Inl CompletedNotResumable
      else if deadline \<noteq> None \<and> deadline \<noteq> s_deadline s then Inl DeadlineDiffers
      else if started_at \<noteq> None \<and> s_started s \<noteq> None \<and> started_at \<noteq> s_started s then Inl StartDiffers
      else if deadline_passed (s_deadline s) (now 0) then Inl DeadlinePassed
      else let d1 = update_session i resume_session (adopt_start i started_at d) in
        rbind (requeue (queued_members d1 i) d1 i (\<lambda>k. now (k + 1))) (\<lambda>d2. Inr (clear_steps i d2)))"

definition new_session :: "ident \<Rightarrow> string \<Rightarrow> time option \<Rightarrow> time \<Rightarrow> session_row" where
  "new_session i task deadline started =
     \<lparr>s_ident = i, s_task = task, s_deadline = deadline, s_started = Some started,
      s_state = TActive, s_reason = None, s_review_pending = False\<rparr>"

definition activate ::
  "(string \<Rightarrow> string option) \<Rightarrow> (string \<Rightarrow> bool) \<Rightarrow> store \<Rightarrow> ident \<Rightarrow> string \<Rightarrow> time option \<Rightarrow> time option \<Rightarrow>
   clock \<Rightarrow> pool_error + store" where
  "activate resolve is_file d i path deadline started_at now =
     (case resolve path of
        None \<Rightarrow> Inl ResultMissing
      | Some task \<Rightarrow>
        if \<not> is_file task then Inl TaskNotFile
        else case find_session d i of
          Some s \<Rightarrow> resume_task d i s task deadline started_at now
        | None \<Rightarrow>
            if deadline_passed deadline (now 0) then Inl DeadlinePassed
            else Inr (d\<lparr>sessions := sessions d @
              [new_session i task deadline (case started_at of None \<Rightarrow> now 1 | Some t \<Rightarrow> t)]\<rparr>))"

section \<open>Release and expiry\<close>

datatype release_state = RWaiting | RDone | RExpired | RFailed | RPaused | RComplete

fun member_release :: "release_state \<Rightarrow> member_state option" where
  "member_release RWaiting = Some Waiting"
| "member_release RDone = Some MDone"
| "member_release RExpired = Some MExpired"
| "member_release RFailed = Some MFailed"
| "member_release RPaused = None"
| "member_release RComplete = None"

fun task_release :: "release_state \<Rightarrow> task_state option" where
  "task_release RPaused = Some TPaused"
| "task_release RComplete = Some TComplete"
| "task_release _ = None"

definition drop_lease :: "member_row \<Rightarrow> member_row" where
  "drop_lease m = m\<lparr>m_lease_owner := None, m_lease_until := None, m_dispatch_id := None, m_turn_id := None\<rparr>"

definition retire_member :: "member_row \<Rightarrow> member_row" where
  "retire_member m = drop_lease (m\<lparr>m_next_step := None, m_notice := None, m_dispatch_state := Released\<rparr>)"

definition release ::
  "store \<Rightarrow> ident \<Rightarrow> string option \<Rightarrow> release_state \<Rightarrow> string \<Rightarrow> pool_error + store" where
  "release d i agent state reason =
     rbind (find_required d i) (\<lambda>task.
       if strip reason = '''' then Inl EmptyReason
       else if s_state task = TComplete then
         (if \<not> truthy agent \<and> state = RComplete then Inr d else Inl CompletedUnchangeable)
       else if truthy agent then
         (let a = the agent in
          case member_release state of
            None \<Rightarrow> Inl BadMemberState
          | Some ms \<Rightarrow>
              if owned_active d i a \<noteq> [] then Inl (OwnsWork (map w_id (owned_active d i a)))
              else if \<not> (\<exists>m \<in> set (members d). is_member i a m) then Inl NotRegistered
              else Inr (d\<lparr>members := update_where (is_member i a)
                (\<lambda>m. retire_member (m\<lparr>m_state := ms, m_reason := Some reason\<rparr>)) (members d)\<rparr>))
       else
         (case task_release state of
            None \<Rightarrow> Inl BadTaskState
          | Some ts \<Rightarrow>
              Inr ((update_session i (\<lambda>s. s\<lparr>s_state := ts, s_reason := Some reason, s_review_pending := False\<rparr>) d)
                \<lparr>members := update_where (\<lambda>m. m_ident m = i) retire_member (members d)\<rparr>)))"

definition expire :: "store \<Rightarrow> ident \<Rightarrow> string \<Rightarrow> store" where
  "expire d i reason =
     (update_session i (\<lambda>s. s\<lparr>s_state := TExpired, s_reason := Some reason, s_review_pending := False\<rparr>) d)
     \<lparr>members := update_where (\<lambda>m. m_ident m = i)
        (\<lambda>m. retire_member (m\<lparr>m_state := MExpired, m_reason := Some reason\<rparr>)) (members d)\<rparr>"

section \<open>Reports and scheduler liveness\<close>

definition task_status ::
  "store \<Rightarrow> ident \<Rightarrow> pool_error + session_row \<times> member_row list \<times> work_row list \<times> heartbeat_row list" where
  "task_status d i =
     rbind (find_required d i) (\<lambda>task.
       Inr (task,
            sort_key (\<lambda>m. (role_name (m_role m), m_agent m)) (filter (\<lambda>m. m_ident m = i) (members d)),
            pool_status d i,
            sort_key h_owner (filter (\<lambda>h. h_ident h = i) (heartbeats d))))"

definition scheduler_heartbeat ::
  "store \<Rightarrow> ident \<Rightarrow> string \<Rightarrow> string \<Rightarrow> string option \<Rightarrow> time \<Rightarrow> pool_error + store" where
  "scheduler_heartbeat d i owner state err now =
     (let e = (if truthy err then Some (take 2000 (the err)) else None) in
      if \<exists>h \<in> set (heartbeats d). h_ident h = i \<and> h_owner h = owner
      then Inr (d\<lparr>heartbeats := update_where (\<lambda>h. h_ident h = i \<and> h_owner h = owner)
             (\<lambda>h. h\<lparr>h_state := state, h_last_seen := now, h_last_error := e\<rparr>) (heartbeats d)\<rparr>)
      else if find_session d i = None then Inl IntegrityError
      else Inr (d\<lparr>heartbeats := heartbeats d @
             [\<lparr>h_ident = i, h_owner = owner, h_state = state, h_last_seen = now, h_last_error = e\<rparr>]\<rparr>))"

definition supervisor_candidates ::
  "store \<Rightarrow> string \<Rightarrow> string option \<Rightarrow> (member_row \<times> string \<times> time option) list" where
  "supervisor_candidates d harness session =
     concat (map (\<lambda>m. map (\<lambda>s. (m, s_task s, s_deadline s))
         (filter (\<lambda>s. s_ident s = m_ident m \<and> s_state s = TActive) (sessions d)))
       (filter (\<lambda>m. i_harness (m_ident m) = harness \<and> m_state m = Working \<and> truthy (m_thread_id m) \<and>
                    (case session of None \<Rightarrow> True | Some s \<Rightarrow> i_session (m_ident m) = s)) (members d)))"

section \<open>Dispatch leases\<close>

record dispatch =
  p_agent :: string
  p_thread_id :: string
  p_dispatch_id :: string
  p_prompt :: string

definition newline :: string where
  "newline = [CHR 0x0A]"

definition dispatch_prompt :: "session_row \<Rightarrow> member_row \<Rightarrow> string \<Rightarrow> string" where
  "dispatch_prompt s m dispatch_id =
     ''Continue the complete RSI responsibility for '' @ s_task s @ '' as '' @ role_name (m_role m) @ ''.'' @ newline @
     ''Persistent responsibility: '' @
     (if truthy (m_responsibility m) then the (m_responsibility m)
      else ''continue the latest retained research responsibility and record evidence.'') @ newline @
     ''Dispatch id: '' @ dispatch_id @ ''. Inspect existing work, jobs and evidence before acting. '' @
     ''Do not release as idle or needs_assignment; release only for a concrete dependency, done, pause, expiry or explicit failure.''"

definition update_member :: "ident \<Rightarrow> string \<Rightarrow> (member_row \<Rightarrow> bool) \<Rightarrow> (member_row \<Rightarrow> member_row) \<Rightarrow> store \<Rightarrow> store" where
  "update_member i a p f d = d\<lparr>members := update_where (\<lambda>m. is_member i a m \<and> p m) f (members d)\<rparr>"

definition has_member :: "ident \<Rightarrow> string \<Rightarrow> (member_row \<Rightarrow> bool) \<Rightarrow> store \<Rightarrow> bool" where
  "has_member i a p d \<longleftrightarrow> (\<exists>m \<in> set (members d). is_member i a m \<and> p m)"

text \<open>The member and its task when both are live (the join of the leasing query).\<close>

definition live_member :: "store \<Rightarrow> ident \<Rightarrow> string \<Rightarrow> (member_row \<times> session_row) option" where
  "live_member d i a =
     (case find_member d i a of
        None \<Rightarrow> None
      | Some m \<Rightarrow>
          if m_state m \<noteq> Working then None
          else case find_session d i of
            None \<Rightarrow> None
          | Some s \<Rightarrow> if s_state s = TActive then Some (m, s) else None)"

definition turn_in_flight :: "time \<Rightarrow> member_row \<Rightarrow> bool" where
  "turn_in_flight now m \<longleftrightarrow>
     m_dispatch_state m \<in> {Dispatching, Running} \<and> truthy (m_turn_id m) \<and>
     (case m_lease_until m of None \<Rightarrow> False | Some t \<Rightarrow> t \<noteq> 0 \<and> now < t)"

definition lease_free :: "time \<Rightarrow> member_row \<Rightarrow> bool" where
  "lease_free now m \<longleftrightarrow>
     m_state m = Working \<and>
     (m_dispatch_state m \<noteq> Dispatching \<or> (case m_lease_until m of None \<Rightarrow> True | Some t \<Rightarrow> t \<le> now))"

definition lease_row :: "string \<Rightarrow> time \<Rightarrow> string \<Rightarrow> member_row \<Rightarrow> member_row" where
  "lease_row supervisor until dispatch_id m =
     m\<lparr>m_dispatch_state := Dispatching, m_lease_owner := Some supervisor, m_lease_until := Some until,
       m_dispatch_id := Some dispatch_id, m_turn_id := None, m_last_error := None\<rparr>"

definition supervisor_prepare ::
  "store \<Rightarrow> ident \<Rightarrow> string \<Rightarrow> string \<Rightarrow> string \<Rightarrow> time \<Rightarrow> string \<Rightarrow> time \<Rightarrow> store \<times> dispatch option" where
  "supervisor_prepare d i a supervisor thread_status lease_seconds dispatch_id now =
     (case live_member d i a of
        None \<Rightarrow> (d, None)
      | Some (m, s) \<Rightarrow>
        if \<not> truthy (m_thread_id m) then (d, None)
        else if deadline_passed (s_deadline s) now then (expire d i ''deadline'', None)
        else let status = (if thread_status = '''' then ''unknown'' else thread_status) in
        if status = ''active'' then
          (update_member i a (\<lambda>m. m_state m = Working)
             (\<lambda>m. m\<lparr>m_dispatch_state := Running, m_lease_owner := None, m_lease_until := None, m_last_error := None\<rparr>) d,
           None)
        else if status \<notin> {''idle'', ''notLoaded''} then
          (update_member i a (\<lambda>_. True)
             (\<lambda>m. m\<lparr>m_last_error := Some (''app-server thread status: '' @ status)\<rparr>) d, None)
        else if turn_in_flight now m then (d, None)
        else if \<not> has_member i a (lease_free now) d then (d, None)
        else (update_member i a (lease_free now) (lease_row supervisor (now + lease_seconds) dispatch_id) d,
              Some \<lparr>p_agent = a, p_thread_id = the (m_thread_id m), p_dispatch_id = dispatch_id,
                    p_prompt = dispatch_prompt s m dispatch_id\<rparr>))"

definition holds_lease :: "string \<Rightarrow> string \<Rightarrow> member_row \<Rightarrow> bool" where
  "holds_lease supervisor dispatch_id m \<longleftrightarrow>
     m_state m = Working \<and> m_dispatch_state m = Dispatching \<and>
     m_lease_owner m = Some supervisor \<and> m_dispatch_id m = Some dispatch_id"

definition started_row :: "time \<Rightarrow> string \<Rightarrow> member_row \<Rightarrow> member_row" where
  "started_row until turn m =
     m\<lparr>m_dispatch_state := Running, m_lease_owner := None, m_lease_until := Some until,
       m_turn_id := Some turn, m_last_error := None\<rparr>"

definition supervisor_started ::
  "store \<Rightarrow> ident \<Rightarrow> string \<Rightarrow> string \<Rightarrow> string \<Rightarrow> string \<Rightarrow> time \<Rightarrow> time \<Rightarrow> store \<times> bool" where
  "supervisor_started d i a supervisor dispatch_id turn lease_seconds now =
     (update_member i a (holds_lease supervisor dispatch_id) (started_row (now + lease_seconds) turn) d,
      has_member i a (holds_lease supervisor dispatch_id) d)"

definition failed_row :: "string \<Rightarrow> member_row \<Rightarrow> member_row" where
  "failed_row err m =
     m\<lparr>m_dispatch_state := Pending, m_lease_owner := None, m_lease_until := None,
       m_last_error := Some (take 2000 err)\<rparr>"

definition supervisor_failed ::
  "store \<Rightarrow> ident \<Rightarrow> string \<Rightarrow> string \<Rightarrow> string \<Rightarrow> string \<Rightarrow> store \<times> bool" where
  "supervisor_failed d i a supervisor dispatch_id err =
     (update_member i a (holds_lease supervisor dispatch_id) (failed_row err) d,
      has_member i a (holds_lease supervisor dispatch_id) d)"

section \<open>Native hooks\<close>

record hook_event =
  ev_session :: "string option"
  ev_name :: "string option"
  ev_agent :: "string option"
  ev_teammate :: "string option"
  ev_stop_active :: bool

datatype hook_output = HookNone | HookContext string string | HookBlock string

definition lower_ascii :: "char \<Rightarrow> char" where
  "lower_ascii c = (let n = (of_char c :: nat) in if 65 \<le> n \<and> n \<le> 90 then char_of (n + 32) else c)"

text \<open>\<open>notice LIKE 'hook guard:%'\<close>, which SQLite matches without regard to ASCII case.\<close>

definition guard_notice :: "member_row \<Rightarrow> bool" where
  "guard_notice m = (case m_notice m of None \<Rightarrow> False
     | Some s \<Rightarrow> starts_with ''hook guard:'' (map lower_ascii s))"

definition hook_agent :: "store \<Rightarrow> ident \<Rightarrow> hook_event \<Rightarrow> string option" where
  "hook_agent d i ev =
     (let agent = (if truthy (ev_agent ev) then ev_agent ev else ev_teammate ev) in
      if truthy (ev_agent ev) \<and> truthy (ev_teammate ev) \<and> find_member d i (the (ev_agent ev)) = None
      then ev_teammate ev else agent)"

definition guard_member :: "store \<Rightarrow> ident \<Rightarrow> string \<Rightarrow> string \<Rightarrow> store" where
  "guard_member d0 i a kind =
     (let d = update_member i a (\<lambda>m. m_state m = Working) (\<lambda>m. drop_lease (m\<lparr>m_dispatch_state := Pending\<rparr>)) d0 in
      case find_member d i a of
        None \<Rightarrow> d
      | Some m \<Rightarrow>
          if m_state m \<noteq> Working then d
          else let owned = join '', '' (map w_id (owned_active d i a));
                   detail = (if owned = '''' then ''no currently owned item'' else owned)
               in update_session i (\<lambda>s. s\<lparr>s_review_pending := True\<rparr>)
                    (update_member i a (\<lambda>_. True)
                      (\<lambda>m. m\<lparr>m_notice := Some (''hook guard: '' @ kind @ '' did not continue; inspect '' @ detail)\<rparr>) d))"

definition guard_message :: "member_row list \<Rightarrow> string" where
  "guard_message pending =
     ''RSI continuation fallback observed guarded member stops: '' @
     join ''; '' (map (\<lambda>m. m_agent m @ '': '' @ the (m_notice m)) pending) @ ''. '' @
     ''Inspect the owned work and resume or hand it off through the shared pool. '' @
     ''A due Evaluator dispatch, if any, was materialized in the same transaction.''"

definition owned_instruction :: "work_row list \<Rightarrow> string" where
  "owned_instruction owned =
     ''Continue the work you own: '' @ join '', '' (map w_id owned) @ ''. '' @
     ''Finish with the original evidence or hand off the same work with its live job and recovery references. '' @
     ''Inspect existing jobs before launching anything again.''"

definition continue_reason :: "ident \<Rightarrow> string \<Rightarrow> member_row \<Rightarrow> session_row \<Rightarrow> string \<Rightarrow> string" where
  "continue_reason i a m task instruction =
     ''Continue your RSI '' @ role_name (m_role m) @ '' responsibility for '' @ s_task task @ ''. '' @ instruction @ '' '' @
     ''Binding: '' @ i_harness i @ ''/'' @ i_session i @ ''/'' @ a @ ''. Advance within the task's budget without lead approval. '' @
     ''Release as waiting only for a dependency that no ready work can resolve, or done when your responsibility is complete.''"

definition stop_kinds :: "string list" where
  "stop_kinds = [''SubagentStop'', ''TeammateIdle'', ''Stop'']"

text \<open>The hook after due evaluations were materialised: guard, fallback report, or continuation.\<close>

definition hook_continue ::
  "store \<Rightarrow> ident \<Rightarrow> session_row \<Rightarrow> hook_event \<Rightarrow> time \<Rightarrow> pool_error + store \<times> hook_output" where
  "hook_continue d i task ev now =
     (let kind = (case ev_name ev of None \<Rightarrow> '''' | Some k \<Rightarrow> k);
          agent = hook_agent d i ev;
          pending = filter (\<lambda>m. m_ident m = i \<and> guard_notice m) (members d) in
      if ev_stop_active ev then
        Inr (if truthy agent \<and> kind \<in> set stop_kinds then guard_member d i (the agent) kind else d, HookNone)
      else if \<not> truthy agent \<and> pending \<noteq> [] \<and> kind \<in> {''PostToolUse'', ''Stop''} then
        Inr ((update_session i (\<lambda>s. s\<lparr>s_review_pending := False\<rparr>) d)
               \<lparr>members := update_where (\<lambda>m. m_ident m = i \<and> guard_notice m) (\<lambda>m. m\<lparr>m_notice := None\<rparr>) (members d)\<rparr>,
             if kind = ''PostToolUse'' then HookContext kind (guard_message pending)
             else HookBlock (guard_message pending))
      else if kind \<notin> set stop_kinds \<or> \<not> truthy agent then Inr (d, HookNone)
      else case find_member d i (the agent) of
        None \<Rightarrow> Inr (d, HookNone)
      | Some m \<Rightarrow>
          if m_state m \<noteq> Working then Inr (d, HookNone)
          else let a = the agent;
                   d1 = update_member i a (\<lambda>_. True)
                          (\<lambda>m. drop_lease (m\<lparr>m_dispatch_state := Pending, m_last_error := None\<rparr>)) d;
                   owned = owned_active d1 i a
               in if owned \<noteq> [] then Inr (d1, HookBlock (continue_reason i a m task (owned_instruction owned)))
                  else rbind (idle_action d1 i a now) (\<lambda>(_, _, instruction).
                    Inr (d1, HookBlock (continue_reason i a m task
                      (''Claim eligible ready work first. If none is ready: '' @ instruction)))))"

definition hook_due ::
  "(time \<Rightarrow> string) \<Rightarrow> store \<Rightarrow> ident \<Rightarrow> session_row \<Rightarrow> hook_event \<Rightarrow> clock \<Rightarrow> pool_error + store" where
  "hook_due fmt d i task ev now =
     (case ev_name ev of
        None \<Rightarrow> Inr d
      | Some kind \<Rightarrow>
          if kind \<in> set (''PostToolUse'' # stop_kinds) then due_evaluations fmt d i task now else Inr d)"

definition hook ::
  "(time \<Rightarrow> string) \<Rightarrow> store \<Rightarrow> string \<Rightarrow> hook_event \<Rightarrow> clock \<Rightarrow> pool_error + store \<times> hook_output" where
  "hook fmt d harness ev now =
     (case ev_session ev of
        None \<Rightarrow> Inr (d, HookNone)
      | Some session \<Rightarrow>
        let i = Ident harness session in
        case find_session d i of
          None \<Rightarrow> Inr (d, HookNone)
        | Some task \<Rightarrow>
          if s_state task \<noteq> TActive then Inr (d, HookNone)
          else if deadline_passed (s_deadline task) (now 0) then Inr (expire d i ''deadline'', HookNone)
          else if ev_name ev = Some ''Interrupt'' \<and> \<not> truthy (ev_agent ev) then
            Inr (update_session i (\<lambda>s. s\<lparr>s_state := TPaused, s_reason := Some ''Interrupt'', s_review_pending := False\<rparr>) d,
                 HookNone)
          else rbind (hook_due fmt d i task ev (\<lambda>k. now (k + 2))) (\<lambda>d1. hook_continue d1 i task ev (now 1)))"

section \<open>Commands\<close>

text \<open>
  One command is one immediate transaction: its store is committed when it returns and discarded when
  it raises. The file system and float formatting are the fields of \<open>env\<close>; \<open>clk j\<close> is the clock seen
  by the j-th operation of the command.
\<close>

record env =
  env_fmt :: "time \<Rightarrow> string"
  env_resolve :: "string \<Rightarrow> string option"
  env_is_file :: "string \<Rightarrow> bool"

datatype command =
    CActivate string "time option" "time option"
  | CRegister string role "kind list" string string
  | CSubmit string kind string string string string "string list" "string list"
  | CClaim string
  | CFinish string string string
  | CHandoff string string string "string option"
  | CSchedule time int
  | CQueue string role string
  | CRelease "string option" release_state string
  | CStatus

datatype answer =
    ASession session_row
  | AMember member_row
  | AAccepts string role "kind list"
  | AWork work_row "(string \<times> string list) list"
  | AClaim work_row "(string \<times> string option) list"
  | AAction string string string
  | ASchedule schedule_row
  | AStatus session_row "member_row list" "work_row list" "heartbeat_row list"
  | ANothing

fun kind_name :: "kind \<Rightarrow> string" where
  "kind_name KExplorer = ''explorer''"
| "kind_name KWorker = ''worker''"
| "kind_name KExperimenter = ''experimenter''"
| "kind_name KReview = ''review''"
| "kind_name KEvaluation = ''evaluation''"

definition work_answer :: "store \<Rightarrow> ident \<Rightarrow> string \<Rightarrow> string list \<Rightarrow> string \<Rightarrow> pool_error + store \<times> answer" where
  "work_answer d i w ids sender =
     rbind (item d i w) (\<lambda>r. Inr (d, AWork r (notifications d i ids sender)))"

definition session_answer :: "store \<Rightarrow> ident \<Rightarrow> pool_error + store \<times> answer" where
  "session_answer d i = rbind (find_required d i) (\<lambda>s. Inr (d, ASession s))"

fun run_command ::
  "env \<Rightarrow> bool \<Rightarrow> store \<Rightarrow> ident \<Rightarrow> command \<Rightarrow> (nat \<Rightarrow> clock) \<Rightarrow> pool_error + store \<times> answer" where
  "run_command v over d i CStatus clk =
     rbind (task_status d i) (\<lambda>(s, ms, ws, hs). Inr (d, AStatus s ms ws hs))"
| "run_command v over d i (CRegister a ro accepts resp thread) clk =
     rbind (register d i a ro accepts resp thread (clk 0 0)) (\<lambda>d1.
       Inr (d1, AAccepts a ro (sort_key kind_name (capable d1 i a))))"
| "run_command v over d i (CSubmit w k de a t e after exclude) clk =
     rbind (submit d i w k de a t e after exclude (clk 0)) (\<lambda>d1. work_answer d1 i w [w] a)"
| "run_command v over d i (CClaim a) clk =
     rbind (claim (env_fmt v) d i a (clk 0)) (\<lambda>(d1, res).
       case res of
         Some (r, deps) \<Rightarrow> Inr (d1, AClaim r deps)
       | None \<Rightarrow>
           rbind (idle_action d1 i a (clk 1 0)) (\<lambda>(act, task, text).
             if act = ''research'' \<or> over then Inr (d1, AAction act task text) else Inr (d1, ANothing)))"
| "run_command v over d i (CFinish w a result) clk =
     rbind (finish (env_resolve v) d i w a result) (\<lambda>d1. work_answer d1 i w (dependants d1 i w) a)"
| "run_command v over d i (CHandoff w a reason from_a) clk =
     rbind (handoff d i w a reason from_a) (\<lambda>d1. work_answer d1 i w [w] a)"
| "run_command v over d i (CSchedule interval count) clk =
     rbind (schedule d i interval count (clk 0 0)) (\<lambda>d1.
       case find_schedule d1 i of None \<Rightarrow> Inl NoSuchItem | Some e \<Rightarrow> Inr (d1, ASchedule e))"
| "run_command v over d i (CQueue a ro next_step) clk =
     rbind (queue d i a ro next_step (clk 0)) (\<lambda>(d1, w). work_answer d1 i w [w] a)"
| "run_command v over d i (CActivate path deadline started) clk =
     rbind (activate (env_resolve v) (env_is_file v) d i path deadline started (clk 0)) (\<lambda>d1. session_answer d1 i)"
| "run_command v over d i (CRelease agent state reason) clk =
     rbind (release d i agent state reason) (\<lambda>d1.
       if truthy agent then
         (case find_member d1 i (the agent) of None \<Rightarrow> Inl NoSuchItem | Some m \<Rightarrow> Inr (d1, AMember m))
       else session_answer d1 i)"

text \<open>
  The loop around a waiting claim: each round is a transaction of its own, and the store may have been
  changed by others between rounds. \<open>over k\<close> says whether the requested wait has passed in round k.
\<close>

fun claim_loop ::
  "nat \<Rightarrow> env \<Rightarrow> (nat \<Rightarrow> bool) \<Rightarrow> (nat \<Rightarrow> store \<Rightarrow> store) \<Rightarrow> store \<Rightarrow> ident \<Rightarrow> string \<Rightarrow> (nat \<Rightarrow> nat \<Rightarrow> clock) \<Rightarrow> nat \<Rightarrow>
   (nat \<times> (pool_error + store \<times> answer)) option" where
  "claim_loop 0 v over others d i a clk k = None"
| "claim_loop (Suc n) v over others d i a clk k =
     (case run_command v (over k) d i (CClaim a) (clk k) of
        Inl e \<Rightarrow> Some (k, Inl e)
      | Inr (d1, ans) \<Rightarrow>
          if ans \<noteq> ANothing \<or> over k then Some (k, Inr (d1, ans))
          else claim_loop n v over others (others k d1) i a clk (Suc k))"

text \<open>\<open>claim --wait\<close>: a negative duration is refused before the store is opened.\<close>

definition waiting_claim ::
  "time \<Rightarrow> nat \<Rightarrow> env \<Rightarrow> (nat \<Rightarrow> bool) \<Rightarrow> (nat \<Rightarrow> store \<Rightarrow> store) \<Rightarrow> store \<Rightarrow> ident \<Rightarrow> string \<Rightarrow> (nat \<Rightarrow> nat \<Rightarrow> clock) \<Rightarrow>
   (nat \<times> (pool_error + store \<times> answer)) option" where
  "waiting_claim wait n v over others d i a clk =
     (if wait < 0 then Some (0, Inl NegativeWait) else claim_loop n v over others d i a clk 0)"

text \<open>
  Everything that writes the store: commands, hooks, and the external scheduler's lease operations. Opening the store
  creates and upgrades its tables in a transaction that is committed before the command's own, so it is a step of its own.
\<close>

inductive rsi_step :: "store \<Rightarrow> store \<Rightarrow> bool" where
  step_open: "rsi_step d (pool_create d)"
| step_command: "run_command v over d i c clk = Inr (d', ans) \<Longrightarrow> rsi_step d d'"
| step_hook: "hook fmt d h ev now = Inr (d', out) \<Longrightarrow> rsi_step d d'"
| step_heartbeat: "scheduler_heartbeat d i owner st err now = Inr d' \<Longrightarrow> rsi_step d d'"
| step_prepare: "supervisor_prepare d i a owner status secs did now = (d', res) \<Longrightarrow> rsi_step d d'"
| step_started: "supervisor_started d i a owner did turn secs now = (d', ok) \<Longrightarrow> rsi_step d d'"
| step_failed: "supervisor_failed d i a owner did err = (d', ok) \<Longrightarrow> rsi_step d d'"

text \<open>The same writes, each with the task and the command that makes it, or \<open>None\<close> for a write that no agent asks for.\<close>

type_synonym write_request = "(ident \<times> command) option"

inductive rsi_write :: "write_request \<Rightarrow> store \<Rightarrow> store \<Rightarrow> bool" where
  write_open: "rsi_write None d (pool_create d)"
| write_command: "run_command v over d i c clk = Inr (d', ans) \<Longrightarrow> rsi_write (Some (i, c)) d d'"
| write_hook: "hook fmt d h ev now = Inr (d', out) \<Longrightarrow> rsi_write None d d'"
| write_heartbeat: "scheduler_heartbeat d i owner st err now = Inr d' \<Longrightarrow> rsi_write None d d'"
| write_prepare: "supervisor_prepare d i a owner status secs did now = (d', res) \<Longrightarrow> rsi_write None d d'"
| write_started: "supervisor_started d i a owner did turn secs now = (d', ok) \<Longrightarrow> rsi_write None d d'"
| write_failed: "supervisor_failed d i a owner did err = (d', ok) \<Longrightarrow> rsi_write None d d'"

lemma rsi_step_write: "rsi_step d d' \<longleftrightarrow> (\<exists>l. rsi_write l d d')"
proof
  assume "rsi_step d d'"
  then show "\<exists>l. rsi_write l d d'"
    by (induction rule: rsi_step.induct)
      (blast intro: write_open write_command write_hook write_heartbeat write_prepare write_started write_failed)+
next
  assume "\<exists>l. rsi_write l d d'"
  then obtain l where "rsi_write l d d'" ..
  then show "rsi_step d d'"
    by (induction rule: rsi_write.induct)
      (blast intro: step_open step_command step_hook step_heartbeat step_prepare step_started step_failed)+
qed

definition empty_store :: store where
  "empty_store = \<lparr>sessions = [], members = [], heartbeats = [], capabilities = [], work = [],
     participants = [], dependencies = [], exclusions = [], schedules = []\<rparr>"

definition fresh_store :: "store \<Rightarrow> bool" where
  "fresh_store d \<longleftrightarrow> d = empty_store"

inductive_cases rsi_stepE: "rsi_step d d'"

section \<open>Every write keeps the invariant of the store\<close>

lemma set_in_order [simp]: "set (in_order rows) = set rows"
  by (simp add: in_order_def)

lemma pool_inv_cancel_ids:
  assumes "pool_inv d"
    and "\<And>r. r \<in> set (work d) \<Longrightarrow> w_ident r = i \<Longrightarrow> w_id r \<in> set ids \<Longrightarrow> w_state r \<in> {Ready, Cancelled}"
  shows "pool_inv (cancel_ids i reason ids d)"
  using assms
proof (induction ids arbitrary: d)
  case (Cons w ids)
  let ?d = "d\<lparr>work := update_where (is_work i w) (cancel_row reason) (work d)\<rparr>"
  have "pool_inv ?d"
    using Cons.prems(1)
  proof (rule pool_inv_update_work)
    show "w_state r \<noteq> Done" if "r \<in> set (work d)" "is_work i w r" for r
      using Cons.prems(2) [OF that(1)] that(2) by (auto simp: is_work_def)
  qed (simp_all add: cancel_row_def work_key_def owner_ok_def)
  moreover have "w_state r \<in> {Ready, Cancelled}"
    if "r \<in> set (work ?d)" "w_ident r = i" "w_id r \<in> set ids" for r
    using that Cons.prems(2) by (auto simp: in_update_where cancel_row_def split: if_splits)
  ultimately have "pool_inv (cancel_ids i reason ids ?d)" by (rule Cons.IH)
  then show ?case by (simp add: cancel_ids_def)
qed (simp add: cancel_ids_def)

lemma in_legacy_steps:
  "r \<in> set (legacy_steps d i a) \<longleftrightarrow>
     r \<in> set (work d) \<and> w_ident r = i \<and> w_creator r = a \<and> starts_with (next_prefix a) (w_id r)"
  by (auto simp: legacy_steps_def)

lemma same_key_row:
  "pool_inv d \<Longrightarrow> r \<in> set (work d) \<Longrightarrow> s \<in> set (work d) \<Longrightarrow> w_ident r = w_ident s \<Longrightarrow> w_id r = w_id s \<Longrightarrow> r = s"
  using distinct_key_eq [OF pool_inv_keysD(1)] by (metis work_key_def)

lemma pending_rows_ready:
  assumes inv: "pool_inv d"
    and pending: "in_order (filter (\<lambda>r. w_state r = Ready \<and> w_owner r = None \<and> w_previous_owner r = None)
      (legacy_steps d i a)) = first # rest"
    and r: "r \<in> set (work d)" "w_ident r = i" "w_id r \<in> set (map w_id (first # rest))"
  shows "w_state r = Ready"
proof -
  from r(3) obtain s where s: "s \<in> set (first # rest)" "w_id r = w_id s" by auto
  have "set (first # rest) = set (filter (\<lambda>r. w_state r = Ready \<and> w_owner r = None \<and> w_previous_owner r = None)
             (legacy_steps d i a))"
    using arg_cong [OF pending, of set] by (simp only: set_in_order)
  then have "s \<in> set (work d) \<and> w_ident s = i \<and> w_state s = Ready"
    using s(1) by (simp only: set_filter in_legacy_steps mem_Collect_eq)
  with r s(2) same_key_row [OF inv r(1), of s] show ?thesis by simp
qed

lemma pool_inv_queue_step:
  assumes inv: "pool_inv d" and q: "queue_step d i a ro step now = Inr (d', w)"
  shows "pool_inv d'"
proof (cases "in_order (filter (\<lambda>r. w_state r = Ready \<and> w_owner r = None \<and> w_previous_owner r = None)
             (legacy_steps d i a))")
  case Nil
  then show ?thesis
    using q pool_inv_submit [OF inv] by (auto simp: queue_step_def Let_def rbind_eq_Inr_iff)
next
  case (Cons first rest)
  let ?d = "d\<lparr>work := update_where (is_work i (w_id first)) (retarget_row (kind_of_role ro) step) (work d)\<rparr>"
  have state: "w_state r = Ready" if r: "r \<in> set (work d)" "w_ident r = i" "w_id r \<in> set (map w_id (first # rest))" for r
    using pending_rows_ready [OF inv Cons r] .
  have "pool_inv ?d"
    using inv
  proof (rule pool_inv_update_work)
    show "w_state r \<noteq> Done" if "r \<in> set (work d)" "is_work i (w_id first) r" for r
      using state [OF that(1)] that(2) by (simp add: is_work_def)
    show "dependencies_done d r" if "r \<in> set (work d)" "is_work i (w_id first) r"
      "w_state (retarget_row (kind_of_role ro) step r) \<in> {Active, Done}" for r
      using state [OF that(1)] that(2,3) by (simp add: is_work_def retarget_row_def)
  qed (simp_all add: retarget_row_def work_key_def owner_ok_def)
  then have "pool_inv (cancel_ids i reason (map w_id rest) ?d)" for reason
  proof (rule pool_inv_cancel_ids)
    show "w_state r \<in> {Ready, Cancelled}"
      if "r \<in> set (work ?d)" "w_ident r = i" "w_id r \<in> set (map w_id rest)" for r
      using that state by (auto simp: in_update_where retarget_row_def split: if_splits)
  qed
  then show ?thesis using q Cons by (auto simp: queue_step_def)
qed

lemma queue_InrE:
  assumes "queue d i a ro step now = Inr (d', w)"
  obtains d1 where "register d i a ro (capable d i a) [] [] (now 0) = Inr d1"
    "d' = d1 \<or> queue_step d1 i a ro step (\<lambda>k. now (Suc k)) = Inr (d', w)"
proof -
  from assms obtain d1 where d1: "register d i a ro (capable d i a) [] [] (now 0) = Inr d1"
    "(case in_order (filter (\<lambda>r. w_state r = Active) (legacy_steps d1 i a)) of
         [] \<Rightarrow> queue_step d1 i a ro step (\<lambda>k. now (Suc k))
       | r # _ \<Rightarrow> if w_description r = step then Inr (d1, w_id r)
                else queue_step d1 i a ro step (\<lambda>k. now (Suc k))) = Inr (d', w)"
    by (auto simp: queue_def rbind_eq_Inr_iff)
  from d1(2) have "d' = d1 \<or> queue_step d1 i a ro step (\<lambda>k. now (Suc k)) = Inr (d', w)"
    by (cases "in_order (filter (\<lambda>r. w_state r = Active) (legacy_steps d1 i a))") (auto split: if_splits)
  with d1(1) show thesis by (rule that)
qed

lemma pool_inv_queue:
  assumes "pool_inv d" and "queue d i a ro step now = Inr (d', w)"
  shows "pool_inv d'"
  using assms(2) by (rule queue_InrE) (use assms(1) pool_inv_register pool_inv_queue_step in blast)

lemma pool_inv_requeue: "requeue ms d i now = Inr d' \<Longrightarrow> pool_inv d \<Longrightarrow> pool_inv d'"
proof (induction ms arbitrary: d now)
  case (Cons m ms)
  then show ?case by (auto simp: rbind_eq_Inr_iff dest: pool_inv_queue)
qed simp

lemma pool_inv_update_session:
  "pool_inv d \<Longrightarrow> (\<And>s. s_ident (f s) = s_ident s) \<Longrightarrow> pool_inv (update_session i f d)"
  unfolding update_session_def
  by (rule pool_inv_sessions) (simp_all add: pool_inv_keysD key_preserving.distinct_update key_preserving_def)

lemma pool_inv_update_members:
  "pool_inv d \<Longrightarrow> (\<And>m. member_key (f m) = member_key m) \<Longrightarrow> pool_inv (d\<lparr>members := update_where p f (members d)\<rparr>)"
  by (rule pool_inv_members) (simp_all add: pool_inv_keysD key_preserving.distinct_update key_preserving_def)

lemma pool_inv_update_member:
  "pool_inv d \<Longrightarrow> (\<And>m. member_key (f m) = member_key m) \<Longrightarrow> pool_inv (update_member i a p f d)"
  by (simp add: update_member_def pool_inv_update_members)

lemma members_update_session [simp]: "members (update_session i f d) = members d"
  by (simp add: update_session_def)

lemma pool_inv_close_task:
  assumes "pool_inv d" and "\<And>s. s_ident (f s) = s_ident s" and "\<And>m. member_key (g m) = member_key m"
  shows "pool_inv ((update_session i f d)\<lparr>members := update_where p g (members d)\<rparr>)"
  using pool_inv_update_members [OF pool_inv_update_session [OF assms(1,2), of i] assms(3), of p] by simp

lemma member_key_update:
  "member_key (retire_member m) = member_key m" "member_key (drop_lease m) = member_key m"
  "member_key (m\<lparr>m_state := s, m_reason := r\<rparr>) = member_key m"
  "member_key (m\<lparr>m_next_step := n\<rparr>) = member_key m" "member_key (m\<lparr>m_notice := n\<rparr>) = member_key m"
  "member_key (m\<lparr>m_last_error := n\<rparr>) = member_key m" "member_key (m\<lparr>m_dispatch_state := x\<rparr>) = member_key m"
  "member_key (m\<lparr>m_dispatch_state := x, m_last_error := n\<rparr>) = member_key m"
  "member_key (m\<lparr>m_dispatch_state := x, m_lease_owner := lo, m_lease_until := lu, m_last_error := n\<rparr>) = member_key m"
  "member_key (m\<lparr>m_dispatch_state := x, m_lease_owner := lo, m_lease_until := lu\<rparr>) = member_key m"
  "member_key (lease_row sv t di m) = member_key m" "member_key (started_row t tu m) = member_key m"
  "member_key (failed_row e m) = member_key m"
  by (simp_all add: member_key_def retire_member_def drop_lease_def lease_row_def started_row_def failed_row_def)

lemma pool_inv_expire: "pool_inv d \<Longrightarrow> pool_inv (expire d i reason)"
  unfolding expire_def by (rule pool_inv_close_task) (simp_all add: member_key_update)

lemma pool_inv_release:
  assumes "pool_inv d" and "release d i agent state reason = Inr d'"
  shows "pool_inv d'"
  using assms
  by (auto simp: release_def rbind_eq_Inr_iff Let_def member_key_update split: if_splits option.splits
      intro!: pool_inv_close_task pool_inv_update_members)

lemma resume_task_InrE:
  assumes "resume_task d i s task dl st now = Inr d'"
  obtains d2 where "s_task s = task" "s_state s \<noteq> TComplete" "dl = None \<or> dl = s_deadline s"
    "\<not> deadline_passed (s_deadline s) (now 0)"
    "requeue (queued_members (update_session i resume_session (adopt_start i st d)) i)
       (update_session i resume_session (adopt_start i st d)) i (\<lambda>k. now (k + 1)) = Inr d2"
    "d' = clear_steps i d2"
  using assms by (auto simp: resume_task_def Let_def rbind_eq_Inr_iff split: if_splits)

lemma activate_InrE:
  assumes "activate res isf d i path dl st now = Inr d'"
  obtains (resumed) s task where "find_session d i = Some s" "resume_task d i s task dl st now = Inr d'"
  | (created) task t where "find_session d i = None" "\<not> deadline_passed dl (now 0)"
      "d' = d\<lparr>sessions := sessions d @ [new_session i task dl t]\<rparr>"
  using assms by (auto simp: activate_def split: option.splits if_splits)

lemma pool_inv_adopt_start: "pool_inv d \<Longrightarrow> pool_inv (adopt_start i st d)"
  by (simp add: adopt_start_def pool_inv_update_session)

lemma pool_inv_activate:
  assumes inv: "pool_inv d" and act: "activate res isf d i path dl st now = Inr d'"
  shows "pool_inv d'"
  using act
proof (cases rule: activate_InrE)
  case (resumed s task)
  have "pool_inv (update_session i resume_session (adopt_start i st d))"
    using pool_inv_adopt_start [OF inv] by (rule pool_inv_update_session) (simp add: resume_session_def)
  then show ?thesis
    using resumed(2)
    by (auto elim!: resume_task_InrE simp: clear_steps_def member_key_update
        intro!: pool_inv_update_members dest: pool_inv_requeue)
next
  case (created task t)
  then show ?thesis
    using pool_inv_keysD(3) [OF inv]
    by (auto simp: find_session_def find_None_iff new_session_def intro!: pool_inv_sessions [OF inv])
qed

lemma pool_inv_guard_member: "pool_inv d \<Longrightarrow> pool_inv (guard_member d i a k)"
  unfolding guard_member_def Let_def
  by (auto intro!: pool_inv_update_session pool_inv_update_member simp: member_key_update split: option.splits)

lemma pool_inv_hook_continue:
  assumes "pool_inv d" and "hook_continue d i task ev now = Inr (d', out)"
  shows "pool_inv d'"
  using assms unfolding hook_continue_def Let_def
  by (auto intro!: pool_inv_close_task pool_inv_update_member pool_inv_guard_member simp: member_key_update rbind_eq_Inr_iff
      split: option.splits if_splits)

lemma hook_due_Inr:
  "hook_due fmt d i task ev now = Inr d1 \<Longrightarrow> d1 = d \<or> due_evaluations fmt d i task now = Inr d1"
  by (auto simp: hook_due_def split: option.splits if_splits)

lemma hook_cases:
  assumes "hook fmt d h ev now = Inr (d', out)"
  obtains (nothing) "d' = d" "out = HookNone"
  | (expired) i task where "ev_session ev = Some (i_session i) \<and> i_harness i = h"
      "find_session d i = Some task" "s_state task = TActive"
      "d' = expire d i ''deadline''" "out = HookNone"
  | (paused) i task where "ev_session ev = Some (i_session i) \<and> i_harness i = h"
      "find_session d i = Some task" "s_state task = TActive" "out = HookNone"
      "d' = update_session i (\<lambda>s. s\<lparr>s_state := TPaused, s_reason := Some ''Interrupt'', s_review_pending := False\<rparr>) d"
  | (live) i task d1 where "ev_session ev = Some (i_session i) \<and> i_harness i = h"
      "find_session d i = Some task" "s_state task = TActive"
      "d1 = d \<or> due_evaluations fmt d i task (\<lambda>k. now (k + 2)) = Inr d1"
      "hook_continue d1 i task ev (now 1) = Inr (d', out)"
proof (cases "ev_session ev")
  case None
  with assms have "d' = d" "out = HookNone" by (simp_all add: hook_def)
  then show thesis by (rule that(1))
next
  case (Some session)
  let ?i = "Ident h session"
  show thesis
  proof (cases "find_session d ?i")
    case None
    with assms Some have "d' = d" "out = HookNone" by (simp_all add: hook_def)
    then show thesis by (rule that(1))
  next
    case (Some task)
    note task = Some \<open>ev_session ev = Some session\<close>
    have id: "ev_session ev = Some (i_session ?i) \<and> i_harness ?i = h" using task(2) by simp
    show thesis
    proof (cases "s_state task = TActive")
      case False
      with assms task have "d' = d" "out = HookNone" by (simp_all add: hook_def)
      then show thesis by (rule that(1))
    next
      case act: True
      show thesis
      proof (cases "deadline_passed (s_deadline task) (now 0)")
        case True
        with assms task act have "d' = expire d ?i ''deadline''" "out = HookNone" by (simp_all add: hook_def)
        with id task(1) act show thesis by (rule that(2))
      next
        case False
        show thesis
        proof (cases "ev_name ev = Some ''Interrupt'' \<and> \<not> truthy (ev_agent ev)")
          case True
          with assms task act False have "out = HookNone"
            "d' = update_session ?i (\<lambda>s. s\<lparr>s_state := TPaused, s_reason := Some ''Interrupt'', s_review_pending := False\<rparr>) d"
            by (simp_all add: hook_def)
          with id task(1) act show thesis by (rule that(3))
        next
          case noint: False
          with assms task act False have
            "rbind (hook_due fmt d ?i task ev (\<lambda>k. now (k + 2))) (\<lambda>d1. hook_continue d1 ?i task ev (now 1)) = Inr (d', out)"
            unfolding hook_def by (simp only: option.case Let_def if_False if_True not_True_eq_False simp_thms)
          then obtain d1 where d1: "hook_due fmt d ?i task ev (\<lambda>k. now (k + 2)) = Inr d1"
            "hook_continue d1 ?i task ev (now 1) = Inr (d', out)" by (rule rbind_InrE)
          show thesis using id task(1) act hook_due_Inr [OF d1(1)] d1(2) by (rule that(4))
        qed
      qed
    qed
  qed
qed

lemma pool_inv_hook:
  assumes inv: "pool_inv d" and hk: "hook fmt d h ev now = Inr (d', out)"
  shows "pool_inv d'"
  using hk
proof (cases rule: hook_cases)
  case (live i task d1)
  then have "pool_inv d1" using inv pool_inv_due_evaluations by blast
  then show ?thesis using live(5) by (rule pool_inv_hook_continue)
qed (use inv in \<open>auto intro: pool_inv_expire pool_inv_update_session\<close>)

lemma work_answer_store: "work_answer d i w ids s = Inr (d', ans) \<Longrightarrow> d' = d"
  by (auto simp: work_answer_def rbind_eq_Inr_iff)

lemma session_answer_store: "session_answer d i = Inr (d', ans) \<Longrightarrow> d' = d"
  by (auto simp: session_answer_def rbind_eq_Inr_iff)

text \<open>A successful command is the successful run of its operation; the answer only reads the store.\<close>

fun command_effect :: "env \<Rightarrow> store \<Rightarrow> ident \<Rightarrow> command \<Rightarrow> (nat \<Rightarrow> clock) \<Rightarrow> store \<Rightarrow> bool" where
  "command_effect v d i CStatus clk d' = (d' = d)"
| "command_effect v d i (CRegister a ro accepts resp thread) clk d' =
     (register d i a ro accepts resp thread (clk 0 0) = Inr d')"
| "command_effect v d i (CSubmit w k de a t e after exclude) clk d' =
     (submit d i w k de a t e after exclude (clk 0) = Inr d')"
| "command_effect v d i (CClaim a) clk d' = (\<exists>res. claim (env_fmt v) d i a (clk 0) = Inr (d', res))"
| "command_effect v d i (CFinish w a result) clk d' = (finish (env_resolve v) d i w a result = Inr d')"
| "command_effect v d i (CHandoff w a reason from_a) clk d' = (handoff d i w a reason from_a = Inr d')"
| "command_effect v d i (CSchedule interval count) clk d' = (schedule d i interval count (clk 0 0) = Inr d')"
| "command_effect v d i (CQueue a ro step) clk d' = (\<exists>w. queue d i a ro step (clk 0) = Inr (d', w))"
| "command_effect v d i (CActivate path dl st) clk d' =
     (activate (env_resolve v) (env_is_file v) d i path dl st (clk 0) = Inr d')"
| "command_effect v d i (CRelease agent state reason) clk d' = (release d i agent state reason = Inr d')"

lemma run_command_effect:
  "run_command v over d i c clk = Inr (d', ans) \<Longrightarrow> command_effect v d i c clk d'"
  by (cases c)
    (auto simp: rbind_eq_Inr_iff split: option.splits if_splits prod.splits
      dest!: work_answer_store session_answer_store)

lemma pool_inv_command:
  assumes "pool_inv d" and "command_effect v d i c clk d'"
  shows "pool_inv d'"
  using assms
  by (cases c)
    (auto dest: pool_inv_register pool_inv_submit pool_inv_claim pool_inv_finish pool_inv_handoff
      pool_inv_schedule pool_inv_queue pool_inv_activate pool_inv_release)

lemma pool_inv_heartbeat:
  "pool_inv d \<Longrightarrow> scheduler_heartbeat d i owner st err now = Inr d' \<Longrightarrow> pool_inv d'"
  by (auto simp: scheduler_heartbeat_def Let_def split: if_splits intro: pool_inv_heartbeats)

lemma pool_inv_prepare:
  "pool_inv d \<Longrightarrow> supervisor_prepare d i a owner status secs did now = (d', res) \<Longrightarrow> pool_inv d'"
  by (auto simp: supervisor_prepare_def Let_def member_key_update split: option.splits if_splits prod.splits
      intro!: pool_inv_expire pool_inv_update_member)

lemma pool_inv_step: "rsi_step d d' \<Longrightarrow> pool_inv d \<Longrightarrow> pool_inv d'"
proof (induction rule: rsi_step.induct)
  case (step_command v over d i c clk d' ans)
  then show ?case using pool_inv_command run_command_effect by blast
next
  case (step_started d i a owner did turn secs now d' ok)
  then show ?case by (auto simp: supervisor_started_def member_key_update intro!: pool_inv_update_member)
next
  case (step_failed d i a owner did err d' ok)
  then show ?case by (auto simp: supervisor_failed_def member_key_update intro!: pool_inv_update_member)
qed (auto dest: pool_inv_create pool_inv_hook pool_inv_heartbeat pool_inv_prepare intro: pool_inv_create)

lemma pool_inv_empty: "fresh_store d \<Longrightarrow> pool_inv d"
  by (simp add: fresh_store_def empty_store_def pool_inv_parts edges_def acyclic_def)

interpretation rsi: inductive_invariant fresh_store rsi_step pool_inv
  by unfold_locales (auto intro: pool_inv_empty pool_inv_step)

section \<open>What the operations leave alone\<close>

definition isolated :: "ident \<Rightarrow> store \<Rightarrow> store \<Rightarrow> bool" where
  "isolated i d d' \<longleftrightarrow> (\<forall>j. j \<noteq> i \<longrightarrow> task_view j d' = task_view j d)"

lemma isolated_refl [simp]: "isolated i d d"
  by (simp add: isolated_def)

lemma isolated_trans: "isolated i d d1 \<Longrightarrow> isolated i d1 d2 \<Longrightarrow> isolated i d d2"
  by (simp add: isolated_def)

lemma filter_update_where:
  "(\<And>r. p r \<Longrightarrow> \<not> q r \<and> \<not> q (f r)) \<Longrightarrow> filter q (update_where p f rows) = filter q rows"
  by (induction rows) auto

lemma isolated_members:
  "(\<And>m. p m \<Longrightarrow> m_ident m = i \<and> m_ident (f m) = i) \<Longrightarrow>
   isolated i d (d\<lparr>members := update_where p f (members d)\<rparr>)"
  unfolding isolated_def task_view_def by (auto intro!: filter_update_where)

lemma isolated_work:
  "(\<And>r. p r \<Longrightarrow> w_ident r = i \<and> w_ident (f r) = i) \<Longrightarrow>
   isolated i d (d\<lparr>work := update_where p f (work d)\<rparr>)"
  unfolding isolated_def task_view_def by (auto intro!: filter_update_where)

lemma isolated_update_session:
  "(\<And>s. s_ident (f s) = s_ident s) \<Longrightarrow> isolated i d (update_session i f d)"
  unfolding isolated_def task_view_def update_session_def by (auto intro!: filter_update_where)

lemma isolated_update_member:
  "(\<And>m. m_ident (f m) = m_ident m) \<Longrightarrow> isolated i d (update_member i a p f d)"
  unfolding update_member_def by (rule isolated_members) (auto simp: is_member_def)

lemma isolated_close_task:
  assumes "\<And>s. s_ident (f s) = s_ident s" "\<And>m. p m \<Longrightarrow> m_ident m = i \<and> m_ident (g m) = i"
  shows "isolated i d ((update_session i f d)\<lparr>members := update_where p g (members d)\<rparr>)"
  using isolated_trans [OF isolated_update_session [OF assms(1), where d = d and i = i]
      isolated_members [OF assms(2), where d = "update_session i f d"]]
  by simp

lemma isolated_register:
  assumes "register d i a ro accepts resp th now = Inr d'"
  shows "isolated i d d'"
proof -
  let ?new = "new_member i a ro (default_responsibility ro resp) th"
  have d': "d' = d\<lparr>members := upsert_member ?new (members d),
      capabilities := filter (\<lambda>(j, b, _). \<not> (j = i \<and> b = a)) (capabilities d) @
        map (\<lambda>k. (i, a, k)) (fromkeys (CAPABILITIES ro @ accepts))\<rparr>"
    using assms by (auto simp: register_def rbind_eq_Inr_iff)
  have ids: "m_ident ?new = i" "\<And>m. m_ident (reregister ?new m) = m_ident m"
    by (simp_all add: new_member_def reregister_def)
  have ms: "filter (\<lambda>m. m_ident m = j) (upsert_member ?new (members d)) = filter (\<lambda>m. m_ident m = j) (members d)"
    if "j \<noteq> i" for j
    using that ids unfolding upsert_member_def
    by (auto simp: member_key_def intro!: filter_update_where)
  have cs: "filter (\<lambda>c. fst c = j) (filter (\<lambda>(j, b, _). \<not> (j = i \<and> b = a)) cs) = filter (\<lambda>c. fst c = j) cs"
    if "j \<noteq> i" for j and cs :: "(ident \<times> string \<times> kind) list"
    using that by (induction cs) auto
  show ?thesis
    unfolding isolated_def task_view_def d' using ms cs by (auto simp: filter_empty_conv)
qed

lemma isolated_submit:
  assumes "submit d i w k de a t e after exclude now = Inr d'"
  shows "isolated i d d'"
  unfolding isolated_def task_view_def submit_InrD(6) [OF assms]
  by (auto simp: new_work_def filter_empty_conv)

lemma isolated_due:
  assumes "due_evaluations fmt d i task now = Inr d'"
  shows "isolated i d d'"
  using assms
proof (cases rule: due_evaluations_Inr)
  case (2 e rows)
  then have "filter (\<lambda>r. w_ident r = j) rows = []" if "j \<noteq> i" for j
    using that by (auto simp: filter_empty_conv scheduled_evaluation_def)
  then show ?thesis
    unfolding isolated_def task_view_def 2(8) by (auto intro!: filter_update_where)
qed simp

lemma isolated_take_work: "isolated i d (take_work d i w a)"
proof -
  have "filter (\<lambda>r. w_ident r = j) (update_where (\<lambda>r. is_work i w r \<and> w_state r = Ready) (claim_row a) (work d)) =
      filter (\<lambda>r. w_ident r = j) (work d)" if "j \<noteq> i" for j
    using that by (intro filter_update_where) (auto simp: is_work_def claim_row_def)
  moreover have "filter (\<lambda>m. m_ident m = j) (update_where (is_member i a) (m_state_update (\<lambda>_. Working)) (members d)) =
      filter (\<lambda>m. m_ident m = j) (members d)" if "j \<noteq> i" for j
    using that by (intro filter_update_where) (auto simp: is_member_def)
  ultimately show ?thesis by (simp add: isolated_def task_view_def take_work_def)
qed

lemma isolated_claim:
  assumes "claim fmt d i a now = Inr (d', res)"
  shows "isolated i d d'"
proof (cases res)
  case None
  then show ?thesis using assms by (auto elim!: claim_NoneE intro: isolated_due)
next
  case (Some p)
  then have "claim fmt d i a now = Inr (d', Some (fst p, snd p))" using assms by simp
  then show ?thesis
    by (rule claim_SomeE) (use isolated_due isolated_take_work isolated_trans in blast)
qed

lemma isolated_schedule:
  assumes "schedule d i interval count now = Inr d'"
  shows "isolated i d d'"
proof -
  obtain new where new: "e_ident new = i"
    "d' = (withdraw_evaluations i count d)\<lparr>schedules := upsert_schedule new (schedules d)\<rparr>"
    using assms by (force simp: schedule_def rbind_eq_Inr_iff split: if_splits option.splits)
  have "isolated i d (withdraw_evaluations i count d)"
    by (auto simp: withdraw_evaluations_def scheduled_evaluation_def cancel_row_def intro!: isolated_work)
  moreover have "filter (\<lambda>e. e_ident e = j) (upsert_schedule new (schedules d)) = filter (\<lambda>e. e_ident e = j) (schedules d)"
    if "j \<noteq> i" for j
    using that new(1) by (auto simp: upsert_schedule_def intro!: filter_update_where)
  ultimately show ?thesis
    unfolding new(2) by (simp add: isolated_def task_view_def withdraw_evaluations_def)
qed

lemma isolated_cancel_ids: "isolated i d (cancel_ids i reason ids d)"
proof (induction ids arbitrary: d)
  case (Cons w ids)
  have "isolated i d (d\<lparr>work := update_where (is_work i w) (cancel_row reason) (work d)\<rparr>)"
    by (rule isolated_work) (auto simp: is_work_def cancel_row_def)
  then show ?case using Cons.IH isolated_trans by (fastforce simp: cancel_ids_def)
qed (simp add: cancel_ids_def)

lemma isolated_queue_step:
  assumes "queue_step d i a ro step now = Inr (d', w)"
  shows "isolated i d d'"
proof (cases "in_order (filter (\<lambda>r. w_state r = Ready \<and> w_owner r = None \<and> w_previous_owner r = None)
             (legacy_steps d i a))")
  case Nil
  then show ?thesis
    using assms by (auto simp: queue_step_def Let_def rbind_eq_Inr_iff intro: isolated_submit)
next
  case (Cons first rest)
  have "isolated i d (d\<lparr>work := update_where (is_work i (w_id first)) (retarget_row (kind_of_role ro) step) (work d)\<rparr>)"
    by (rule isolated_work) (auto simp: is_work_def retarget_row_def)
  then show ?thesis
    using assms Cons isolated_trans [OF _ isolated_cancel_ids] by (auto simp: queue_step_def)
qed

lemma isolated_queue: "queue d i a ro step now = Inr (d', w) \<Longrightarrow> isolated i d d'"
  by (erule queue_InrE) (auto dest!: isolated_register isolated_queue_step intro: isolated_trans)

lemma isolated_requeue: "requeue ms d i now = Inr d' \<Longrightarrow> isolated i d d'"
proof (induction ms arbitrary: d now)
  case (Cons m ms)
  then show ?case by (auto simp: rbind_eq_Inr_iff dest!: isolated_queue intro: isolated_trans)
qed simp

lemma m_ident_update [simp]:
  "m_ident (retire_member m) = m_ident m" "m_ident (drop_lease m) = m_ident m"
  "m_ident (lease_row sv t di m) = m_ident m" "m_ident (started_row t tu m) = m_ident m"
  "m_ident (failed_row e m) = m_ident m"
  by (simp_all add: retire_member_def drop_lease_def lease_row_def started_row_def failed_row_def)

lemma isolated_activate:
  assumes "activate res isf d i path dl st now = Inr d'"
  shows "isolated i d d'"
  using assms
proof (cases rule: activate_InrE)
  case (resumed s task)
  have "isolated i d (update_session i resume_session (adopt_start i st d))"
    by (auto simp: adopt_start_def resume_session_def intro!: isolated_trans [OF isolated_update_session isolated_update_session]
        isolated_update_session)
  moreover have "isolated i e (clear_steps i e)" for e
    unfolding clear_steps_def by (rule isolated_members) auto
  ultimately show ?thesis
    using resumed(2) isolated_requeue isolated_trans by (elim resume_task_InrE) blast
next
  case (created task t)
  then show ?thesis by (auto simp: isolated_def task_view_def new_session_def)
qed

lemma isolated_expire: "isolated i d (expire d i reason)"
  unfolding expire_def by (rule isolated_close_task) auto

lemma isolated_release:
  "release d i agent state reason = Inr d' \<Longrightarrow> isolated i d d'"
  by (auto simp: release_def rbind_eq_Inr_iff Let_def is_member_def split: if_splits option.splits
      intro!: isolated_close_task isolated_members)

lemma isolated_command:
  assumes "command_effect v d i c clk d'"
  shows "isolated i d d'"
proof (cases c)
  case (CFinish w a result)
  then show ?thesis
    using assms by (auto simp: finish_def owned_by_def is_work_def finish_row_def split: option.splits if_splits
        intro!: isolated_work)
next
  case (CHandoff w a reason from_a)
  then show ?thesis
    using assms by (auto simp: handoff_def Let_def owned_by_def is_work_def handoff_row_def split: if_splits
        intro!: isolated_work)
qed (use assms in \<open>auto intro: isolated_register isolated_submit isolated_claim isolated_schedule isolated_queue
      isolated_activate isolated_release\<close>)

lemma isolated_guard_member: "isolated i d (guard_member d i a k)"
  unfolding guard_member_def Let_def
  by (auto split: option.splits intro!: isolated_trans [OF isolated_update_member isolated_trans
        [OF isolated_update_member isolated_update_session]] isolated_update_member)

lemma isolated_hook_continue: "hook_continue d i task ev t = Inr (d', out) \<Longrightarrow> isolated i d d'"
  unfolding hook_continue_def Let_def
  by (auto intro!: isolated_close_task isolated_update_member isolated_guard_member simp: rbind_eq_Inr_iff
      split: option.splits if_splits)

lemma isolated_hook:
  assumes hk: "hook fmt d h ev now = Inr (d', out)" and ev: "ev_session ev = Some session"
  shows "isolated (Ident h session) d d'"
  using hk
proof (cases rule: hook_cases)
  case (live i task d1)
  then have "isolated i d d1" using isolated_due by auto
  then have "isolated i d d'" using isolated_hook_continue [OF live(5)] isolated_trans by blast
  moreover have "i = Ident h session" using live(1) ev by (cases i) simp
  ultimately show ?thesis by simp
next
  case (expired i task)
  moreover have "i = Ident h session" using expired(1) ev by (cases i) simp
  ultimately show ?thesis using isolated_expire by simp
next
  case (paused i task)
  moreover have "i = Ident h session" using paused(1) ev by (cases i) simp
  ultimately show ?thesis using isolated_update_session by simp
qed simp

section \<open>How a task binding evolves\<close>

definition binding_kept :: "session_row \<Rightarrow> session_row \<Rightarrow> bool" where
  "binding_kept s s' \<longleftrightarrow>
     s_ident s' = s_ident s \<and> s_task s' = s_task s \<and> s_deadline s' = s_deadline s \<and>
     (s_state s = TComplete \<longrightarrow> s_state s' = TComplete) \<and>
     (s_started s \<noteq> None \<longrightarrow> s_started s' = s_started s)"

definition bindings_kept :: "store \<Rightarrow> store \<Rightarrow> bool" where
  "bindings_kept d d' \<longleftrightarrow> (\<forall>s \<in> set (sessions d). \<exists>s' \<in> set (sessions d'). binding_kept s s')"

lemma binding_kept_refl [simp]: "binding_kept s s"
  by (simp add: binding_kept_def)

lemma bindings_kept_eq: "sessions d' = sessions d \<Longrightarrow> bindings_kept d d'"
  by (force simp: bindings_kept_def)

lemma bindings_kept_trans: "bindings_kept d d1 \<Longrightarrow> bindings_kept d1 d2 \<Longrightarrow> bindings_kept d d2"
  unfolding bindings_kept_def binding_kept_def by metis

lemma bindings_kept_update:
  assumes "\<And>s. s \<in> set (sessions d) \<Longrightarrow> s_ident s = i \<Longrightarrow> binding_kept s (f s)"
    and "sessions d' = sessions (update_session i f d)"
  shows "bindings_kept d d'"
  unfolding bindings_kept_def
proof
  fix s assume s: "s \<in> set (sessions d)"
  show "\<exists>s' \<in> set (sessions d'). binding_kept s s'"
    using assms s by (intro bexI [of _ "if s_ident s = i then f s else s"])
      (auto simp: update_session_def in_update_where)
qed

lemma session_in_find:
  assumes "pool_inv d" and "s \<in> set (sessions d)"
  shows "find_session d (s_ident s) = Some s"
  using find_keyI [OF pool_inv_keysD(3) [OF assms(1)] assms(2)] by (simp add: find_session_def)

lemma bindings_kept_live:
  assumes "pool_inv d" and "find_session d i = Some t" and "s_state t \<noteq> TComplete"
    and "\<And>s. binding_kept (s\<lparr>s_state := TActive\<rparr>) ((f s)\<lparr>s_state := TActive\<rparr>)"
    and "sessions d' = sessions (update_session i f d)"
  shows "bindings_kept d d'"
proof (rule bindings_kept_update [OF _ assms(5)])
  fix s assume "s \<in> set (sessions d)" "s_ident s = i"
  then have "s = t" using session_in_find [OF assms(1)] assms(2) by force
  then show "binding_kept s (f s)" using assms(3) assms(4) [of t] by (simp add: binding_kept_def)
qed

lemma sessions_frame:
  "register d i a ro accepts resp th t = Inr d' \<Longrightarrow> sessions d' = sessions d"
  "submit d i w k de a tp e after exclude now = Inr d' \<Longrightarrow> sessions d' = sessions d"
  "claim fmt d i a now = Inr (d', res) \<Longrightarrow> sessions d' = sessions d"
  "finish resolve d i w a result = Inr d' \<Longrightarrow> sessions d' = sessions d"
  "handoff d i w a reason from_a = Inr d' \<Longrightarrow> sessions d' = sessions d"
  "schedule d i interval count t = Inr d' \<Longrightarrow> sessions d' = sessions d"
  subgoal by (auto simp: register_def rbind_eq_Inr_iff)
  subgoal by (auto dest: submit_InrD(6))
  subgoal by (cases res) (auto elim!: claim_NoneE claim_SomeE dest: due_evaluations_frame(1))
  subgoal by (auto simp: finish_def split: option.splits if_splits)
  subgoal by (auto simp: handoff_def Let_def split: if_splits)
  subgoal by (auto simp: schedule_def rbind_eq_Inr_iff withdraw_evaluations_def split: option.splits if_splits)
  done

lemma sessions_cancel_ids [simp]: "sessions (cancel_ids i reason ids d) = sessions d"
proof (induction ids arbitrary: d)
  case (Cons w ids)
  then show ?case by (simp add: cancel_ids_def)
qed (simp add: cancel_ids_def)

lemma sessions_queue: "queue d i a ro step now = Inr (d', w) \<Longrightarrow> sessions d' = sessions d"
proof (erule queue_InrE)
  fix d1 assume "register d i a ro (capable d i a) [] [] (now 0) = Inr d1"
    and "d' = d1 \<or> queue_step d1 i a ro step (\<lambda>k. now (Suc k)) = Inr (d', w)"
  moreover have "sessions d' = sessions d1" if "queue_step d1 i a ro step (\<lambda>k. now (Suc k)) = Inr (d', w)"
    using that by (auto simp: queue_step_def Let_def rbind_eq_Inr_iff split: list.splits dest: sessions_frame(2))
  ultimately show "sessions d' = sessions d" using sessions_frame(1) by metis
qed

lemma sessions_requeue: "requeue ms d i now = Inr d' \<Longrightarrow> sessions d' = sessions d"
proof (induction ms arbitrary: d now)
  case (Cons m ms)
  then show ?case by (fastforce simp: rbind_eq_Inr_iff dest!: sessions_queue)
qed simp

lemma bindings_activate:
  assumes inv: "pool_inv d" and act: "activate res isf d i path dl st now = Inr d'"
  shows "bindings_kept d d'"
  using act
proof (cases rule: activate_InrE)
  case (resumed s task)
  have st: "st \<noteq> None \<Longrightarrow> s_started s \<noteq> None \<Longrightarrow> st = s_started s"
    using resumed(2) by (auto simp: resume_task_def split: if_splits)
  from resumed(2) obtain d2 where ok: "s_state s \<noteq> TComplete"
    and rq: "requeue (queued_members (update_session i resume_session (adopt_start i st d)) i)
       (update_session i resume_session (adopt_start i st d)) i (\<lambda>k. now (k + 1)) = Inr d2"
    and d': "d' = clear_steps i d2" by (elim resume_task_InrE)
  let ?f = "\<lambda>s. resume_session (if st = None then s else s\<lparr>s_started := st\<rparr>)"
  have upd: "sessions d' = sessions (update_session i ?f d)"
    using sessions_requeue [OF rq]
    by (auto simp: d' clear_steps_def adopt_start_def update_session_def update_where_def)
  have "binding_kept t (?f t)" if "t \<in> set (sessions d)" "s_ident t = i" for t
  proof -
    have "t = s" using session_in_find [OF inv that(1)] that(2) resumed(1) by simp
    then show ?thesis using ok st by (auto simp: binding_kept_def resume_session_def)
  qed
  then show ?thesis by (rule bindings_kept_update [OF _ upd])
next
  case (created task t)
  then show ?thesis by (force simp: bindings_kept_def)
qed

lemma bindings_expire:
  assumes "pool_inv d" and "find_session d i = Some t" and "s_state t \<noteq> TComplete"
  shows "bindings_kept d (expire d i reason)"
  using assms by (rule bindings_kept_live) (auto simp: binding_kept_def expire_def)

lemma bindings_release:
  assumes inv: "pool_inv d" and rel: "release d i agent state reason = Inr d'"
  shows "bindings_kept d d'"
proof -
  from rel obtain t where t: "find_session d i = Some t"
    by (auto simp: release_def rbind_eq_Inr_iff find_required_def split: option.splits)
  consider "sessions d' = sessions d"
    | x where "s_state t \<noteq> TComplete" "sessions d' = sessions (update_session i
        (\<lambda>s. s\<lparr>s_state := x, s_reason := Some reason, s_review_pending := False\<rparr>) d)"
    using rel t by (auto simp: release_def find_required_def Let_def split: if_splits option.splits)
  then show ?thesis
  proof cases
    case (2 x)
    from inv t 2(1) _ 2(2) show ?thesis by (rule bindings_kept_live) (simp add: binding_kept_def)
  qed (rule bindings_kept_eq)
qed

lemma bindings_command:
  assumes "pool_inv d" and "command_effect v d i c clk d'"
  shows "bindings_kept d d'"
  using assms
  by (cases c)
    (auto intro: bindings_kept_eq sessions_frame sessions_queue bindings_activate bindings_release)

lemma sessions_update_member [simp]: "sessions (update_member i a p f d) = sessions d"
  by (simp add: update_member_def)

lemma sessions_hook_continue:
  assumes "hook_continue d i task ev now = Inr (d', out)"
  shows "sessions d' = sessions d \<or> (\<exists>b. sessions d' = sessions (update_session i (\<lambda>s. s\<lparr>s_review_pending := b\<rparr>) d))"
proof -
  have "sessions (guard_member d i a k) = sessions d \<or>
      (\<exists>b. sessions (guard_member d i a k) = sessions (update_session i (\<lambda>s. s\<lparr>s_review_pending := b\<rparr>) d))" for a k
    by (auto simp: guard_member_def Let_def update_session_def split: option.splits)
  then show ?thesis
    using assms unfolding hook_continue_def Let_def
    by (auto simp: rbind_eq_Inr_iff split: option.splits if_splits)
qed

lemma bindings_hook:
  assumes inv: "pool_inv d" and hk: "hook fmt d h ev now = Inr (d', out)"
  shows "bindings_kept d d'"
proof -
  show ?thesis
    using hk
  proof (cases rule: hook_cases)
    case nothing
    then show ?thesis by (simp add: bindings_kept_eq)
  next
    case (expired i task)
    then show ?thesis using bindings_expire [OF inv expired(2)] by simp
  next
    case (paused i task)
    show ?thesis using inv paused(2)
      by (rule bindings_kept_live) (use paused in \<open>auto simp: binding_kept_def\<close>)
  next
    case (live i task d1)
    then have "sessions d1 = sessions d" using due_evaluations_frame(1) by blast
    moreover from sessions_hook_continue [OF live(5)] have "bindings_kept d1 d'"
    proof
      assume "\<exists>b. sessions d' = sessions (update_session i (\<lambda>s. s\<lparr>s_review_pending := b\<rparr>) d1)"
      then obtain b where "sessions d' = sessions (update_session i (\<lambda>s. s\<lparr>s_review_pending := b\<rparr>) d1)" ..
      then show ?thesis by (rule bindings_kept_update [rotated]) (simp add: binding_kept_def)
    qed (rule bindings_kept_eq)
    ultimately show ?thesis by (simp add: bindings_kept_def)
  qed
qed

lemma bindings_step: "rsi_step d d' \<Longrightarrow> pool_inv d \<Longrightarrow> bindings_kept d d'"
proof (induction rule: rsi_step.induct)
  case (step_command v over d i c clk d' ans)
  then show ?case using bindings_command run_command_effect by blast
next
  case (step_prepare d i a owner status secs did now d' res)
  then show ?case
    by (auto simp: supervisor_prepare_def live_member_def Let_def split: option.splits if_splits prod.splits
        intro: bindings_kept_eq bindings_expire)
qed (auto intro: bindings_hook bindings_kept_eq
    simp: pool_create_def scheduler_heartbeat_def Let_def supervisor_started_def supervisor_failed_def split: if_splits)

lemma bindings_run: "rsi_step\<^sup>*\<^sup>* d d' \<Longrightarrow> pool_inv d \<Longrightarrow> bindings_kept d d'"
proof (induction rule: rtranclp_induct)
  case (step d1 d2)
  then show ?case using bindings_step rsi.steps_inv bindings_kept_trans by blast
qed (simp add: bindings_kept_eq)

section \<open>How a work row evolves\<close>

definition row_kept :: "work_row \<Rightarrow> work_row \<Rightarrow> bool" where
  "row_kept r r' \<longleftrightarrow> work_key r' = work_key r \<and> (w_state r \<in> {Active, Done} \<longrightarrow> r' = r) \<and>
     (w_state r = Cancelled \<longrightarrow> w_state r' = Cancelled)"

definition rows_kept :: "store \<Rightarrow> store \<Rightarrow> bool" where
  "rows_kept d d' \<longleftrightarrow> (\<forall>r \<in> set (work d). \<exists>r' \<in> set (work d'). row_kept r r')"

lemma rows_kept_mono: "set (work d) \<subseteq> set (work d') \<Longrightarrow> rows_kept d d'"
  by (force simp: rows_kept_def row_kept_def)

lemma rows_kept_trans: "rows_kept d d1 \<Longrightarrow> rows_kept d1 d2 \<Longrightarrow> rows_kept d d2"
  unfolding rows_kept_def row_kept_def by metis

lemma rows_kept_update:
  assumes "\<And>r. r \<in> set (work d) \<Longrightarrow> p r \<Longrightarrow> row_kept r (f r)" and "work d' = update_where p f (work d)"
  shows "rows_kept d d'"
  unfolding rows_kept_def
proof
  fix r assume "r \<in> set (work d)"
  then show "\<exists>r' \<in> set (work d'). row_kept r r'"
    using assms(1) [of r]
    by (intro bexI [of _ "if p r then f r else r"]) (auto simp: row_kept_def assms(2) in_update_where)
qed

lemma rows_kept_due: "due_evaluations fmt d i task now = Inr d' \<Longrightarrow> rows_kept d d'"
  using due_evaluations_frame(8) by (fastforce intro: rows_kept_mono)

lemma rows_kept_take_work: "rows_kept d (take_work d i w a)"
  by (rule rows_kept_update [where p = "\<lambda>r. is_work i w r \<and> w_state r = Ready" and f = "claim_row a"])
    (auto simp: row_kept_def claim_row_def work_key_def take_work_def)

lemma rows_kept_cancel_ids:
  assumes "\<And>r. r \<in> set (work d) \<Longrightarrow> w_ident r = i \<Longrightarrow> w_id r \<in> set ids \<Longrightarrow> w_state r \<in> {Ready, Cancelled}"
  shows "rows_kept d (cancel_ids i reason ids d)"
  using assms
proof (induction ids arbitrary: d)
  case (Cons w ids)
  let ?d = "d\<lparr>work := update_where (is_work i w) (cancel_row reason) (work d)\<rparr>"
  have "row_kept r (cancel_row reason r)" if "r \<in> set (work d)" "is_work i w r" for r
    using Cons.prems [OF that(1)] that(2) by (auto simp: row_kept_def cancel_row_def work_key_def is_work_def)
  then have "rows_kept d ?d" by (rule rows_kept_update) auto
  moreover have "rows_kept ?d (cancel_ids i reason ids ?d)"
    using Cons.prems by (intro Cons.IH) (auto simp: in_update_where cancel_row_def split: if_splits)
  ultimately show ?case using rows_kept_trans by (simp add: cancel_ids_def)
qed (simp add: cancel_ids_def rows_kept_mono)

lemma rows_kept_queue_step:
  assumes inv: "pool_inv d" and q: "queue_step d i a ro step now = Inr (d', w)"
  shows "rows_kept d d'"
proof (cases "in_order (filter (\<lambda>r. w_state r = Ready \<and> w_owner r = None \<and> w_previous_owner r = None)
             (legacy_steps d i a))")
  case Nil
  then show ?thesis
    using q by (auto simp: queue_step_def Let_def rbind_eq_Inr_iff intro!: rows_kept_mono dest!: submit_InrD(6))
next
  case (Cons first rest)
  let ?d = "d\<lparr>work := update_where (is_work i (w_id first)) (retarget_row (kind_of_role ro) step) (work d)\<rparr>"
  have state: "w_state r = Ready" if r: "r \<in> set (work d)" "w_ident r = i" "w_id r \<in> set (map w_id (first # rest))" for r
    using pending_rows_ready [OF inv Cons r] .
  then have "row_kept r (retarget_row (kind_of_role ro) step r)" if "r \<in> set (work d)" "is_work i (w_id first) r" for r
    using that by (simp add: row_kept_def retarget_row_def work_key_def is_work_def)
  then have "rows_kept d ?d" by (rule rows_kept_update) auto
  moreover have "rows_kept ?d (cancel_ids i reason (map w_id rest) ?d)" for reason
    using state by (intro rows_kept_cancel_ids) (auto simp: in_update_where retarget_row_def split: if_splits)
  ultimately show ?thesis using q Cons rows_kept_trans by (auto simp: queue_step_def)
qed

lemma work_register: "register d i a ro accepts resp th t = Inr d' \<Longrightarrow> work d' = work d"
  by (auto simp: register_def rbind_eq_Inr_iff)

lemma rows_kept_queue:
  assumes "pool_inv d" and "queue d i a ro step now = Inr (d', w)"
  shows "rows_kept d d'"
  using assms(2)
proof (rule queue_InrE)
  fix d1 assume d1: "register d i a ro (capable d i a) [] [] (now 0) = Inr d1"
    "d' = d1 \<or> queue_step d1 i a ro step (\<lambda>k. now (Suc k)) = Inr (d', w)"
  have "rows_kept d d1" using work_register [OF d1(1)] by (simp add: rows_kept_mono)
  moreover have "pool_inv d1" using pool_inv_register [OF assms(1) d1(1)] .
  ultimately show "rows_kept d d'" using d1(2) rows_kept_queue_step rows_kept_trans by blast
qed

lemma rows_kept_requeue: "requeue ms d i now = Inr d' \<Longrightarrow> pool_inv d \<Longrightarrow> rows_kept d d'"
proof (induction ms arbitrary: d now)
  case (Cons m ms)
  then show ?case
    by (auto simp: rbind_eq_Inr_iff dest: pool_inv_queue rows_kept_queue intro: rows_kept_trans)
qed (simp add: rows_kept_mono)

lemma rows_kept_activate:
  assumes inv: "pool_inv d" and act: "activate res isf d i path dl st now = Inr d'"
  shows "rows_kept d d'"
  using act
proof (cases rule: activate_InrE)
  case (resumed s task)
  let ?d1 = "update_session i resume_session (adopt_start i st d)"
  from resumed(2) obtain d2 where rq: "requeue (queued_members ?d1 i) ?d1 i (\<lambda>k. now (k + 1)) = Inr d2"
    and d': "d' = clear_steps i d2" by (elim resume_task_InrE)
  have "pool_inv ?d1"
    using pool_inv_adopt_start [OF inv] by (rule pool_inv_update_session) (simp add: resume_session_def)
  from rows_kept_requeue [OF rq this] show ?thesis
    by (simp add: d' rows_kept_def clear_steps_def update_session_def adopt_start_def split: if_splits)
qed (simp add: rows_kept_mono)

text \<open>
  An active row is only ever ended by a request that names its owner: a \<open>finish\<close> of that item by the owner, which makes
  it done, or a \<open>handoff\<close> of that item in the owner's name, which makes it ready and records the owner as the previous one.
\<close>

definition ended_by_owner :: "write_request \<Rightarrow> work_row \<Rightarrow> work_row \<Rightarrow> bool" where
  "ended_by_owner l r r' =
     (case l of
        Some (i, CFinish w a result) \<Rightarrow> i = w_ident r \<and> w = w_id r \<and> w_owner r = Some a \<and> w_state r' = Done \<and> w_owner r' = Some a
      | Some (i, CHandoff w a reason from_a) \<Rightarrow>
          i = w_ident r \<and> w = w_id r \<and> w_owner r = Some (named_owner a from_a) \<and>
          w_state r' = Ready \<and> w_owner r' = None \<and> w_previous_owner r' = w_owner r
      | _ \<Rightarrow> False)"

definition row_evolves :: "write_request \<Rightarrow> work_row \<Rightarrow> work_row \<Rightarrow> bool" where
  "row_evolves l r r' \<longleftrightarrow> work_key r' = work_key r \<and>
     (w_state r = Active \<longrightarrow> r' = r \<or> ended_by_owner l r r') \<and>
     (w_state r = Done \<longrightarrow> r' = r) \<and> (w_state r = Cancelled \<longrightarrow> w_state r' = Cancelled)"

definition rows_evolve :: "write_request \<Rightarrow> store \<Rightarrow> store \<Rightarrow> bool" where
  "rows_evolve l d d' \<longleftrightarrow> (\<forall>r \<in> set (work d). \<exists>r' \<in> set (work d'). row_evolves l r r')"

lemma rows_kept_evolve: "rows_kept d d' \<Longrightarrow> rows_evolve l d d'"
  unfolding rows_kept_def rows_evolve_def row_kept_def row_evolves_def by blast

lemma rows_evolve_update:
  assumes "\<And>r. p r \<Longrightarrow> row_evolves l r (f r)" and "work d' = update_where p f (work d)"
  shows "rows_evolve l d d'"
  unfolding rows_evolve_def
proof
  fix r assume "r \<in> set (work d)"
  then show "\<exists>r' \<in> set (work d'). row_evolves l r r'"
    using assms(1) [of r]
    by (intro bexI [of _ "if p r then f r else r"]) (auto simp: row_evolves_def assms(2) in_update_where)
qed

lemma rows_kept_claim:
  assumes "claim fmt d i a now = Inr (d', res)"
  shows "rows_kept d d'"
proof (cases res)
  case None
  then show ?thesis using assms by (auto elim!: claim_NoneE intro: rows_kept_due)
next
  case (Some p)
  then have "claim fmt d i a now = Inr (d', Some (fst p, snd p))" using assms by simp
  then show ?thesis by (rule claim_SomeE) (use rows_kept_due rows_kept_take_work rows_kept_trans in blast)
qed

lemma rows_evolve_command:
  assumes inv: "pool_inv d" and eff: "command_effect v d i c clk d'"
  shows "rows_evolve (Some (i, c)) d d'"
proof (cases c)
  case (CFinish w a result)
  then obtain path where "work d' = update_where (owned_by i w a) (finish_row path) (work d)"
    using eff by (auto simp: finish_def split: option.splits if_splits)
  then show ?thesis
    by (rule rows_evolve_update [rotated]) (auto simp: CFinish row_evolves_def ended_by_owner_def owned_by_def is_work_def finish_row_def work_key_def)
next
  case (CHandoff w a reason from_a)
  then have "work d' = update_where (owned_by i w (named_owner a from_a)) (handoff_row (named_owner a from_a) reason) (work d)"
    using eff by (auto simp: handoff_def Let_def split: if_splits)
  then show ?thesis
    by (rule rows_evolve_update [rotated]) (auto simp: CHandoff row_evolves_def ended_by_owner_def owned_by_def is_work_def handoff_row_def work_key_def)
next
  case (CSchedule interval count)
  then have "work d' = work (withdraw_evaluations i count d)"
    using eff by (auto simp: schedule_def rbind_eq_Inr_iff split: option.splits if_splits)
  moreover have "rows_kept d (withdraw_evaluations i count d)"
  proof (cases "count = 0")
    case True
    show ?thesis
      by (rule rows_kept_update [where p = "\<lambda>r. scheduled_evaluation i r \<and> w_state r = Ready"
            and f = "cancel_row ''Evaluator count is zero''"])
        (auto simp: row_kept_def cancel_row_def work_key_def withdraw_evaluations_def True)
  qed (simp add: withdraw_evaluations_def rows_kept_mono)
  ultimately show ?thesis by (intro rows_kept_evolve) (simp add: rows_kept_def)
next
  case (CRelease agent state reason)
  then have "work d' = work d"
    using eff by (auto simp: release_def rbind_eq_Inr_iff Let_def update_session_def split: option.splits if_splits)
  then show ?thesis by (simp add: rows_kept_evolve rows_kept_mono)
next
  case (CSubmit w k de a t e after exclude)
  then show ?thesis using eff by (auto dest!: submit_InrD(6) intro!: rows_kept_evolve rows_kept_mono)
next
  case (CRegister a ro accepts resp thread)
  then show ?thesis using eff by (auto dest!: work_register intro!: rows_kept_evolve rows_kept_mono)
qed (use inv eff in \<open>auto intro!: rows_kept_evolve intro: rows_kept_mono rows_kept_claim rows_kept_queue
      rows_kept_activate\<close>)

lemma work_update_member [simp]: "work (update_member i a p f d) = work d"
  by (simp add: update_member_def)

lemma work_update_session [simp]: "work (update_session i f d) = work d"
  by (simp add: update_session_def)

lemma work_expire [simp]: "work (expire d i reason) = work d"
  by (simp add: expire_def)

lemma work_guard_member [simp]: "work (guard_member d i a k) = work d"
  by (auto simp: guard_member_def Let_def split: option.splits)

lemma work_hook_continue: "hook_continue d i task ev now = Inr (d', out) \<Longrightarrow> work d' = work d"
  by (auto simp: hook_continue_def Let_def rbind_eq_Inr_iff split: option.splits if_splits)

lemma rows_kept_hook:
  assumes "hook fmt d h ev now = Inr (d', out)"
  shows "rows_kept d d'"
  using assms
proof (cases rule: hook_cases)
  case (live i task d1)
  then have "rows_kept d d1" using rows_kept_due by (auto intro: rows_kept_mono)
  then show ?thesis using work_hook_continue [OF live(5)] by (simp add: rows_kept_def)
qed (simp_all add: rows_kept_mono)

lemma work_prepare: "supervisor_prepare d i a owner status secs did now = (d', res) \<Longrightarrow> work d' = work d"
  by (auto simp: supervisor_prepare_def Let_def split: option.splits if_splits prod.splits)

lemma rows_evolve_write: "rsi_write l d d' \<Longrightarrow> pool_inv d \<Longrightarrow> rows_evolve l d d'"
proof (induction rule: rsi_write.induct)
  case (write_open d)
  have "rows_kept d (pool_create d)"
    by (rule rows_kept_update [where p = "\<lambda>r. w_state r = Ready \<and> w_owner r \<noteq> None" and f = disown_row])
      (auto simp: row_kept_def disown_row_def work_key_def pool_create_def)
  then show ?case by (rule rows_kept_evolve)
next
  case (write_command v over d i c clk d' ans)
  then show ?case using rows_evolve_command run_command_effect by blast
next
  case (write_hook fmt d h ev now d' out)
  then show ?case by (simp add: rows_kept_evolve rows_kept_hook)
next
  case (write_heartbeat d i owner st err now d')
  then show ?case
    by (auto simp: scheduler_heartbeat_def Let_def split: if_splits intro!: rows_kept_evolve rows_kept_mono)
next
  case (write_prepare d i a owner status secs did now d' res)
  from work_prepare [OF write_prepare(1)] show ?case by (simp add: rows_kept_evolve rows_kept_mono)
qed (auto simp: supervisor_started_def supervisor_failed_def intro!: rows_kept_evolve rows_kept_mono)

section \<open>Released members own nothing\<close>

definition idle_member :: "member_row \<Rightarrow> bool" where
  "idle_member m \<longleftrightarrow> m_state m \<in> {Waiting, MDone, MFailed}"

definition owns_active :: "store \<Rightarrow> ident \<Rightarrow> string \<Rightarrow> bool" where
  "owns_active d i a \<longleftrightarrow> (\<exists>r \<in> set (work d). w_ident r = i \<and> w_state r = Active \<and> w_owner r = Some a)"

definition idle_ok :: "store \<Rightarrow> bool" where
  "idle_ok d \<longleftrightarrow> (\<forall>m \<in> set (members d). idle_member m \<longrightarrow> \<not> owns_active d (m_ident m) (m_agent m))"

definition no_new_idle :: "store \<Rightarrow> store \<Rightarrow> bool" where
  "no_new_idle d d' \<longleftrightarrow>
     (\<forall>m' \<in> set (members d'). idle_member m' \<longrightarrow> (\<exists>m \<in> set (members d). member_key m = member_key m' \<and> idle_member m))"

definition no_new_owner :: "store \<Rightarrow> store \<Rightarrow> bool" where
  "no_new_owner d d' \<longleftrightarrow> (\<forall>i a. owns_active d' i a \<longrightarrow> owns_active d i a)"

lemma idle_ok_mono: "idle_ok d \<Longrightarrow> no_new_idle d d' \<Longrightarrow> no_new_owner d d' \<Longrightarrow> idle_ok d'"
  unfolding idle_ok_def no_new_idle_def no_new_owner_def member_key_def by (metis prod.inject)

lemma no_new_refl: "members d' = members d \<Longrightarrow> no_new_idle d d'" "work d' = work d \<Longrightarrow> no_new_owner d d'"
  by (auto simp: no_new_idle_def no_new_owner_def owns_active_def)

lemma no_new_trans:
  "no_new_idle d d1 \<Longrightarrow> no_new_idle d1 d2 \<Longrightarrow> no_new_idle d d2"
  "no_new_owner d d1 \<Longrightarrow> no_new_owner d1 d2 \<Longrightarrow> no_new_owner d d2"
  unfolding no_new_idle_def no_new_owner_def by metis+

lemma no_new_idle_update:
  assumes "members d' = update_where p f (members d)"
    and "\<And>m. p m \<Longrightarrow> idle_member (f m) \<Longrightarrow> member_key (f m) = member_key m \<and> idle_member m"
  shows "no_new_idle d d'"
  unfolding no_new_idle_def
proof (intro ballI impI)
  fix m' assume m': "m' \<in> set (members d')" "idle_member m'"
  then obtain m where "m \<in> set (members d)" "m' = (if p m then f m else m)"
    by (auto simp: assms(1) in_update_where)
  then show "\<exists>m \<in> set (members d). member_key m = member_key m' \<and> idle_member m"
    using assms(2) [of m] m'(2) by (intro bexI [of _ m]) (auto split: if_splits)
qed

lemma no_new_owner_update:
  assumes "work d' = update_where p f (work d)"
    and "\<And>r. p r \<Longrightarrow> w_state (f r) = Active \<Longrightarrow> w_ident (f r) = w_ident r \<and> w_state r = Active \<and> w_owner (f r) = w_owner r"
  shows "no_new_owner d d'"
  unfolding no_new_owner_def owns_active_def
proof (intro allI impI)
  fix i a assume "\<exists>r \<in> set (work d'). w_ident r = i \<and> w_state r = Active \<and> w_owner r = Some a"
  then obtain r where r: "r \<in> set (work d)" "w_ident (if p r then f r else r) = i"
    "w_state (if p r then f r else r) = Active" "w_owner (if p r then f r else r) = Some a"
    by (auto simp: assms(1) in_update_where)
  then show "\<exists>r \<in> set (work d). w_ident r = i \<and> w_state r = Active \<and> w_owner r = Some a"
    using assms(2) [of r] by (intro bexI [of _ r]) (auto split: if_splits)
qed

lemma no_new_owner_append:
  "work d' = work d @ rows \<Longrightarrow> (\<And>r. r \<in> set rows \<Longrightarrow> w_state r \<noteq> Active) \<Longrightarrow> no_new_owner d d'"
  by (auto simp: no_new_owner_def owns_active_def)

lemma no_new_idle_register: "register d i a ro accepts resp th t = Inr d' \<Longrightarrow> no_new_idle d d'"
proof -
  assume "register d i a ro accepts resp th t = Inr d'"
  then have ms: "members d' = upsert_member (new_member i a ro (default_responsibility ro resp) th) (members d)"
    by (auto simp: register_def rbind_eq_Inr_iff)
  show ?thesis
  proof (cases "\<exists>m \<in> set (members d). member_key m = member_key (new_member i a ro (default_responsibility ro resp) th)")
    case True
    then show ?thesis
      using ms by (intro no_new_idle_update [where f = "reregister (new_member i a ro (default_responsibility ro resp) th)"])
        (auto simp: upsert_member_def idle_member_def reregister_def)
  next
    case False
    then show ?thesis using ms by (force simp: upsert_member_def no_new_idle_def idle_member_def new_member_def)
  qed
qed

lemma no_new_owner_submit: "submit d i w k de a t e after exclude now = Inr d' \<Longrightarrow> no_new_owner d d'"
  by (rule no_new_owner_append [where rows = "[new_work i w k de a t e (now 1)]"])
    (auto dest: submit_InrD(6) simp: new_work_def)

lemma members_submit: "submit d i w k de a t e after exclude now = Inr d' \<Longrightarrow> members d' = members d"
  by (auto dest: submit_InrD(6))

lemma idle_due: "due_evaluations fmt d i task now = Inr d' \<Longrightarrow> idle_ok d \<Longrightarrow> idle_ok d'"
proof -
  assume due: "due_evaluations fmt d i task now = Inr d'" and ok: "idle_ok d"
  from due_evaluations_frame(8) [OF due] obtain rows where rows: "work d' = work d @ rows"
    "\<forall>r \<in> set rows. scheduled_evaluation i r \<and> w_state r = Ready" by blast
  have "no_new_owner d d'" by (rule no_new_owner_append [OF rows(1)]) (simp add: rows(2))
  then show ?thesis using idle_ok_mono [OF ok no_new_refl(1) [OF due_evaluations_frame(2) [OF due]]] by simp
qed

lemma idle_take_work:
  assumes ok: "idle_ok d"
  shows "idle_ok (take_work d i w a)"
  unfolding idle_ok_def
proof (intro ballI impI)
  fix m assume m: "m \<in> set (members (take_work d i w a))" "idle_member m"
  from m(1) obtain m0 where m0: "m0 \<in> set (members d)" "m = (if is_member i a m0 then m0\<lparr>m_state := Working\<rparr> else m0)"
    by (auto simp: take_work_def in_update_where)
  have "\<not> is_member i a m0" using m0(2) m(2) by (auto simp: idle_member_def)
  then have old: "m \<in> set (members d)" "\<not> is_member i a m" using m0 by simp_all
  then have none: "\<not> owns_active d (m_ident m) (m_agent m)" using ok m(2) by (simp add: idle_ok_def)
  show "\<not> owns_active (take_work d i w a) (m_ident m) (m_agent m)"
  proof
    assume "owns_active (take_work d i w a) (m_ident m) (m_agent m)"
    then obtain r where r: "r \<in> set (work (take_work d i w a))" "w_ident r = m_ident m" "w_state r = Active"
      "w_owner r = Some (m_agent m)" by (auto simp: owns_active_def)
    then obtain r0 where r0: "r0 \<in> set (work d)" "r = (if is_work i w r0 \<and> w_state r0 = Ready then claim_row a r0 else r0)"
      by (auto simp: take_work_def in_update_where)
    show False
    proof (cases "is_work i w r0 \<and> w_state r0 = Ready")
      case True
      then show False using r r0(2) old(2) by (simp add: claim_row_def is_member_def is_work_def)
    next
      case False
      then have "r = r0" using r0(2) by (auto split: if_splits)
      then show False using r r0(1) none unfolding owns_active_def by blast
    qed
  qed
qed

lemma idle_claim:
  assumes "idle_ok d" and "claim fmt d i a now = Inr (d', res)"
  shows "idle_ok d'"
proof (cases res)
  case None
  then show ?thesis using assms by (auto elim!: claim_NoneE intro: idle_due)
next
  case (Some p)
  then have "claim fmt d i a now = Inr (d', Some (fst p, snd p))" using assms by simp
  then show ?thesis by (rule claim_SomeE) (use idle_due idle_take_work assms(1) in blast)
qed

lemma cancel_ids_members [simp]: "members (cancel_ids i reason ids d) = members d"
proof (induction ids arbitrary: d)
  case (Cons w ids)
  then show ?case by (simp add: cancel_ids_def)
qed (simp add: cancel_ids_def)

lemma no_new_owner_cancel_ids: "no_new_owner d (cancel_ids i reason ids d)"
proof (induction ids arbitrary: d)
  case (Cons w ids)
  have "no_new_owner d (d\<lparr>work := update_where (is_work i w) (cancel_row reason) (work d)\<rparr>)"
    by (rule no_new_owner_update [where p = "is_work i w" and f = "cancel_row reason"]) (auto simp: cancel_row_def)
  with Cons.IH no_new_trans(2) show ?case by (fastforce simp: cancel_ids_def)
qed (simp add: cancel_ids_def no_new_refl)

lemma idle_queue_step:
  assumes ok: "idle_ok d" and q: "queue_step d i a ro step now = Inr (d', w)"
  shows "idle_ok d'"
proof (cases "in_order (filter (\<lambda>r. w_state r = Ready \<and> w_owner r = None \<and> w_previous_owner r = None)
             (legacy_steps d i a))")
  case Nil
  then show ?thesis
    using q ok by (auto simp: queue_step_def Let_def rbind_eq_Inr_iff
        intro: idle_ok_mono no_new_refl members_submit no_new_owner_submit)
next
  case (Cons first rest)
  let ?d = "d\<lparr>work := update_where (is_work i (w_id first)) (retarget_row (kind_of_role ro) step) (work d)\<rparr>"
  have "no_new_owner d ?d"
    by (rule no_new_owner_update [where p = "is_work i (w_id first)" and f = "retarget_row (kind_of_role ro) step"])
      (auto simp: retarget_row_def)
  then have owner: "no_new_owner d (cancel_ids i reason ids ?d)" for reason ids
    using no_new_owner_cancel_ids no_new_trans(2) by blast
  have "no_new_idle d (cancel_ids i reason ids ?d)" for reason ids
    by (rule no_new_refl) simp
  from idle_ok_mono [OF ok this owner] show ?thesis using q Cons by (auto simp: queue_step_def)
qed

lemma idle_queue:
  assumes "idle_ok d" and "queue d i a ro step now = Inr (d', w)"
  shows "idle_ok d'"
  using assms(2)
proof (rule queue_InrE)
  fix d1 assume d1: "register d i a ro (capable d i a) [] [] (now 0) = Inr d1"
    "d' = d1 \<or> queue_step d1 i a ro step (\<lambda>k. now (Suc k)) = Inr (d', w)"
  have "idle_ok d1"
    using assms(1) no_new_idle_register [OF d1(1)] no_new_refl(2) [OF work_register [OF d1(1)]] by (rule idle_ok_mono)
  then show "idle_ok d'" using d1(2) idle_queue_step by blast
qed

lemma idle_requeue: "requeue ms d i now = Inr d' \<Longrightarrow> idle_ok d \<Longrightarrow> idle_ok d'"
proof (induction ms arbitrary: d now)
  case (Cons m ms)
  then show ?case by (auto simp: rbind_eq_Inr_iff dest: idle_queue)
qed simp

lemma idle_ok_same_tables: "members d' = members d \<Longrightarrow> work d' = work d \<Longrightarrow> idle_ok d' = idle_ok d"
  by (simp add: idle_ok_def owns_active_def)

lemma idle_ok_update_members:
  assumes "idle_ok d" and "members d' = update_where p f (members d)" and "work d' = work d"
    and "\<And>m. p m \<Longrightarrow> idle_member (f m) \<Longrightarrow> member_key (f m) = member_key m \<and> idle_member m"
  shows "idle_ok d'"
  using idle_ok_mono [OF assms(1) no_new_idle_update [OF assms(2,4)] no_new_refl(2) [OF assms(3)]] by simp

lemma idle_activate:
  assumes ok: "idle_ok d" and act: "activate res isf d i path dl st now = Inr d'"
  shows "idle_ok d'"
  using act
proof (cases rule: activate_InrE)
  case (resumed s task)
  let ?d1 = "update_session i resume_session (adopt_start i st d)"
  from resumed(2) obtain d2 where rq: "requeue (queued_members ?d1 i) ?d1 i (\<lambda>k. now (k + 1)) = Inr d2"
    and d': "d' = clear_steps i d2" by (elim resume_task_InrE)
  have "idle_ok ?d1 = idle_ok d" by (rule idle_ok_same_tables) (simp_all add: adopt_start_def)
  then have "idle_ok d2" using idle_requeue [OF rq] ok by simp
  then show ?thesis
    unfolding d' clear_steps_def
    by (rule idle_ok_update_members [where p = "\<lambda>m. m_ident m = i" and f = "\<lambda>m. m\<lparr>m_next_step := None\<rparr>"])
      (auto simp: idle_member_def member_key_def)
next
  case (created task t)
  have "idle_ok d' = idle_ok d" by (rule idle_ok_same_tables) (simp_all add: created(3))
  then show ?thesis using ok by simp
qed

lemma m_state_update_rows [simp]:
  "m_state (retire_member m) = m_state m" "m_state (drop_lease m) = m_state m"
  "m_state (lease_row sv t di m) = m_state m" "m_state (started_row t tu m) = m_state m"
  "m_state (failed_row e m) = m_state m"
  "m_agent (retire_member m) = m_agent m" "m_agent (drop_lease m) = m_agent m"
  "m_agent (lease_row sv t di m) = m_agent m" "m_agent (started_row t tu m) = m_agent m"
  "m_agent (failed_row e m) = m_agent m"
  by (simp_all add: retire_member_def drop_lease_def lease_row_def started_row_def failed_row_def)

lemma idle_expire: "idle_ok d \<Longrightarrow> idle_ok (expire d i reason)"
  by (erule idle_ok_update_members [where p = "\<lambda>m. m_ident m = i"
        and f = "\<lambda>m. retire_member (m\<lparr>m_state := MExpired, m_reason := Some reason\<rparr>)"])
    (auto simp: expire_def idle_member_def update_session_def)

lemma idle_update_member:
  "idle_ok d \<Longrightarrow> (\<And>m. m_state (f m) = m_state m \<and> member_key (f m) = member_key m) \<Longrightarrow> idle_ok (update_member i a p f d)"
  unfolding update_member_def
  by (erule idle_ok_update_members [where p = "\<lambda>m. is_member i a m \<and> p m" and f = f]) (auto simp: idle_member_def)

lemma idle_update_session: "idle_ok (update_session i f d) = idle_ok d"
  by (rule idle_ok_same_tables) simp_all

lemma idle_close_task:
  assumes "idle_ok d" and "\<And>m. m_state (g m) = m_state m \<and> member_key (g m) = member_key m"
  shows "idle_ok ((update_session i f d)\<lparr>members := update_where p g (members d)\<rparr>)"
  using assms(1)
  by (rule idle_ok_update_members [where p = p and f = g]) (use assms(2) in \<open>auto simp: idle_member_def\<close>)

lemma idle_release:
  assumes ok: "idle_ok d" and rel: "release d i agent state reason = Inr d'"
  shows "idle_ok d'"
proof (cases "truthy agent \<and> d' \<noteq> d")
  case True
  with rel obtain ms where none: "owned_active d i (the agent) = []"
    and d': "d' = d\<lparr>members := update_where (is_member i (the agent))
                (\<lambda>m. retire_member (m\<lparr>m_state := ms, m_reason := Some reason\<rparr>)) (members d)\<rparr>"
    by (auto simp: release_def rbind_eq_Inr_iff Let_def split: if_splits option.splits)
  have free: "\<not> owns_active d i (the agent)"
    using none by (auto simp: owns_active_def owned_active_def filter_empty_conv)
  show ?thesis
    unfolding idle_ok_def
  proof (intro ballI impI)
    fix m assume m: "m \<in> set (members d')" "idle_member m"
    then obtain m0 where m0: "m0 \<in> set (members d)" "m = (if is_member i (the agent) m0
        then retire_member (m0\<lparr>m_state := ms, m_reason := Some reason\<rparr>) else m0)"
      by (auto simp: d' in_update_where)
    have "owns_active d' (m_ident m) (m_agent m) = owns_active d (m_ident m) (m_agent m)"
      by (simp add: d' owns_active_def)
    then show "\<not> owns_active d' (m_ident m) (m_agent m)"
      using m m0 free ok by (cases "is_member i (the agent) m0") (auto simp: is_member_def idle_ok_def)
  qed
next
  case False
  then show ?thesis
    using ok rel
    by (auto simp: release_def rbind_eq_Inr_iff Let_def member_key_update split: if_splits option.splits
        intro!: idle_close_task)
qed

lemma idle_command:
  assumes ok: "idle_ok d" and eff: "command_effect v d i c clk d'"
  shows "idle_ok d'"
proof (cases c)
  case (CRegister a ro accepts resp thread)
  then show ?thesis
    using ok eff no_new_idle_register no_new_refl(2) [OF work_register] idle_ok_mono by auto
next
  case (CSubmit w k de a t e after exclude)
  then show ?thesis
    using ok eff idle_ok_mono [OF ok no_new_refl(1) [OF members_submit] no_new_owner_submit] by auto
next
  case (CFinish w a result)
  then obtain path where d': "d' = d\<lparr>work := update_where (owned_by i w a) (finish_row path) (work d)\<rparr>"
    using eff by (auto simp: finish_def split: option.splits if_splits)
  have "no_new_owner d d'"
    by (rule no_new_owner_update [where p = "owned_by i w a" and f = "finish_row path"]) (auto simp: d' finish_row_def)
  then show ?thesis using idle_ok_mono [OF ok no_new_refl(1)] by (simp add: d')
next
  case (CHandoff w a reason from_a)
  let ?p = "named_owner a from_a"
  have d': "d' = d\<lparr>work := update_where (owned_by i w ?p) (handoff_row ?p reason) (work d)\<rparr>"
    using eff CHandoff by (auto simp: handoff_def Let_def split: if_splits)
  have "no_new_owner d d'"
    by (rule no_new_owner_update [where p = "owned_by i w ?p" and f = "handoff_row ?p reason"])
      (auto simp: d' handoff_row_def)
  then show ?thesis using idle_ok_mono [OF ok no_new_refl(1)] by (simp add: d')
next
  case (CSchedule interval count)
  then have d': "work d' = work (withdraw_evaluations i count d)" "members d' = members d"
    using eff by (auto simp: schedule_def rbind_eq_Inr_iff withdraw_evaluations_def split: option.splits if_splits)
  have "no_new_owner d d'"
    by (rule no_new_owner_update [where p = "\<lambda>r. count = 0 \<and> scheduled_evaluation i r \<and> w_state r = Ready"
          and f = "cancel_row ''Evaluator count is zero''"])
      (auto simp: d' withdraw_evaluations_def cancel_row_def update_where_def)
  then show ?thesis using idle_ok_mono [OF ok no_new_refl(1)] d'(2) by simp
qed (use ok eff in \<open>auto intro: idle_claim idle_queue idle_activate idle_release\<close>)

lemma idle_hook_continue:
  assumes ok: "idle_ok d" and hc: "hook_continue d i task ev now = Inr (d', out)"
  shows "idle_ok d'"
proof -
  have guard: "idle_ok (guard_member d i a k)" for a k
    using ok unfolding guard_member_def Let_def
    by (auto split: option.splits simp: idle_update_session member_key_update intro!: idle_update_member)
  show ?thesis
    using ok guard hc unfolding hook_continue_def Let_def
    by (auto intro!: idle_close_task idle_update_member simp: member_key_update rbind_eq_Inr_iff
        split: option.splits if_splits)
qed

lemma idle_hook:
  assumes ok: "idle_ok d" and hk: "hook fmt d h ev now = Inr (d', out)"
  shows "idle_ok d'"
  using hk
proof (cases rule: hook_cases)
  case (live i task d1)
  then have "idle_ok d1" using ok idle_due by blast
  then show ?thesis using live(5) by (rule idle_hook_continue)
qed (use ok in \<open>simp_all add: idle_expire idle_update_session\<close>)

lemma idle_step: "rsi_step d d' \<Longrightarrow> idle_ok d \<Longrightarrow> idle_ok d'"
proof (induction rule: rsi_step.induct)
  case (step_open d)
  have "no_new_owner d (pool_create d)"
    by (rule no_new_owner_update [where p = "\<lambda>r. w_state r = Ready \<and> w_owner r \<noteq> None" and f = disown_row])
      (auto simp: pool_create_def disown_row_def)
  then show ?case using idle_ok_mono [OF step_open no_new_refl(1)] by (simp add: pool_create_def)
next
  case (step_command v over d i c clk d' ans)
  then show ?case using idle_command run_command_effect by blast
next
  case (step_heartbeat d i owner st err now d')
  then have "members d' = members d" "work d' = work d"
    by (auto simp: scheduler_heartbeat_def Let_def split: if_splits)
  with idle_ok_same_tables [OF this] step_heartbeat(2) show ?case by simp
next
  case (step_prepare d i a owner status secs did now d' res)
  then show ?case
    by (auto simp: supervisor_prepare_def Let_def member_key_update split: option.splits if_splits prod.splits
        intro!: idle_expire idle_update_member)
next
  case (step_started d i a owner did turn secs now d' ok)
  then show ?case by (auto simp: supervisor_started_def member_key_update intro!: idle_update_member)
next
  case (step_failed d i a owner did err d' ok)
  then show ?case by (auto simp: supervisor_failed_def member_key_update intro!: idle_update_member)
qed (auto intro: idle_hook)

lemma idle_ok_empty: "fresh_store d \<Longrightarrow> idle_ok d"
  by (simp add: fresh_store_def empty_store_def idle_ok_def)

interpretation idle: inductive_invariant fresh_store rsi_step idle_ok
  by unfold_locales (auto intro: idle_step idle_ok_empty)

section \<open>Dispatch leases exclude each other\<close>

lemma is_member_rows [simp]:
  "is_member i a (lease_row sv t did m) = is_member i a m"
  "is_member i a (started_row t turn m) = is_member i a m"
  "is_member i a (failed_row e m) = is_member i a m"
  by (simp_all add: is_member_def lease_row_def started_row_def failed_row_def)

lemma find_member_update:
  "(\<And>m. is_member i a (f m) = is_member i a m) \<Longrightarrow>
   find_member (update_member i a p f d) i a = map_option (\<lambda>m. if p m then f m else m) (find_member d i a)"
  unfolding find_member_def update_member_def by (simp add: find_update_where)

lemma has_member_iff:
  assumes "pool_inv d"
  shows "has_member i a p d \<longleftrightarrow> (\<exists>m. find_member d i a = Some m \<and> p m)"
proof
  assume "has_member i a p d"
  then obtain m where m: "m \<in> set (members d)" "is_member i a m" "p m" by (auto simp: has_member_def)
  have "find (\<lambda>x. member_key x = member_key m) (members d) = Some m"
    using find_keyI [OF pool_inv_keysD(2) [OF assms] m(1)] .
  moreover have "(\<lambda>x. member_key x = member_key m) = is_member i a"
    using m(2) by (auto simp: fun_eq_iff member_key_def is_member_def)
  ultimately show "\<exists>m. find_member d i a = Some m \<and> p m" using m(3) by (auto simp: find_member_def)
next
  assume "\<exists>m. find_member d i a = Some m \<and> p m"
  then show "has_member i a p d" using find_in by (fastforce simp: find_member_def has_member_def)
qed

lemma update_member_none: "\<not> has_member i a p d \<Longrightarrow> update_member i a p f d = d"
  by (simp add: has_member_def update_member_def update_where_none)

lemma prepare_SomeE:
  assumes "pool_inv d" and "supervisor_prepare d i a sv status secs did now = (d', Some p)"
  obtains m s where "live_member d i a = Some (m, s)" "truthy (m_thread_id m)"
    "\<not> deadline_passed (s_deadline s) now" "status \<in> {''idle'', ''notLoaded''}" "\<not> turn_in_flight now m"
    "lease_free now m" "find_member d i a = Some m"
    "d' = update_member i a (lease_free now) (lease_row sv (now + secs) did) d"
    "find_member d' i a = Some (lease_row sv (now + secs) did m)"
proof -
  from assms(2) obtain m s where ms: "live_member d i a = Some (m, s)" "truthy (m_thread_id m)"
    "\<not> deadline_passed (s_deadline s) now" "status \<in> {''idle'', ''notLoaded''}" "\<not> turn_in_flight now m"
    "has_member i a (lease_free now) d"
    and d': "d' = update_member i a (lease_free now) (lease_row sv (now + secs) did) d"
    by (auto simp: supervisor_prepare_def Let_def split: option.splits if_splits prod.splits)
  have fm: "find_member d i a = Some m"
    using ms(1) by (auto simp: live_member_def split: option.splits if_splits)
  then have free: "lease_free now m" using ms(6) has_member_iff [OF assms(1)] by auto
  then have "find_member d' i a = Some (lease_row sv (now + secs) did m)"
    unfolding d' by (simp add: find_member_update fm)
  with ms d' fm free show thesis by (intro that) auto
qed

lemma prepare_refused:
  assumes "pool_inv d" and "find_member d i a = Some m" and "\<not> lease_free now m \<or> turn_in_flight now m"
  shows "snd (supervisor_prepare d i a sv status secs did now) = None"
proof (cases "snd (supervisor_prepare d i a sv status secs did now)")
  case (Some p)
  then have "supervisor_prepare d i a sv status secs did now = (fst (supervisor_prepare d i a sv status secs did now), Some p)"
    by (metis prod.collapse)
  from prepare_SomeE [OF assms(1) this] assms(2,3) show ?thesis by (metis option.inject)
qed

lemma pool_inv_started: "pool_inv d \<Longrightarrow> supervisor_started d i a sv did turn secs now = (d', ok) \<Longrightarrow> pool_inv d'"
  using pool_inv_step step_started by blast

section \<open>Scripts of commands\<close>

text \<open>A sequence of commands of one task; a command that raises leaves the store as it was.\<close>

fun run_all :: "env \<Rightarrow> ident \<Rightarrow> (nat \<Rightarrow> clock) \<Rightarrow> command list \<Rightarrow> store \<Rightarrow> store" where
  "run_all v i clk [] d = d"
| "run_all v i clk (c # cs) d =
     run_all v i clk cs (case run_command v True d i c clk of Inl _ \<Rightarrow> d | Inr (d', _) \<Rightarrow> d')"

lemma run_all_reachable:
  "reachable fresh_store rsi_step d \<Longrightarrow> reachable fresh_store rsi_step (run_all v i clk cs d)"
proof (induction cs arbitrary: d)
  case (Cons c cs)
  then show ?case
    by (auto split: sum.splits prod.splits intro!: Cons.IH intro: reach_step step_command)
qed simp

definition demo_env :: env where
  "demo_env = \<lparr>env_fmt = (\<lambda>_. ''t''), env_resolve = Some, env_is_file = (\<lambda>_. True)\<rparr>"

definition demo_run :: store where
  "demo_run = run_all demo_env demo_ident (\<lambda>_ _. 1)
     [CActivate ''task.md'' (Some 100) None, CRegister ''ann'' Worker [] ''own'' ''t1'',
      CSubmit ''w1'' KWorker ''build'' ''lead'' '''' '''' [] [],
      CSubmit ''w2'' KWorker ''measure'' ''lead'' '''' '''' [''w1''] [], CClaim ''ann'',
      CRegister ''bob'' Worker [] ''own'' ''t2'', CRelease (Some ''bob'') RWaiting ''blocked''] empty_store"

lemma demo_run_reachable: "reachable fresh_store rsi_step demo_run"
  unfolding demo_run_def by (intro run_all_reachable reach_start) (simp add: fresh_store_def)

lemma demo_run_inv: "pool_inv demo_run"
  by (rule rsi.reachable_inv [OF demo_run_reachable])

section \<open>Properties of the coordination store\<close>

text \<open>C1: In every store the commands, hooks and scheduler can produce, a work identifier names one row, an
  active row has exactly one owner, who is recorded among its participants, and a ready row has none.\<close>

theorem reachable_single_owner:
  assumes "reachable fresh_store rsi_step d" and "r \<in> set (work d)" and "q \<in> set (work d)"
  shows "(work_key r = work_key q \<longrightarrow> r = q) \<and> (w_state r = Ready \<longrightarrow> w_owner r = None) \<and>
    (w_state r = Active \<longrightarrow> (\<exists>!a. w_owner r = Some a \<and> (w_ident r, w_id r, a) \<in> set (participants d)))"
proof -
  have inv: "pool_inv d" using assms(1) by (rule rsi.reachable_inv)
  then have "owner_ok d r" using assms(2) by (simp add: pool_inv_def owners_ok_def)
  then show ?thesis
    using distinct_key_eq [OF pool_inv_keysD(1) [OF inv] assms(2,3)] by (auto simp: owner_ok_def)
qed

theorem reachable_single_owner_witness:
  "\<exists>r \<in> set (work demo_run). w_state r = Active \<and>
     (\<exists>!a. w_owner r = Some a \<and> (w_ident r, w_id r, a) \<in> set (participants demo_run))"
proof -
  have "\<exists>r \<in> set (work demo_run). w_state r = Active" by code_simp
  then show ?thesis using reachable_single_owner [OF demo_run_reachable] by blast
qed

text \<open>C23: In every reachable store the dependency graph of each task has no cycle, every dependency refers to
  an existing item, and no item is active or done before all of its dependencies are done.\<close>

theorem reachable_inputs_first:
  assumes "reachable fresh_store rsi_step d"
  shows "acyclic (set (edges d i)) \<and>
    (\<forall>(w, p) \<in> set (edges d i). work_exists d i w \<and> work_exists d i p) \<and>
    (\<forall>r \<in> set (work d). w_state r \<in> {Active, Done} \<longrightarrow> dependencies_done d r)"
  using rsi.reachable_inv [OF assms]
  by (auto simp: pool_inv_def graph_ok_def references_ok_def inputs_ok_def in_edges)

theorem reachable_inputs_first_witness:
  "(''w2'', ''w1'') \<in> set (edges demo_run demo_ident) \<and> acyclic (set (edges demo_run demo_ident))"
proof
  show "(''w2'', ''w1'') \<in> set (edges demo_run demo_ident)" by code_simp
  show "acyclic (set (edges demo_run demo_ident))" using reachable_inputs_first [OF demo_run_reachable] by blast
qed

text \<open>C5: No write of any kind takes active work away from its owner. After one more write the row is unchanged, or the
  write is a finish of that item by its owner, who stays its owner, or a handoff of that item in its owner's name, who is
  recorded as the previous one. A finish or handoff by anyone else, a claim, a hook and every scheduler operation leave
  it as it is. Done work is never changed again and cancelled work is never revived.\<close>

theorem active_work_not_stolen:
  assumes "reachable fresh_store rsi_step d" and "rsi_write l d d'" and "r \<in> set (work d)"
  shows "\<exists>r' \<in> set (work d'). work_key r' = work_key r \<and>
     (w_state r = Active \<longrightarrow> r' = r \<or> ended_by_owner l r r') \<and>
     (w_state r = Done \<longrightarrow> r' = r) \<and> (w_state r = Cancelled \<longrightarrow> w_state r' = Cancelled)"
  using rows_evolve_write [OF assms(2) rsi.reachable_inv [OF assms(1)]] assms(3)
  unfolding rows_evolve_def row_evolves_def by blast

definition demo_finish :: "store \<times> answer" where
  "demo_finish = projr (run_command demo_env False demo_run demo_ident (CFinish ''w1'' ''ann'' ''out.md'') (\<lambda>_ _. 2))"

definition demo_owned :: work_row where
  "demo_owned = the (find (is_work demo_ident ''w1'') (work demo_run))"

text \<open>The owner of \<open>w1\<close> finishes it. Another member's finish of the same item is refused.\<close>

theorem active_work_not_stolen_witness:
  "w_state demo_owned = Active \<and> w_owner demo_owned = Some ''ann'' \<and>
   (\<exists>r' \<in> set (work (fst demo_finish)). work_key r' = work_key demo_owned \<and>
      (r' = demo_owned \<or> ended_by_owner (Some (demo_ident, CFinish ''w1'' ''ann'' ''out.md'')) demo_owned r')) \<and>
   demo_owned \<notin> set (work (fst demo_finish)) \<and>
   run_command demo_env False demo_run demo_ident (CFinish ''w1'' ''bob'' ''out.md'') (\<lambda>_ _. 2) = Inl NotActiveOwner"
proof -
  have owned: "w_state demo_owned = Active" "w_owner demo_owned = Some ''ann''" "demo_owned \<in> set (work demo_run)"
    by code_simp+
  have "run_command demo_env False demo_run demo_ident (CFinish ''w1'' ''ann'' ''out.md'') (\<lambda>_ _. 2) =
      Inr (fst demo_finish, snd demo_finish)"
    by code_simp
  from active_work_not_stolen [OF demo_run_reachable write_command [OF this] owned(3)]
  have "\<exists>r' \<in> set (work (fst demo_finish)). work_key r' = work_key demo_owned \<and>
      (r' = demo_owned \<or> ended_by_owner (Some (demo_ident, CFinish ''w1'' ''ann'' ''out.md'')) demo_owned r')"
    using owned(1) by blast
  moreover have "demo_owned \<notin> set (work (fst demo_finish))" by code_simp
  moreover have "run_command demo_env False demo_run demo_ident (CFinish ''w1'' ''bob'' ''out.md'') (\<lambda>_ _. 2) = Inl NotActiveOwner"
    by code_simp
  ultimately show ?thesis using owned by blast
qed

text \<open>C26: A member that was released as waiting, done or failed owns no active work, in every reachable store.\<close>

theorem released_members_own_nothing:
  assumes "reachable fresh_store rsi_step d" and "m \<in> set (members d)" and "m_state m \<in> {Waiting, MDone, MFailed}"
    and "r \<in> set (work d)" and "w_ident r = m_ident m" and "w_state r = Active"
  shows "w_owner r \<noteq> Some (m_agent m)"
  using idle.reachable_inv [OF assms(1)] assms(2-) unfolding idle_ok_def idle_member_def owns_active_def by blast

theorem released_members_own_nothing_witness:
  "\<exists>m \<in> set (members demo_run). \<exists>r \<in> set (work demo_run). m_state m \<in> {Waiting, MDone, MFailed} \<and>
     w_ident r = m_ident m \<and> w_state r = Active \<and> w_owner r \<noteq> Some (m_agent m)"
proof -
  have "\<exists>m \<in> set (members demo_run). \<exists>r \<in> set (work demo_run). m_state m = Waiting \<and>
     w_ident r = m_ident m \<and> w_state r = Active" by code_simp
  then show ?thesis using released_members_own_nothing [OF demo_run_reachable] by blast
qed

text \<open>Whatever happens to a task later, its file and its original deadline stay as first bound, its recorded
  start is never replaced, and a completed task stays completed.\<close>

theorem binding_survives:
  assumes "reachable fresh_store rsi_step d" and "rsi_step\<^sup>*\<^sup>* d d'" and "find_session d i = Some s"
  shows "\<exists>s'. find_session d' i = Some s' \<and> s_task s' = s_task s \<and> s_deadline s' = s_deadline s \<and>
    (s_started s \<noteq> None \<longrightarrow> s_started s' = s_started s) \<and> (s_state s = TComplete \<longrightarrow> s_state s' = TComplete)"
proof -
  have inv: "pool_inv d" using assms(1) by (rule rsi.reachable_inv)
  have s: "s \<in> set (sessions d)" "s_ident s = i" using find_in assms(3) by (fastforce simp: find_session_def)+
  from bindings_run [OF assms(2) inv] s obtain s' where s': "s' \<in> set (sessions d')" "binding_kept s s'"
    by (auto simp: bindings_kept_def)
  have "find_session d' i = Some s'"
    using session_in_find [OF rsi.steps_inv [OF assms(2) inv] s'(1)] s'(2) s(2) by (simp add: binding_kept_def)
  then show ?thesis using s'(2) by (auto simp: binding_kept_def)
qed

definition demo_binding :: session_row where
  "demo_binding = new_session demo_ident ''task.md'' (Some 100) 1"

theorem binding_survives_witness:
  "\<exists>s'. find_session (pool_create demo_run) demo_ident = Some s' \<and> s_deadline s' = Some 100"
proof -
  have "find_session demo_run demo_ident = Some demo_binding" "s_deadline demo_binding = Some 100" by code_simp+
  moreover have "rsi_step\<^sup>*\<^sup>* demo_run (pool_create demo_run)" by (simp add: step_open r_into_rtranclp)
  ultimately show ?thesis using binding_survives [OF demo_run_reachable] by metis
qed

text \<open>C27: Commands and hooks of one task leave every row of every other task as it was.\<close>

theorem tasks_are_isolated:
  assumes "j \<noteq> i"
  shows "(run_command v over d i c clk = Inr (d', ans) \<longrightarrow> task_view j d' = task_view j d) \<and>
    (hook fmt d (i_harness i) ev now = Inr (d', out) \<and> ev_session ev = Some (i_session i) \<longrightarrow>
       task_view j d' = task_view j d)"
  using isolated_command [OF run_command_effect] isolated_hook [of fmt d "i_harness i" ev now d' out "i_session i"] assms
  by (auto simp: isolated_def)

theorem tasks_are_isolated_witness:
  "task_view (Ident ''claude'' ''s9'') (take_work demo_store demo_ident ''w1'' ''ann'') =
   task_view (Ident ''claude'' ''s9'') demo_store"
proof -
  have "run_command demo_env True demo_store demo_ident (CClaim ''ann'') (\<lambda>_ _. 5) =
      Inr (take_work demo_store demo_ident ''w1'' ''ann'', AClaim (claim_row ''ann'' (demo_work ''w1'' KWorker)) [])"
    by (simp add: demo_env_def demo_claim)
  moreover have "Ident ''claude'' ''s9'' \<noteq> demo_ident" by (simp add: demo_ident_def)
  ultimately show ?thesis using tasks_are_isolated by metis
qed

text \<open>C14: While a dispatch lease runs, no supervisor obtains a second dispatch for the same member, whatever
  status it observes for the native thread.\<close>

theorem lease_excludes_second_dispatch:
  assumes inv: "pool_inv d" and first: "supervisor_prepare d i a sv st secs did t0 = (d1, Some p)"
    and early: "t < t0 + secs"
  shows "snd (supervisor_prepare d1 i a sv' st' secs' did' t) = None"
proof -
  have inv1: "pool_inv d1" using pool_inv_prepare [OF inv first] .
  from prepare_SomeE [OF inv first] obtain m where "find_member d1 i a = Some (lease_row sv (t0 + secs) did m)" by metis
  moreover have "\<not> lease_free t (lease_row sv (t0 + secs) did m)"
    using early by (simp add: lease_free_def lease_row_def)
  ultimately show ?thesis using prepare_refused [OF inv1] by blast
qed

lemma demo_prepare:
  "\<exists>d1 p. supervisor_prepare demo_store demo_ident ''ann'' ''sup'' ''idle'' 30 ''x1'' 5 = (d1, Some p)"
proof -
  have "snd (supervisor_prepare demo_store demo_ident ''ann'' ''sup'' ''idle'' 30 ''x1'' 5) \<noteq> None" by code_simp
  then show ?thesis by (metis not_Some_eq prod.collapse)
qed

theorem lease_excludes_second_dispatch_witness:
  "\<exists>d1 p. supervisor_prepare demo_store demo_ident ''ann'' ''sup'' ''idle'' 30 ''x1'' 5 = (d1, Some p) \<and>
     snd (supervisor_prepare d1 demo_ident ''ann'' ''other'' ''idle'' 30 ''x2'' 34) = None"
proof -
  obtain d1 p where "supervisor_prepare demo_store demo_ident ''ann'' ''sup'' ''idle'' 30 ''x1'' 5 = (d1, Some p)"
    using demo_prepare by blast
  then show ?thesis using lease_excludes_second_dispatch [OF demo_inv] by force
qed

text \<open>After a turn was started under a lease, no further turn is dispatched to that thread during the
  propagation window the start recorded.\<close>

theorem started_turn_keeps_window:
  assumes inv: "pool_inv d" and st: "supervisor_started d i a sv did turn secs t1 = (d2, True)"
    and turn: "turn \<noteq> ''''" and early: "t < t1 + secs" and nonzero: "t1 + secs \<noteq> 0"
  shows "snd (supervisor_prepare d2 i a sv' st' secs' did' t) = None"
proof -
  have d2: "d2 = update_member i a (holds_lease sv did) (started_row (t1 + secs) turn) d"
    and "has_member i a (holds_lease sv did) d" using st by (auto simp: supervisor_started_def)
  then obtain m where "find_member d i a = Some m" "holds_lease sv did m" using has_member_iff [OF inv] by auto
  then have "find_member d2 i a = Some (started_row (t1 + secs) turn m)" by (simp add: d2 find_member_update)
  moreover have "turn_in_flight t (started_row (t1 + secs) turn m)"
    using turn early nonzero by (simp add: turn_in_flight_def started_row_def truthy_def)
  ultimately show ?thesis using prepare_refused [OF pool_inv_started [OF inv st]] by blast
qed

definition demo_leased :: store where
  "demo_leased = fst (supervisor_prepare demo_store demo_ident ''ann'' ''sup'' ''idle'' 30 ''x1'' 5)"

lemma demo_leased_inv: "pool_inv demo_leased"
  unfolding demo_leased_def using pool_inv_prepare [OF demo_inv] by (metis prod.collapse)

theorem started_turn_keeps_window_witness:
  "snd (supervisor_prepare (fst (supervisor_started demo_leased demo_ident ''ann'' ''sup'' ''x1'' ''turn1'' 30 6))
      demo_ident ''ann'' ''sup'' ''idle'' 30 ''x2'' 35) = None"
proof (rule started_turn_keeps_window [OF demo_leased_inv])
  show "supervisor_started demo_leased demo_ident ''ann'' ''sup'' ''x1'' ''turn1'' 30 6 =
      (fst (supervisor_started demo_leased demo_ident ''ann'' ''sup'' ''x1'' ''turn1'' 30 6), True)"
    by code_simp
qed simp_all

text \<open>Reporting a dispatch as started or failed is a compare-and-set on its lease: it succeeds only for the
  supervisor and dispatch that hold the lease, otherwise nothing changes, and a settled dispatch cannot be
  settled again by anyone.\<close>

theorem dispatch_settles_once:
  assumes inv: "pool_inv d" and st: "supervisor_started d i a sv did turn secs now = (d2, ok)"
    and fl: "supervisor_failed d i a sv did err = (d3, ok')"
  shows "(ok \<longleftrightarrow> (\<exists>m. find_member d i a = Some m \<and> holds_lease sv did m)) \<and> ok' = ok \<and>
    (\<not> ok \<longrightarrow> d2 = d \<and> d3 = d) \<and>
    (ok \<longrightarrow> \<not> snd (supervisor_started d2 i a sv' did' turn' secs' now') \<and>
            \<not> snd (supervisor_failed d2 i a sv' did' err') \<and>
            \<not> snd (supervisor_started d3 i a sv' did' turn' secs' now') \<and>
            \<not> snd (supervisor_failed d3 i a sv' did' err'))"
proof -
  have d2: "d2 = update_member i a (holds_lease sv did) (started_row (now + secs) turn) d"
    and d3: "d3 = update_member i a (holds_lease sv did) (failed_row err) d"
    and ok: "ok = has_member i a (holds_lease sv did) d" "ok' = ok"
    using st fl by (auto simp: supervisor_started_def supervisor_failed_def)
  have inv2: "pool_inv d2" and inv3: "pool_inv d3"
    unfolding d2 d3 by (auto intro!: pool_inv_update_member inv simp: member_key_update)
  have "\<not> has_member i a (holds_lease sv' did') d2 \<and> \<not> has_member i a (holds_lease sv' did') d3" if ok
  proof -
    from that obtain m where m: "find_member d i a = Some m" "holds_lease sv did m"
      using ok(1) has_member_iff [OF inv] by auto
    have "find_member d2 i a = Some (started_row (now + secs) turn m)" "find_member d3 i a = Some (failed_row err m)"
      using m by (simp_all add: d2 d3 find_member_update)
    then show ?thesis
      by (simp add: has_member_iff [OF inv2] has_member_iff [OF inv3] holds_lease_def started_row_def failed_row_def)
  qed
  moreover have "d2 = d \<and> d3 = d" if "\<not> ok"
    using that ok(1) update_member_none unfolding d2 d3 by blast
  ultimately show ?thesis
    using ok has_member_iff [OF inv] by (auto simp: supervisor_started_def supervisor_failed_def)
qed

theorem dispatch_settles_once_witness:
  "\<not> snd (supervisor_failed (fst (supervisor_started demo_leased demo_ident ''ann'' ''sup'' ''x1'' ''turn1'' 30 6))
       demo_ident ''ann'' ''sup'' ''x1'' ''late'')"
proof -
  let ?st = "supervisor_started demo_leased demo_ident ''ann'' ''sup'' ''x1'' ''turn1'' 30 6"
  let ?fl = "supervisor_failed demo_leased demo_ident ''ann'' ''sup'' ''x1'' ''late''"
  have "snd ?st" by code_simp
  moreover have "?st = (fst ?st, snd ?st)" "?fl = (fst ?fl, snd ?fl)" by simp_all
  ultimately show ?thesis using dispatch_settles_once [OF demo_leased_inv] by blast
qed

text \<open>A turn is dispatched only for a working member with a native thread, of an active task whose deadline
  has not passed, whose thread was observed idle or not loaded.\<close>

theorem dispatch_only_live:
  assumes "pool_inv d" and "supervisor_prepare d i a sv st secs did now = (d', Some p)"
  shows "\<exists>m s. find_member d i a = Some m \<and> m_state m = Working \<and> truthy (m_thread_id m) \<and>
    find_session d i = Some s \<and> s_state s = TActive \<and> (case s_deadline s of None \<Rightarrow> True | Some dl \<Rightarrow> now < dl) \<and>
    st \<in> {''idle'', ''notLoaded''}"
proof -
  from prepare_SomeE [OF assms] obtain m s where ms: "live_member d i a = Some (m, s)" "truthy (m_thread_id m)"
    "\<not> deadline_passed (s_deadline s) now" "st \<in> {''idle'', ''notLoaded''}" "find_member d i a = Some m" by metis
  have "m_state m = Working" "find_session d i = Some s" "s_state s = TActive"
    using ms(1,5) by (auto simp: live_member_def split: option.splits if_splits)
  moreover have "case s_deadline s of None \<Rightarrow> True | Some dl \<Rightarrow> now < dl"
    using ms(3) by (auto simp: deadline_passed_def not_le split: option.splits)
  ultimately show ?thesis using ms(2,4,5) by blast
qed

theorem dispatch_only_live_witness:
  "\<exists>m. find_member demo_store demo_ident ''ann'' = Some m \<and> m_state m = Working"
  using demo_prepare dispatch_only_live [OF demo_inv] by metis

lemma claim_first_round:
  "claim_loop (Suc n) v over others d i a clk k =
     Some (k, run_command v (over k) d i (CClaim a) (clk k)) \<and>
   run_command v (over k) d i (CClaim a) (clk k) = run_command v True d i (CClaim a) (clk k)"
proof -
  have "run_command v b d i (CClaim a) (clk k) = run_command v True d i (CClaim a) (clk k)" for b
    by (auto simp: rbind_def idle_action_def split: sum.splits option.splits)
  moreover have "ans \<noteq> ANothing" if "run_command v b d i (CClaim a) (clk k) = Inr (d', ans)" for b d' ans
    using that by (auto simp: rbind_eq_Inr_iff idle_action_def split: option.splits prod.splits)
  ultimately show ?thesis by (auto split: sum.splits simp del: run_command.simps)
qed

lemma waiting_claim_answered:
  "waiting_claim wait (Suc n) v over others d i a clk =
     Some (0, if wait < 0 then Inl NegativeWait else run_command v True d i (CClaim a) (clk 0))"
  using claim_first_round by (simp add: waiting_claim_def del: claim_loop.simps run_command.simps)

text \<open>C30: The loop of a claim that may wait never takes a second round: a claim that finds no work is answered in
  the first transaction with the research action, so the requested wait has no effect.\<close>

theorem claim_never_waits:
  "claim_loop (Suc n) v over others d i a clk k =
     Some (k, run_command v (over k) d i (CClaim a) (clk k)) \<and>
   run_command v (over k) d i (CClaim a) (clk k) = run_command v True d i (CClaim a) (clk k)"
  by (rule claim_first_round)

end
