(* ===== verification/Agent_Scheduler.thy ===== *)
theory Agent_Scheduler
  imports Continuation
begin

text \<open>
  The RSI agent scheduler (\<open>agent_scheduler.py\<close>) on top of the dispatch leases of \<open>Continuation\<close>: one pass
  over the candidates, the rounds of the main loop and its start and end. The app-server, clocks and
  dispatch identifiers are parameters indexed by the position in the pass; the log records what the
  scheduler asked of the app-server.
\<close>

text \<open>Answers of the app-server for the \<open>k\<close>-th candidate; \<open>Inl\<close> is the error it raised.\<close>

record app_server =
  srv_status :: "nat \<Rightarrow> string \<Rightarrow> string + string"
  srv_resume :: "nat \<Rightarrow> string \<Rightarrow> string + unit"
  srv_start :: "nat \<Rightarrow> string \<Rightarrow> string \<Rightarrow> string + string"

datatype server_call = ReadStatus string | Resume string | StartTurn string string

record scheduler =
  sch_owner :: string
  sch_lease :: time
  sch_fresh :: "nat \<Rightarrow> string"
  sch_clock :: "nat \<Rightarrow> nat \<Rightarrow> time"

text \<open>\<open>UPDATE members SET last_error\<close> after a failed status read.\<close>

definition note_error :: "ident \<Rightarrow> string \<Rightarrow> string \<Rightarrow> store \<Rightarrow> store" where
  "note_error i a err d = update_member i a (\<lambda>_. True) (\<lambda>m. m\<lparr>m_last_error := Some (take 2000 err)\<rparr>) d"

definition read_status :: "app_server \<Rightarrow> nat \<Rightarrow> ident \<Rightarrow> string \<Rightarrow> string \<Rightarrow> store \<Rightarrow> store \<times> string" where
  "read_status srv k i a thread d =
     (case srv_status srv k thread of
        Inr status \<Rightarrow> (d, status)
      | Inl err \<Rightarrow> (note_error i a err d, ''systemError''))"

text \<open>\<open>client.resume\<close> followed by \<open>client.start\<close>, with the calls made.\<close>

definition deliver :: "app_server \<Rightarrow> nat \<Rightarrow> dispatch \<Rightarrow> (string + string) \<times> server_call list" where
  "deliver srv k p =
     (case srv_resume srv k (p_thread_id p) of
        Inl err \<Rightarrow> (Inl err, [Resume (p_thread_id p)])
      | Inr _ \<Rightarrow> (srv_start srv k (p_thread_id p) (p_prompt p),
                   [Resume (p_thread_id p), StartTurn (p_thread_id p) (p_prompt p)]))"

definition settle :: "scheduler \<Rightarrow> nat \<Rightarrow> ident \<Rightarrow> string \<Rightarrow> dispatch \<Rightarrow> string + string \<Rightarrow> store \<Rightarrow> store" where
  "settle sch k i a p result d =
     (case result of
        Inl err \<Rightarrow> fst (supervisor_failed d i a (sch_owner sch) (p_dispatch_id p) err)
      | Inr turn \<Rightarrow> fst (supervisor_started d i a (sch_owner sch) (p_dispatch_id p) turn (sch_lease sch) (sch_clock sch k 1)))"

definition run_candidate ::
  "app_server \<Rightarrow> scheduler \<Rightarrow> nat \<Rightarrow> ident \<Rightarrow> string \<Rightarrow> string \<Rightarrow> store \<Rightarrow> store \<times> nat \<times> server_call list" where
  "run_candidate srv sch k i a thread d =
     (case read_status srv k i a thread d of (d1, status) \<Rightarrow>
      case supervisor_prepare d1 i a (sch_owner sch) status (sch_lease sch) (sch_fresh sch k) (sch_clock sch k 0) of
        (d2, None) \<Rightarrow> (d2, 0, [ReadStatus thread])
      | (d2, Some p) \<Rightarrow>
          (case deliver srv k p of (result, calls) \<Rightarrow> (settle sch k i a p result d2, 1, ReadStatus thread # calls)))"

fun run_candidates ::
  "app_server \<Rightarrow> scheduler \<Rightarrow> nat \<Rightarrow> (ident \<times> string \<times> string) list \<Rightarrow> store \<Rightarrow> store \<times> nat \<times> server_call list" where
  "run_candidates srv sch k [] d = (d, 0, [])"
| "run_candidates srv sch k ((i, a, thread) # cs) d =
     (case run_candidate srv sch k i a thread d of (d1, n, calls) \<Rightarrow>
      case run_candidates srv sch (k + 1) cs d1 of (d2, n2, calls2) \<Rightarrow> (d2, n + n2, calls @ calls2))"

definition run_once :: "app_server \<Rightarrow> scheduler \<Rightarrow> string \<Rightarrow> string option \<Rightarrow> store \<Rightarrow> store \<times> nat \<times> server_call list" where
  "run_once srv sch harness session d =
     run_candidates srv sch 0
       (map (\<lambda>(m, _, _). (m_ident m, m_agent m, the (m_thread_id m))) (supervisor_candidates d harness session)) d"

text \<open>One round of the main loop; the flag tells whether the loop goes on. \<open>now n\<close> is the \<open>n\<close>-th clock reading.\<close>

definition scheduler_round ::
  "app_server \<Rightarrow> scheduler \<Rightarrow> ident \<Rightarrow> bool \<Rightarrow> clock \<Rightarrow> store \<Rightarrow> pool_error + store \<times> bool" where
  "scheduler_round srv sch i once now d =
     rbind (scheduler_heartbeat d i (sch_owner sch) ''running'' None (now 0)) (\<lambda>d1.
       case find_session d1 i of
         None \<Rightarrow> Inr (d1, False)
       | Some s \<Rightarrow>
           if s_state s \<noteq> TActive then Inr (d1, False)
           else if (case s_deadline s of None \<Rightarrow> False | Some t \<Rightarrow> t \<le> now 1) then Inr (expire d1 i ''deadline'', False)
           else case run_once srv sch (i_harness i) (Some (i_session i)) d1 of
             (d2, _, _) \<Rightarrow>
               rbind (scheduler_heartbeat d2 i (sch_owner sch) ''running'' None (now 2)) (\<lambda>d3. Inr (d3, \<not> once)))"

text \<open>
  The loop over the rounds the environment offers, each with its app-server, scheduler parameters and clock;
  a loop that is interrupted ends with the last of them.
\<close>

fun scheduler_loop ::
  "ident \<Rightarrow> bool \<Rightarrow> (app_server \<times> scheduler \<times> clock) list \<Rightarrow> store \<Rightarrow> pool_error + store" where
  "scheduler_loop i once [] d = Inr d"
| "scheduler_loop i once ((srv, sch, now) # rounds) d =
     rbind (scheduler_round srv sch i once now d) (\<lambda>(d1, more).
       if more then scheduler_loop i once rounds d1 else Inr d1)"

text \<open>\<open>main\<close> after argument parsing: the task must exist, and the last heartbeat reports how the run ended.\<close>

datatype scheduler_error = BadPeriod | PoolError pool_error

definition pool_result :: "pool_error + 'a \<Rightarrow> scheduler_error + 'a" where
  "pool_result r = (case r of Inl e \<Rightarrow> Inl (PoolError e) | Inr x \<Rightarrow> Inr x)"

definition scheduler_main ::
  "string option \<Rightarrow> ident \<Rightarrow> string \<Rightarrow> time \<Rightarrow> time \<Rightarrow> bool \<Rightarrow> (app_server \<times> scheduler \<times> clock) list \<Rightarrow> clock \<Rightarrow> store \<Rightarrow>
   scheduler_error + store" where
  "scheduler_main connect_error i owner interval lease once rounds now d0 =
     (if interval \<le> 0 \<or> lease \<le> 0 then Inl BadPeriod
      else let d = pool_create d0 in
      pool_result (rbind (find_required d i) (\<lambda>_.
      rbind (scheduler_heartbeat d i owner ''starting'' None (now 0)) (\<lambda>d1.
        case connect_error of
          Some err \<Rightarrow>
            rbind (scheduler_heartbeat d1 i owner ''failed'' (Some err) (now 1)) (\<lambda>d2.
              scheduler_heartbeat d2 i owner ''failed'' (Some err) (now 2))
        | None \<Rightarrow>
            rbind (scheduler_heartbeat d1 i owner ''running'' None (now 1)) (\<lambda>d2.
            rbind (scheduler_loop i once rounds d2) (\<lambda>d3.
              scheduler_heartbeat d3 i owner ''stopped'' None (now 2)))))))"

section \<open>Every write keeps the pool invariant\<close>







section \<open>Leases of one pass\<close>




text \<open>A change of a row that issues no lease.\<close>

definition calm :: "member_row \<Rightarrow> member_row \<Rightarrow> bool" where
  "calm m0 m \<longleftrightarrow> (m_dispatch_id m = None \<or> m_dispatch_id m = m_dispatch_id m0) \<and>
     (\<forall>owner did. holds_lease owner did m \<longrightarrow> holds_lease owner did m0)"

definition calm_step :: "store \<Rightarrow> store \<Rightarrow> bool" where
  "calm_step d d' \<longleftrightarrow> (\<forall>m \<in> set (members d'). \<exists>m0 \<in> set (members d). calm m0 m)"

lemma calm_refl [simp]: "calm m m" "calm_step d d"
  by (auto simp: calm_def calm_step_def)


lemma calm_update_where: "(\<And>m. calm m (f m)) \<Longrightarrow> \<forall>m \<in> set (update_where p f ms). \<exists>m0 \<in> set ms. calm m0 m"
proof
  fix m assume c: "\<And>m. calm m (f m)" and "m \<in> set (update_where p f ms)"
  then obtain m0 where "m0 \<in> set ms" "m = (if p m0 then f m0 else m0)" by (auto simp: in_update_where)
  then show "\<exists>m0 \<in> set ms. calm m0 m" using c by (intro bexI [of _ m0]) simp_all
qed

lemma calm_update_member: "(\<And>m. calm m (f m)) \<Longrightarrow> calm_step d (update_member i a p f d)"
  unfolding calm_step_def update_member_def by (simp, rule calm_update_where)

lemma calm_rows:
  "calm m (m\<lparr>m_last_error := e\<rparr>)"
  "calm m (m\<lparr>m_dispatch_state := Running, m_lease_owner := None, m_lease_until := None, m_last_error := e\<rparr>)"
  "calm m (retire_member (m\<lparr>m_state := s, m_reason := r\<rparr>))" "calm m (started_row t turn m)" "calm m (failed_row err m)"
  by (auto simp: calm_def holds_lease_def retire_member_def drop_lease_def started_row_def failed_row_def)





lemma settle_calm: "calm_step d (settle sch k i a p result d)"
  by (cases result) (simp_all add: settle_def supervisor_started_def supervisor_failed_def calm_update_member calm_rows)





section \<open>Properties of the scheduler\<close>





end
