(* ===== verification/Py_Json.thy ===== *)
theory Py_Json
  imports Prelude
begin

text \<open>
  JSON documents as Python sees them after \<open>json.loads\<close>: the values Kubernetes objects, connector
  descriptors and hook events are made of. Objects keep the order of their keys. The access functions are
  the forms the sources use: \<open>d.get(k)\<close>, \<open>d.get(k, default)\<close>, \<open>d[k]\<close>, \<open>x or default\<close> and truth values.
\<close>

datatype json =
    JNull
  | JBool bool
  | JInt int
  | JFloat rat
  | JStr string
  | JList "json list"
  | JObj "(string \<times> json) list"

datatype py_error = KeyError string | TypeError | AttributeError | IndexError | ValueError string

text \<open>Truth value of a document.\<close>

fun jtrue :: "json \<Rightarrow> bool" where
  "jtrue JNull = False"
| "jtrue (JBool b) = b"
| "jtrue (JInt n) = (n \<noteq> 0)"
| "jtrue (JFloat q) = (q \<noteq> 0)"
| "jtrue (JStr s) = (s \<noteq> '''')"
| "jtrue (JList xs) = (xs \<noteq> [])"
| "jtrue (JObj ps) = (ps \<noteq> [])"

text \<open>\<open>d.get(k)\<close> with a default, for a dictionary; other values have no method \<open>get\<close>.\<close>

fun jget :: "json \<Rightarrow> string \<Rightarrow> json \<Rightarrow> py_error + json" where
  "jget (JObj ps) k dflt = Inr (case map_of ps k of None \<Rightarrow> dflt | Some v \<Rightarrow> v)"
| "jget _ k dflt = Inl AttributeError"

text \<open>\<open>d[k]\<close> for a string key.\<close>

fun jitem :: "json \<Rightarrow> string \<Rightarrow> py_error + json" where
  "jitem (JObj ps) k = (case map_of ps k of None \<Rightarrow> Inl (KeyError k) | Some v \<Rightarrow> Inr v)"
| "jitem _ k = Inl TypeError"

text \<open>Iteration over a list; iterating a dictionary yields its keys and a string its characters.\<close>

fun jiter :: "json \<Rightarrow> py_error + json list" where
  "jiter (JList xs) = Inr xs"
| "jiter (JObj ps) = Inr (map (JStr \<circ> fst) ps)"
| "jiter (JStr s) = Inr (map (\<lambda>c. JStr [c]) s)"
| "jiter _ = Inl TypeError"

text \<open>\<open>x or y\<close>.\<close>

definition jor :: "json \<Rightarrow> json \<Rightarrow> json" where
  "jor x y = (if jtrue x then x else y)"

text \<open>
  Lenient views for documents whose shape the API server guarantees: a missing field or a field of another
  type reads as the default the sources supply with \<open>get(k, {})\<close> and similar.
\<close>

fun jobj :: "json \<Rightarrow> (string \<times> json) list" where
  "jobj (JObj ps) = ps"
| "jobj _ = []"

fun jlist :: "json \<Rightarrow> json list" where
  "jlist (JList xs) = xs"
| "jlist _ = []"

fun jstr :: "json \<Rightarrow> string option" where
  "jstr (JStr s) = Some s"
| "jstr _ = None"

definition field :: "string \<Rightarrow> json \<Rightarrow> json" where
  "field k d = (case map_of (jobj d) k of None \<Rightarrow> JNull | Some v \<Rightarrow> v)"

fun path_get :: "string list \<Rightarrow> json \<Rightarrow> json" where
  "path_get [] d = d"
| "path_get (k # ks) d = path_get ks (field k d)"

definition has_key :: "string \<Rightarrow> json \<Rightarrow> bool" where
  "has_key k d \<longleftrightarrow> map_of (jobj d) k \<noteq> None"

lemma jget_Inr_iff: "jget d k dflt = Inr v \<longleftrightarrow>
    (\<exists>ps. d = JObj ps \<and> v = (case map_of ps k of None \<Rightarrow> dflt | Some x \<Rightarrow> x))"
  by (cases d) auto

lemma jitem_Inr_iff: "jitem d k = Inr v \<longleftrightarrow> (\<exists>ps. d = JObj ps \<and> map_of ps k = Some v)"
  by (cases d) (auto split: option.splits)

lemma field_simps [simp]:
  "field k (JObj []) = JNull"
  "field k (JObj ((a, v) # ps)) = (if a = k then v else field k (JObj ps))"
  "field k JNull = JNull"
  by (simp_all add: field_def)

lemma jget_field: "jget (JObj ps) k JNull = Inr (field k (JObj ps))"
  by (simp add: field_def)

end
