(* ===== verification/Retained_Prefix.thy ===== *)
theory Retained_Prefix
  imports Py_Json
begin

text \<open>
  The directory of retained prompt prefixes (\<open>data-plane/model-server/python/connectors/retained.py\<close>): what
  the scheduler publishes after a request finished, discovery of the longest match, one-shot claims, and
  cancellation. The native connector that owns the cache blocks is not part of the repository: the answers of
  its workers to one call are the argument \<open>rpc\<close> (\<open>None\<close> when the call raises), what it still has pending are
  the arguments \<open>native_pending\<close> and \<open>worker_pending\<close>, and its completion results are the argument of
  \<open>record_prefix\<close>. An exception does not undo what was written before it, so every operation returns the
  directory together with its result, and the worker calls it made.
\<close>

section \<open>Data\<close>

record retained_prefix =
  px_request_id :: string
  px_token_ids :: "int list"
  px_cache_salt :: "string option"
  px_descriptor :: "(string \<times> json) list"
  px_expires_at :: time
  px_consumer_id :: "string option"

record directory =
  dir_connector :: string
  dir_instance_id :: string
  dir_dp_rank :: int
  dir_bidirectional :: bool
  dir_prefixes :: "(string \<times> retained_prefix) list"
  dir_accepting :: bool
  dir_retain :: bool

text \<open>The utility payload; \<open>None\<close> is an absent key.\<close>

record payload =
  pl_cache_salt :: "string option"
  pl_prompt_token_ids :: "int list option"
  pl_dp_rank :: "int option"
  pl_instance_id :: "string option"
  pl_offer_id :: "string option"
  pl_consumer_id :: "string option"

datatype worker_call =
    WClaim string string string
  | WCancel string string string
  | WPending

datatype kv_error = UnknownOperation string | MissingKey string | RpcFailed | BadDescriptor py_error

datatype kv_status = Miss | InUse | ReleasedOffer

datatype kv_response =
    Configuration string bool
  | Offer int string "(string \<times> nat) option"
  | Drained int string nat
  | Status int string kv_status
  | Granted int string "(string \<times> json) list"

type_synonym outcome = "directory \<times> (kv_error + kv_response) \<times> worker_call list"

section \<open>Operations\<close>

definition initialize_retained_prefixes :: "string \<Rightarrow> string \<Rightarrow> int \<Rightarrow> bool \<Rightarrow> bool \<Rightarrow> directory" where
  "initialize_retained_prefixes connector instance_id rank enabled retain_sources =
     \<lparr>dir_connector = connector, dir_instance_id = instance_id, dir_dp_rank = rank,
      dir_bidirectional = enabled, dir_prefixes = [], dir_accepting = True, dir_retain = retain_sources\<rparr>"

definition matches :: "retained_prefix \<Rightarrow> payload \<Rightarrow> kv_error + bool" where
  "matches p pl =
     (if px_cache_salt p \<noteq> pl_cache_salt pl then Inr False
      else case pl_prompt_token_ids pl of
        None \<Rightarrow> Inl (MissingKey ''prompt_token_ids'')
      | Some ts \<Rightarrow> Inr (px_token_ids p = take (length (px_token_ids p)) ts))"

definition expire_available :: "time \<Rightarrow> directory \<Rightarrow> directory" where
  "expire_available now d =
     d\<lparr>dir_prefixes := filter (\<lambda>(_, p). px_consumer_id p \<noteq> None \<or> now < px_expires_at p) (dir_prefixes d)\<rparr>"

fun offer_matches :: "bool \<Rightarrow> payload \<Rightarrow> (string \<times> retained_prefix) list \<Rightarrow> kv_error + (string \<times> retained_prefix) list" where
  "offer_matches accepting pl [] = Inr []"
| "offer_matches accepting pl ((k, p) # rest) =
     (if accepting \<and> px_consumer_id p = None
      then rbind (matches p pl) (\<lambda>b. rbind (offer_matches accepting pl rest) (\<lambda>ms.
             Inr (if b then (k, p) # ms else ms)))
      else offer_matches accepting pl rest)"

definition find_offer :: "directory \<Rightarrow> payload \<Rightarrow> kv_error + kv_response" where
  "find_offer d pl =
     rbind (offer_matches (dir_accepting d) pl (dir_prefixes d)) (\<lambda>ms.
       Inr (Offer (dir_dp_rank d) (dir_instance_id d)
         (map_option (\<lambda>(k, p). (k, length (px_token_ids p)))
           (max_by (\<lambda>(_, p). length (px_token_ids p)) ms))))"

definition drain :: "string list \<Rightarrow> string list list option \<Rightarrow> directory \<Rightarrow> outcome" where
  "drain native_pending worker_pending d0 =
     (let d = d0\<lparr>dir_accepting := False,
                 dir_prefixes := filter (\<lambda>(_, p). px_consumer_id p \<noteq> None) (dir_prefixes d0)\<rparr> in
      case worker_pending of
        None \<Rightarrow> (d, Inl RpcFailed, [WPending])
      | Some ws \<Rightarrow>
          (d, Inr (Drained (dir_dp_rank d) (dir_instance_id d)
                (length (remdups (native_pending @ concat ws @ map (px_request_id \<circ> snd) (dir_prefixes d))))),
           [WPending]))"

definition delete_offer :: "string \<Rightarrow> directory \<Rightarrow> directory" where
  "delete_offer k d = d\<lparr>dir_prefixes := filter (\<lambda>(x, _). x \<noteq> k) (dir_prefixes d)\<rparr>"

definition set_consumer :: "string \<Rightarrow> string \<Rightarrow> directory \<Rightarrow> directory" where
  "set_consumer k c d =
     d\<lparr>dir_prefixes := map (\<lambda>(x, p). (x, if x = k then p\<lparr>px_consumer_id := Some c\<rparr> else p)) (dir_prefixes d)\<rparr>"

text \<open>\<open>_claim_source\<close> and \<open>_cancel_source\<close>: the conjunction of all workers' answers.\<close>

definition all_workers :: "(worker_call \<Rightarrow> bool list option) \<Rightarrow> worker_call \<Rightarrow> bool option" where
  "all_workers rpc call = map_option (\<lambda>rs. \<forall>b \<in> set rs. b) (rpc call)"

definition cancel_offer ::
  "(worker_call \<Rightarrow> bool list option) \<Rightarrow> string \<Rightarrow> retained_prefix \<Rightarrow> string \<Rightarrow> directory \<Rightarrow> outcome" where
  "cancel_offer rpc k p c d =
     (let status = (\<lambda>s. Inr (Status (dir_dp_rank d) (dir_instance_id d) s));
          call = WCancel (px_request_id p) k c in
      if px_consumer_id p \<noteq> None \<and> px_consumer_id p \<noteq> Some c then (d, status Miss, [])
      else if px_consumer_id p = None then (delete_offer k d, status ReleasedOffer, [])
      else case all_workers rpc call of
        None \<Rightarrow> (d, Inl RpcFailed, [call])
      | Some False \<Rightarrow> (d, status InUse, [call])
      | Some True \<Rightarrow> (delete_offer k d, status ReleasedOffer, [call]))"

definition claim_offer ::
  "(worker_call \<Rightarrow> bool list option) \<Rightarrow> payload \<Rightarrow> string \<Rightarrow> retained_prefix \<Rightarrow> string \<Rightarrow> directory \<Rightarrow> outcome" where
  "claim_offer rpc pl k p c d =
     (let status = (\<lambda>s. Inr (Status (dir_dp_rank d) (dir_instance_id d) s));
          claim = WClaim (px_request_id p) k c; cancel = WCancel (px_request_id p) k c in
      if \<not> dir_accepting d \<or> px_consumer_id p \<noteq> None then (d, status Miss, [])
      else case matches p pl of
        Inl e \<Rightarrow> (d, Inl e, [])
      | Inr False \<Rightarrow> (d, status Miss, [])
      | Inr True \<Rightarrow>
          let d1 = set_consumer k c d in
          case all_workers rpc claim of
            None \<Rightarrow> (d1, Inl RpcFailed, [claim])
          | Some True \<Rightarrow>
              (d1, Inr (Granted (dir_dp_rank d) (dir_instance_id d)
                 (dict_set ''remote_consumer_id'' (JStr c)
                   (dict_set ''remote_read_lease'' (JStr k) (px_descriptor p)))), [claim])
          | Some False \<Rightarrow>
              (case all_workers rpc cancel of
                 None \<Rightarrow> (d1, Inl RpcFailed, [claim, cancel])
               | Some _ \<Rightarrow> (delete_offer k d1, status Miss, [claim, cancel])))"

text \<open>The offer and consumer a \<open>claim\<close> or \<open>cancel\<close> addresses; \<open>None\<close> when it addresses another engine.\<close>

definition require :: "string \<Rightarrow> 'a option \<Rightarrow> kv_error + 'a" where
  "require k v = (case v of None \<Rightarrow> Inl (MissingKey k) | Some x \<Rightarrow> Inr x)"

definition addressed :: "payload \<Rightarrow> directory \<Rightarrow> kv_error + (string \<times> string) option" where
  "addressed pl d =
     rbind (require ''dp_rank'' (pl_dp_rank pl)) (\<lambda>rank.
       if rank \<noteq> dir_dp_rank d then Inr None
       else rbind (require ''instance_id'' (pl_instance_id pl)) (\<lambda>inst.
         if inst \<noteq> dir_instance_id d then Inr None
         else rbind (require ''offer_id'' (pl_offer_id pl)) (\<lambda>k.
           rbind (require ''consumer_id'' (pl_consumer_id pl)) (\<lambda>c. Inr (Some (k, c))))))"

definition with_offer ::
  "bool \<Rightarrow> (worker_call \<Rightarrow> bool list option) \<Rightarrow> payload \<Rightarrow> directory \<Rightarrow> outcome" where
  "with_offer cancel rpc pl d =
     (let status = (\<lambda>s. Inr (Status (dir_dp_rank d) (dir_instance_id d) s)) in
      case addressed pl d of
        Inl e \<Rightarrow> (d, Inl e, [])
      | Inr None \<Rightarrow> (d, status Miss, [])
      | Inr (Some (k, c)) \<Rightarrow>
          (case map_of (dir_prefixes d) k of
             None \<Rightarrow> (d, status (if cancel then ReleasedOffer else Miss), [])
           | Some p \<Rightarrow> if cancel then cancel_offer rpc k p c d else claim_offer rpc pl k p c d))"

definition handle_utility_call ::
  "string \<Rightarrow> payload \<Rightarrow> (worker_call \<Rightarrow> bool list option) \<Rightarrow> string list \<Rightarrow> string list list option \<Rightarrow> time \<Rightarrow>
   directory \<Rightarrow> outcome" where
  "handle_utility_call operation pl rpc native_pending worker_pending now d0 =
     (if operation = ''configuration'' then (d0, Inr (Configuration (dir_connector d0) (dir_bidirectional d0)), [])
      else let d = expire_available now d0 in
      if operation = ''retained_prefix'' then (d, find_offer d pl, [])
      else if operation = ''drain'' then drain native_pending worker_pending d
      else if operation \<notin> {''claim'', ''cancel''} then (d, Inl (UnknownOperation operation), [])
      else with_offer (operation = ''cancel'') rpc pl d)"

definition update_connector_output :: "string list option \<Rightarrow> directory \<Rightarrow> directory" where
  "update_connector_output finished_sending d =
     (let finished = (case finished_sending of None \<Rightarrow> [] | Some fs \<Rightarrow> fs) in
      if finished = [] then d
      else d\<lparr>dir_prefixes := filter (\<lambda>(_, p). px_request_id p \<notin> set finished) (dir_prefixes d)\<rparr>)"

section \<open>Recording finished requests\<close>

record request =
  rq_request_id :: string
  rq_all_token_ids :: "int list"
  rq_cache_salt :: "string option"
  rq_lora :: bool
  rq_mm_features :: bool
  rq_prompt_embeds :: bool

type_synonym native_result = "bool \<times> (string \<times> json) list option"

definition text_request :: "request \<Rightarrow> bool" where
  "text_request rq \<longleftrightarrow> \<not> rq_lora rq \<and> \<not> rq_mm_features rq \<and> \<not> rq_prompt_embeds rq"

definition read_int :: "string \<Rightarrow> (string \<times> json) list \<Rightarrow> kv_error + int" where
  "read_int k ps = (case map_of ps k of None \<Rightarrow> Inl (MissingKey k) | Some (JInt n) \<Rightarrow> Inr n
                    | Some _ \<Rightarrow> Inl (BadDescriptor TypeError))"

definition read_time :: "string \<Rightarrow> (string \<times> json) list \<Rightarrow> kv_error + time" where
  "read_time k ps = (case map_of ps k of None \<Rightarrow> Inl (MissingKey k) | Some (JFloat q) \<Rightarrow> Inr q
                     | Some (JInt n) \<Rightarrow> Inr (of_int n) | Some _ \<Rightarrow> Inl (BadDescriptor TypeError))"

definition lease_name :: "string \<Rightarrow> (string \<times> json) list \<Rightarrow> kv_error + string" where
  "lease_name fresh ps = (case map_of ps ''remote_read_lease'' of None \<Rightarrow> Inr fresh | Some JNull \<Rightarrow> Inr fresh
                          | Some (JStr k) \<Rightarrow> Inr k | Some _ \<Rightarrow> Inl (BadDescriptor TypeError))"

definition publishable :: "request \<Rightarrow> native_result \<Rightarrow> bool" where
  "publishable rq result =
     (case result of
        (True, Some ps) \<Rightarrow>
          (case map_of ps ''do_remote_decode'' of None \<Rightarrow> False | Some v \<Rightarrow> jtrue v) \<and> text_request rq
      | _ \<Rightarrow> False)"

definition new_prefix :: "request \<Rightarrow> (string \<times> json) list \<Rightarrow> int \<Rightarrow> time \<Rightarrow> retained_prefix" where
  "new_prefix rq ps n expiry =
     \<lparr>px_request_id = rq_request_id rq, px_token_ids = take (nat n) (rq_all_token_ids rq),
      px_cache_salt = rq_cache_salt rq, px_descriptor = ps, px_expires_at = expiry, px_consumer_id = None\<rparr>"

definition record_prefix ::
  "request \<Rightarrow> native_result \<Rightarrow> string \<Rightarrow> time \<Rightarrow> directory \<Rightarrow> directory \<times> (kv_error + native_result)" where
  "record_prefix rq result fresh now d =
     (if \<not> dir_retain d then (d, Inr result)
      else if \<not> publishable rq result then (d, Inr (fst result, None))
      else let ps = the (snd result) in
        case read_int ''remote_num_tokens'' ps of
          Inl e \<Rightarrow> (d, Inl e)
        | Inr n \<Rightarrow>
          if \<not> (0 < n \<and> n \<le> int (length (rq_all_token_ids rq))) then (d, Inr (fst result, None))
          else case read_time ''remote_blocks_expiry_time'' ps of
            Inl e \<Rightarrow> (d, Inl e)
          | Inr expiry \<Rightarrow>
            if \<not> dir_accepting d then (d, Inr (fst result, None))
            else let d1 = expire_available now d in
              case lease_name fresh ps of
                Inl e \<Rightarrow> (d1, Inl e)
              | Inr k \<Rightarrow>
                  (d1\<lparr>dir_prefixes := dict_set k (new_prefix rq ps n expiry) (dir_prefixes d1)\<rparr>, Inr (fst result, None)))"

text \<open>\<open>request_finished\<close> and \<open>request_finished_all_groups\<close> differ only in the native call they forward to.\<close>

definition request_finished ::
  "(request \<Rightarrow> native_result) \<Rightarrow> request \<Rightarrow> string \<Rightarrow> time \<Rightarrow> directory \<Rightarrow> directory \<times> (kv_error + native_result)" where
  "request_finished native rq fresh now d = record_prefix rq (native rq) fresh now d"

text \<open>The worker side of an RPC: the method of the native worker each call reaches.\<close>

datatype native_method = ClaimSendLease string string string | CancelRetainedSource string string string | GetPendingTransfers

definition worker_lease_call :: "string \<Rightarrow> string list \<Rightarrow> kv_error + native_method" where
  "worker_lease_call operation args =
     (case args of
        [r, l, c] \<Rightarrow>
          if operation = ''claim'' then Inr (ClaimSendLease r l c)
          else if operation = ''cancel'' then Inr (CancelRetainedSource r l c)
          else if operation = ''pending_transfers'' then Inl (BadDescriptor TypeError)
          else Inl (UnknownOperation operation)
      | [] \<Rightarrow>
          if operation = ''pending_transfers'' then Inr GetPendingTransfers
          else if operation \<in> {''claim'', ''cancel''} then Inl (BadDescriptor TypeError)
          else Inl (UnknownOperation operation)
      | _ \<Rightarrow>
          if operation \<in> {''claim'', ''cancel'', ''pending_transfers''} then Inl (BadDescriptor TypeError)
          else Inl (UnknownOperation operation))"

text \<open>Everything that changes the directory after its creation.\<close>

datatype event =
    Utility string payload "worker_call \<Rightarrow> bool list option" "string list" "string list list option" time
  | Finished request native_result string time
  | Output "string list option"

fun apply_event :: "event \<Rightarrow> directory \<Rightarrow> directory" where
  "apply_event (Utility operation pl rpc np wp now) d = fst (handle_utility_call operation pl rpc np wp now d)"
| "apply_event (Finished rq result fresh now) d = fst (record_prefix rq result fresh now d)"
| "apply_event (Output fs) d = update_connector_output fs d"

definition fresh_directory :: "directory \<Rightarrow> bool" where
  "fresh_directory d \<longleftrightarrow> (\<exists>c i r e s. d = initialize_retained_prefixes c i r e s)"

definition dir_step :: "directory \<Rightarrow> directory \<Rightarrow> bool" where
  "dir_step d d' \<longleftrightarrow> (\<exists>ev. d' = apply_event ev d)"

section \<open>Where entries come from\<close>

fun publishes :: "string \<Rightarrow> event \<Rightarrow> bool" where
  "publishes k (Finished rq (_, Some ps) fresh now) = (lease_name fresh ps = Inr k)"
| "publishes k _ = False"

lemma set_dict_set: "x \<in> set (dict_set k v ps) \<Longrightarrow> x = (k, v) \<or> x \<in> set ps"
  by (induction ps) (auto split: if_splits)

lemma in_expire [simp]:
  "(k, p) \<in> set (dir_prefixes (expire_available now d)) \<longleftrightarrow>
     (k, p) \<in> set (dir_prefixes d) \<and> (px_consumer_id p \<noteq> None \<or> now < px_expires_at p)"
  by (auto simp: expire_available_def)

lemma expire_fields [simp]:
  "dir_accepting (expire_available now d) = dir_accepting d"
  "dir_dp_rank (expire_available now d) = dir_dp_rank d"
  "dir_instance_id (expire_available now d) = dir_instance_id d"
  "dir_retain (expire_available now d) = dir_retain d"
  "dir_connector (expire_available now d) = dir_connector d"
  "dir_bidirectional (expire_available now d) = dir_bidirectional d"
  by (simp_all add: expire_available_def)

lemma in_set_consumer:
  "(k, p) \<in> set (dir_prefixes (set_consumer x c d)) \<longleftrightarrow>
     (\<exists>p0. (k, p0) \<in> set (dir_prefixes d) \<and> p = (if k = x then p0\<lparr>px_consumer_id := Some c\<rparr> else p0))"
  by (force simp: set_consumer_def)

lemma in_delete_offer:
  "(k, p) \<in> set (dir_prefixes (delete_offer x d)) \<longleftrightarrow> k \<noteq> x \<and> (k, p) \<in> set (dir_prefixes d)"
  by (auto simp: delete_offer_def)

text \<open>How one claim or cancellation changes the entries of the directory.\<close>

inductive offer_change :: "directory \<Rightarrow> directory \<Rightarrow> bool" for d :: directory where
  same: "offer_change d d"
| taken: "offer_change d (set_consumer k c d)"
| dropped: "offer_change d (delete_offer k d)"
| undone: "offer_change d (delete_offer k (set_consumer k c d))"

lemma cancel_offer_change: "cancel_offer rpc k p c d = (d', res, calls) \<Longrightarrow> offer_change d d'"
  by (auto simp: cancel_offer_def Let_def split: if_splits option.splits bool.splits intro: offer_change.intros)

lemma claim_offer_change: "claim_offer rpc pl k p c d = (d', res, calls) \<Longrightarrow> offer_change d d'"
  by (auto simp: claim_offer_def Let_def split: if_splits option.splits bool.splits sum.splits
      intro: offer_change.intros)

lemma with_offer_change: "with_offer b rpc pl d = (d', res, calls) \<Longrightarrow> offer_change d d'"
  unfolding with_offer_def Let_def
  by (auto split: option.splits if_splits sum.splits prod.splits
      intro: offer_change.same cancel_offer_change claim_offer_change)

lemma addressed_Some:
  "addressed pl d = Inr (Some (k, c)) \<longleftrightarrow>
     pl_dp_rank pl = Some (dir_dp_rank d) \<and> pl_instance_id pl = Some (dir_instance_id d) \<and>
     pl_offer_id pl = Some k \<and> pl_consumer_id pl = Some c"
  by (auto simp: addressed_def require_def rbind_eq_Inr_iff split: option.splits if_splits)

definition entry_kept :: "retained_prefix \<Rightarrow> retained_prefix \<Rightarrow> bool" where
  "entry_kept p0 p \<longleftrightarrow> p = p0 \<or> (\<exists>c. p = p0\<lparr>px_consumer_id := Some c\<rparr>)"

lemma entry_kept_simps [simp]: "entry_kept p p" "entry_kept p (p\<lparr>px_consumer_id := Some c\<rparr>)"
  by (auto simp: entry_kept_def)

lemma offer_change_origin:
  "offer_change d d' \<Longrightarrow> (k, p) \<in> set (dir_prefixes d') \<Longrightarrow> \<exists>p0. (k, p0) \<in> set (dir_prefixes d) \<and> entry_kept p0 p"
  by (induction rule: offer_change.induct)
    (auto simp: in_set_consumer in_delete_offer intro: entry_kept_simps split: if_splits)

lemma utility_cases:
  assumes "handle_utility_call operation pl rpc np wp now d = (d', res, calls)"
  obtains (config) "d' = d" "res = Inr (Configuration (dir_connector d) (dir_bidirectional d))"
  | (offer) "operation = ''retained_prefix''" "d' = expire_available now d" "res = find_offer d' pl"
  | (drained) "operation = ''drain''" "drain np wp (expire_available now d) = (d', res, calls)"
  | (unknown) "d' = expire_available now d" "res = Inl (UnknownOperation operation)"
  | (addressing) b where "operation = (if b then ''cancel'' else ''claim'')"
      "with_offer b rpc pl (expire_available now d) = (d', res, calls)"
proof -
  consider "operation = ''configuration''" | "operation = ''retained_prefix''" | "operation = ''drain''"
    | b where "operation = (if b then ''cancel'' else ''claim'')"
    | "operation \<notin> {''configuration'', ''retained_prefix'', ''drain'', ''claim'', ''cancel''}"
    by (metis insertE singletonD)
  then show thesis
  proof cases
    case 1
    with assms show thesis by (intro config) (auto simp: handle_utility_call_def)
  next
    case 2
    with assms show thesis by (intro offer) (auto simp: handle_utility_call_def Let_def)
  next
    case 3
    with assms show thesis by (intro drained) (auto simp: handle_utility_call_def Let_def)
  next
    case (4 b)
    with assms show thesis by (intro addressing [of b]) (cases b; simp add: handle_utility_call_def Let_def)+
  next
    case 5
    with assms show thesis by (intro unknown) (auto simp: handle_utility_call_def Let_def)
  qed
qed

lemma utility_origin:
  assumes "handle_utility_call operation pl rpc np wp now d = (d', res, calls)"
    and "(k, p) \<in> set (dir_prefixes d')"
  shows "\<exists>p0. (k, p0) \<in> set (dir_prefixes d) \<and> entry_kept p0 p"
proof -
  let ?d = "expire_available now d"
  from assms(1) show ?thesis
  proof (cases rule: utility_cases)
    case drained
    then have "(k, p) \<in> set (dir_prefixes ?d)"
      using assms(2) by (auto simp: drain_def Let_def split: option.splits)
    then show ?thesis by (auto intro: entry_kept_simps)
  next
    case (addressing b)
    from offer_change_origin [OF with_offer_change [OF addressing(2)] assms(2)] show ?thesis by auto
  qed (use assms(2) in \<open>auto intro: entry_kept_simps\<close>)
qed

lemma record_origin:
  assumes "(k, p) \<in> set (dir_prefixes (fst (record_prefix rq result fresh now d)))"
  shows "(k, p) \<in> set (dir_prefixes d) \<or>
    (\<exists>ps n t. snd result = Some ps \<and> lease_name fresh ps = Inr k \<and> p = new_prefix rq ps n t \<and>
       0 < n \<and> n \<le> int (length (rq_all_token_ids rq)) \<and> dir_accepting d)"
proof (cases "dir_retain d \<and> publishable rq result")
  case True
  then obtain ps where ps: "snd result = Some ps"
    by (cases result) (auto simp: publishable_def split: option.splits bool.splits)
  show ?thesis
    using assms True ps
    by (auto simp: record_prefix_def Let_def split: sum.splits if_splits dest!: set_dict_set)
next
  case False
  then show ?thesis using assms by (auto simp: record_prefix_def split: if_splits)
qed

lemma apply_event_origin:
  assumes "(k, p) \<in> set (dir_prefixes (apply_event ev d))" and "\<not> publishes k ev"
  shows "\<exists>p0. (k, p0) \<in> set (dir_prefixes d) \<and> entry_kept p0 p"
proof (cases ev)
  case (Utility operation pl rpc np wp now)
  then show ?thesis using assms(1) utility_origin by (metis apply_event.simps(1) prod.collapse)
next
  case (Finished rq result fresh now)
  then show ?thesis
    using record_origin [of k p rq result fresh now d] assms by (cases result) (auto intro: entry_kept_simps)
next
  case (Output fs)
  then show ?thesis
    using assms(1) by (auto simp: update_connector_output_def Let_def intro: entry_kept_simps split: if_splits)
qed

section \<open>Claims are one-shot\<close>

definition consumed :: "string \<Rightarrow> directory \<Rightarrow> bool" where
  "consumed k d \<longleftrightarrow> (\<forall>p. (k, p) \<in> set (dir_prefixes d) \<longrightarrow> px_consumer_id p \<noteq> None)"

lemma consumed_event: "consumed k d \<Longrightarrow> \<not> publishes k ev \<Longrightarrow> consumed k (apply_event ev d)"
  unfolding consumed_def entry_kept_def using apply_event_origin by (fastforce simp: entry_kept_def)

lemma consumed_events: "consumed k d \<Longrightarrow> (\<And>ev. ev \<in> set evs \<Longrightarrow> \<not> publishes k ev) \<Longrightarrow> consumed k (fold apply_event evs d)"
  by (induction evs arbitrary: d) (auto simp: consumed_event)

lemma with_offer_GrantedE:
  assumes "with_offer b rpc pl d = (d', Inr (Granted r inst desc), calls)"
  obtains k c p where "\<not> b" "pl_offer_id pl = Some k" "pl_consumer_id pl = Some c" "map_of (dir_prefixes d) k = Some p"
    "dir_accepting d" "px_consumer_id p = None" "matches p pl = Inr True" "d' = set_consumer k c d"
    "r = dir_dp_rank d" "inst = dir_instance_id d" "pl_dp_rank pl = Some r" "pl_instance_id pl = Some inst"
    "all_workers rpc (WClaim (px_request_id p) k c) = Some True" "calls = [WClaim (px_request_id p) k c]"
    "desc = dict_set ''remote_consumer_id'' (JStr c) (dict_set ''remote_read_lease'' (JStr k) (px_descriptor p))"
proof -
  have no: "cancel_offer rpc k p c d \<noteq> (d', Inr (Granted r inst desc), calls)" for k p c
    by (auto simp: cancel_offer_def Let_def split: if_splits option.splits bool.splits)
  from assms obtain k c where ad: "addressed pl d = Inr (Some (k, c))"
    by (auto simp: with_offer_def Let_def split: sum.splits option.splits)
  with assms no obtain p where "\<not> b" and p: "map_of (dir_prefixes d) k = Some p"
    and cl: "claim_offer rpc pl k p c d = (d', Inr (Granted r inst desc), calls)"
    by (cases b) (auto simp: with_offer_def Let_def split: option.splits)
  note kc = ad [unfolded addressed_Some] p
  from cl have "dir_accepting d" "px_consumer_id p = None" "matches p pl = Inr True" "d' = set_consumer k c d"
    "r = dir_dp_rank d" "inst = dir_instance_id d" "all_workers rpc (WClaim (px_request_id p) k c) = Some True"
    "calls = [WClaim (px_request_id p) k c]"
    "desc = dict_set ''remote_consumer_id'' (JStr c) (dict_set ''remote_read_lease'' (JStr k) (px_descriptor p))"
    unfolding claim_offer_def Let_def by (auto split: if_splits option.splits bool.splits sum.splits)
  with \<open>\<not> b\<close> kc that show thesis by blast
qed

lemma utility_Granted:
  assumes "handle_utility_call operation pl rpc np wp now d = (d', Inr (Granted r inst desc), calls)"
  shows "operation = ''claim'' \<and> with_offer False rpc pl (expire_available now d) = (d', Inr (Granted r inst desc), calls)"
proof -
  from assms show ?thesis
  proof (cases rule: utility_cases)
    case offer
    then show ?thesis by (auto simp: find_offer_def rbind_def split: sum.splits)
  next
    case drained
    then show ?thesis by (auto simp: drain_def Let_def split: option.splits)
  next
    case (addressing b)
    from addressing(2) have "\<not> b" by (rule with_offer_GrantedE)
    then show ?thesis using addressing by simp
  qed simp_all
qed

lemma grant_consumes:
  assumes "handle_utility_call operation pl rpc np wp now d = (d', Inr (Granted r inst desc), calls)"
  obtains k where "pl_offer_id pl = Some k" "consumed k d'" "\<not> consumed k (expire_available now d)"
proof -
  from utility_Granted [OF assms] have "with_offer False rpc pl (expire_available now d) = (d', Inr (Granted r inst desc), calls)"
    by simp
  then obtain k c p where "pl_offer_id pl = Some k" "d' = set_consumer k c (expire_available now d)"
    "map_of (dir_prefixes (expire_available now d)) k = Some p" "px_consumer_id p = None"
    by (rule with_offer_GrantedE)
  note g = this
  have "(k, p) \<in> set (dir_prefixes (expire_available now d))" using g(3) by (rule map_of_SomeD)
  then have "\<not> consumed k (expire_available now d)" using g(4) unfolding consumed_def by blast
  moreover have "consumed k d'" unfolding g(2) consumed_def in_set_consumer by auto
  ultimately show thesis using g(1) that by blast
qed

lemma consumed_expire: "consumed k d \<Longrightarrow> consumed k (expire_available now d)"
  by (auto simp: consumed_def)

section \<open>Discovery\<close>

lemma offer_matches_Inr:
  assumes "offer_matches acc pl ps = Inr ms"
  shows "ms = filter (\<lambda>(k, p). acc \<and> px_consumer_id p = None \<and> matches p pl = Inr True) ps"
  using assms
proof (induction acc pl ps arbitrary: ms rule: offer_matches.induct)
  case (2 acc pl k p rest)
  show ?case
  proof (cases "acc \<and> px_consumer_id p = None")
    case True
    then obtain b ms' where "matches p pl = Inr b" "offer_matches acc pl rest = Inr ms'"
      "ms = (if b then (k, p) # ms' else ms')"
      using 2(3) by (auto simp: rbind_eq_Inr_iff)
    moreover from this have "ms' = filter (\<lambda>(k, p). acc \<and> px_consumer_id p = None \<and> matches p pl = Inr True) rest"
      using 2(1) True by auto
    ultimately show ?thesis using True by (cases b) auto
  next
    case False
    then show ?thesis using 2(2,3) by auto
  qed
qed simp

definition available :: "time \<Rightarrow> payload \<Rightarrow> directory \<Rightarrow> string \<Rightarrow> retained_prefix \<Rightarrow> bool" where
  "available now pl d k p \<longleftrightarrow>
     dir_accepting d \<and> (k, p) \<in> set (dir_prefixes d) \<and> px_consumer_id p = None \<and> now < px_expires_at p \<and>
     px_cache_salt p = pl_cache_salt pl \<and>
     (\<exists>ts. pl_prompt_token_ids pl = Some ts \<and> take (length (px_token_ids p)) ts = px_token_ids p)"

lemma matches_True:
  "matches p pl = Inr True \<longleftrightarrow> px_cache_salt p = pl_cache_salt pl \<and>
     (\<exists>ts. pl_prompt_token_ids pl = Some ts \<and> take (length (px_token_ids p)) ts = px_token_ids p)"
  by (auto simp: matches_def split: option.splits)

section \<open>Draining\<close>

lemma offer_change_accepting: "offer_change d d' \<Longrightarrow> dir_accepting d' = dir_accepting d"
  by (induction rule: offer_change.induct) (simp_all add: set_consumer_def delete_offer_def)

lemma accepting_utility:
  assumes "\<not> dir_accepting d" and "handle_utility_call operation pl rpc np wp now d = (d', res, calls)"
  shows "\<not> dir_accepting d'"
  using assms(2)
proof (cases rule: utility_cases)
  case drained
  then show ?thesis by (auto simp: drain_def Let_def split: option.splits)
next
  case (addressing b)
  from offer_change_accepting [OF with_offer_change [OF addressing(2)]] assms(1) show ?thesis by simp
qed (use assms(1) in simp_all)

lemma accepting_event: "\<not> dir_accepting d \<Longrightarrow> \<not> dir_accepting (apply_event ev d)"
proof (cases ev)
  case (Utility operation pl rpc np wp now)
  assume "\<not> dir_accepting d"
  then show ?thesis using Utility accepting_utility by (metis apply_event.simps(1) prod.collapse)
next
  case (Finished rq result fresh now)
  assume "\<not> dir_accepting d"
  then show ?thesis
    using Finished by (auto simp: record_prefix_def Let_def split: sum.splits)
next
  case (Output fs)
  assume "\<not> dir_accepting d"
  then show ?thesis using Output by (auto simp: update_connector_output_def Let_def)
qed

lemma accepting_events: "\<not> dir_accepting d \<Longrightarrow> \<not> dir_accepting (fold apply_event evs d)"
  by (induction evs arbitrary: d) (simp_all add: accepting_event)

section \<open>The invariant of the directory\<close>

definition dir_inv :: "directory \<Rightarrow> bool" where
  "dir_inv d \<longleftrightarrow> distinct (map fst (dir_prefixes d)) \<and> (\<forall>(k, p) \<in> set (dir_prefixes d). px_token_ids p \<noteq> [])"

lemma distinct_keys_filter: "distinct (map fst ps) \<Longrightarrow> distinct (map fst (filter q ps))"
  by (induction ps) auto

lemma offer_change_keys:
  "offer_change d d' \<Longrightarrow> distinct (map fst (dir_prefixes d)) \<Longrightarrow> distinct (map fst (dir_prefixes d'))"
proof (induction rule: offer_change.induct)
  case (undone k c)
  have "map fst (dir_prefixes (set_consumer k c d)) = map fst (dir_prefixes d)"
    by (simp add: set_consumer_def comp_def case_prod_beta)
  with undone show ?case by (simp add: delete_offer_def distinct_keys_filter)
qed (simp_all add: set_consumer_def delete_offer_def comp_def case_prod_beta distinct_keys_filter)

lemma keys_utility:
  assumes "distinct (map fst (dir_prefixes d))" and "handle_utility_call operation pl rpc np wp now d = (d', res, calls)"
  shows "distinct (map fst (dir_prefixes d'))"
proof -
  have keys: "distinct (map fst (dir_prefixes (expire_available now d)))"
    using assms(1) by (simp add: expire_available_def distinct_keys_filter)
  from assms(2) show ?thesis
  proof (cases rule: utility_cases)
    case drained
    then show ?thesis using keys by (auto simp: drain_def Let_def distinct_keys_filter split: option.splits)
  next
    case (addressing b)
    show ?thesis using offer_change_keys [OF with_offer_change [OF addressing(2)] keys] .
  qed (use assms(1) keys in simp_all)
qed

lemma keys_event:
  assumes "distinct (map fst (dir_prefixes d))"
  shows "distinct (map fst (dir_prefixes (apply_event ev d)))"
proof (cases ev)
  case (Utility operation pl rpc np wp now)
  then show ?thesis using keys_utility [OF assms] by (metis apply_event.simps(1) prod.collapse)
next
  case (Finished rq result fresh now)
  then show ?thesis
    using assms by (auto simp: record_prefix_def Let_def expire_available_def split: sum.splits
        intro!: distinct_dict_set distinct_keys_filter)
next
  case (Output fs)
  then show ?thesis using assms by (auto simp: update_connector_output_def Let_def distinct_keys_filter)
qed

lemma dir_inv_step:
  assumes "dir_inv d" and "dir_step d d'"
  shows "dir_inv d'"
proof -
  from assms(2) obtain ev where d': "d' = apply_event ev d" by (auto simp: dir_step_def)
  have "px_token_ids p \<noteq> []" if kp: "(k, p) \<in> set (dir_prefixes d')" for k p
  proof (cases "publishes k ev")
    case False
    then show ?thesis
      using apply_event_origin kp assms(1) unfolding d' dir_inv_def entry_kept_def by fastforce
  next
    case True
    then obtain rq result fresh now where ev: "ev = Finished rq result fresh now"
      by (cases ev) auto
    from record_origin [of k p rq result fresh now d] show ?thesis
      using kp assms(1) unfolding d' ev dir_inv_def by (auto simp: new_prefix_def)
  qed
  then show ?thesis using assms(1) keys_event by (auto simp: dir_inv_def d')
qed

lemma dir_inv_fresh: "fresh_directory d \<Longrightarrow> dir_inv d"
  by (auto simp: fresh_directory_def dir_inv_def initialize_retained_prefixes_def)

interpretation retained: inductive_invariant fresh_directory dir_step dir_inv
  by unfold_locales (auto intro: dir_inv_fresh dir_inv_step)

lemma events_reachable:
  "reachable fresh_directory dir_step d \<Longrightarrow> reachable fresh_directory dir_step (fold apply_event evs d)"
proof (induction evs arbitrary: d)
  case (Cons ev evs)
  have "dir_step d (apply_event ev d)" by (auto simp: dir_step_def)
  with Cons.prems have "reachable fresh_directory dir_step (apply_event ev d)" by (rule reach_step)
  then show ?case using Cons.IH by simp
qed simp

section \<open>Answers of the directory\<close>

lemma find_offer_available:
  assumes "find_offer (expire_available now d) pl = Inr (Offer r inst off)"
  shows "case off of
      None \<Rightarrow> \<not> (\<exists>k p. available now pl d k p)
    | Some (k, n) \<Rightarrow> (\<exists>p. available now pl d k p \<and> length (px_token_ids p) = n) \<and>
        (\<forall>k' p'. available now pl d k' p' \<longrightarrow> length (px_token_ids p') \<le> n)"
proof -
  let ?d = "expire_available now d"
  from assms obtain ms where ms: "offer_matches (dir_accepting ?d) pl (dir_prefixes ?d) = Inr ms"
    and off: "off = map_option (\<lambda>(k, p). (k, length (px_token_ids p))) (max_by (\<lambda>(_, p). length (px_token_ids p)) ms)"
    by (auto simp: find_offer_def rbind_eq_Inr_iff)
  have av: "(k, p) \<in> set ms \<longleftrightarrow> available now pl d k p" for k p
    unfolding offer_matches_Inr [OF ms] by (auto simp: available_def matches_True)
  show ?thesis
  proof (cases "max_by (\<lambda>(_, p). length (px_token_ids p)) ms")
    case None
    then show ?thesis using av by (simp add: off)
  next
    case (Some kp)
    obtain k p where kp: "kp = (k, p)" by fastforce
    have "available now pl d k p" using max_by_in [OF Some] av kp by simp
    moreover have "length (px_token_ids p') \<le> length (px_token_ids p)" if "available now pl d k' p'" for k' p'
      using max_by_ge [OF Some, of "(k', p')"] that av kp by simp
    ultimately show ?thesis by (auto simp: off Some kp)
  qed
qed

lemma utility_Offer:
  assumes "handle_utility_call op pl rpc np wp now d = (d', Inr (Offer r inst off), calls)"
  shows "find_offer (expire_available now d) pl = Inr (Offer r inst off)"
  using assms
proof (cases rule: utility_cases)
  case drained
  from drained(2) show ?thesis by (auto simp: drain_def Let_def split: option.splits)
next
  case (addressing b)
  from addressing(2) show ?thesis
    by (auto simp: with_offer_def cancel_offer_def claim_offer_def Let_def
        split: sum.splits option.splits if_splits bool.splits)
qed simp_all

lemma drain_stops:
  assumes "handle_utility_call ''drain'' pl rpc np wp t d = (d', res, calls)"
  shows "\<not> dir_accepting d'"
proof -
  have "drain np wp (expire_available t d) = (d', res, calls)"
    using assms unfolding handle_utility_call_def Let_def by simp
  then show ?thesis by (auto simp: drain_def Let_def split: option.splits)
qed

text \<open>Once the directory stopped accepting, no event adds an entry.\<close>

lemma drained_event_origin:
  assumes "(k, p) \<in> set (dir_prefixes (apply_event ev d))" and "\<not> dir_accepting d"
  shows "\<exists>p0. (k, p0) \<in> set (dir_prefixes d)"
proof (cases "publishes k ev")
  case True
  then obtain rq result fresh now where "ev = Finished rq result fresh now" by (cases ev) auto
  then show ?thesis using record_origin [of k p rq result fresh now d] assms by auto
qed (use apply_event_origin [OF assms(1)] in blast)

lemma drained_events_origin:
  "(k, p) \<in> set (dir_prefixes (fold apply_event evs d)) \<Longrightarrow> \<not> dir_accepting d \<Longrightarrow> \<exists>p0. (k, p0) \<in> set (dir_prefixes d)"
proof (induction evs arbitrary: d)
  case (Cons ev evs)
  then show ?case using drained_event_origin accepting_event by fastforce
qed auto

lemma grant_available:
  assumes "handle_utility_call op pl rpc np wp now d = (d', Inr (Granted r inst desc), calls)"
  obtains k c p rs where "pl_offer_id pl = Some k" "pl_consumer_id pl = Some c" "available now pl d k p"
    "rpc (WClaim (px_request_id p) k c) = Some rs" "False \<notin> set rs"
    "desc = dict_set ''remote_consumer_id'' (JStr c) (dict_set ''remote_read_lease'' (JStr k) (px_descriptor p))"
    "(k, p\<lparr>px_consumer_id := Some c\<rparr>) \<in> set (dir_prefixes d')"
proof -
  let ?d = "expire_available now d"
  from utility_Granted [OF assms] have "with_offer False rpc pl ?d = (d', Inr (Granted r inst desc), calls)" by simp
  then obtain k c p where g: "pl_offer_id pl = Some k" "pl_consumer_id pl = Some c" "map_of (dir_prefixes ?d) k = Some p"
    "dir_accepting ?d" "px_consumer_id p = None" "matches p pl = Inr True" "d' = set_consumer k c ?d"
    "all_workers rpc (WClaim (px_request_id p) k c) = Some True"
    "desc = dict_set ''remote_consumer_id'' (JStr c) (dict_set ''remote_read_lease'' (JStr k) (px_descriptor p))"
    by (rule with_offer_GrantedE)
  have kp: "(k, p) \<in> set (dir_prefixes ?d)" using g(3) by (rule map_of_SomeD)
  then have "available now pl d k p" using g(4,5,6) by (auto simp: available_def matches_True)
  moreover have "(k, p\<lparr>px_consumer_id := Some c\<rparr>) \<in> set (dir_prefixes d')"
    unfolding g(7) in_set_consumer using kp by auto
  moreover obtain rs where "rpc (WClaim (px_request_id p) k c) = Some rs" "False \<notin> set rs"
    using g(8) by (auto simp: all_workers_def)
  ultimately show ?thesis using that g(1,2,9) by blast
qed

section \<open>Claimed entries\<close>

text \<open>The events that end a claim: its own consumer cancels it and all workers release it, or the native
  transfer of its request finished.\<close>

fun ends_claim :: "string \<Rightarrow> retained_prefix \<Rightarrow> event \<Rightarrow> bool" where
  "ends_claim k p (Utility operation pl rpc np wp now) \<longleftrightarrow>
     (case px_consumer_id p of None \<Rightarrow> False | Some c \<Rightarrow>
        operation = ''cancel'' \<and> pl_offer_id pl = Some k \<and> pl_consumer_id pl = Some c \<and>
        all_workers rpc (WCancel (px_request_id p) k c) = Some True)"
| "ends_claim k p (Output fs) \<longleftrightarrow> (case fs of None \<Rightarrow> False | Some xs \<Rightarrow> px_request_id p \<in> set xs)"
| "ends_claim k p (Finished rq result fresh now) \<longleftrightarrow> False"

lemma in_dict_set_other: "k \<noteq> k' \<Longrightarrow> (k, p) \<in> set (dict_set k' v ps) \<longleftrightarrow> (k, p) \<in> set ps"
  by (induction ps) (auto split: if_splits)

lemma cancel_offer_keeps:
  assumes "cancel_offer rpc k' p' c' d = (d', res, calls)" and "(k, p) \<in> set (dir_prefixes d)"
    and "k' = k \<Longrightarrow> p' = p \<and> px_consumer_id p = Some c \<and> (c' = c \<longrightarrow> all_workers rpc (WCancel (px_request_id p) k c) \<noteq> Some True)"
  shows "(k, p) \<in> set (dir_prefixes d')"
  using assms by (auto simp: cancel_offer_def Let_def in_delete_offer split: if_splits option.splits bool.splits)

lemma set_consumer_other: "k \<noteq> x \<Longrightarrow> (k, p) \<in> set (dir_prefixes (set_consumer x c d)) \<longleftrightarrow> (k, p) \<in> set (dir_prefixes d)"
  by (auto simp: in_set_consumer)

lemma claim_offer_keeps:
  assumes "claim_offer rpc pl k' p' c' d = (d', res, calls)" and "(k, p) \<in> set (dir_prefixes d)"
    and "k' = k \<Longrightarrow> px_consumer_id p' \<noteq> None"
  shows "(k, p) \<in> set (dir_prefixes d')"
proof (cases "k' = k")
  case False
  then show ?thesis
    using assms(1,2) set_consumer_other [of k k']
    by (auto simp: claim_offer_def Let_def in_delete_offer split: if_splits sum.splits option.splits bool.splits)
qed (use assms in \<open>simp add: claim_offer_def Let_def\<close>)

lemma with_offer_keeps:
  assumes call: "with_offer b rpc pl d = (d', res, calls)" and kp: "(k, p) \<in> set (dir_prefixes d)"
    and c: "px_consumer_id p = Some c" and inv: "distinct (map fst (dir_prefixes d))"
    and live: "\<not> (b \<and> pl_offer_id pl = Some k \<and> pl_consumer_id pl = Some c \<and>
        all_workers rpc (WCancel (px_request_id p) k c) = Some True)"
  shows "(k, p) \<in> set (dir_prefixes d')"
proof (cases "addressed pl d")
  case (Inr a)
  show ?thesis
  proof (cases a)
    case (Some kc)
    obtain k' c' where kc: "kc = (k', c')" by fastforce
    with Inr Some have ad: "addressed pl d = Inr (Some (k', c'))" by simp
    show ?thesis
    proof (cases "map_of (dir_prefixes d) k'")
      case found: (Some p')
      have "p' = p" if "k' = k" using map_of_is_SomeI [OF inv kp] found that by simp
      moreover have "if b then cancel_offer rpc k' p' c' d = (d', res, calls) else claim_offer rpc pl k' p' c' d = (d', res, calls)"
        using call ad found by (cases b) (simp_all add: with_offer_def Let_def)
      ultimately show ?thesis
        using kp c live ad addressed_Some by (cases b) (auto intro: cancel_offer_keeps claim_offer_keeps)
    qed (use call kp ad in \<open>simp add: with_offer_def Let_def\<close>)
  qed (use call kp Inr in \<open>simp add: with_offer_def Let_def\<close>)
qed (use call kp in \<open>simp add: with_offer_def Let_def\<close>)

lemma claim_kept:
  assumes inv: "dir_inv d" and kp: "(k, p) \<in> set (dir_prefixes d)" and c: "px_consumer_id p = Some c"
    and ev: "\<not> ends_claim k p ev" "\<not> publishes k ev"
  shows "(k, p) \<in> set (dir_prefixes (apply_event ev d))"
proof (cases ev)
  case (Utility operation pl rpc np wp now)
  let ?d = "expire_available now d"
  have kp': "(k, p) \<in> set (dir_prefixes ?d)" using kp c by simp
  obtain d' res calls where call: "handle_utility_call operation pl rpc np wp now d = (d', res, calls)"
    by (metis prod.collapse)
  then have "(k, p) \<in> set (dir_prefixes d')"
  proof (cases rule: utility_cases)
    case drained
    from drained(2) kp' c show ?thesis by (auto simp: drain_def Let_def split: option.splits)
  next
    case (addressing b)
    have "distinct (map fst (dir_prefixes ?d))"
      using inv distinct_keys_filter by (auto simp: dir_inv_def expire_available_def)
    moreover have "\<not> (b \<and> pl_offer_id pl = Some k \<and> pl_consumer_id pl = Some c \<and>
        all_workers rpc (WCancel (px_request_id p) k c) = Some True)"
      using ev(1) c addressing(1) by (simp add: Utility)
    ultimately show ?thesis using with_offer_keeps [OF addressing(2) kp' c] by blast
  qed (use kp kp' in simp_all)
  then show ?thesis using call by (simp add: Utility)
next
  case (Finished rq result fresh now)
  show ?thesis
  proof (cases "snd result")
    case (Some ps)
    then have "lease_name fresh ps \<noteq> Inr k" using ev(2) Finished by (cases result) auto
    then show ?thesis using kp c Some unfolding Finished
      by (auto simp: record_prefix_def Let_def in_dict_set_other split: sum.splits)
  next
    case None
    then have "\<not> publishable rq result" by (cases result) (auto simp: publishable_def split: bool.splits)
    then show ?thesis using kp by (simp add: Finished record_prefix_def)
  qed
next
  case (Output fs)
  then show ?thesis using kp ev(1) by (auto simp: update_connector_output_def Let_def split: option.splits)
qed

section \<open>Properties of the directory\<close>

definition demo_request :: request where
  "demo_request = \<lparr>rq_request_id = ''req1'', rq_all_token_ids = [11, 12, 13, 14], rq_cache_salt = None,
     rq_lora = False, rq_mm_features = False, rq_prompt_embeds = False\<rparr>"

definition demo_native :: native_result where
  "demo_native = (True, Some [(''do_remote_decode'', JBool True), (''remote_num_tokens'', JInt 3),
     (''remote_blocks_expiry_time'', JFloat 100)])"

definition demo_dir :: directory where
  "demo_dir = apply_event (Finished demo_request demo_native ''lease1'' 1)
     (initialize_retained_prefixes ''nixl'' ''engine'' 0 True True)"

definition demo_payload :: payload where
  "demo_payload = \<lparr>pl_cache_salt = None, pl_prompt_token_ids = Some [11, 12, 13, 99], pl_dp_rank = Some 0,
     pl_instance_id = Some ''engine'', pl_offer_id = Some ''lease1'', pl_consumer_id = Some ''decode7''\<rparr>"

abbreviation yes_workers :: "worker_call \<Rightarrow> bool list option" where
  "yes_workers \<equiv> \<lambda>_. Some [True, True]"

definition demo_claimed :: directory where
  "demo_claimed = fst (handle_utility_call ''claim'' demo_payload yes_workers [] (Some []) 2 demo_dir)"

definition demo_descriptor :: "(string \<times> json) list" where
  "demo_descriptor = [(''do_remote_decode'', JBool True), (''remote_num_tokens'', JInt 3),
     (''remote_blocks_expiry_time'', JFloat 100), (''remote_read_lease'', JStr ''lease1''),
     (''remote_consumer_id'', JStr ''decode7'')]"

lemma demo_dir_reachable: "reachable fresh_directory dir_step demo_dir"
proof -
  have "fresh_directory (initialize_retained_prefixes ''nixl'' ''engine'' 0 True True)"
    unfolding fresh_directory_def by blast
  from events_reachable [OF reach_start [of fresh_directory, OF this], where evs = "[Finished demo_request demo_native ''lease1'' 1]"]
  show ?thesis by (simp add: demo_dir_def)
qed

lemma demo_claim_granted:
  "handle_utility_call ''claim'' demo_payload yes_workers [] (Some []) 2 demo_dir =
     (demo_claimed, Inr (Granted 0 ''engine'' demo_descriptor), [WClaim ''req1'' ''lease1'' ''decode7''])"
  by code_simp

text \<open>C7: A retained prefix is handed out at most once. After a claim was granted for an offer, whatever calls,
  completions and outputs follow, no claim of that offer is granted again unless the scheduler publishes a
  new prefix under the same name.\<close>

theorem claim_granted_once:
  assumes first: "handle_utility_call op1 pl1 rpc1 np1 wp1 t1 d = (d1, Inr (Granted r1 i1 desc1), calls1)"
    and same: "pl_offer_id pl2 = pl_offer_id pl1"
    and quiet: "\<forall>ev \<in> set evs. \<forall>k. pl_offer_id pl1 = Some k \<longrightarrow> \<not> publishes k ev"
  shows "fst (snd (handle_utility_call op2 pl2 rpc2 np2 wp2 t2 (fold apply_event evs d1))) \<noteq> Inr (Granted r2 i2 desc2)"
proof
  let ?d = "fold apply_event evs d1"
  assume "fst (snd (handle_utility_call op2 pl2 rpc2 np2 wp2 t2 ?d)) = Inr (Granted r2 i2 desc2)"
  then obtain d2 calls2 where second: "handle_utility_call op2 pl2 rpc2 np2 wp2 t2 ?d = (d2, Inr (Granted r2 i2 desc2), calls2)"
    by (metis prod.collapse)
  from grant_consumes [OF first] obtain k where k: "pl_offer_id pl1 = Some k" "consumed k d1" by metis
  have "consumed k ?d" using k quiet by (intro consumed_events) auto
  moreover from grant_consumes [OF second] obtain k' where "pl_offer_id pl2 = Some k'" "\<not> consumed k' (expire_available t2 ?d)"
    by metis
  ultimately show False using same k(1) consumed_expire by auto
qed

theorem claim_granted_once_witness:
  "fst (snd (handle_utility_call ''claim'' demo_payload yes_workers [] (Some []) 3 demo_claimed)) \<noteq>
     Inr (Granted 0 ''engine'' demo_descriptor)"
  using claim_granted_once [OF demo_claim_granted refl, of "[]"] by simp

text \<open>A grant is sound: the directory was accepting, the entry was unclaimed, unexpired, of the same salt and a
  prefix of the prompt, all workers took the reference, and the descriptor names the lease and its consumer.\<close>

theorem grant_sound:
  assumes "handle_utility_call op pl rpc np wp now d = (d', Inr (Granted r inst desc), calls)"
  shows "\<exists>k c p. pl_offer_id pl = Some k \<and> pl_consumer_id pl = Some c \<and> available now pl d k p \<and>
    (\<exists>rs. rpc (WClaim (px_request_id p) k c) = Some rs \<and> False \<notin> set rs) \<and>
    map_of desc ''remote_read_lease'' = Some (JStr k) \<and> map_of desc ''remote_consumer_id'' = Some (JStr c) \<and>
    (k, p\<lparr>px_consumer_id := Some c\<rparr>) \<in> set (dir_prefixes d')"
proof -
  from assms obtain k c p rs where g: "pl_offer_id pl = Some k" "pl_consumer_id pl = Some c" "available now pl d k p"
    "rpc (WClaim (px_request_id p) k c) = Some rs" "False \<notin> set rs"
    "desc = dict_set ''remote_consumer_id'' (JStr c) (dict_set ''remote_read_lease'' (JStr k) (px_descriptor p))"
    "(k, p\<lparr>px_consumer_id := Some c\<rparr>) \<in> set (dir_prefixes d')"
    by (rule grant_available)
  from g(6) have "map_of desc ''remote_read_lease'' = Some (JStr k) \<and> map_of desc ''remote_consumer_id'' = Some (JStr c)"
    by simp
  with g show ?thesis by blast
qed

theorem grant_sound_witness: "\<exists>k p. available 2 demo_payload demo_dir k p"
  using grant_sound [OF demo_claim_granted] by blast

text \<open>C31: Discovery offers the longest available match, and offers nothing exactly when no entry is available.\<close>

theorem offer_is_longest_match:
  assumes "handle_utility_call op pl rpc np wp now d = (d', Inr (Offer r inst off), calls)"
  shows "case off of
      None \<Rightarrow> \<not> (\<exists>k p. available now pl d k p)
    | Some (k, n) \<Rightarrow> (\<exists>p. available now pl d k p \<and> length (px_token_ids p) = n) \<and>
        (\<forall>k' p'. available now pl d k' p' \<longrightarrow> length (px_token_ids p') \<le> n)"
  using find_offer_available [OF utility_Offer [OF assms]] .

theorem offer_is_longest_match_witness:
  "\<exists>p. available 2 demo_payload demo_dir ''lease1'' p \<and> length (px_token_ids p) = 3"
proof -
  have "handle_utility_call ''retained_prefix'' demo_payload yes_workers [] (Some []) 2 demo_dir =
    (demo_dir, Inr (Offer 0 ''engine'' (Some (''lease1'', 3))), [])" by code_simp
  from offer_is_longest_match [OF this] show ?thesis by simp
qed

text \<open>A drained directory never grants, never offers and never publishes again.\<close>

theorem drained_stays_empty:
  assumes drained: "handle_utility_call ''drain'' pl rpc np wp t d = (d1, res, calls)"
  shows "fst (snd (handle_utility_call op2 pl2 rpc2 np2 wp2 t2 (fold apply_event evs d1))) \<noteq> Inr (Granted r i desc) \<and>
    fst (snd (handle_utility_call op2 pl2 rpc2 np2 wp2 t2 (fold apply_event evs d1))) \<noteq> Inr (Offer r i (Some x)) \<and>
    (\<forall>k p. (k, p) \<in> set (dir_prefixes (fold apply_event evs d1)) \<longrightarrow> (\<exists>p0. (k, p0) \<in> set (dir_prefixes d)))"
proof -
  let ?d = "fold apply_event evs d1"
  let ?call = "handle_utility_call op2 pl2 rpc2 np2 wp2 t2 ?d"
  note stopped = drain_stops [OF drained]
  have not_av: "\<not> available t2 pl2 ?d k p" for k p
    using accepting_events [OF stopped] by (simp add: available_def)
  have "fst (snd ?call) \<noteq> Inr (Granted r i desc)"
  proof
    assume "fst (snd ?call) = Inr (Granted r i desc)"
    then have "?call = (fst ?call, Inr (Granted r i desc), snd (snd ?call))" by (metis prod.collapse)
    from grant_available [OF this] not_av show False by metis
  qed
  moreover have "fst (snd ?call) \<noteq> Inr (Offer r i (Some x))"
  proof
    assume "fst (snd ?call) = Inr (Offer r i (Some x))"
    then have "?call = (fst ?call, Inr (Offer r i (Some x)), snd (snd ?call))" by (metis prod.collapse)
    from find_offer_available [OF utility_Offer [OF this]] not_av show False by (cases x) auto
  qed
  moreover have "\<exists>p0. (k, p0) \<in> set (dir_prefixes d)" if "(k, p) \<in> set (dir_prefixes ?d)" for k p
    using drained_events_origin [OF that stopped] utility_origin [OF drained] by blast
  ultimately show ?thesis by blast
qed

theorem drained_stays_empty_witness:
  "fst (snd (handle_utility_call ''claim'' demo_payload yes_workers [] (Some []) 2
     (fst (handle_utility_call ''drain'' demo_payload yes_workers [] (Some []) 2 demo_dir)))) \<noteq>
   Inr (Granted 0 ''engine'' demo_descriptor)"
  using drained_stays_empty [of demo_payload yes_workers "[]" "Some []" 2 demo_dir _ _ _ _ _ _ _ _ _ "[]"]
  by (metis fold_simps(1) prod.collapse)

text \<open>C32: In every reachable directory a claimed entry survives, unchanged, every event other than its own consumer's
  accepted cancellation, the completion of its transfer, and a new publication under its name: expiry, draining
  and the calls of other consumers leave it alone.\<close>

theorem claimed_entry_survives:
  assumes "reachable fresh_directory dir_step d" and "(k, p) \<in> set (dir_prefixes d)" and "px_consumer_id p = Some c"
    and "\<forall>ev \<in> set evs. \<not> ends_claim k p ev \<and> \<not> publishes k ev"
  shows "(k, p) \<in> set (dir_prefixes (fold apply_event evs d))"
  using assms
proof (induction evs arbitrary: d)
  case (Cons ev evs)
  note inv = retained.reachable_inv [OF Cons.prems(1)]
  have "(k, p) \<in> set (dir_prefixes (apply_event ev d))"
    using claim_kept [OF inv Cons.prems(2,3)] Cons.prems(4) by simp
  then show ?case
    using Cons.IH events_reachable [OF Cons.prems(1), where evs = "[ev]"] Cons.prems(3,4) by simp
qed simp

definition demo_entry :: retained_prefix where
  "demo_entry = \<lparr>px_request_id = ''req1'', px_token_ids = [11, 12, 13], px_cache_salt = None,
     px_descriptor = the (snd demo_native), px_expires_at = 100, px_consumer_id = Some ''decode7''\<rparr>"

theorem claimed_entry_survives_witness:
  "(''lease1'', demo_entry) \<in> set (dir_prefixes (apply_event (Utility ''drain'' demo_payload yes_workers [] (Some []) 500) demo_claimed))"
proof -
  have "demo_claimed = fold apply_event [Utility ''claim'' demo_payload yes_workers [] (Some []) 2] demo_dir"
    by (simp add: demo_claimed_def)
  then have "reachable fresh_directory dir_step demo_claimed"
    using events_reachable [OF demo_dir_reachable] by metis
  moreover have "(''lease1'', demo_entry) \<in> set (dir_prefixes demo_claimed)" by code_simp
  ultimately show ?thesis
    using claimed_entry_survives [of demo_claimed "''lease1''" demo_entry "''decode7''"
        "[Utility ''drain'' demo_payload yes_workers [] (Some []) 500]"]
    by (simp add: demo_entry_def)
qed

end
