(* ===== verification/Gpu_Usage.thy ===== *)
theory Gpu_Usage
  imports Prelude
begin

text \<open>
  Integration of GPU utilisation over a time window (\<open>gpu_usage.py\<close>, \<open>merge_clock_windows\<close>,
  \<open>summarize_gpu\<close>, \<open>aggregate_usage\<close>). Seconds and percentages are exact rationals. A heap of
  \<open>heapq\<close> is the sorted list of its elements: the code only reads \<open>active[0]\<close> and removes it.
\<close>

section \<open>Collector identities\<close>

text \<open>The tuples \<open>("collector", id)\<close> and \<open>("legacy", host, backend, pid, started)\<close>, in tuple order.\<close>

datatype identity = Collector string | Legacy string string int time

fun identity_key :: "identity \<Rightarrow> nat \<times> string \<times> string \<times> int \<times> time" where
  "identity_key (Collector c) = (0, c, '''', 0, 0)"
| "identity_key (Legacy host backend pid started) = (1, host, backend, pid, started)"

lemma identity_key_inject [simp]: "identity_key x = identity_key y \<longleftrightarrow> x = y"
  by (cases x; cases y) auto

instantiation identity :: linorder
begin

definition less_eq_identity :: "identity \<Rightarrow> identity \<Rightarrow> bool" where
  "x \<le> y \<longleftrightarrow> identity_key x \<le> identity_key y"

definition less_identity :: "identity \<Rightarrow> identity \<Rightarrow> bool" where
  "x < y \<longleftrightarrow> identity_key x < identity_key y"

instance
proof
  fix x y :: identity
  show "x < y \<longleftrightarrow> x \<le> y \<and> \<not> y \<le> x"    unfolding less_eq_identity_def less_identity_def by (rule less_le_not_le)
qed (auto simp: less_eq_identity_def)

end

section \<open>Clock windows\<close>

text \<open>An interval whose wall-clock times are ambiguous: \<open>since\<close> and \<open>until\<close>.\<close>

type_synonym window = "time \<times> time"

text \<open>The loop over the sorted windows; \<open>done_rev\<close> is \<open>merged\<close> with its last element first.\<close>

fun merge_windows :: "window list \<Rightarrow> window list \<Rightarrow> window list" where
  "merge_windows done_rev [] = rev done_rev"
| "merge_windows [] (w # ws) = merge_windows [w] ws"
| "merge_windows ((s, u) # ms) (w # ws) =
     (if fst w \<le> u then merge_windows ((s, max u (snd w)) # ms) ws
      else merge_windows (w # (s, u) # ms) ws)"

definition merge_clock_windows :: "window list \<Rightarrow> window list" where
  "merge_clock_windows windows = merge_windows [] (sort windows)"

section \<open>Integrating one device\<close>

text \<open>\<open>(stamp, stop, usage, started_at, collector_id, sequence)\<close>.\<close>

type_synonym observation = "time \<times> time \<times> time option \<times> time \<times> identity \<times> int"

text \<open>\<open>(-stamp, -started_at, collector_id, -sequence, stop, usage)\<close>, compared as a tuple.\<close>

type_synonym reading = "time \<times> time \<times> identity \<times> int \<times> time \<times> time"

definition reading_stop :: "reading \<Rightarrow> time" where
  "reading_stop e = (case e of (_, _, _, _, stop, _) \<Rightarrow> stop)"

definition reading_usage :: "reading \<Rightarrow> time" where
  "reading_usage e = (case e of (_, _, _, _, _, usage) \<Rightarrow> usage)"

text \<open>\<open>events.setdefault(k, [])\<close> and \<open>events.setdefault(k, []).append(x)\<close>.\<close>

definition set_default :: "'k \<Rightarrow> 'v \<Rightarrow> ('k \<times> 'v) list \<Rightarrow> ('k \<times> 'v) list" where
  "set_default k v d = (if k \<in> fst ` set d then d else d @ [(k, v)])"

definition append_at :: "'k \<Rightarrow> 'v \<Rightarrow> ('k \<times> 'v list) list \<Rightarrow> ('k \<times> 'v list) list" where
  "append_at k x d = map (\<lambda>(a, xs). (a, if a = k then xs @ [x] else xs)) (set_default k [] d)"

definition add_observation ::
  "time \<Rightarrow> time \<Rightarrow> (time \<times> reading list) list \<Rightarrow> observation \<Rightarrow> (time \<times> reading list) list" where
  "add_observation since until events obs =
     (case obs of (stamp, stop0, usage, started_at, collector_id, sequence) \<Rightarrow>
        let start = max since stamp; stop = min until stop0 in
        case usage of
          None \<Rightarrow> events
        | Some u \<Rightarrow>
            if stop \<le> start then events
            else set_default stop []
              (append_at start (- stamp, - started_at, collector_id, - sequence, stop, u) events))"

definition events_at :: "('k \<times> 'v list) list \<Rightarrow> 'k \<Rightarrow> 'v list" where
  "events_at d k = (case map_of d k of None \<Rightarrow> [] | Some xs \<Rightarrow> xs)"

definition heappush :: "reading list \<Rightarrow> reading \<Rightarrow> reading list" where
  "heappush heap x = insort x heap"

fun pop_expired :: "time \<Rightarrow> reading list \<Rightarrow> reading list" where
  "pop_expired start [] = []"
| "pop_expired start (e # heap) = (if reading_stop e \<le> start then pop_expired start heap else e # heap)"

text \<open>The loop over consecutive boundaries; the accumulator is \<open>(covered, idle, weighted)\<close>.\<close>

fun sweep :: "(time \<times> reading list) list \<Rightarrow> time list \<Rightarrow> reading list \<Rightarrow> time \<times> time \<times> time \<Rightarrow> time \<times> time \<times> time" where
  "sweep events (start # stop # rest) active (covered, idle, weighted) =
     (let pushed = foldl heappush active (events_at events start);
          active' = pop_expired start pushed in
      case active' of
        [] \<Rightarrow> sweep events (stop # rest) active' (covered, idle, weighted)
      | e # _ \<Rightarrow>
          let usage = reading_usage e; duration = stop - start in
          sweep events (stop # rest) active'
            (covered + duration, if usage = 0 then idle + duration else idle, weighted + usage * duration))"
| "sweep events [_] active acc = acc"
| "sweep events [] active acc = acc"

record usage_summary =
  us_covered :: time
  us_idle :: time
  us_mean :: "time option"
  us_coverage :: "time option"

definition summarize_gpu :: "observation list \<Rightarrow> time \<Rightarrow> time \<Rightarrow> usage_summary" where
  "summarize_gpu observations since until =
     (let events = foldl (add_observation since until) [] observations;
          boundaries = sort (map fst events) in
      case sweep events boundaries [] (0, 0, 0) of (covered, idle, weighted) \<Rightarrow>
        \<lparr>us_covered = covered, us_idle = idle,
         us_mean = (if covered \<noteq> 0 then Some (weighted / covered) else None),
         us_coverage = Some (100 * covered / (until - since))\<rparr>)"

section \<open>Combining devices\<close>

record node_usage =
  nu_covered :: "time option"
  nu_idle :: "time option"
  nu_expected :: "time option"
  nu_mean :: "time option"
  nu_coverage :: "time option"

definition aggregate_usage :: "usage_summary list \<Rightarrow> time option \<Rightarrow> node_usage" where
  "aggregate_usage items expected =
     (let covered = sum_list (map us_covered items);
          weighted = sum_list (map (\<lambda>i. case us_mean i of None \<Rightarrow> 0 | Some m \<Rightarrow> m * us_covered i) items) in
      \<lparr>nu_covered = Some covered, nu_idle = Some (sum_list (map us_idle items)),
       nu_expected = (if items \<noteq> [] then expected else None),
       nu_mean = (if covered \<noteq> 0 then Some (weighted / covered) else None),
       nu_coverage = (case expected of None \<Rightarrow> None | Some e \<Rightarrow> if e \<noteq> 0 then Some (100 * covered / e) else None)\<rparr>)"

section \<open>What a merge of clock windows keeps\<close>

definition covers :: "window list \<Rightarrow> time \<Rightarrow> bool" where
  "covers ws t \<longleftrightarrow> (\<exists>(s, u) \<in> set ws. s \<le> t \<and> t \<le> u)"

text \<open>Windows in order with a gap between neighbours.\<close>

definition separated :: "window list \<Rightarrow> bool" where
  "separated ws \<longleftrightarrow> sorted_wrt (\<lambda>v w. snd v < fst w) ws \<and> (\<forall>w \<in> set ws. fst w \<le> snd w)"

lemma covers_simps [simp]:
  "covers [] t = False"
  "covers (w # ws) t \<longleftrightarrow> (fst w \<le> t \<and> t \<le> snd w) \<or> covers ws t"
  "covers (ws @ vs) t \<longleftrightarrow> covers ws t \<or> covers vs t"
  "covers (rev ws) t \<longleftrightarrow> covers ws t"
  by (auto simp: covers_def)

lemma covers_cong: "set ws = set vs \<Longrightarrow> covers ws t = covers vs t"
  by (simp add: covers_def)

lemma window_fst_le: "(v :: window) \<le> w \<Longrightarrow> fst v \<le> fst w"
  by (auto simp: less_eq_prod_def)

lemma merge_windows_covers:
  "sorted ws \<Longrightarrow> (\<forall>w \<in> set ws. fst w \<le> snd w) \<Longrightarrow>
   (\<forall>m \<in> set ms. \<forall>w \<in> set ws. fst m \<le> fst w) \<Longrightarrow> (\<forall>m \<in> set ms. fst m \<le> snd m) \<Longrightarrow>
   covers (merge_windows ms ws) t \<longleftrightarrow> covers ms t \<or> covers ws t"
proof (induction ms ws rule: merge_windows.induct)
  case (2 w ws)
  then show ?case by (simp add: window_fst_le)
next
  case (3 s u ms w ws)
  have le: "\<forall>v \<in> set ws. fst w \<le> fst v" using "3.prems"(1) by (simp add: window_fst_le)
  have s: "s \<le> fst w" "\<forall>v \<in> set ws. s \<le> fst v" using "3.prems"(3) by auto
  show ?case
  proof (cases "fst w \<le> u")
    case True
    then show ?thesis
      using "3.IH"(1) "3.prems" s by (auto simp: max_def)
  next
    case False
    then show ?thesis using "3.IH"(2) "3.prems" le by auto
  qed
qed auto

lemma merge_windows_separated:
  "sorted ws \<Longrightarrow> (\<forall>w \<in> set ws. fst w \<le> snd w) \<Longrightarrow>
   (\<forall>m \<in> set ms. \<forall>w \<in> set ws. fst m \<le> fst w) \<Longrightarrow> separated (rev ms) \<Longrightarrow> separated (merge_windows ms ws)"
proof (induction ms ws rule: merge_windows.induct)
  case (2 w ws)
  then show ?case by (simp add: window_fst_le separated_def)
next
  case (3 s u ms w ws)
  have le: "\<forall>v \<in> set ws. fst w \<le> fst v" using "3.prems"(1) by (simp add: window_fst_le)
  show ?case
  proof (cases "fst w \<le> u")
    case True
    have "separated (rev ((s, max u (snd w)) # ms))"
      using "3.prems"(4) by (auto simp: separated_def sorted_wrt_append max_def)
    then show ?thesis using "3.IH"(1) [OF True] "3.prems" True by auto
  next
    case False
    have "separated (rev (w # (s, u) # ms))"
      using "3.prems"(2,4) False by (fastforce simp: separated_def sorted_wrt_append)
    then show ?thesis using "3.IH"(2) [OF False] "3.prems" le False by auto
  qed
qed auto

section \<open>The event table\<close>

lemma keys_set_default [simp]: "fst ` set (set_default k v d) = insert k (fst ` set d)"
  by (auto simp: set_default_def)

lemma distinct_set_default [simp]: "distinct (map fst (set_default k v d)) = distinct (map fst d)"
  by (auto simp: set_default_def)

lemma keys_append_at [simp]: "fst ` set (append_at k x d) = insert k (fst ` set d)"
proof -
  have "fst ` set (append_at k x d) = fst ` set (set_default k [] d)"
    unfolding append_at_def by (auto simp: image_image case_prod_beta)
  then show ?thesis by simp
qed

lemma distinct_append_at [simp]: "distinct (map fst (append_at k x d)) = distinct (map fst d)"
proof -
  have "map fst (append_at k x d) = map fst (set_default k [] d)"
    unfolding append_at_def by (simp add: case_prod_beta comp_def)
  then show ?thesis by (simp only: distinct_set_default)
qed

lemma map_of_set_default: "map_of (set_default k v d) a = (if a = k then Some (case map_of d k of None \<Rightarrow> v | Some w \<Rightarrow> w) else map_of d a)"
proof (cases "map_of d k")
  case None
  then have "k \<notin> fst ` set d" by (simp add: map_of_eq_None_iff)
  then show ?thesis using None by (auto simp: set_default_def map_add_def split: option.splits)
next
  case (Some w)
  then have "k \<in> fst ` set d" by (metis domI dom_map_of_conv_image_fst)
  then show ?thesis using Some by (auto simp: set_default_def)
qed

lemma map_of_append_at: "map_of (append_at k x d) a = (if a = k then Some (events_at d k @ [x]) else map_of d a)"
proof -
  have "map_of (map (\<lambda>(b, xs). (b, if b = k then xs @ [x] else xs)) e) a =
      map_option (\<lambda>xs. if a = k then xs @ [x] else xs) (map_of e a)" for e
    by (induction e) auto
  then show ?thesis
    by (simp add: append_at_def map_of_set_default events_at_def option.map_ident split: option.splits)
qed

lemma events_at_set_default [simp]: "events_at (set_default k [] d) = events_at d"
  by (rule ext) (simp add: events_at_def map_of_set_default split: option.splits)

lemma events_at_append_at [simp]: "events_at (append_at k x d) = (events_at d)(k := events_at d k @ [x])"
  by (rule ext) (simp add: events_at_def [of "append_at k x d"] map_of_append_at, simp add: events_at_def)

section \<open>The reading in force at an instant\<close>

definition obs_start :: "time \<Rightarrow> observation \<Rightarrow> time" where
  "obs_start since obs = max since (fst obs)"

definition obs_stop :: "time \<Rightarrow> observation \<Rightarrow> time" where
  "obs_stop until obs = min until (fst (snd obs))"

definition usable :: "time \<Rightarrow> time \<Rightarrow> observation \<Rightarrow> bool" where
  "usable since until obs \<longleftrightarrow> fst (snd (snd obs)) \<noteq> None \<and> obs_start since obs < obs_stop until obs"

definition reading_of :: "time \<Rightarrow> observation \<Rightarrow> reading" where
  "reading_of until obs =
     (case obs of (stamp, stop, usage, started_at, cid, sequence) \<Rightarrow>
        (- stamp, - started_at, cid, - sequence, min until stop, the usage))"

definition valid_at :: "time \<Rightarrow> time \<Rightarrow> time \<Rightarrow> observation \<Rightarrow> bool" where
  "valid_at since until t obs \<longleftrightarrow> usable since until obs \<and> obs_start since obs \<le> t \<and> t < obs_stop until obs"

text \<open>The newest still-valid numeric reading at time \<open>t\<close>, in the order of the heap's tuples.\<close>

definition usage_at :: "observation list \<Rightarrow> time \<Rightarrow> time \<Rightarrow> time \<Rightarrow> time option" where
  "usage_at observations since until t =
     map_option reading_usage (min_by id (map (reading_of until) (filter (valid_at since until t) observations)))"

lemma add_observation_unusable: "\<not> usable since until obs \<Longrightarrow> add_observation since until ev obs = ev"
  by (cases obs)
    (auto simp: usable_def add_observation_def obs_start_def obs_stop_def Let_def min_le_iff_disj le_max_iff_disj
      split: option.splits)

lemma add_observation_usable:
  "usable since until obs \<Longrightarrow> add_observation since until ev obs =
     set_default (obs_stop until obs) [] (append_at (obs_start since obs) (reading_of until obs) ev)"
  by (cases obs) (auto simp: usable_def add_observation_def obs_start_def obs_stop_def reading_of_def Let_def)

definition event_table :: "time \<Rightarrow> time \<Rightarrow> observation list \<Rightarrow> (time \<times> reading list) list" where
  "event_table since until observations = foldl (add_observation since until) [] observations"

lemma event_table_simps:
  "event_table since until [] = []"
  "event_table since until (obs @ [x]) = add_observation since until (event_table since until obs) x"
  by (simp_all add: event_table_def)

lemma event_table_distinct: "distinct (map fst (event_table since until obs))"
proof (induction obs rule: rev_induct)
  case (snoc x obs)
  then show ?case
    by (cases "usable since until x") (simp_all add: event_table_simps add_observation_usable add_observation_unusable)
qed (simp add: event_table_simps)

lemma event_table_keys:
  "fst ` set (event_table since until obs) =
     (\<Union>x \<in> {x \<in> set obs. usable since until x}. {obs_start since x, obs_stop until x})"
proof (induction obs rule: rev_induct)
  case (snoc x obs)
  then show ?case
    by (cases "usable since until x")
      (auto simp: event_table_simps add_observation_usable add_observation_unusable)
qed (simp add: event_table_simps)

lemma event_table_at:
  "events_at (event_table since until obs) a =
     map (reading_of until) (filter (\<lambda>x. usable since until x \<and> obs_start since x = a) obs)"
proof (induction obs rule: rev_induct)
  case (snoc x obs)
  then show ?case
    by (cases "usable since until x")
      (auto simp: event_table_simps add_observation_usable add_observation_unusable)
qed (simp add: event_table_simps events_at_def)

section \<open>The sweep integrates the reading in force\<close>

lemma heappush_list [simp]:
  "set (foldl heappush h xs) = set h \<union> set xs" "sorted h \<Longrightarrow> sorted (foldl heappush h xs)"
  by (induction xs arbitrary: h) (auto simp: heappush_def set_insort_key sorted_insort)

lemma pop_expired_dropWhile: "pop_expired a h = dropWhile (\<lambda>e. reading_stop e \<le> a) h"
  by (induction h) auto

lemma pop_expired_keeps: "e \<in> set h \<Longrightarrow> a < reading_stop e \<Longrightarrow> e \<in> set (pop_expired a h)"
  by (induction h) auto

lemma pop_expired_subset: "e \<in> set (pop_expired a h) \<Longrightarrow> e \<in> set h"
  by (induction h) (auto split: if_splits)

lemma pop_expired_sorted: "sorted h \<Longrightarrow> sorted (pop_expired a h)"
  by (induction h) auto

lemma pop_expired_head: "pop_expired a h = e # es \<Longrightarrow> a < reading_stop e"
  by (induction h) (auto split: if_splits)

lemma min_by_idI: "x \<in> set xs \<Longrightarrow> (\<And>y. y \<in> set xs \<Longrightarrow> x \<le> y) \<Longrightarrow> min_by id xs = Some x"
proof (cases "min_by id xs")
  case (Some y)
  assume "x \<in> set xs" and "\<And>y. y \<in> set xs \<Longrightarrow> x \<le> y"
  then show ?thesis using Some min_by_in [OF Some] min_by_le [OF Some] by (metis antisym id_apply)
qed auto

fun segments :: "(time \<Rightarrow> time option) \<Rightarrow> time list \<Rightarrow> (time \<times> time \<times> time option) list" where
  "segments f (a # b # rest) = (a, b, f a) # segments f (b # rest)"
| "segments f [_] = []"
| "segments f [] = []"

fun integrate :: "(time \<times> time \<times> time option) list \<Rightarrow> time \<times> time \<times> time \<Rightarrow> time \<times> time \<times> time" where
  "integrate [] acc = acc"
| "integrate ((a, b, None) # segs) acc = integrate segs acc"
| "integrate ((a, b, Some u) # segs) (covered, idle, weighted) =
     integrate segs (covered + (b - a), if u = 0 then idle + (b - a) else idle, weighted + u * (b - a))"

text \<open>What the heap holds when the sweep reaches the boundary \<open>a\<close>.\<close>

definition heap_inv :: "time \<Rightarrow> time \<Rightarrow> observation list \<Rightarrow> time \<Rightarrow> reading list \<Rightarrow> bool" where
  "heap_inv since until obs a heap \<longleftrightarrow> sorted heap \<and>
     (\<forall>e \<in> set heap. \<exists>x \<in> set obs. usable since until x \<and> obs_start since x < a \<and> e = reading_of until x) \<and>
     (\<forall>x \<in> set obs. usable since until x \<longrightarrow> obs_start since x < a \<longrightarrow> a < obs_stop until x \<longrightarrow>
        reading_of until x \<in> set heap)"

lemma reading_stop_of [simp]: "reading_stop (reading_of until x) = obs_stop until x"
  by (simp add: reading_stop_def reading_of_def obs_stop_def case_prod_beta)

definition step_heap :: "(time \<times> reading list) list \<Rightarrow> time \<Rightarrow> reading list \<Rightarrow> reading list" where
  "step_heap ev a heap = pop_expired a (foldl heappush heap (events_at ev a))"

lemma step_heap_sorted: "heap_inv since until obs a heap \<Longrightarrow> sorted (step_heap (event_table since until obs) a heap)"
  by (simp add: step_heap_def heap_inv_def pop_expired_sorted)

lemma step_heap_from:
  assumes "heap_inv since until obs a heap" and "e \<in> set (step_heap (event_table since until obs) a heap)"
  obtains x where "x \<in> set obs" "usable since until x" "obs_start since x \<le> a" "e = reading_of until x"
proof -
  have "e \<in> set heap \<or> e \<in> set (events_at (event_table since until obs) a)"
    using assms(2) pop_expired_subset by (fastforce simp: step_heap_def)
  then show ?thesis
  proof
    assume "e \<in> set heap"
    then show ?thesis using assms(1) that unfolding heap_inv_def by (meson less_imp_le)
  next
    assume "e \<in> set (events_at (event_table since until obs) a)"
    then show ?thesis using that by (auto simp: event_table_at)
  qed
qed

lemma step_heap_valid:
  assumes "heap_inv since until obs a heap" and "x \<in> set obs" and "valid_at since until a x"
  shows "reading_of until x \<in> set (step_heap (event_table since until obs) a heap)"
proof -
  have "reading_of until x \<in> set heap \<or> reading_of until x \<in> set (events_at (event_table since until obs) a)"
    using assms by (cases "obs_start since x = a") (auto simp: heap_inv_def valid_at_def event_table_at)
  then show ?thesis
    using assms(3) by (auto simp: step_heap_def valid_at_def intro: pop_expired_keeps)
qed

text \<open>After the pushes and pops at a boundary, the top of the heap is the reading in force there.\<close>

lemma step_heap_top:
  assumes inv: "heap_inv since until obs a heap"
  shows "usage_at obs since until a =
    (case step_heap (event_table since until obs) a heap of [] \<Rightarrow> None | e # _ \<Rightarrow> Some (reading_usage e))"
proof (cases "step_heap (event_table since until obs) a heap")
  case Nil
  then have "filter (valid_at since until a) obs = []"
    using step_heap_valid [OF inv] by (auto simp: filter_empty_conv)
  then show ?thesis by (simp add: usage_at_def Nil)
next
  case (Cons e es)
  then obtain x where x: "x \<in> set obs" "usable since until x" "obs_start since x \<le> a" "e = reading_of until x"
    using step_heap_from [OF inv, of e] by (metis list.set_intros(1))
  have "a < reading_stop e" using Cons by (auto simp: step_heap_def intro: pop_expired_head)
  then have "valid_at since until a x" using x by (simp add: valid_at_def)
  moreover have "e \<le> reading_of until y" if "y \<in> set obs" "valid_at since until a y" for y
    using step_heap_valid [OF inv that] step_heap_sorted [OF inv] by (auto simp: Cons)
  ultimately have "min_by id (map (reading_of until) (filter (valid_at since until a) obs)) = Some e"
    using x by (intro min_by_idI) auto
  then show ?thesis by (simp add: usage_at_def Cons)
qed

lemma step_heap_inv:
  assumes inv: "heap_inv since until obs a heap" and ab: "a < b"
    and gap: "\<And>x. x \<in> set obs \<Longrightarrow> usable since until x \<Longrightarrow> obs_start since x < b \<Longrightarrow> obs_start since x \<le> a"
  shows "heap_inv since until obs b (step_heap (event_table since until obs) a heap)"
  unfolding heap_inv_def
proof (intro conjI ballI impI)
  show "sorted (step_heap (event_table since until obs) a heap)" by (rule step_heap_sorted [OF inv])
next
  fix e assume "e \<in> set (step_heap (event_table since until obs) a heap)"
  then show "\<exists>x\<in>set obs. usable since until x \<and> obs_start since x < b \<and> e = reading_of until x"
    using step_heap_from [OF inv] ab by (metis order.strict_trans1)
next
  fix x assume "x \<in> set obs" "usable since until x" "obs_start since x < b" "b < obs_stop until x"
  then show "reading_of until x \<in> set (step_heap (event_table since until obs) a heap)"
    using step_heap_valid [OF inv] gap ab by (simp add: valid_at_def)
qed

lemma sweep_integrates:
  assumes "sorted_wrt (<) bs"
    and "\<And>x. x \<in> set obs \<Longrightarrow> usable since until x \<Longrightarrow> obs_start since x < hd bs \<or> obs_start since x \<in> set bs"
    and "bs \<noteq> [] \<Longrightarrow> heap_inv since until obs (hd bs) heap"
  shows "sweep (event_table since until obs) bs heap acc = integrate (segments (usage_at obs since until) bs) acc"
  using assms
proof (induction "event_table since until obs" bs heap acc rule: sweep.induct)
  case (1 a b rest heap covered idle weighted)
  let ?h = "step_heap (event_table since until obs) a heap"
  have inv: "heap_inv since until obs a heap" using "1.prems"(3) by simp
  have gap: "obs_start since x \<le> a" if "x \<in> set obs" "usable since until x" "obs_start since x < b" for x
    using "1.prems"(1) "1.prems"(2) [OF that(1,2)] that(3) by auto
  have inv': "heap_inv since until obs b ?h"
    using step_heap_inv [OF inv _ gap] "1.prems"(1) by simp
  have starts: "obs_start since x < b \<or> obs_start since x \<in> set (b # rest)"
    if "x \<in> set obs" "usable since until x" for x
    using "1.prems"(2) [OF that] "1.prems"(1) by auto
  show ?case
  proof (cases ?h)
    case Nil
    then show ?thesis
      using "1.hyps"(1) [OF refl refl] inv' starts "1.prems"(1) step_heap_top [OF inv]
      by (simp add: step_heap_def Let_def)
  next
    case (Cons e es)
    then show ?thesis
      using "1.hyps"(2) [OF refl refl _ refl refl] inv' starts "1.prems"(1) step_heap_top [OF inv]
      by (simp add: step_heap_def Let_def)
  qed
qed auto

section \<open>The timeline of a device\<close>

definition boundaries :: "observation list \<Rightarrow> time \<Rightarrow> time \<Rightarrow> time list" where
  "boundaries obs since until = sort (map fst (event_table since until obs))"

definition timeline :: "observation list \<Rightarrow> time \<Rightarrow> time \<Rightarrow> (time \<times> time \<times> time option) list" where
  "timeline obs since until = segments (usage_at obs since until) (boundaries obs since until)"

lemma boundaries_strict: "sorted_wrt (<) (boundaries obs since until)"
  unfolding boundaries_def by (simp only: strict_sorted_iff sorted_sort distinct_sort event_table_distinct)

lemma set_boundaries:
  "set (boundaries obs since until) =
     (\<Union>x \<in> {x \<in> set obs. usable since until x}. {obs_start since x, obs_stop until x})"
  unfolding boundaries_def by (simp only: set_sort set_map event_table_keys)

lemma sweep_timeline:
  "sweep (event_table since until obs) (boundaries obs since until) [] (0, 0, 0) = integrate (timeline obs since until) (0, 0, 0)"
  unfolding timeline_def
proof (rule sweep_integrates)
  show "sorted_wrt (<) (boundaries obs since until)" by (rule boundaries_strict)
next
  fix x assume "x \<in> set obs" "usable since until x"
  then show "obs_start since x < hd (boundaries obs since until) \<or> obs_start since x \<in> set (boundaries obs since until)"
    unfolding set_boundaries by blast
next
  assume ne: "boundaries obs since until \<noteq> []"
  have "hd (boundaries obs since until) \<le> obs_start since x" if "x \<in> set obs" "usable since until x" for x
  proof -
    have "obs_start since x \<in> set (boundaries obs since until)" using that unfolding set_boundaries by blast
    then show ?thesis using ne boundaries_strict [of obs since until] by (cases "boundaries obs since until") auto
  qed
  then show "heap_inv since until obs (hd (boundaries obs since until)) []"
    by (force simp: heap_inv_def)
qed

lemma segments_in:
  "(a, b, u) \<in> set (segments f bs) \<Longrightarrow> sorted_wrt (<) bs \<Longrightarrow>
     a \<in> set bs \<and> b \<in> set bs \<and> a < b \<and> u = f a \<and> (\<forall>c \<in> set bs. c \<le> a \<or> b \<le> c)"
  by (induction f bs rule: segments.induct) (auto intro: less_imp_le)

lemma segments_cover:
  "sorted_wrt (<) bs \<Longrightarrow> bs \<noteq> [] \<Longrightarrow> hd bs \<le> t \<Longrightarrow> t < last bs \<Longrightarrow> \<exists>a b u. (a, b, u) \<in> set (segments f bs) \<and> a \<le> t \<and> t < b"
proof (induction f bs rule: segments.induct)
  case (1 f a b rest)
  show ?case
  proof (cases "t < b")
    case True
    then show ?thesis using 1 by auto
  next
    case False
    then show ?thesis using 1 by fastforce
  qed
qed auto

lemma segments_sorted: "sorted_wrt (<) bs \<Longrightarrow> sorted_wrt (\<lambda>(_, b, _) (a, _, _). b \<le> a) (segments f bs)"
proof (induction f bs rule: segments.induct)
  case (1 f a b rest)
  have "b \<le> a'" if "(a', b', u') \<in> set (segments f (b # rest))" for a' b' u'
    using segments_in [OF that] "1.prems" by auto
  then show ?case using 1 by auto
qed auto

text \<open>Between two neighbouring boundaries the reading in force does not change.\<close>

lemma usage_constant:
  assumes seg: "(a, b, u) \<in> set (timeline obs since until)" and t: "a \<le> t" "t < b"
  shows "usage_at obs since until t = u"
proof -
  note s = segments_in [OF seg [unfolded timeline_def] boundaries_strict]
  have "valid_at since until t x \<longleftrightarrow> valid_at since until a x" if "x \<in> set obs" for x
  proof (cases "usable since until x")
    case True
    then have "obs_start since x \<in> set (boundaries obs since until)" "obs_stop until x \<in> set (boundaries obs since until)"
      using that unfolding set_boundaries by blast+
    then have "obs_start since x \<le> a \<or> b \<le> obs_start since x" "obs_stop until x \<le> a \<or> b \<le> obs_stop until x"
      using s by blast+
    then show ?thesis using True t by (auto simp: valid_at_def)
  qed (simp add: valid_at_def)
  then have "filter (valid_at since until t) obs = filter (valid_at since until a) obs"
    by (intro filter_cong) auto
  then show ?thesis using s by (simp add: usage_at_def)
qed

lemma le_last: "sorted bs \<Longrightarrow> x \<in> set bs \<Longrightarrow> x \<le> last (bs :: time list)"
  by (induction bs) (auto split: if_splits)

lemma valid_in_timeline:
  assumes x: "x \<in> set obs" and v: "valid_at since until t x"
  shows "\<exists>a b u. (a, b, u) \<in> set (timeline obs since until) \<and> a \<le> t \<and> t < b"
  unfolding timeline_def
proof (rule segments_cover [OF boundaries_strict])
  let ?bs = "boundaries obs since until"
  have b: "obs_start since x \<in> set ?bs" "obs_stop until x \<in> set ?bs"
    using x v unfolding set_boundaries valid_at_def by blast+
  have sorted: "sorted ?bs" by (simp add: boundaries_def)
  show "?bs \<noteq> []" using b by auto
  show "hd ?bs \<le> t" using b(1) sorted v by (cases ?bs) (auto simp: valid_at_def)
  have "obs_stop until x \<le> last ?bs"
    using sorted b(2) by (rule le_last)
  then show "t < last ?bs" using v by (simp add: valid_at_def)
qed

lemma usage_at_valid:
  assumes "usage_at obs since until t = Some u"
  obtains x where "x \<in> set obs" "valid_at since until t x" "u = reading_usage (reading_of until x)"
    "\<And>y. y \<in> set obs \<Longrightarrow> valid_at since until t y \<Longrightarrow> reading_of until x \<le> reading_of until y"
proof -
  from assms obtain e where e: "min_by id (map (reading_of until) (filter (valid_at since until t) obs)) = Some e"
    "u = reading_usage e" by (auto simp: usage_at_def)
  from min_by_in [OF e(1)] obtain x where "x \<in> set obs" "valid_at since until t x" "e = reading_of until x" by auto
  moreover from min_by_le [OF e(1)] have "e \<le> reading_of until y" if "y \<in> set obs" "valid_at since until t y" for y
    using that by auto
  ultimately show ?thesis using that e(2) by blast
qed

section \<open>Bounds of the integral\<close>

fun add3 :: "time \<times> time \<times> time \<Rightarrow> time \<times> time \<times> time \<Rightarrow> time \<times> time \<times> time" where
  "add3 (c, i, w) (c', i', w') = (c + c', i + i', w + w')"

lemma add3_laws: "add3 (add3 x y) z = add3 x (add3 y z)" "add3 x (0, 0, 0) = x" "add3 (0, 0, 0) x = x"
  by (cases x; cases y; cases z; simp)+

definition segment_area :: "time \<times> time \<times> time option \<Rightarrow> time \<times> time \<times> time" where
  "segment_area s = (case s of (a, b, None) \<Rightarrow> (0, 0, 0) | (a, b, Some u) \<Rightarrow> (b - a, if u = 0 then b - a else 0, u * (b - a)))"

lemma integrate_Cons: "integrate (s # segs) acc = integrate segs (add3 acc (segment_area s))"
  by (cases s; cases acc; cases "snd (snd s)") (auto simp: segment_area_def)

lemma integrate_shift: "integrate segs acc = add3 acc (integrate segs (0, 0, 0))"
proof (induction segs arbitrary: acc)
  case (Cons s segs)
  show ?case
    unfolding integrate_Cons Cons.IH [of "add3 acc (segment_area s)"] Cons.IH [of "add3 (0, 0, 0) (segment_area s)"]
    by (simp only: add3_laws)
qed (simp add: add3_laws)

lemma integrate_bounds:
  assumes "\<And>a b u. (a, b, u) \<in> set segs \<Longrightarrow> a < b \<and> (\<forall>v. u = Some v \<longrightarrow> 0 \<le> v \<and> v \<le> m)"
    and "integrate segs (0, 0, 0) = (c, i, w)"
  shows "0 \<le> i \<and> i \<le> c \<and> c \<le> sum_list (map (\<lambda>(a, b, _). b - a) segs) \<and> 0 \<le> w \<and> w \<le> m * c"
  using assms
proof (induction segs arbitrary: c i w)
  case (Cons s segs)
  obtain a b u where s: "s = (a, b, u)" by (cases s)
  obtain c' i' w' where r: "integrate segs (0, 0, 0) = (c', i', w')" by (cases "integrate segs (0, 0, 0)")
  have ih: "0 \<le> i' \<and> i' \<le> c' \<and> c' \<le> sum_list (map (\<lambda>(a, b, _). b - a) segs) \<and> 0 \<le> w' \<and> w' \<le> m * c'"
    using Cons.IH [OF _ r] Cons.prems(1) by (meson list.set_intros(2))
  have ab: "a < b" "\<And>v. u = Some v \<Longrightarrow> 0 \<le> v \<and> v \<le> m" using Cons.prems(1) [of a b u] s by auto
  show ?case
  proof (cases u)
    case None
    then show ?thesis using ih ab Cons.prems(2) by (simp add: s r)
  next
    case (Some v)
    then have v: "0 \<le> v" "v \<le> m" using ab(2) by auto
    have "integrate (s # segs) (0, 0, 0) = add3 (segment_area s) (c', i', w')"
      unfolding integrate_Cons integrate_shift [of segs "add3 (0, 0, 0) (segment_area s)"] r by (simp only: add3_laws)
    then have eq: "c = (b - a) + c'" "i = (if v = 0 then b - a else 0) + i'" "w = v * (b - a) + w'"
      using Cons.prems(2) by (simp_all add: segment_area_def s Some)
    have "0 \<le> v * (b - a)" "v * (b - a) \<le> m * (b - a)" using v ab(1) by (simp_all add: mult_right_mono)
    then show ?thesis using ih ab(1) unfolding eq s by (auto simp: algebra_simps)
  qed
qed simp

lemma segments_length: "bs \<noteq> [] \<Longrightarrow> sum_list (map (\<lambda>(a, b, _). b - a) (segments f bs)) = last bs - hd bs"
  by (induction f bs rule: segments.induct) auto

lemma boundaries_within:
  assumes "b \<in> set (boundaries obs since until)"
  shows "since \<le> b \<and> b \<le> until"
proof -
  from assms obtain x where x: "usable since until x" "b = obs_start since x \<or> b = obs_stop until x"
    unfolding set_boundaries by blast
  have "since \<le> obs_start since x" "obs_stop until x \<le> until" by (simp_all add: obs_start_def obs_stop_def)
  then show ?thesis using x by (auto simp: usable_def)
qed

lemma timeline_length:
  assumes "since \<le> until"
  shows "sum_list (map (\<lambda>(a, b, _). b - a) (timeline obs since until)) \<le> until - since"
proof (cases "boundaries obs since until = []")
  case False
  then have "hd (boundaries obs since until) \<in> set (boundaries obs since until)"
    "last (boundaries obs since until) \<in> set (boundaries obs since until)" by simp_all
  then have "since \<le> hd (boundaries obs since until)" "last (boundaries obs since until) \<le> until"
    using boundaries_within by blast+
  then show ?thesis by (simp add: timeline_def segments_length [OF False])
qed (use assms in \<open>simp add: timeline_def\<close>)

lemma summarize_gpu_timeline:
  "summarize_gpu obs since until =
     (case integrate (timeline obs since until) (0, 0, 0) of (covered, idle, weighted) \<Rightarrow>
        \<lparr>us_covered = covered, us_idle = idle,
         us_mean = (if covered \<noteq> 0 then Some (weighted / covered) else None),
         us_coverage = Some (100 * covered / (until - since))\<rparr>)"
  unfolding summarize_gpu_def Let_def sweep_timeline [symmetric]
  by (simp add: boundaries_def event_table_def)

lemma timeline_usage:
  assumes "(a, b, Some u) \<in> set (timeline obs since until)"
  obtains x where "x \<in> set obs" "fst (snd (snd x)) = Some u"
proof -
  have "a < b" using segments_in [OF assms [unfolded timeline_def] boundaries_strict] by blast
  then have "usage_at obs since until a = Some u" using usage_constant [OF assms, of a] by simp
  then obtain x where x: "x \<in> set obs" "valid_at since until a x" "u = reading_usage (reading_of until x)"
    by (rule usage_at_valid)
  then have "fst (snd (snd x)) = Some u"
    by (auto simp: valid_at_def usable_def reading_of_def reading_usage_def case_prod_beta)
  with x(1) show ?thesis by (rule that)
qed

lemma summarize_gpu_bounds:
  assumes "since < until" and range: "\<forall>x \<in> set obs. \<forall>u. fst (snd (snd x)) = Some u \<longrightarrow> 0 \<le> u \<and> u \<le> 100"
  shows "0 \<le> us_idle (summarize_gpu obs since until)"
    "us_idle (summarize_gpu obs since until) \<le> us_covered (summarize_gpu obs since until)"
    "us_covered (summarize_gpu obs since until) \<le> until - since"
    "us_mean (summarize_gpu obs since until) = Some m \<Longrightarrow> 0 \<le> m \<and> m \<le> 100"
    "us_coverage (summarize_gpu obs since until) = Some q \<Longrightarrow> 0 \<le> q \<and> q \<le> 100"
proof -
  obtain c i w where ciw: "integrate (timeline obs since until) (0, 0, 0) = (c, i, w)"
    by (cases "integrate (timeline obs since until) (0, 0, 0)")
  have "a < b \<and> (\<forall>v. u = Some v \<longrightarrow> 0 \<le> v \<and> v \<le> 100)" if "(a, b, u) \<in> set (timeline obs since until)" for a b u
    using segments_in [OF that [unfolded timeline_def] boundaries_strict] that timeline_usage range by metis
  from integrate_bounds [OF this ciw]
  have b: "0 \<le> i \<and> i \<le> c \<and> c \<le> sum_list (map (\<lambda>(a, b, _). b - a) (timeline obs since until)) \<and> 0 \<le> w \<and> w \<le> 100 * c"
    by blast
  have len: "c \<le> until - since" using b timeline_length [of since until obs] assms(1) by linarith
  have s: "summarize_gpu obs since until = \<lparr>us_covered = c, us_idle = i,
      us_mean = (if c \<noteq> 0 then Some (w / c) else None), us_coverage = Some (100 * c / (until - since))\<rparr>"
    by (simp add: summarize_gpu_timeline ciw)
  show "0 \<le> us_idle (summarize_gpu obs since until)"
    "us_idle (summarize_gpu obs since until) \<le> us_covered (summarize_gpu obs since until)"
    "us_covered (summarize_gpu obs since until) \<le> until - since"
    using b len by (simp_all add: s)
  show "0 \<le> m \<and> m \<le> 100" if "us_mean (summarize_gpu obs since until) = Some m"
  proof -
    from that have "c \<noteq> 0" "m = w / c" by (auto simp: s split: if_splits)
    with b show ?thesis by (auto simp: divide_le_eq)
  qed
  show "0 \<le> q \<and> q \<le> 100" if "us_coverage (summarize_gpu obs since until) = Some q"
    using that b len assms(1) by (auto simp: s divide_le_eq)
qed

section \<open>Properties of the integration\<close>

text \<open>C3: The heap sweep of one device is the exact integral of the newest still-valid reading: its segments are
  disjoint, lie inside the window, cover every instant at which some numeric reading is valid, carry on each
  of their instants the reading that comes first in the order of the heap, and the summary is computed
  from their total, idle and weighted durations.\<close>

theorem gpu_seconds_exact:
  "sorted_wrt (\<lambda>(_, b, _) (a, _, _). b \<le> a) (timeline obs since until) \<and>
   (\<forall>a b u t. (a, b, u) \<in> set (timeline obs since until) \<longrightarrow>
      since \<le> a \<and> a < b \<and> b \<le> until \<and> (a \<le> t \<and> t < b \<longrightarrow> usage_at obs since until t = u)) \<and>
   (\<forall>x t. x \<in> set obs \<longrightarrow> valid_at since until t x \<longrightarrow>
      (\<exists>a b u. (a, b, Some u) \<in> set (timeline obs since until) \<and> a \<le> t \<and> t < b)) \<and>
   summarize_gpu obs since until =
     (case integrate (timeline obs since until) (0, 0, 0) of (covered, idle, weighted) \<Rightarrow>
        \<lparr>us_covered = covered, us_idle = idle,
         us_mean = (if covered \<noteq> 0 then Some (weighted / covered) else None),
         us_coverage = Some (100 * covered / (until - since))\<rparr>)"
proof (intro conjI allI impI)
  show "sorted_wrt (\<lambda>(_, b, _) (a, _, _). b \<le> a) (timeline obs since until)"
    unfolding timeline_def by (rule segments_sorted [OF boundaries_strict])
next
  fix a b u t assume s: "(a, b, u) \<in> set (timeline obs since until)"
  note seg = segments_in [OF s [unfolded timeline_def] boundaries_strict]
  show "since \<le> a" "a < b" "b \<le> until" using seg boundaries_within by blast+
  assume "a \<le> t \<and> t < b"
  then show "usage_at obs since until t = u" using usage_constant [OF s] by blast
next
  fix x t assume x: "x \<in> set obs" "valid_at since until t x"
  from valid_in_timeline [OF this] obtain a b u
    where s: "(a, b, u) \<in> set (timeline obs since until)" "a \<le> t" "t < b" by blast
  have "filter (valid_at since until t) obs \<noteq> []" using x by (auto simp: filter_empty_conv)
  then have "usage_at obs since until t \<noteq> None" by (simp add: usage_at_def)
  then show "\<exists>a b u. (a, b, Some u) \<in> set (timeline obs since until) \<and> a \<le> t \<and> t < b"
    using usage_constant [OF s] s by (metis not_None_eq)
qed (rule summarize_gpu_timeline)

definition demo_observations :: "observation list" where
  "demo_observations =
     [(0, 10, Some 50, 0, Collector ''a'', 1), (5, 15, Some 0, 0, Collector ''b'', 1), (12, 22, None, 0, Collector ''a'', 2)]"

theorem gpu_seconds_exact_witness:
  "usage_at demo_observations 2 20 7 = Some 0 \<and> us_covered (summarize_gpu demo_observations 2 20) = 13 \<and>
   us_idle (summarize_gpu demo_observations 2 20) = 10"
proof -
  have "timeline demo_observations 2 20 = [(2, 5, Some 50), (5, 10, Some 0), (10, 15, Some 0)]" by code_simp
  then show ?thesis using gpu_seconds_exact [of demo_observations 2 20] by auto
qed

text \<open>Merging ambiguous clock windows yields ordered windows with gaps between them that contain exactly the
  instants of the given windows.\<close>

theorem merge_clock_windows_exact:
  assumes "\<forall>w \<in> set windows. fst w \<le> snd w"
  shows "separated (merge_clock_windows windows) \<and> (\<forall>t. covers (merge_clock_windows windows) t \<longleftrightarrow> covers windows t)"
proof -
  have "separated (merge_clock_windows windows)"
    unfolding merge_clock_windows_def using assms
    by (intro merge_windows_separated) (auto simp: separated_def)
  moreover have "covers (merge_clock_windows windows) t \<longleftrightarrow> covers windows t" for t
    unfolding merge_clock_windows_def using assms covers_cong [of "sort windows" windows]
    by (subst merge_windows_covers) auto
  ultimately show ?thesis by blast
qed

theorem merge_clock_windows_exact_witness:
  "separated (merge_clock_windows [(5, 9), (1, 3), (2, 4)]) \<and> covers (merge_clock_windows [(5, 9), (1, 3), (2, 4)]) 3"
  using merge_clock_windows_exact [of "[(5, 9), (1, 3), (2, 4)]"] by simp

end
