(* ===== verification/Py_Text.thy ===== *)
theory Py_Text
  imports Prelude
begin

text \<open>
  The part of Python's text library the sources use: splitting and joining, case folding, \<open>int\<close> and
  \<open>float\<close> of a string, rows of \<open>csv.reader\<close>. Strings are ASCII; \<open>float\<close> is the exact rational the
  literal denotes, with the non-finite values kept apart.
\<close>

section \<open>Splitting and joining\<close>

text \<open>\<open>s.split(c)\<close> for a one-character separator.\<close>

fun split_on :: "char \<Rightarrow> string \<Rightarrow> string list" where
  "split_on c [] = [[]]"
| "split_on c (x # xs) =
     (if x = c then [] # split_on c xs
      else case split_on c xs of [] \<Rightarrow> [[x]] | w # ws \<Rightarrow> (x # w) # ws)"

text \<open>\<open>s.split()\<close>: maximal runs of non-space characters.\<close>

definition split_ws :: "string \<Rightarrow> string list" where
  "split_ws s = filter (\<lambda>w. w \<noteq> []) (split_on CHR '' '' (map (\<lambda>c. if is_space c then CHR '' '' else c) s))"

text \<open>\<open>s.splitlines()\<close> for text whose line breaks are newlines.\<close>

definition splitlines :: "string \<Rightarrow> string list" where
  "splitlines s =
     (let ls = split_on (CHR 0x0A) s in if last ls = [] then butlast ls else ls)"

text \<open>\<open>s.split(c, 1)\<close>: the text before and after the first separator.\<close>

fun split_first :: "char \<Rightarrow> string \<Rightarrow> string \<times> string option" where
  "split_first c [] = ([], None)"
| "split_first c (x # xs) =
     (if x = c then ([], Some xs) else case split_first c xs of (a, b) \<Rightarrow> (x # a, b))"

definition lower_char :: "char \<Rightarrow> char" where
  "lower_char c = (let n = of_char c :: nat in if 65 \<le> n \<and> n \<le> 90 then char_of (n + 32) else c)"

definition lower :: "string \<Rightarrow> string" where
  "lower s = map lower_char s"

definition ends_with :: "string \<Rightarrow> string \<Rightarrow> bool" where
  "ends_with p s \<longleftrightarrow> starts_with (rev p) (rev s)"

text \<open>\<open>p in s\<close> for strings.\<close>

fun contains :: "string \<Rightarrow> string \<Rightarrow> bool" where
  "contains p [] = (p = [])"
| "contains p (x # xs) = (starts_with p (x # xs) \<or> contains p xs)"

lemma split_on_nonempty [simp]: "split_on c s \<noteq> []"
  by (cases s) (auto split: list.splits)

lemma join_split_on: "join [c] (split_on c s) = s"
proof (induction s)
  case (Cons x xs)
  obtain w ws where ws: "split_on c xs = w # ws" by (cases "split_on c xs") auto
  then show ?case using Cons.IH by (cases ws) auto
qed simp

lemma split_on_no_sep: "c \<notin> set w \<Longrightarrow> split_on c w = [w]"
  by (induction w) auto

lemma split_on_append: "c \<notin> set w \<Longrightarrow> split_on c (w @ c # s) = w # split_on c s"
  by (induction w) auto

lemma split_on_join:
  "ps \<noteq> [] \<Longrightarrow> (\<And>p. p \<in> set ps \<Longrightarrow> c \<notin> set p) \<Longrightarrow> split_on c (join [c] ps) = ps"
proof (induction "[c]" ps rule: join.induct)
  case (3 p q ps)
  then show ?case using split_on_append [of c p] by simp
qed (simp_all add: split_on_no_sep)

lemma split_on_parts: "p \<in> set (split_on c s) \<Longrightarrow> c \<notin> set p"
proof (induction s arbitrary: p)
  case (Cons x xs)
  obtain w ws where ws: "split_on c xs = w # ws" by (cases "split_on c xs") auto
  then show ?case using Cons.IH Cons.prems by (auto split: if_splits)
qed simp

section \<open>Numbers\<close>

text \<open>Digits with single underscores between them.\<close>

fun digit_group :: "bool \<Rightarrow> string \<Rightarrow> string option" where
  "digit_group prev [] = (if prev then Some [] else None)"
| "digit_group prev (c # cs) =
     (if is_digit c then map_option ((#) c) (digit_group True cs)
      else if c = CHR ''_'' \<and> prev then digit_group False cs
      else None)"

definition py_nat :: "string \<Rightarrow> nat option" where
  "py_nat s = map_option read_nat (digit_group False s)"

fun signed :: "string \<Rightarrow> bool \<times> string" where
  "signed (c # cs) = (if c = CHR ''-'' then (True, cs) else if c = CHR ''+'' then (False, cs) else (False, c # cs))"
| "signed [] = (False, [])"

text \<open>\<open>int(s)\<close>; \<open>None\<close> is the \<open>ValueError\<close>.\<close>

definition py_int :: "string \<Rightarrow> int option" where
  "py_int s = (case signed (strip s) of (neg, ds) \<Rightarrow> map_option (\<lambda>n. if neg then - int n else int n) (py_nat ds))"

datatype pyfloat = Finite rat | Infinite bool | NotANumber

text \<open>A part of a decimal literal that may be absent.\<close>

definition opt_digits :: "string \<Rightarrow> string option" where
  "opt_digits s = (if s = [] then Some [] else digit_group False s)"

definition exponent :: "string option \<Rightarrow> int option" where
  "exponent e = (case e of None \<Rightarrow> Some 0 | Some s \<Rightarrow> (case signed s of (neg, ds) \<Rightarrow>
     map_option (\<lambda>n. if neg then - int n else int n) (py_nat ds)))"

definition scale10 :: "rat \<Rightarrow> int \<Rightarrow> rat" where
  "scale10 q e = (if 0 \<le> e then q * 10 ^ nat e else q / 10 ^ nat (- e))"

definition decimal :: "string \<Rightarrow> rat option" where
  "decimal s =
     (case split_first (CHR ''e'') (lower s) of (mantissa, e) \<Rightarrow>
      case split_first (CHR ''.'') mantissa of (whole, part) \<Rightarrow>
      case (opt_digits whole, opt_digits (case part of None \<Rightarrow> [] | Some f \<Rightarrow> f), exponent e) of
        (Some w, Some f, Some x) \<Rightarrow>
          if w = [] \<and> f = [] then None
          else Some (scale10 (of_nat (read_nat w) + of_nat (read_nat f) / 10 ^ length f) x)
      | _ \<Rightarrow> None)"

text \<open>\<open>float(s)\<close>; \<open>None\<close> is the \<open>ValueError\<close>.\<close>

definition py_float :: "string \<Rightarrow> pyfloat option" where
  "py_float s =
     (case signed (strip s) of (neg, body) \<Rightarrow>
        let w = lower body in
        if w = ''inf'' \<or> w = ''infinity'' then Some (Infinite neg)
        else if w = ''nan'' then Some NotANumber
        else map_option (\<lambda>q. Finite (if neg then - q else q)) (decimal body))"

lemma digit_group_digits: "(\<And>c. c \<in> set ds \<Longrightarrow> is_digit c) \<Longrightarrow> digit_group True ds = Some ds"
  by (induction ds) auto

lemma py_nat_show: "py_nat (show_nat n) = Some n"
proof -
  obtain c cs where ds: "show_nat n = c # cs" by (cases "show_nat n") auto
  have "is_digit d" if "d \<in> set (c # cs)" for d using that show_nat_digits ds by metis
  then have "digit_group False (show_nat n) = Some (show_nat n)" by (simp add: ds digit_group_digits)
  then show ?thesis by (simp add: py_nat_def)
qed

section \<open>Rows of CSV text\<close>

text \<open>
  The states of \<open>csv.reader\<close> with the default dialect: a quote opens a quoted field only at its start, a
  doubled quote inside stands for one, and a quoted field may continue on the next line.
\<close>

datatype csv_state = StartField | InField | InQuoted | QuoteInQuoted

type_synonym csv_row = "csv_state \<times> string \<times> string list"

definition csv_char :: "char \<Rightarrow> csv_row \<Rightarrow> csv_row" where
  "csv_char c row =
     (case row of (st, field, fields) \<Rightarrow>
        (case st of
           InQuoted \<Rightarrow> if c = CHR 0x22 then (QuoteInQuoted, field, fields) else (InQuoted, field @ [c], fields)
         | QuoteInQuoted \<Rightarrow>
             if c = CHR 0x22 then (InQuoted, field @ [c], fields)
             else if c = CHR '','' then (StartField, [], fields @ [field])
             else (InField, field @ [c], fields)
         | _ \<Rightarrow>
             if c = CHR 0x22 \<and> st = StartField then (InQuoted, field, fields)
             else if c = CHR '','' then (StartField, [], fields @ [field])
             else (InField, field @ [c], fields)))"

fun csv_rows :: "csv_row option \<Rightarrow> string list \<Rightarrow> string list list" where
  "csv_rows None [] = []"
| "csv_rows (Some (st, field, fields)) [] = [fields @ [field]]"
| "csv_rows pending (line # lines) =
     (if pending = None \<and> line = [] then [] # csv_rows None lines
      else case fold csv_char line (case pending of None \<Rightarrow> (StartField, [], []) | Some r \<Rightarrow> r) of
        (st, field, fields) \<Rightarrow>
          if st = InQuoted then csv_rows (Some (st, field, fields)) lines
          else (fields @ [field]) # csv_rows None lines)"

definition csv_reader :: "string list \<Rightarrow> string list list" where
  "csv_reader lines = csv_rows None lines"

end
