(* ===== verification/Gpu_Collector.thy ===== *)
theory Gpu_Collector
  imports Gpu_Usage Py_Text Py_Json
begin

text \<open>
  The GPU usage collector of the RSI skill (\<open>gpu_usage.py\<close>): parsing of vendor readings, the collection
  loop that appends numbered records to \<open>samples.jsonl\<close>, the merge of copied snapshots, and the window
  summary per host. A line of the file is its decoded record; vendor commands, clocks, the file system
  and the JSON decoder are parameters.
\<close>

section \<open>Vendor readings\<close>

record gpu_reading =
  rd_index :: int
  rd_id :: string
  rd_pci :: "string option"
  rd_usage :: "time option"

datatype gpu_error =
    BadUtilization
  | BadRow
  | BadBanner
  | BadWindow
  | BadIndex
  | NoUuid string
  | NoGpus
  | WrongIndices
  | BadJson
  | QueryFailed string
  | NoBackend
  | DeadlinePassed
  | StopPresent
  | OutputExists
  | NoSamples string
  | IncompleteMetadata string
  | MissingStart string
  | ConflictingMetadata string
  | ConflictingRecord int string
  | MalformedLine string

definition check_percent :: "pyfloat option \<Rightarrow> gpu_error + time option" where
  "check_percent v = (case v of Some (Finite q) \<Rightarrow> if 0 \<le> q \<and> q \<le> 100 then Inr (Some q) else Inl BadUtilization
                      | _ \<Rightarrow> Inl BadUtilization)"

definition utilization_text :: "string \<Rightarrow> gpu_error + time option" where
  "utilization_text value =
     (if strip value \<in> {''N/A'', ''[N/A]'', ''[Not Supported]''} then Inr None
      else check_percent (py_float value))"

text \<open>\<open>utilization\<close> of a decoded value: a number is its own float.\<close>

fun utilization :: "json \<Rightarrow> gpu_error + time option" where
  "utilization (JStr s) = utilization_text s"
| "utilization (JInt n) = check_percent (Some (Finite (of_int n)))"
| "utilization (JFloat q) = check_percent (Some (Finite q))"
| "utilization (JBool b) = check_percent (Some (Finite (if b then 1 else 0)))"
| "utilization _ = Inl BadUtilization"

definition positive_seconds :: "string \<Rightarrow> time option" where
  "positive_seconds value =
     (case py_float value of Some (Finite q) \<Rightarrow> if q \<le> 0 then None else Some q | _ \<Rightarrow> None)"

definition nvidia_row :: "string list \<Rightarrow> gpu_error + gpu_reading" where
  "nvidia_row row =
     (case row of
        [index, identity, usage] \<Rightarrow>
          (case py_int index of
             None \<Rightarrow> Inl BadIndex
           | Some i \<Rightarrow> rbind (utilization_text usage) (\<lambda>u.
               Inr \<lparr>rd_index = i, rd_id = strip identity, rd_pci = None, rd_usage = u\<rparr>))
      | _ \<Rightarrow> Inl BadRow)"

fun map_result :: "('a \<Rightarrow> 'e + 'b) \<Rightarrow> 'a list \<Rightarrow> 'e + 'b list" where
  "map_result f [] = Inr []"
| "map_result f (x # xs) = rbind (f x) (\<lambda>y. rbind (map_result f xs) (\<lambda>ys. Inr (y # ys)))"

definition nvidia_readings :: "string \<Rightarrow> gpu_error + gpu_reading list" where
  "nvidia_readings text = map_result nvidia_row (csv_reader (splitlines text))"

text \<open>\<open>re.search("\(UUID:\s*([^\s)]+)\)", line)\<close>: the first parenthesised UUID.\<close>

definition uuid_here :: "string \<Rightarrow> string option" where
  "uuid_here s =
     (if starts_with ''(UUID:'' s
      then let body = dropWhile is_space (drop 6 s);
               uuid = takeWhile (\<lambda>c. \<not> is_space c \<and> c \<noteq> CHR '')'') body;
               rest = drop (length uuid) body in
           if uuid \<noteq> [] \<and> starts_with '')'' rest then Some uuid else None
      else None)"

fun find_uuid :: "string \<Rightarrow> string option" where
  "find_uuid [] = None"
| "find_uuid (c # cs) = (case uuid_here (c # cs) of Some u \<Rightarrow> Some u | None \<Rightarrow> find_uuid cs)"

definition metax_devices :: "json \<Rightarrow> (string \<times> json) list" where
  "metax_devices doc =
     filter (\<lambda>(_, v). case v of JObj ps \<Rightarrow> ''device_id'' \<in> fst ` set ps | _ \<Rightarrow> False) (jobj doc)"

definition metax_identities :: "(string \<times> json) list \<Rightarrow> string list \<Rightarrow> (string \<times> string) list" where
  "metax_identities devices lines =
     foldl (\<lambda>ids line. case find_uuid line of
              None \<Rightarrow> ids
            | Some u \<Rightarrow> foldl (\<lambda>d a. dict_set a u d) ids (filter (\<lambda>a. a \<in> set (split_ws line)) (map fst devices)))
       [] lines"

definition metax_index :: "json \<Rightarrow> gpu_error + int" where
  "metax_index v = (case v of JInt n \<Rightarrow> Inr n | JStr s \<Rightarrow> (case py_int s of None \<Rightarrow> Inl BadIndex | Some i \<Rightarrow> Inr i)
                    | _ \<Rightarrow> Inl BadIndex)"

definition metax_row :: "(string \<times> string) list \<Rightarrow> string \<times> json \<Rightarrow> gpu_error + gpu_reading" where
  "metax_row ids d =
     (case d of (address, device) \<Rightarrow>
        case map_of ids address of
          None \<Rightarrow> Inl (NoUuid address)
        | Some u \<Rightarrow> rbind (metax_index (field ''device_id'' device)) (\<lambda>i.
            rbind (utilization (field ''utilization'' device)) (\<lambda>q.
              Inr \<lparr>rd_index = i, rd_id = u, rd_pci = Some address, rd_usage = q\<rparr>)))"

definition drop_banner :: "string \<Rightarrow> gpu_error + string" where
  "drop_banner text =
     (if starts_with ''mx-smi  version:'' text
      then (case split_first (CHR 0x0A) text of (_, Some rest) \<Rightarrow> Inr rest | (_, None) \<Rightarrow> Inl BadBanner)
      else Inr text)"

definition metax_readings ::
  "(string \<Rightarrow> json option) \<Rightarrow> (string list \<Rightarrow> gpu_error + string) \<Rightarrow> string \<Rightarrow> gpu_error + gpu_reading list" where
  "metax_readings loads invoke text =
     rbind (drop_banner text) (\<lambda>body. case loads body of
        None \<Rightarrow> Inl BadJson
      | Some doc \<Rightarrow>
          let devices = metax_devices doc in
          rbind (invoke [''mx-smi'', ''-L'']) (\<lambda>listing.
            map_result (metax_row (metax_identities devices (splitlines listing))) devices))"

definition query_command :: "string \<Rightarrow> int list option \<Rightarrow> string list" where
  "query_command backend indices =
     (if backend = ''nvidia''
      then [''nvidia-smi'', ''--query-gpu=index,uuid,utilization.gpu'', ''--format=csv,noheader,nounits'']
      else [''mx-smi'', ''--show-usage'', ''--json'']) @
     (case indices of None \<Rightarrow> []
      | Some is \<Rightarrow> [''-i'', join '','' (map (\<lambda>i. (if i < 0 then ''-'' else []) @ show_nat (nat (abs i))) is)])"

definition check_readings :: "int list option \<Rightarrow> gpu_reading list \<Rightarrow> gpu_error + gpu_reading list" where
  "check_readings indices readings =
     (if readings = [] then Inl NoGpus
      else case indices of
        Some is \<Rightarrow> if set is \<noteq> rd_index ` set readings then Inl WrongIndices else Inr readings
      | None \<Rightarrow> Inr readings)"

text \<open>\<open>invoke\<close> stands for the vendor command run within the remaining budget.\<close>

definition query_gpus ::
  "(string \<Rightarrow> json option) \<Rightarrow> (string list \<Rightarrow> gpu_error + string) \<Rightarrow> string \<Rightarrow> int list option \<Rightarrow>
   gpu_error + gpu_reading list" where
  "query_gpus loads invoke backend indices =
     rbind (invoke (query_command backend indices)) (\<lambda>out.
       let text = strip out in
       rbind (if backend = ''nvidia'' then nvidia_readings text else metax_readings loads invoke text)
         (check_readings indices))"

section \<open>Records of a collector\<close>

record metadata =
  md_event :: string
  md_timestamp :: time
  md_collector_id :: "string option"
  md_host_id :: "string option"
  md_node :: string
  md_pid :: int
  md_backend :: string
  md_interval :: time
  md_indices :: "int list option"

record sample =
  rc_sequence :: "int option"
  rc_event :: string
  rc_timestamp :: time
  rc_elapsed :: "time option"
  rc_gpus :: "gpu_reading list"
  rc_error :: "string option"
  rc_reason :: "string option"

text \<open>One line of \<open>samples.jsonl\<close>: not yet terminated, not JSON, or a decoded record.\<close>

datatype 'a jsonl = Partial | Malformed | Line 'a

record samples_file =
  sf_key :: "nat \<times> nat"
  sf_first :: "metadata jsonl"
  sf_rest :: "sample jsonl list"

section \<open>Collecting\<close>

record collect_args =
  ca_backend :: string
  ca_gpus :: "int list option"
  ca_interval :: time
  ca_deadline :: "time option"

text \<open>What one iteration of the loop observes; \<open>Crash\<close> is an exception the loop does not catch.\<close>

datatype query_outcome = Readings "gpu_reading list" | Unavailable string | Crash

record tick =
  tk_stop :: bool
  tk_now :: time
  tk_monotonic :: time
  tk_query :: query_outcome

definition select_backend :: "bool \<Rightarrow> bool \<Rightarrow> string \<Rightarrow> gpu_error + string" where
  "select_backend nvidia metax backend =
     (if backend = ''auto''
      then if nvidia then Inr ''nvidia'' else if metax then Inr ''metax'' else Inl NoBackend
      else Inr backend)"

definition deadline_reached :: "time option \<Rightarrow> time \<Rightarrow> bool" where
  "deadline_reached deadline now = (case deadline of None \<Rightarrow> False | Some d \<Rightarrow> d - now \<le> 0)"

definition sample_of :: "time \<Rightarrow> int \<Rightarrow> tick \<Rightarrow> sample" where
  "sample_of origin sequence t =
     \<lparr>rc_sequence = Some sequence, rc_event = ''sample'', rc_timestamp = tk_now t,
      rc_elapsed = Some (tk_monotonic t - origin),
      rc_gpus = (case tk_query t of Readings gs \<Rightarrow> gs | _ \<Rightarrow> []),
      rc_error = (case tk_query t of Unavailable e \<Rightarrow> Some e | _ \<Rightarrow> None), rc_reason = None\<rparr>"

text \<open>The sampling loop: the emitted records, the reason it ended, and the next sequence number.\<close>

fun sample_loop :: "time option \<Rightarrow> time \<Rightarrow> int \<Rightarrow> tick list \<Rightarrow> sample list \<times> string \<times> int" where
  "sample_loop deadline origin sequence [] = ([], ''stopped'', sequence)"
| "sample_loop deadline origin sequence (t # ts) =
     (if tk_stop t then ([], ''stopped'', sequence)
      else if deadline_reached deadline (tk_now t) then ([], ''deadline'', sequence)
      else if tk_query t = Crash then ([], ''failed'', sequence)
      else case sample_loop deadline origin (sequence + 1) ts of
        (rs, reason, next) \<Rightarrow> (sample_of origin sequence t # rs, reason, next))"

definition end_record :: "time \<Rightarrow> int \<Rightarrow> string \<Rightarrow> time \<Rightarrow> time \<Rightarrow> sample" where
  "end_record origin sequence reason now monotonic =
     \<lparr>rc_sequence = Some sequence, rc_event = ''end'', rc_timestamp = now, rc_elapsed = Some (monotonic - origin),
      rc_gpus = [], rc_error = None, rc_reason = Some reason\<rparr>"

record host_facts =
  hf_nvidia :: bool
  hf_metax :: bool
  hf_machine :: "(string \<times> nat) option"
  hf_node :: string
  hf_pid :: int
  hf_uuid :: string
  hf_key :: "nat \<times> nat"

definition start_record :: "host_facts \<Rightarrow> collect_args \<Rightarrow> string \<Rightarrow> time \<Rightarrow> metadata" where
  "start_record host args backend now =
     \<lparr>md_event = ''start'', md_timestamp = now, md_collector_id = Some (hf_uuid host),
      md_host_id = (case hf_machine host of Some (hex, n) \<Rightarrow> if n \<noteq> 0 then Some hex else None | None \<Rightarrow> None),
      md_node = hf_node host, md_pid = hf_pid host, md_backend = backend,
      md_interval = ca_interval args, md_indices = ca_gpus args\<rparr>"

text \<open>
  \<open>collect\<close>: the file it leaves behind. \<open>checked\<close> is the clock of the deadline check, \<open>started\<close> and \<open>ended\<close> are the wall and monotonic clocks around the
  loop, \<open>stop_present\<close> and \<open>output_present\<close> say whether the two files already exist.
\<close>

definition collect ::
  "host_facts \<Rightarrow> bool \<Rightarrow> bool \<Rightarrow> collect_args \<Rightarrow> time \<Rightarrow> time \<times> time \<Rightarrow> tick list \<Rightarrow> time \<times> time \<Rightarrow>
   gpu_error + samples_file" where
  "collect host stop_present output_present args checked started ticks ended =
     rbind (select_backend (hf_nvidia host) (hf_metax host) (ca_backend args)) (\<lambda>backend.
       if (case ca_deadline args of None \<Rightarrow> False | Some d \<Rightarrow> d \<le> checked) then Inl DeadlinePassed
       else if stop_present then Inl StopPresent
       else if output_present then Inl OutputExists
       else case sample_loop (ca_deadline args) (snd started) 1 ticks of
         (records, reason, sequence) \<Rightarrow>
           Inr \<lparr>sf_key = hf_key host, sf_first = Line (start_record host args backend (fst started)),
                sf_rest = map Line (records @ [end_record (snd started) sequence reason (fst ended) (snd ended)])\<rparr>)"

section \<open>Reading collectors back\<close>

definition present :: "string option \<Rightarrow> string option" where
  "present s = (case s of None \<Rightarrow> None | Some v \<Rightarrow> if v = [] then None else Some v)"

definition collector_identity :: "metadata \<Rightarrow> identity" where
  "collector_identity md =
     (case present (md_collector_id md) of
        Some c \<Rightarrow> Collector c
      | None \<Rightarrow> Legacy (case present (md_host_id md) of Some h \<Rightarrow> h | None \<Rightarrow> md_node md)
                  (md_backend md) (md_pid md) (md_timestamp md))"

record collector_input =
  ci_metadata :: metadata
  ci_records :: "(int \<times> sample) list"
  ci_outputs :: "string list"

type_synonym inputs = "(identity \<times> collector_input) list \<times> ((nat \<times> nat) \<times> identity) list"

definition record_sequence :: "int \<Rightarrow> sample \<Rightarrow> int" where
  "record_sequence position r = (case rc_sequence r of None \<Rightarrow> position | Some s \<Rightarrow> s)"

text \<open>The loop over the lines after the first one.\<close>

fun read_records :: "string \<Rightarrow> int \<Rightarrow> (int \<times> sample) list \<Rightarrow> sample jsonl list \<Rightarrow> gpu_error + (int \<times> sample) list" where
  "read_records directory position records [] = Inr records"
| "read_records directory position records (Partial # ls) = Inr records"
| "read_records directory position records (Malformed # ls) = Inl (MalformedLine directory)"
| "read_records directory position records (Line r # ls) =
     (let s = record_sequence position r in
      if (case map_of records s of None \<Rightarrow> False | Some p \<Rightarrow> p \<noteq> r) then Inl (ConflictingRecord s directory)
      else let records' = dict_set s r records in
           if rc_event r = ''end'' then Inr records' else read_records directory (position + 1) records' ls)"

definition read_collector :: "(string \<Rightarrow> samples_file option) \<Rightarrow> inputs \<Rightarrow> string \<Rightarrow> gpu_error + inputs" where
  "read_collector files st directory =
     (case st of (collectors, seen) \<Rightarrow>
      case files directory of
        None \<Rightarrow> Inl (NoSamples directory)
      | Some f \<Rightarrow>
        (case map_of seen (sf_key f) of
           Some i \<Rightarrow>
             Inr (map (\<lambda>(k, c). (k, if k = i then c\<lparr>ci_outputs := ci_outputs c @ [directory]\<rparr> else c)) collectors, seen)
         | None \<Rightarrow>
           (case sf_first f of
              Partial \<Rightarrow> Inl (IncompleteMetadata directory)
            | Malformed \<Rightarrow> Inl (MalformedLine directory)
            | Line md \<Rightarrow>
                if md_event md \<noteq> ''start'' then Inl (MissingStart directory)
                else let i = collector_identity md;
                         c = (case map_of collectors i of None \<Rightarrow> \<lparr>ci_metadata = md, ci_records = [], ci_outputs = []\<rparr>
                              | Some c \<Rightarrow> c) in
                  if ci_metadata c \<noteq> md then Inl (ConflictingMetadata directory)
                  else rbind (read_records directory 1 (ci_records c) (sf_rest f)) (\<lambda>records.
                    Inr (dict_set i (c\<lparr>ci_records := records, ci_outputs := ci_outputs c @ [directory]\<rparr>) collectors,
                         dict_set (sf_key f) i seen)))))"

fun fold_result :: "('s \<Rightarrow> 'a \<Rightarrow> 'e + 's) \<Rightarrow> 's \<Rightarrow> 'a list \<Rightarrow> 'e + 's" where
  "fold_result f s [] = Inr s"
| "fold_result f s (x # xs) = rbind (f s x) (\<lambda>s'. fold_result f s' xs)"

type_synonym collected = "identity \<times> metadata \<times> sample list \<times> string list"

definition read_collectors ::
  "(string \<Rightarrow> string) \<Rightarrow> (string \<Rightarrow> samples_file option) \<Rightarrow> string list \<Rightarrow> gpu_error + collected list" where
  "read_collectors resolve files directories =
     rbind (fold_result (read_collector files) ([], []) (sort (remdups (map resolve directories)))) (\<lambda>(collectors, _).
       Inr (map (\<lambda>(i, c). (i, ci_metadata c, map snd (sort_key fst (ci_records c)), sort (ci_outputs c)))
             (sort_key fst collectors)))"

section \<open>The window of one collector\<close>

record collector =
  co_node :: string
  co_host_id :: "string option"
  co_collector_id :: "string option"
  co_pid :: int
  co_backend :: string
  co_outputs :: "string list"
  co_started_at :: time
  co_interval :: time
  co_indices :: "int list option"
  co_end :: "sample option"
  co_last_sample :: "time option"
  co_last_success :: "time option"
  co_errors :: "(time \<times> string) list"
  co_clock_windows :: "window list"

record scan =
  sc_end :: "sample option"
  sc_last_sample :: "time option"
  sc_last_success :: "time option"
  sc_errors :: "(time \<times> string) list"
  sc_windows :: "window list"
  sc_high :: time

definition scan_clock :: "scan \<Rightarrow> time \<Rightarrow> scan" where
  "scan_clock st stamp =
     st\<lparr>sc_windows := (if stamp < sc_high st then sc_windows st @ [(stamp, sc_high st)] else sc_windows st),
        sc_high := max (sc_high st) stamp\<rparr>"

fun scan_records :: "time \<Rightarrow> time \<Rightarrow> scan \<Rightarrow> sample list \<Rightarrow> scan" where
  "scan_records since until st [] = st"
| "scan_records since until st (r # rs) =
     (let stamp = rc_timestamp r; st1 = scan_clock st stamp in
      if rc_event r = ''end'' then st1\<lparr>sc_end := Some r\<rparr>
      else if until < stamp then scan_records since until st1 rs
      else scan_records since until
        (st1\<lparr>sc_last_sample := Some stamp,
            sc_last_success := (if \<exists>g \<in> set (rc_gpus r). rd_usage g \<noteq> None then Some stamp else sc_last_success st1),
            sc_errors := (case rc_error r of Some e \<Rightarrow> if since \<le> stamp then sc_errors st1 @ [(stamp, e)] else sc_errors st1
                          | None \<Rightarrow> sc_errors st1)\<rparr>) rs)"

definition collector_window :: "metadata \<Rightarrow> sample list \<Rightarrow> string list \<Rightarrow> time \<Rightarrow> time \<Rightarrow> collector" where
  "collector_window md records outputs since until =
     (let st = scan_records since until
            \<lparr>sc_end = None, sc_last_sample = None, sc_last_success = None, sc_errors = [], sc_windows = [],
             sc_high = md_timestamp md\<rparr> records in
      \<lparr>co_node = md_node md, co_host_id = md_host_id md, co_collector_id = md_collector_id md, co_pid = md_pid md,
       co_backend = md_backend md, co_outputs = outputs, co_started_at = md_timestamp md,
       co_interval = md_interval md, co_indices = md_indices md, co_end = sc_end st,
       co_last_sample = sc_last_sample st, co_last_success = sc_last_success st, co_errors = sc_errors st,
       co_clock_windows = merge_clock_windows (sc_windows st)\<rparr>)"

section \<open>Host summaries\<close>

type_synonym host = "string \<times> string"

definition set_add :: "'a \<Rightarrow> 'a list \<Rightarrow> 'a list" where
  "set_add x xs = (if x \<in> set xs then xs else xs @ [x])"

text \<open>\<open>d.setdefault(k, set()).add(x)\<close>.\<close>

definition add_to :: "'k \<Rightarrow> 'v \<Rightarrow> ('k \<times> 'v list) list \<Rightarrow> ('k \<times> 'v list) list" where
  "add_to k x d = map (\<lambda>(a, xs). (a, if a = k then set_add x xs else xs)) (set_default k [] d)"

definition known_host_ids :: "collected list \<Rightarrow> (string \<times> string list) list" where
  "known_host_ids ins =
     foldl (\<lambda>d (_, md, _, _). case present (md_host_id md) of None \<Rightarrow> d | Some h \<Rightarrow> add_to (md_node md) h d) [] ins"

definition host_identity :: "(string \<times> string list) list \<Rightarrow> metadata \<Rightarrow> host" where
  "host_identity host_ids md =
     (case present (md_host_id md) of
        Some h \<Rightarrow> (''machine-id'', h)
      | None \<Rightarrow>
          (case events_at host_ids (md_node md) of
             [alias] \<Rightarrow> (''machine-id'', alias)
           | _ \<Rightarrow> (''hostname'', md_node md)))"

type_synonym segment = "identity \<times> collector \<times> sample list"

text \<open>\<open>nodes\<close>, \<open>pci_ids\<close> and \<open>uuid_hosts\<close>.\<close>

type_synonym evidence_tables = "(host \<times> segment list) list \<times> ((host \<times> string) \<times> string list) list \<times> host list"

definition has_pci :: "gpu_reading \<Rightarrow> bool" where
  "has_pci g \<longleftrightarrow> present (rd_pci g) \<noteq> None"

definition note_gpu ::
  "host \<Rightarrow> ((host \<times> string) \<times> string list) list \<times> host list \<Rightarrow> gpu_reading \<Rightarrow>
   ((host \<times> string) \<times> string list) list \<times> host list" where
  "note_gpu host ev g =
     (case ev of (pci_ids, uuid_hosts) \<Rightarrow>
        ((case present (rd_pci g) of None \<Rightarrow> pci_ids | Some a \<Rightarrow> add_to (host, lower a) (rd_id g) pci_ids),
         (if has_pci g \<or> starts_with ''GPU-'' (rd_id g) then set_add host uuid_hosts else uuid_hosts)))"

definition note_collector :: "(string \<times> string list) list \<Rightarrow> time \<Rightarrow> time \<Rightarrow> evidence_tables \<Rightarrow> collected \<Rightarrow> evidence_tables" where
  "note_collector host_ids since until ev inp =
     (case ev of (nodes, pci_ids, uuid_hosts) \<Rightarrow> case inp of (i, md, records, paths) \<Rightarrow>
        let host = host_identity host_ids md;
            c = collector_window md records paths since until;
            nodes' = append_at host (i, c, records) nodes in
        if co_backend c = ''metax''
        then (nodes', foldl (note_gpu host) (pci_ids, uuid_hosts) (concat (map rc_gpus records)))
        else (nodes', pci_ids, uuid_hosts))"

text \<open>The instant a record's readings stop being valid.\<close>

definition valid_until :: "time \<Rightarrow> time \<Rightarrow> sample \<Rightarrow> sample list \<Rightarrow> time" where
  "valid_until until interval r following =
     (let stamp = rc_timestamp r; stop = min until (stamp + interval) in
      case following of
        [] \<Rightarrow> stop
      | f # _ \<Rightarrow>
          let stop' = min stop (rc_timestamp f) in
          (case (rc_elapsed r, rc_elapsed f) of
             (Some e, Some e') \<Rightarrow> min stop' (stamp + e' - e)
           | _ \<Rightarrow> stop'))"

fun clip_clock :: "window list \<Rightarrow> time \<Rightarrow> time \<Rightarrow> time" where
  "clip_clock [] stamp stop = stop"
| "clip_clock ((s, u) # ws) stamp stop =
     (if s \<le> stamp \<and> stamp < u then stamp
      else if stamp < s \<and> s < stop then s
      else clip_clock ws stamp stop)"

record device =
  dv_indices :: "int list"
  dv_observations :: "observation list"

type_synonym devices = "((string \<times> string) \<times> device) list"

text \<open>The resolved identity of a reading, and whether it is ambiguous.\<close>

definition resolve_gpu ::
  "((host \<times> string) \<times> string list) list \<Rightarrow> host list \<Rightarrow> host \<Rightarrow> string \<Rightarrow> gpu_reading \<Rightarrow> string \<times> bool" where
  "resolve_gpu pci_ids uuid_hosts host backend g =
     (if backend = ''metax'' \<and> \<not> has_pci g \<and> \<not> starts_with ''GPU-'' (rd_id g)
      then case events_at pci_ids (host, lower (rd_id g)) of
             [alias] \<Rightarrow> (alias, False)
           | _ \<Rightarrow> (rd_id g, host \<in> set uuid_hosts)
      else (rd_id g, False))"

definition observe :: "string \<times> string \<Rightarrow> int \<Rightarrow> observation \<Rightarrow> devices \<Rightarrow> devices" where
  "observe k index obs ds =
     map (\<lambda>(a, d). (a, if a = k
                       then d\<lparr>dv_indices := set_add index (dv_indices d), dv_observations := dv_observations d @ [obs]\<rparr>
                       else d))
       (set_default k \<lparr>dv_indices = [], dv_observations = []\<rparr> ds)"

definition observe_gpu ::
  "((host \<times> string) \<times> string list) list \<Rightarrow> host list \<Rightarrow> host \<Rightarrow> segment \<Rightarrow> time \<Rightarrow> time \<Rightarrow> int \<Rightarrow>
   devices \<times> bool \<Rightarrow> gpu_reading \<Rightarrow> devices \<times> bool" where
  "observe_gpu pci_ids uuid_hosts host seg stamp stop sequence st g =
     (case st of (ds, ambiguous) \<Rightarrow> case seg of (i, c, _) \<Rightarrow>
      case resolve_gpu pci_ids uuid_hosts host (co_backend c) g of (identity, unclear) \<Rightarrow>
        (observe (co_backend c, identity) (rd_index g)
           (stamp, stop, rd_usage g, co_started_at c, i, sequence) ds,
         ambiguous \<or> unclear))"

text \<open>The loop over the records of one collector: devices, ambiguity and whether any inventory was seen.\<close>

fun scan_segment ::
  "((host \<times> string) \<times> string list) list \<Rightarrow> host list \<Rightarrow> host \<Rightarrow> window list \<Rightarrow> time \<Rightarrow> segment \<Rightarrow> int \<Rightarrow> sample list \<Rightarrow>
   (devices \<times> bool) \<times> bool \<Rightarrow> (devices \<times> bool) \<times> bool" where
  "scan_segment pci_ids uuid_hosts host windows until seg n [] st = st"
| "scan_segment pci_ids uuid_hosts host windows until seg n (r # rs) (st, inventory) =
     (if rc_event r = ''end'' then (st, inventory)
      else let stamp = rc_timestamp r;
               stop = clip_clock windows stamp (valid_until until (co_interval (fst (snd seg))) r rs);
               sequence = record_sequence (n + 1) r in
        scan_segment pci_ids uuid_hosts host windows until seg (n + 1) rs
          (foldl (observe_gpu pci_ids uuid_hosts host seg stamp stop sequence) st (rc_gpus r),
           inventory \<or> rc_gpus r \<noteq> []))"

record host_scan =
  hs_devices :: devices
  hs_requested :: "(string \<times> int) list"
  hs_scope_known :: bool
  hs_ambiguous :: bool

definition scan_collector ::
  "((host \<times> string) \<times> string list) list \<Rightarrow> host list \<Rightarrow> host \<Rightarrow> window list \<Rightarrow> time \<Rightarrow> host_scan \<Rightarrow> segment \<Rightarrow> host_scan" where
  "scan_collector pci_ids uuid_hosts host windows until hs seg =
     (case seg of (i, c, records) \<Rightarrow>
      case scan_segment pci_ids uuid_hosts host windows until seg 0 records ((hs_devices hs, hs_ambiguous hs), False) of
        ((ds, ambiguous), inventory) \<Rightarrow>
          \<lparr>hs_devices = ds,
           hs_requested = foldl (\<lambda>rs j. set_add (co_backend c, j) rs) (hs_requested hs)
             (case co_indices c of None \<Rightarrow> [] | Some js \<Rightarrow> js),
           hs_scope_known = (hs_scope_known hs \<and> \<not> (co_indices c = None \<and> \<not> inventory)),
           hs_ambiguous = ambiguous\<rparr>)"

record gpu_summary =
  gs_backend :: string
  gs_id :: "string option"
  gs_indices :: "int list"
  gs_usage :: usage_summary

definition device_summaries :: "devices \<Rightarrow> time \<Rightarrow> time \<Rightarrow> gpu_summary list" where
  "device_summaries ds since until =
     map (\<lambda>((backend, identity), d).
            \<lparr>gs_backend = backend, gs_id = Some identity, gs_indices = sort (dv_indices d),
             gs_usage = summarize_gpu (dv_observations d) since until\<rparr>)
       (sort_key fst ds)"

definition observed_indices :: "devices \<Rightarrow> (string \<times> int) list" where
  "observed_indices ds = concat (map (\<lambda>((backend, _), d). map (\<lambda>j. (backend, j)) (dv_indices d)) ds)"

definition missing_summaries :: "host_scan \<Rightarrow> time \<Rightarrow> time \<Rightarrow> gpu_summary list" where
  "missing_summaries hs since until =
     map (\<lambda>(backend, index).
            \<lparr>gs_backend = backend, gs_id = None, gs_indices = [index], gs_usage = summarize_gpu [] since until\<rparr>)
       (sort (filter (\<lambda>k. k \<notin> set (observed_indices (hs_devices hs))) (hs_requested hs)))"

record node_summary =
  ns_node :: string
  ns_host_id :: "string option"
  ns_source :: string
  ns_ambiguous :: bool
  ns_usage :: node_usage
  ns_gpus :: "gpu_summary list"
  ns_collectors :: "collector list"
  ns_windows :: "window list"

definition unknown_usage :: node_usage where
  "unknown_usage = \<lparr>nu_covered = None, nu_idle = None, nu_expected = None, nu_mean = None, nu_coverage = None\<rparr>"

definition summarize_host ::
  "(string \<times> string list) list \<Rightarrow> ((host \<times> string) \<times> string list) list \<Rightarrow> host list \<Rightarrow> time \<Rightarrow> time \<Rightarrow>
   host \<times> segment list \<Rightarrow> node_summary" where
  "summarize_host host_ids pci_ids uuid_hosts since until hostsegs =
     (case hostsegs of (host, segs) \<Rightarrow>
      let collectors = map (fst \<circ> snd) segs;
          windows = merge_clock_windows (concat (map co_clock_windows collectors));
          hs = foldl (scan_collector pci_ids uuid_hosts host windows until)
                 \<lparr>hs_devices = [], hs_requested = [], hs_scope_known = True,
                  hs_ambiguous = (fst host = ''hostname'' \<and> 1 < length (events_at host_ids (snd host)))\<rparr> segs;
          gpus = device_summaries (hs_devices hs) since until @ missing_summaries hs since until;
          usage = aggregate_usage (map gs_usage gpus)
                    (if hs_scope_known hs then Some ((until - since) * of_nat (length gpus)) else None) in
      \<lparr>ns_node = Min (set (map co_node collectors)),
       ns_host_id = (if fst host = ''machine-id'' then Some (snd host) else None),
       ns_source = fst host, ns_ambiguous = hs_ambiguous hs,
       ns_usage = (if hs_ambiguous hs then unknown_usage else usage),
       ns_gpus = gpus, ns_collectors = collectors, ns_windows = windows\<rparr>)"

definition host_evidence :: "collected list \<Rightarrow> time \<Rightarrow> time \<Rightarrow> evidence_tables" where
  "host_evidence ins since until = foldl (note_collector (known_host_ids ins) since until) ([], [], []) ins"

definition summarize_inputs :: "collected list \<Rightarrow> time \<Rightarrow> time \<Rightarrow> node_summary list" where
  "summarize_inputs ins since until =
     (case host_evidence ins since until of (nodes, pci_ids, uuid_hosts) \<Rightarrow>
        map (summarize_host (known_host_ids ins) pci_ids uuid_hosts since until) (sort_key fst nodes))"

text \<open>The window check of the \<open>summarize\<close> command.\<close>

definition summary_window :: "time \<Rightarrow> time option \<Rightarrow> time \<Rightarrow> gpu_error + time" where
  "summary_window since until now =
     (let u = (case until of None \<Rightarrow> now | Some t \<Rightarrow> t) in if u \<le> since \<or> now < u then Inl BadWindow else Inr u)"

definition summarize ::
  "(string \<Rightarrow> string) \<Rightarrow> (string \<Rightarrow> samples_file option) \<Rightarrow> string list \<Rightarrow> time \<Rightarrow> time \<Rightarrow> gpu_error + node_summary list" where
  "summarize resolve files directories since until =
     rbind (read_collectors resolve files directories) (\<lambda>ins. Inr (summarize_inputs ins since until))"

section \<open>Numbered records and snapshots\<close>

lemma map_result_Inr: "map_result f xs = Inr ys \<Longrightarrow> list_all2 (\<lambda>x y. f x = Inr y) xs ys"
  by (induction xs arbitrary: ys) (auto simp: rbind_eq_Inr_iff)

text \<open>Records numbered from one, ending with the first end record.\<close>

definition well_numbered :: "sample list \<Rightarrow> bool" where
  "well_numbered S \<longleftrightarrow> (\<forall>k < length S. rc_sequence (S ! k) = Some (int k + 1)) \<and>
     (\<forall>k < length S. rc_event (S ! k) = ''end'' \<longrightarrow> Suc k = length S)"

definition numbered :: "sample list \<Rightarrow> (int \<times> sample) list" where
  "numbered S = map (\<lambda>k. (int k + 1, S ! k)) [0 ..< length S]"

lemma numbered_snoc: "numbered (S @ [r]) = numbered S @ [(int (length S) + 1, r)]"
  by (simp add: numbered_def nth_append)

lemma numbered_keys: "fst ` set (numbered S) = {1 .. int (length S)}"
  by (force simp: numbered_def image_iff intro: bexI [of _ "nat (x - 1)" for x])

lemma map_of_numbered: "map_of (numbered S) (int k + 1) = (if k < length S then Some (S ! k) else None)"
proof (cases "k < length S")
  case True
  have "distinct (map fst (numbered S))" by (simp add: numbered_def comp_def distinct_map inj_on_def)
  moreover have "(int k + 1, S ! k) \<in> set (numbered S)" using True by (auto simp: numbered_def)
  ultimately show ?thesis using True by simp
next
  case False
  then have "int k + 1 \<notin> fst ` set (numbered S)" by (simp add: numbered_keys)
  then show ?thesis using False by (simp add: map_of_eq_None_iff)
qed

lemma dict_set_new: "k \<notin> fst ` set d \<Longrightarrow> dict_set k v d = d @ [(k, v)]"
  by (induction d) auto

lemma dict_set_numbered:
  assumes "k \<le> length (take m S)" and "k < length S"
  shows "dict_set (int k + 1) (S ! k) (numbered (take m S)) = numbered (take (max m (Suc k)) S)"
proof (cases "k < length (take m S)")
  case True
  then have "map_of (numbered (take m S)) (int k + 1) = Some (S ! k)" by (simp add: map_of_numbered)
  moreover have "max m (Suc k) = m" using True by simp
  ultimately show ?thesis by (simp add: dict_set_same)
next
  case False
  then have m: "m = k" using assms by simp
  have "int k + 1 \<notin> fst ` set (numbered (take m S))" using m assms by (simp add: numbered_keys)
  then show ?thesis using m assms by (simp add: dict_set_new take_Suc_conv_app_nth numbered_snoc)
qed

text \<open>Lines of a snapshot: a prefix of the records, perhaps followed by an unfinished line.\<close>

definition snapshot_lines :: "sample list \<Rightarrow> nat \<Rightarrow> bool \<Rightarrow> sample jsonl list" where
  "snapshot_lines S n unfinished = map Line (take n S) @ (if unfinished then [Partial] else [])"

lemma read_records_from:
  assumes "well_numbered S" and "p \<le> length (take m S)" and "p \<le> n" and "n \<le> length S"
  shows "read_records d (int p + 1) (numbered (take m S)) (map Line (drop p (take n S)) @ tail) =
    (if n < length S \<or> p = n \<or> rc_event (last S) \<noteq> ''end''
     then read_records d (int n + 1) (numbered (take (max m n) S)) tail
     else Inr (numbered (take (max m n) S)))"
  using assms
proof (induction "n - p" arbitrary: p m)
  case 0
  then have "p = n" "max m n = m \<or> take (max m n) S = take m S" by auto
  then show ?case using 0 by auto
next
  case (Suc j)
  then have pn: "p < n" by simp
  then have pS: "p < length S" using Suc.prems by simp
  have drop: "drop p (take n S) = S ! p # drop (Suc p) (take n S)"
    using pn Suc.prems by (simp add: Cons_nth_drop_Suc [symmetric])
  have seq: "rc_sequence (S ! p) = Some (int p + 1)" using Suc.prems(1) pS by (simp add: well_numbered_def)
  have agree: "\<not> (case map_of (numbered (take m S)) (int p + 1) of None \<Rightarrow> False | Some q \<Rightarrow> q \<noteq> S ! p)"
    unfolding map_of_numbered by (auto split: if_splits)
  note add = dict_set_numbered [OF Suc.prems(2) pS]
  show ?case
  proof (cases "rc_event (S ! p) = ''end''")
    case True
    then have last: "Suc p = length S" using Suc.prems(1) pS by (simp add: well_numbered_def)
    then have n: "n = length S" using pn Suc.prems by simp
    have "last S = S ! p" using last by (metis diff_Suc_1 last_conv_nth list.size(3) nat.distinct(1))
    then show ?thesis
      unfolding drop using True seq agree add last n pn by (simp add: record_sequence_def Let_def)
  next
    case False
    have step: "read_records d (int p + 1) (numbered (take m S)) (map Line (drop p (take n S)) @ tail) =
        read_records d (int (Suc p) + 1) (numbered (take (max m (Suc p)) S)) (map Line (drop (Suc p) (take n S)) @ tail)"
      unfolding drop using False seq agree add by (simp add: record_sequence_def Let_def add.commute)
    have ih: "read_records d (int (Suc p) + 1) (numbered (take (max m (Suc p)) S)) (map Line (drop (Suc p) (take n S)) @ tail) =
      (if n < length S \<or> Suc p = n \<or> rc_event (last S) \<noteq> ''end''
       then read_records d (int n + 1) (numbered (take (max (max m (Suc p)) n) S)) tail
       else Inr (numbered (take (max (max m (Suc p)) n) S)))"
      using Suc pn pS by (intro Suc.hyps(1)) auto
    have mx: "max (max m (Suc p)) n = max m n" using pn by simp
    have "rc_event (last S) \<noteq> ''end''" if "Suc p = n" "n = length S"
      using that False by (metis diff_Suc_1 last_conv_nth list.size(3) nat.distinct(1))
    then show ?thesis using step ih mx pn Suc.prems(4) by auto
  qed
qed

lemma read_snapshot:
  assumes "well_numbered S" and "n \<le> length S"
  shows "read_records d 1 (numbered (take m S)) (snapshot_lines S n unfinished) = Inr (numbered (take (max m n) S))"
  using read_records_from [OF assms(1) _ _ assms(2), of 0 m d "if unfinished then [Partial] else []"]
  by (auto simp: snapshot_lines_def)

lemma numbered_sorted: "map snd (sort_key fst (numbered S)) = S"
proof -
  have "sorted (map fst (numbered S))" by (simp add: numbered_def comp_def sorted_iff_nth_mono)
  then have "sort_key fst (numbered S) = numbered S" by (rule sort_key_id_if_sorted)
  then show ?thesis by (simp add: numbered_def comp_def map_nth)
qed

text \<open>
  Directories that hold snapshots of one collector: the same metadata, and the first \<open>n d\<close> records. Directories
  with the same device and inode hold the same file.
\<close>

definition snapshots ::
  "(string \<Rightarrow> samples_file option) \<Rightarrow> metadata \<Rightarrow> sample list \<Rightarrow> (string \<Rightarrow> nat) \<Rightarrow> string set \<Rightarrow> bool" where
  "snapshots files md S n ds \<longleftrightarrow>
     (\<forall>d \<in> ds. n d \<le> length S \<and> (\<exists>k u. files d = Some \<lparr>sf_key = k, sf_first = Line md, sf_rest = snapshot_lines S (n d) u\<rparr>)) \<and>
     (\<forall>d \<in> ds. \<forall>e \<in> ds. map_option sf_key (files d) = map_option sf_key (files e) \<longrightarrow> n d = n e)"

definition merged :: "metadata \<Rightarrow> sample list \<Rightarrow> string list \<Rightarrow> identity \<times> collector_input" where
  "merged md S outs = (collector_identity md, \<lparr>ci_metadata = md, ci_records = numbered S, ci_outputs = outs\<rparr>)"

text \<open>Every file already read contributed at most the \<open>m\<close> records merged so far.\<close>

definition seen_ok ::
  "(string \<Rightarrow> samples_file option) \<Rightarrow> metadata \<Rightarrow> (string \<Rightarrow> nat) \<Rightarrow> string set \<Rightarrow> nat \<Rightarrow> ((nat \<times> nat) \<times> identity) list \<Rightarrow> bool" where
  "seen_ok files md n ds m seen \<longleftrightarrow>
     (\<forall>k i. map_of seen k = Some i \<longrightarrow> i = collector_identity md \<and>
        (\<forall>d \<in> ds. map_option sf_key (files d) = Some k \<longrightarrow> n d \<le> m))"

lemma seen_ok_add:
  assumes snap: "snapshots files md S n ds" and d: "d \<in> ds" "map_option sf_key (files d) = Some k"
    and seen: "seen_ok files md n ds m seen"
  shows "seen_ok files md n ds (max m (n d)) (dict_set k (collector_identity md) seen)"
  unfolding seen_ok_def
proof (intro allI impI)
  fix k' i assume i: "map_of (dict_set k (collector_identity md) seen) k' = Some i"
  show "i = collector_identity md \<and> (\<forall>e\<in>ds. map_option sf_key (files e) = Some k' \<longrightarrow> n e \<le> max m (n d))"
  proof (cases "k' = k")
    case True
    have "n e = n d" if "e \<in> ds" "map_option sf_key (files e) = Some k" for e
      using snap d that unfolding snapshots_def by metis
    then show ?thesis using i True by simp
  next
    case False
    then have "map_of seen k' = Some i" using i by simp
    then have "i = collector_identity md" "\<forall>e\<in>ds. map_option sf_key (files e) = Some k' \<longrightarrow> n e \<le> m"
      using seen unfolding seen_ok_def by blast+
    then show ?thesis by (meson max.coboundedI1)
  qed
qed

lemma read_collector_snapshot:
  assumes S: "well_numbered S" and md: "md_event md = ''start''" and snap: "snapshots files md S n ds" and d: "d \<in> ds"
    and seen: "seen_ok files md n ds m seen"
  shows "\<exists>seen'. read_collector files ([merged md (take m S) outs], seen) d =
      Inr ([merged md (take (max m (n d)) S) (outs @ [d])], seen') \<and> seen_ok files md n ds (max m (n d)) seen'"
proof -
  from snap d obtain k u where f: "n d \<le> length S"
    "files d = Some \<lparr>sf_key = k, sf_first = Line md, sf_rest = snapshot_lines S (n d) u\<rparr>"
    unfolding snapshots_def by blast
  show ?thesis
  proof (cases "map_of seen k")
    case None
    have "map_option sf_key (files d) = Some k" by (simp add: f)
    from seen_ok_add [OF snap d this seen] show ?thesis
      using read_snapshot [OF S f(1), of d m u] md
      by (simp add: read_collector_def f None merged_def Let_def)
  next
    case (Some i)
    moreover have "map_option sf_key (files d) = Some k" by (simp add: f)
    ultimately have "i = collector_identity md" "n d \<le> m" using seen d unfolding seen_ok_def by blast+
    then show ?thesis using seen by (simp add: read_collector_def f Some merged_def max_absorb1)
  qed
qed

lemma read_collectors_fold:
  assumes S: "well_numbered S" and md: "md_event md = ''start''" and snap: "snapshots files md S n D"
  shows "set ds \<subseteq> D \<Longrightarrow> seen_ok files md n D m seen \<Longrightarrow>
    \<exists>seen'. fold_result (read_collector files) ([merged md (take m S) outs], seen) ds =
      Inr ([merged md (take (foldl max m (map n ds)) S) (outs @ ds)], seen')"
proof (induction ds arbitrary: m outs seen)
  case (Cons d ds)
  from Cons.prems(1) have "d \<in> D" by simp
  from read_collector_snapshot [OF S md snap this Cons.prems(2), of outs] obtain seen' where
    step: "read_collector files ([merged md (take m S) outs], seen) d =
      Inr ([merged md (take (max m (n d)) S) (outs @ [d])], seen')" and ok: "seen_ok files md n D (max m (n d)) seen'"
    by blast
  from Cons.IH [OF _ ok, of "outs @ [d]"] Cons.prems(1) show ?case by (simp add: step)
qed simp

lemma read_first_snapshot:
  assumes S: "well_numbered S" and md: "md_event md = ''start''" and snap: "snapshots files md S n D" and d: "d \<in> D"
  shows "\<exists>seen. read_collector files ([], []) d = Inr ([merged md (take (n d) S) [d]], seen) \<and> seen_ok files md n D (n d) seen"
proof -
  from snap d obtain k u where f: "n d \<le> length S"
    "files d = Some \<lparr>sf_key = k, sf_first = Line md, sf_rest = snapshot_lines S (n d) u\<rparr>"
    unfolding snapshots_def by blast
  have "seen_ok files md n D 0 []" by (simp add: seen_ok_def)
  from seen_ok_add [OF snap d _ this, of k] have "seen_ok files md n D (n d) [(k, collector_identity md)]"
    by (simp add: f)
  moreover have "numbered (take 0 S) = []" by (simp add: numbered_def)
  ultimately show ?thesis
    using read_snapshot [OF S f(1), of d 0 u] md by (simp add: read_collector_def f merged_def Let_def)
qed

lemma foldl_max_ge: "(m :: nat) \<le> foldl max m ns"
proof (induction ns arbitrary: m)
  case (Cons a ns)
  show ?case using Cons.IH [of "max m a"] by simp
qed simp

lemma foldl_max_in: "k \<in> set ns \<Longrightarrow> (k :: nat) \<le> foldl max m ns"
proof (induction ns arbitrary: m)
  case (Cons a ns)
  then show ?case using foldl_max_ge [of "max m a" ns] by auto
qed simp

lemma read_snapshots:
  assumes S: "well_numbered S" and md: "md_event md = ''start''"
    and snap: "snapshots files md S n (resolve ` set directories)"
    and full: "d \<in> resolve ` set directories" "n d = length S"
  shows "read_collectors resolve files directories =
    Inr [(collector_identity md, md, S, sort (remdups (map resolve directories)))]"
proof -
  let ?D = "resolve ` set directories"
  define ds where "ds = sort (remdups (map resolve directories))"
  have set_ds: "set ds = ?D" by (simp add: ds_def)
  then obtain e es where ds: "ds = e # es" using full(1) by (cases ds) auto
  from read_first_snapshot [OF S md snap, of e] set_ds ds obtain seen where
    first: "read_collector files ([], []) e = Inr ([merged md (take (n e) S) [e]], seen)"
    and ok: "seen_ok files md n ?D (n e) seen" by auto
  from read_collectors_fold [OF S md snap _ ok, of es "[e]"] set_ds ds obtain seen' where
    rest: "fold_result (read_collector files) ([merged md (take (n e) S) [e]], seen) es =
      Inr ([merged md (take (foldl max (n e) (map n es)) S) ds], seen')" by auto
  have "d = e \<or> d \<in> set es" using full(1) set_ds ds by auto
  then have "length S \<le> foldl max (n e) (map n es)"
    using full(2) foldl_max_ge [of "n e" "map n es"] foldl_max_in [of "n d" "map n es" "n e"]
    by (metis image_eqI set_map)
  then have all: "take (foldl max (n e) (map n es)) S = S" by simp
  have "fold_result (read_collector files) ([], []) ds = Inr ([merged md S ds], seen')"
    using first rest by (simp add: ds all)
  moreover have "sort ds = ds" unfolding ds_def by (rule sorted_sort_id) simp
  ultimately show ?thesis
    unfolding read_collectors_def ds_def [symmetric] by (simp add: merged_def numbered_sorted)
qed

text \<open>What the collector writes is numbered from one and closed by its end record.\<close>

lemma sample_loop_numbered:
  "sample_loop deadline origin s ts = (rs, reason, s') \<Longrightarrow>
     s' = s + int (length rs) \<and> (\<forall>k < length rs. rc_sequence (rs ! k) = Some (s + int k) \<and> rc_event (rs ! k) = ''sample'')"
proof (induction deadline origin s ts arbitrary: rs reason s' rule: sample_loop.induct)
  case (2 deadline origin s t ts)
  show ?case
  proof (cases "tk_stop t \<or> deadline_reached deadline (tk_now t) \<or> tk_query t = Crash")
    case True
    then show ?thesis using "2.prems" by (auto split: if_splits prod.splits)
  next
    case False
    obtain rs1 reason1 n1 where r: "sample_loop deadline origin (s + 1) ts = (rs1, reason1, n1)"
      by (cases "sample_loop deadline origin (s + 1) ts")
    with "2.IH" False have ih: "n1 = s + 1 + int (length rs1) \<and>
        (\<forall>k < length rs1. rc_sequence (rs1 ! k) = Some (s + 1 + int k) \<and> rc_event (rs1 ! k) = ''sample'')" by blast
    from "2.prems" False r have "rs = sample_of origin s t # rs1" "s' = n1" by auto
    then show ?thesis using ih by (auto simp: nth_Cons sample_of_def split: nat.splits)
  qed
qed simp

lemma collect_writes:
  assumes "collect host stop_present output_present args checked started ticks ended = Inr f"
  obtains md S where "sf_first f = Line md" "md_event md = ''start''" "md_collector_id md = Some (hf_uuid host)"
    "sf_rest f = map Line S" "well_numbered S"
proof -
  from assms obtain backend rs reason s where b: "sample_loop (ca_deadline args) (snd started) 1 ticks = (rs, reason, s)"
    and f: "sf_first f = Line (start_record host args backend (fst started))"
      "sf_rest f = map Line (rs @ [end_record (snd started) s reason (fst ended) (snd ended)])"
    by (auto simp: collect_def rbind_eq_Inr_iff split: if_splits prod.splits)
  from sample_loop_numbered [OF b] have "well_numbered (rs @ [end_record (snd started) s reason (fst ended) (snd ended)])"
    by (auto simp: well_numbered_def nth_append end_record_def less_Suc_eq)
  with f show ?thesis by (intro that [OF f(1) _ _ f(2)]) (simp_all add: start_record_def)
qed

section \<open>Ranges of the readings\<close>

definition percent :: "time option \<Rightarrow> bool" where
  "percent v \<longleftrightarrow> (\<forall>q. v = Some q \<longrightarrow> 0 \<le> q \<and> q \<le> 100)"

lemma check_percent_Inr: "check_percent v = Inr u \<Longrightarrow> percent u"
  by (auto simp: check_percent_def percent_def split: option.splits pyfloat.splits if_splits)

lemma utilization_percent: "utilization_text s = Inr u \<Longrightarrow> percent u" "utilization v = Inr u \<Longrightarrow> percent u"
proof -
  show of_text: "percent u" if "utilization_text s = Inr u" for s
    using that check_percent_Inr by (auto simp: utilization_text_def percent_def split: if_splits)
  show "utilization v = Inr u \<Longrightarrow> percent u"
    by (cases v) (use of_text check_percent_Inr in \<open>auto\<close>)
qed

lemma reading_rows_percent:
  "nvidia_row row = Inr g \<Longrightarrow> percent (rd_usage g)" "metax_row ids d = Inr g \<Longrightarrow> percent (rd_usage g)"
proof -
  show "nvidia_row row = Inr g \<Longrightarrow> percent (rd_usage g)"
    using utilization_percent(1)
    by (auto simp: nvidia_row_def rbind_eq_Inr_iff split: list.splits option.splits)
  show "metax_row ids d = Inr g \<Longrightarrow> percent (rd_usage g)"
    using utilization_percent(2)
    by (auto simp: metax_row_def rbind_eq_Inr_iff split: prod.splits option.splits)
qed

lemma map_result_percent:
  assumes "map_result f xs = Inr gs" and "\<And>x g. f x = Inr g \<Longrightarrow> percent (rd_usage g)" and "g \<in> set gs"
  shows "percent (rd_usage g)"
  using map_result_Inr [OF assms(1)] assms(2,3) by (auto simp: list_all2_conv_all_nth in_set_conv_nth)

lemma query_readings:
  assumes "query_gpus loads invoke backend indices = Inr gs"
  shows "gs \<noteq> [] \<and> (\<forall>g \<in> set gs. percent (rd_usage g)) \<and> (\<forall>is. indices = Some is \<longrightarrow> rd_index ` set gs = set is)"
proof -
  from assms obtain out raw where raw:
    "(if backend = ''nvidia'' then nvidia_readings (strip out) else metax_readings loads invoke (strip out)) = Inr raw"
    and chk: "check_readings indices raw = Inr gs"
    by (auto simp: query_gpus_def rbind_eq_Inr_iff Let_def)
  have gs: "gs = raw" "gs \<noteq> []" "\<forall>is. indices = Some is \<longrightarrow> rd_index ` set gs = set is"
    using chk by (auto simp: check_readings_def split: if_splits option.splits)
  have "percent (rd_usage g)" if "g \<in> set raw" for g
  proof (cases "backend = ''nvidia''")
    case True
    then show ?thesis
      using raw that map_result_percent [OF _ reading_rows_percent(1)] by (auto simp: nvidia_readings_def)
  next
    case False
    then show ?thesis
      using raw that map_result_percent [OF _ reading_rows_percent(2)]
      by (fastforce simp: metax_readings_def rbind_eq_Inr_iff Let_def split: option.splits)
  qed
  then show ?thesis using gs by blast
qed

section \<open>Bounds of the host totals\<close>

definition readings_ok :: "sample list \<Rightarrow> bool" where
  "readings_ok rs \<longleftrightarrow> (\<forall>r \<in> set rs. \<forall>g \<in> set (rc_gpus r). percent (rd_usage g))"

definition devices_ok :: "devices \<Rightarrow> bool" where
  "devices_ok ds \<longleftrightarrow> list_all (\<lambda>p. list_all (\<lambda>x. percent (fst (snd (snd x)))) (dv_observations (snd p))) ds"

lemma observe_ok:
  assumes "devices_ok ds" and "percent (fst (snd (snd x)))"
  shows "devices_ok (observe k index x ds)"
proof -
  have "devices_ok (set_default k \<lparr>dv_indices = [], dv_observations = []\<rparr> ds)"
    using assms(1) by (auto simp: devices_ok_def set_default_def)
  then show ?thesis
    using assms(2) unfolding devices_ok_def observe_def by (auto simp: list_all_iff split: prod.splits)
qed

lemma observe_gpu_ok:
  assumes "devices_ok (fst st)" and "percent (rd_usage g)"
  shows "devices_ok (fst (observe_gpu pci_ids uuid_hosts host seg stamp stop sequence st g))"
  using assms observe_ok by (auto simp: observe_gpu_def split: prod.splits)

lemma observe_gpus_ok:
  "devices_ok (fst st) \<Longrightarrow> (\<And>g. g \<in> set gs \<Longrightarrow> percent (rd_usage g)) \<Longrightarrow>
   devices_ok (fst (foldl (observe_gpu pci_ids uuid_hosts host seg stamp stop sequence) st gs))"
  by (induction gs arbitrary: st) (simp_all add: observe_gpu_ok)

lemma scan_segment_ok:
  "devices_ok (fst (fst st)) \<Longrightarrow> readings_ok rs \<Longrightarrow>
   devices_ok (fst (fst (scan_segment pci_ids uuid_hosts host windows until seg n rs st)))"
proof (induction rs arbitrary: st n)
  case (Cons r rs)
  obtain p inventory where st: "st = (p, inventory)" by (cases st)
  have "devices_ok (fst (foldl (observe_gpu pci_ids uuid_hosts host seg stamp stop sequence) p (rc_gpus r)))" for stamp stop sequence
    using Cons.prems by (intro observe_gpus_ok) (auto simp: st readings_ok_def)
  then show ?case using Cons by (simp add: st Let_def readings_ok_def)
qed simp

lemma scan_collectors_ok:
  "devices_ok (hs_devices hs) \<Longrightarrow> (\<And>i c rs. (i, c, rs) \<in> set segs \<Longrightarrow> readings_ok rs) \<Longrightarrow>
   devices_ok (hs_devices (foldl (scan_collector pci_ids uuid_hosts host windows until) hs segs))"
proof (induction segs arbitrary: hs)
  case (Cons seg segs)
  obtain i c rs where seg: "seg = (i, c, rs)" by (cases seg)
  have "readings_ok rs" using Cons.prems(2) seg by (meson list.set_intros(1))
  then have "devices_ok (hs_devices (scan_collector pci_ids uuid_hosts host windows until hs seg))"
    using Cons.prems(1) scan_segment_ok [of "((hs_devices hs, hs_ambiguous hs), False)" rs]
    by (simp add: scan_collector_def seg split: prod.splits) (metis fst_conv)
  then show ?case using Cons.IH Cons.prems(2) by (simp, meson)
qed simp

definition nodes_from :: "collected list \<Rightarrow> (host \<times> segment list) list \<Rightarrow> bool" where
  "nodes_from ins nodes \<longleftrightarrow>
     list_all (\<lambda>n. list_all (\<lambda>seg. \<exists>x \<in> set ins. fst (snd (snd x)) = snd (snd seg)) (snd n)) nodes"

lemma nodes_from_append_at:
  assumes "nodes_from ins nodes" and "x \<in> set ins"
  shows "nodes_from ins (append_at h (fst x, c, fst (snd (snd x))) nodes)"
proof -
  have "nodes_from ins (set_default h [] nodes)" using assms(1) by (simp add: nodes_from_def set_default_def)
  then show ?thesis
    using assms(2) unfolding nodes_from_def append_at_def by (auto simp: list_all_iff split: prod.splits)
qed

lemma note_collector_nodes:
  "fst (note_collector host_ids since until ev x) =
     append_at (host_identity host_ids (fst (snd x)))
       (fst x, collector_window (fst (snd x)) (fst (snd (snd x))) (snd (snd (snd x))) since until, fst (snd (snd x))) (fst ev)"
  by (simp add: note_collector_def Let_def split: prod.splits)

lemma host_evidence_nodes:
  "nodes_from ins (fst ev) \<Longrightarrow> set xs \<subseteq> set ins \<Longrightarrow> nodes_from ins (fst (foldl (note_collector host_ids since until) ev xs))"
proof (induction xs arbitrary: ev)
  case (Cons x xs)
  then have "nodes_from ins (fst (note_collector host_ids since until ev x))"
    unfolding note_collector_nodes by (intro nodes_from_append_at) auto
  then show ?case using Cons by simp
qed simp

definition usage_ok :: "time \<Rightarrow> usage_summary \<Rightarrow> bool" where
  "usage_ok w u \<longleftrightarrow> 0 \<le> us_idle u \<and> us_idle u \<le> us_covered u \<and> us_covered u \<le> w \<and> percent (us_mean u)"

definition mean_weight :: "usage_summary \<Rightarrow> time" where
  "mean_weight u = (case us_mean u of None \<Rightarrow> 0 | Some m \<Rightarrow> m * us_covered u)"

lemma mean_weight_bounds: "usage_ok w u \<Longrightarrow> 0 \<le> mean_weight u \<and> mean_weight u \<le> 100 * us_covered u"
  by (auto simp: usage_ok_def mean_weight_def percent_def split: option.splits intro: mult_right_mono)

lemma usage_totals:
  "list_all (usage_ok w) us \<Longrightarrow>
     0 \<le> sum_list (map us_idle us) \<and> sum_list (map us_idle us) \<le> sum_list (map us_covered us) \<and>
     sum_list (map us_covered us) \<le> w * of_nat (length us) \<and>
     0 \<le> sum_list (map mean_weight us) \<and> sum_list (map mean_weight us) \<le> 100 * sum_list (map us_covered us)"
proof (induction us)
  case (Cons u us)
  then have ih: "0 \<le> sum_list (map us_idle us)" "sum_list (map us_idle us) \<le> sum_list (map us_covered us)"
     "sum_list (map us_covered us) \<le> w * of_nat (length us)"
     "0 \<le> sum_list (map mean_weight us)" "sum_list (map mean_weight us) \<le> 100 * sum_list (map us_covered us)" by simp_all
  have u: "0 \<le> us_idle u" "us_idle u \<le> us_covered u" "us_covered u \<le> w" using Cons.prems by (simp_all add: usage_ok_def)
  have m: "0 \<le> mean_weight u" "mean_weight u \<le> 100 * us_covered u" using Cons.prems mean_weight_bounds [of w u] by simp_all
  show ?case using ih u m by (simp add: algebra_simps)
qed simp

text \<open>The totals of a node, where they are known.\<close>

definition node_ok :: "time \<Rightarrow> nat \<Rightarrow> node_usage \<Rightarrow> bool" where
  "node_ok w n u \<longleftrightarrow>
     (\<forall>c. nu_covered u = Some c \<longrightarrow> 0 \<le> c \<and> c \<le> w * of_nat n) \<and>
     (\<forall>c i. nu_covered u = Some c \<longrightarrow> nu_idle u = Some i \<longrightarrow> 0 \<le> i \<and> i \<le> c) \<and>
     (\<forall>e. nu_expected u = Some e \<longrightarrow> e = w * of_nat n) \<and> percent (nu_mean u) \<and> percent (nu_coverage u)"

lemma aggregate_ok:
  assumes "0 < w" and ok: "list_all (usage_ok w) us" and "e = None \<or> e = Some (w * of_nat (length us))"
  shows "node_ok w (length us) (aggregate_usage us e)"
proof -
  note t = usage_totals [OF ok]
  let ?c = "sum_list (map us_covered us)" and ?m = "sum_list (map mean_weight us)"
  have agg: "nu_covered (aggregate_usage us e) = Some ?c" "nu_idle (aggregate_usage us e) = Some (sum_list (map us_idle us))"
    "nu_expected (aggregate_usage us e) = (if us \<noteq> [] then e else None)"
    "nu_mean (aggregate_usage us e) = (if ?c \<noteq> 0 then Some (?m / ?c) else None)"
    "nu_coverage (aggregate_usage us e) = (case e of None \<Rightarrow> None | Some x \<Rightarrow> if x \<noteq> 0 then Some (100 * ?c / x) else None)"
    by (simp_all add: aggregate_usage_def Let_def mean_weight_def [abs_def])
  have "percent (nu_mean (aggregate_usage us e))"
    using t unfolding agg percent_def by (auto simp: divide_le_eq)
  moreover have "percent (nu_coverage (aggregate_usage us e))"
  proof -
    have "0 < w * of_nat (length us)" if "w * of_nat (length us) \<noteq> 0" using that assms(1) by simp
    then show ?thesis
      using t assms(3) unfolding agg percent_def by (auto simp: divide_le_eq split: option.splits if_splits)
  qed
  ultimately show ?thesis using t assms(3) unfolding node_ok_def agg by (auto split: if_splits)
qed

lemma summarize_gpu_ok:
  assumes "since < until" and "list_all (\<lambda>x. percent (fst (snd (snd x)))) obs"
  shows "usage_ok (until - since) (summarize_gpu obs since until)"
proof -
  have r: "\<forall>x \<in> set obs. \<forall>u. fst (snd (snd x)) = Some u \<longrightarrow> 0 \<le> u \<and> u \<le> 100"
    using assms(2) by (auto simp: list_all_iff percent_def)
  show ?thesis
    unfolding usage_ok_def percent_def
    using summarize_gpu_bounds(1-4) [OF assms(1) r] by blast
qed

lemma summarize_host_ok:
  assumes "since < until" and "\<And>i c rs. (i, c, rs) \<in> set (snd hostsegs) \<Longrightarrow> readings_ok rs"
    and n_def: "n = summarize_host host_ids pci_ids uuid_hosts since until hostsegs"
  shows "list_all (usage_ok (until - since)) (map gs_usage (ns_gpus n)) \<and>
    node_ok (until - since) (length (ns_gpus n)) (ns_usage n)"
proof -
  obtain host segs where hs: "hostsegs = (host, segs)" by (cases hostsegs)
  define windows where "windows = merge_clock_windows (concat (map co_clock_windows (map (fst \<circ> snd) segs)))"
  define sc where "sc = foldl (scan_collector pci_ids uuid_hosts host windows until)
     \<lparr>hs_devices = [], hs_requested = [], hs_scope_known = True,
      hs_ambiguous = (fst host = ''hostname'' \<and> 1 < length (events_at host_ids (snd host)))\<rparr> segs"
  define gpus where "gpus = device_summaries (hs_devices sc) since until @ missing_summaries sc since until"
  have dev: "devices_ok (hs_devices sc)"
    unfolding sc_def using assms(2) hs by (intro scan_collectors_ok) (auto simp: devices_ok_def)
  have "usage_ok (until - since) (gs_usage g)" if "g \<in> set gpus" for g
    using that dev summarize_gpu_ok [OF assms(1)] summarize_gpu_ok [OF assms(1), of "[]"]
    unfolding gpus_def device_summaries_def missing_summaries_def devices_ok_def list_all_iff by auto
  then have ok: "list_all (usage_ok (until - since)) (map gs_usage gpus)" by (simp add: list_all_iff)
  have n: "ns_gpus n = gpus" "ns_usage n = (if hs_ambiguous sc then unknown_usage else
      aggregate_usage (map gs_usage gpus) (if hs_scope_known sc then Some ((until - since) * of_nat (length gpus)) else None))"
    unfolding n_def hs summarize_host_def Let_def windows_def sc_def gpus_def by simp_all
  have "node_ok (until - since) (length gpus) (aggregate_usage (map gs_usage gpus)
      (if hs_scope_known sc then Some ((until - since) * of_nat (length gpus)) else None))"
    using aggregate_ok [OF _ ok] assms(1) by simp
  moreover have "node_ok (until - since) (length gpus) unknown_usage"
    by (simp add: node_ok_def unknown_usage_def percent_def)
  ultimately show ?thesis using ok unfolding n by simp
qed

lemma summarize_inputs_ok:
  assumes "since < until" and "\<And>x. x \<in> set ins \<Longrightarrow> readings_ok (fst (snd (snd x)))"
    and "n \<in> set (summarize_inputs ins since until)"
  shows "list_all (usage_ok (until - since)) (map gs_usage (ns_gpus n)) \<and>
    node_ok (until - since) (length (ns_gpus n)) (ns_usage n)"
proof -
  obtain nodes pci_ids uuid_hosts where ev: "host_evidence ins since until = (nodes, pci_ids, uuid_hosts)"
    by (cases "host_evidence ins since until")
  have "nodes_from ins (fst (host_evidence ins since until))"
    unfolding host_evidence_def by (rule host_evidence_nodes) (simp_all add: nodes_from_def)
  then have from_ins: "nodes_from ins nodes" by (simp add: ev)
  from assms(3) obtain h where h: "h \<in> set nodes" "n = summarize_host (known_host_ids ins) pci_ids uuid_hosts since until h"
    by (auto simp: summarize_inputs_def ev)
  have "readings_ok rs" if seg: "(i, c, rs) \<in> set (snd h)" for i c rs
  proof -
    from from_ins h(1) seg obtain x where "x \<in> set ins" "fst (snd (snd x)) = rs"
      by (fastforce simp: nodes_from_def list_all_iff)
    then show ?thesis using assms(2) by blast
  qed
  then show ?thesis by (rule summarize_host_ok [OF assms(1) _ h(2)])
qed

section \<open>Properties of the collector\<close>

definition demo_host :: host_facts where
  "demo_host = \<lparr>hf_nvidia = True, hf_metax = False, hf_machine = Some (''abc'', 7), hf_node = ''n1'', hf_pid = 42,
     hf_uuid = ''u1'', hf_key = (1, 2)\<rparr>"

definition demo_args :: collect_args where
  "demo_args = \<lparr>ca_backend = ''auto'', ca_gpus = None, ca_interval = 10, ca_deadline = Some 100\<rparr>"

definition demo_reading :: gpu_reading where
  "demo_reading = \<lparr>rd_index = 0, rd_id = ''GPU-1'', rd_pci = None, rd_usage = Some 40\<rparr>"

definition demo_ticks :: "tick list" where
  "demo_ticks = [\<lparr>tk_stop = False, tk_now = 10, tk_monotonic = 1, tk_query = Readings [demo_reading]\<rparr>,
     \<lparr>tk_stop = False, tk_now = 20, tk_monotonic = 11, tk_query = Unavailable ''busy''\<rparr>,
     \<lparr>tk_stop = True, tk_now = 30, tk_monotonic = 21, tk_query = Crash\<rparr>]"

definition demo_file :: samples_file where
  "demo_file = (case collect demo_host False False demo_args 8 (9, 0) demo_ticks (31, 22) of Inr f \<Rightarrow> f | Inl _ \<Rightarrow> undefined)"

text \<open>A copy of the file taken while its second record was being written.\<close>

definition demo_copy :: samples_file where
  "demo_copy = demo_file\<lparr>sf_key := (3, 4), sf_rest := take 1 (sf_rest demo_file) @ [Partial]\<rparr>"

definition demo_files :: "string \<Rightarrow> samples_file option" where
  "demo_files d = (if d = ''/run'' then Some demo_file else if d = ''/copy'' then Some demo_copy else None)"

text \<open>C33: Reading back what a collector wrote returns exactly its metadata and its records in order, whatever
  complete or interrupted snapshots of the same file, in whatever directories, are read along with it.\<close>

theorem collected_files_roundtrip:
  assumes "collect host stop_present output_present args checked started ticks ended = Inr f"
    and "sf_first f = Line md" and "sf_rest f = map Line S"
    and "snapshots files md S n (resolve ` set directories)"
    and "d \<in> resolve ` set directories" and "n d = length S"
  shows "read_collectors resolve files directories =
    Inr [(collector_identity md, md, S, sort (remdups (map resolve directories)))]"
proof -
  from assms(1) obtain md' S' where w: "sf_first f = Line md'" "md_event md' = ''start''" "sf_rest f = map Line S'" "well_numbered S'"
    by (rule collect_writes)
  have "inj (Line :: sample \<Rightarrow> sample jsonl)" by (simp add: inj_def)
  then have "S' = S" using w(3) assms(3) by (metis inj_map_eq_map)
  then show ?thesis using read_snapshots [OF _ _ assms(4-6)] w assms(2) by simp
qed

theorem collected_files_roundtrip_witness:
  "\<exists>md S. sf_first demo_file = Line md \<and> length S = 3 \<and>
     read_collectors id demo_files [''/run'', ''/copy'', ''/run''] = Inr [(Collector ''u1'', md, S, [''/copy'', ''/run''])]"
proof -
  define md where "md = (case sf_first demo_file of Line m \<Rightarrow> m)"
  define S where "S = map (\<lambda>l. case l of Line r \<Rightarrow> r) (sf_rest demo_file)"
  define n :: "string \<Rightarrow> nat" where "n d = (if d = ''/run'' then 3 else 1)" for d
  have f: "collect demo_host False False demo_args 8 (9, 0) demo_ticks (31, 22) = Inr demo_file" by code_simp
  have md: "sf_first demo_file = Line md" unfolding md_def by code_simp
  have S: "sf_rest demo_file = map Line S" unfolding S_def by code_simp
  have len: "length S = 3" unfolding S_def by code_simp
  have key: "sf_key demo_file = (1, 2)" by code_simp
  have full: "demo_file = \<lparr>sf_key = (1, 2), sf_first = Line md, sf_rest = snapshot_lines S 3 False\<rparr>"
    using md S len key by (simp add: snapshot_lines_def)
  have copy: "demo_copy = \<lparr>sf_key = (3, 4), sf_first = Line md, sf_rest = snapshot_lines S 1 True\<rparr>"
    using md S by (simp add: demo_copy_def snapshot_lines_def take_map)
  have "\<exists>k u. demo_files ''/run'' = Some \<lparr>sf_key = k, sf_first = Line md, sf_rest = snapshot_lines S (n ''/run'') u\<rparr>"
    using full by (auto simp: demo_files_def n_def)
  moreover have "\<exists>k u. demo_files ''/copy'' = Some \<lparr>sf_key = k, sf_first = Line md, sf_rest = snapshot_lines S (n ''/copy'') u\<rparr>"
    using copy by (auto simp: demo_files_def n_def)
  moreover have "map_option sf_key (demo_files ''/run'') \<noteq> map_option sf_key (demo_files ''/copy'')"
    using key by (simp add: demo_files_def demo_copy_def)
  ultimately have "snapshots demo_files md S n (id ` set [''/run'', ''/copy'', ''/run''])"
    using len by (auto simp: snapshots_def n_def)
  from collected_files_roundtrip [OF f md S this, of "''/run''"]
  have "read_collectors id demo_files [''/run'', ''/copy'', ''/run''] =
    Inr [(collector_identity md, md, S, sort (remdups [''/run'', ''/copy'', ''/run'']))]"
    using len by (simp add: n_def)
  moreover have "sort (remdups [''/run'', ''/copy'', ''/run'']) = [''/copy'', ''/run'']" by code_simp
  moreover have "collector_identity md = Collector ''u1''" unfolding md_def by code_simp
  ultimately show ?thesis using md len by auto
qed

text \<open>C34: Every device of a window summary is covered for at most the window, is idle for at most its covered time and
  has a mean between 0 and 100 percent, and the known totals of a node obey the same bounds for all its
  devices together.\<close>

theorem node_totals_bounded:
  assumes "summary_window since until now = Inr u"
    and "read_collectors resolve files directories = Inr ins"
    and "\<forall>x \<in> set ins. readings_ok (fst (snd (snd x)))"
  shows "\<exists>ns. summarize resolve files directories since u = Inr ns \<and>
    (\<forall>n \<in> set ns. list_all (usage_ok (u - since)) (map gs_usage (ns_gpus n)) \<and>
       node_ok (u - since) (length (ns_gpus n)) (ns_usage n))"
proof -
  have "since < u" using assms(1) by (auto simp: summary_window_def Let_def split: if_splits option.splits)
  then show ?thesis using assms(2,3) summarize_inputs_ok [of since u ins] by (simp add: summarize_def)
qed

theorem node_totals_bounded_witness:
  "\<exists>ns. summarize id demo_files [''/run''] 5 35 = Inr ns \<and> ns \<noteq> [] \<and>
     list_all (\<lambda>n. node_ok 30 (length (ns_gpus n)) (ns_usage n)) ns"
proof -
  obtain ins where ins: "read_collectors id demo_files [''/run''] = Inr ins" "ins \<noteq> []"
    "\<forall>x \<in> set ins. readings_ok (fst (snd (snd x)))"
  proof -
    have "case read_collectors id demo_files [''/run''] of Inl _ \<Rightarrow> False | Inr ins \<Rightarrow> ins \<noteq> [] \<and>
        list_all (\<lambda>x. list_all (\<lambda>r. list_all (\<lambda>g. case rd_usage g of None \<Rightarrow> True | Some q \<Rightarrow> 0 \<le> q \<and> q \<le> 100) (rc_gpus r))
          (fst (snd (snd x)))) ins" by code_simp
    then show ?thesis
      using that by (fastforce simp: readings_ok_def percent_def list_all_iff split: sum.splits option.splits)
  qed
  have "summary_window 5 (Some 35) 40 = Inr 35" by code_simp
  from node_totals_bounded [OF this ins(1,3)] obtain ns where ns: "summarize id demo_files [''/run''] 5 35 = Inr ns"
    "\<forall>n \<in> set ns. node_ok 30 (length (ns_gpus n)) (ns_usage n)" by auto
  moreover have "ns \<noteq> []"
  proof -
    have "case summarize id demo_files [''/run''] 5 35 of Inl _ \<Rightarrow> False | Inr ns \<Rightarrow> ns \<noteq> []" by code_simp
    then show ?thesis using ns(1) by simp
  qed
  ultimately show ?thesis by (auto simp: list_all_iff)
qed

text \<open>A successful device query returns at least one reading, only utilisations between 0 and 100 percent, and
  exactly the requested device indices.\<close>

theorem query_gpus_readings:
  assumes "query_gpus loads invoke backend indices = Inr gs"
  shows "gs \<noteq> [] \<and> (\<forall>g \<in> set gs. percent (rd_usage g)) \<and> (\<forall>is. indices = Some is \<longrightarrow> rd_index ` set gs = set is)"
  using assms by (rule query_readings)

theorem query_gpus_readings_witness:
  "query_gpus (\<lambda>_. None) (\<lambda>_. Inr (''0, GPU-a, 40'' @ [CHR 0x0A] @ ''1, GPU-b, [N/A]'')) ''nvidia'' (Some [1, 0]) =
     Inr [\<lparr>rd_index = 0, rd_id = ''GPU-a'', rd_pci = None, rd_usage = Some 40\<rparr>,
          \<lparr>rd_index = 1, rd_id = ''GPU-b'', rd_pci = None, rd_usage = None\<rparr>] \<and> percent (Some 40)"
proof -
  have q: "query_gpus (\<lambda>_. None) (\<lambda>_. Inr (''0, GPU-a, 40'' @ [CHR 0x0A] @ ''1, GPU-b, [N/A]'')) ''nvidia'' (Some [1, 0]) =
     Inr [\<lparr>rd_index = 0, rd_id = ''GPU-a'', rd_pci = None, rd_usage = Some 40\<rparr>,
          \<lparr>rd_index = 1, rd_id = ''GPU-b'', rd_pci = None, rd_usage = None\<rparr>]" by code_simp
  from query_gpus_readings [OF q] q show ?thesis by simp
qed

end
