(* ===== verification/Session_Records.thy ===== *)
theory Session_Records
  imports Py_Json Py_Text
begin

text \<open>
  The transcript reader of the RSI skill (\<open>session_records.py\<close>): decoding of Codex and Claude JSONL records
  into visible work records with their source lines, pairing of tool calls with results, the paged index
  and the paged evidence of one record. Parameters are the ISO clock (\<open>clock\<close>), the rendering of a
  document as text and the search for truncation markers in it. A \<open>type\<close> field that is itself a list or an
  object counts as an unknown type, and a payload that is not an object as an empty one where the code only
  picks the keys it contains.
\<close>

record environment =
  env_parse :: "string \<Rightarrow> time option"
  env_iso :: "time \<Rightarrow> string"
  env_render :: "json \<Rightarrow> string"
  env_marker :: "string \<Rightarrow> bool"

datatype session_error =
    Py py_error
  | BadTimestamp
  | BadLine nat
  | NotAnObject nat
  | ShortTranscript nat nat
  | NoRecord nat
  | OffsetTooLarge nat
  | BadArguments

text \<open>Raising forms of the accesses of \<open>Py_Json\<close>.\<close>

definition lift :: "py_error + 'a \<Rightarrow> session_error + 'a" where
  "lift r = (case r of Inl e \<Rightarrow> Inl (Py e) | Inr v \<Rightarrow> Inr v)"

definition get_or :: "json \<Rightarrow> string \<Rightarrow> json \<Rightarrow> session_error + json" where
  "get_or d k v = lift (jget d k v)"

definition get :: "json \<Rightarrow> string \<Rightarrow> session_error + json" where
  "get d k = get_or d k JNull"

text \<open>\<open>p in s\<close> for a decoded \<open>s\<close>.\<close>

fun text_in :: "string \<Rightarrow> json \<Rightarrow> session_error + bool" where
  "text_in p (JStr s) = Inr (contains p s)"
| "text_in p (JList xs) = Inr (JStr p \<in> set xs)"
| "text_in p (JObj ps) = Inr (p \<in> fst ` set ps)"
| "text_in p _ = Inl (Py TypeError)"

text \<open>\<open>{k: d[k] for k in ks if k in d}\<close>.\<close>

definition pick :: "string list \<Rightarrow> json \<Rightarrow> (string \<times> json) list" where
  "pick ks d = concat (map (\<lambda>k. case map_of (jobj d) k of None \<Rightarrow> [] | Some v \<Rightarrow> [(k, v)]) ks)"

section \<open>Visible content\<close>

definition hidden_types :: "string list" where
  "hidden_types = [''thinking'', ''redacted_thinking'', ''reasoning'']"

definition hidden_keys :: "string list" where
  "hidden_keys = [''encrypted_content'', ''encrypted_reasoning'', ''signature'']"

definition type_in :: "string list \<Rightarrow> (string \<times> json) list \<Rightarrow> bool" where
  "type_in ts ps = (case map_of ps ''type'' of Some (JStr t) \<Rightarrow> t \<in> set ts | _ \<Rightarrow> False)"

definition hidden_item :: "json \<Rightarrow> bool" where
  "hidden_item v = (case v of JObj ps \<Rightarrow> type_in hidden_types ps | _ \<Rightarrow> False)"

fun visible :: "json \<Rightarrow> json" where
  "visible (JList xs) = JList (map visible (filter (\<lambda>x. \<not> hidden_item x) xs))"
| "visible (JObj ps) =
     (if type_in [''encrypted_content''] ps
      then JObj [(''type'', JStr ''encrypted_content''), (''unavailable'', JBool True)]
      else JObj (map (\<lambda>(k, v). (k, visible v)) (filter (\<lambda>(k, v). k \<notin> set hidden_keys) ps)))"
| "visible v = v"

fun has_encrypted_content :: "json \<Rightarrow> bool" where
  "has_encrypted_content (JList xs) = (\<exists>x \<in> set xs. has_encrypted_content x)"
| "has_encrypted_content (JObj ps) =
     (if type_in hidden_types ps then False
      else type_in [''encrypted_content''] ps \<or>
        (\<exists>(k, v) \<in> set ps. (k \<in> {''encrypted_content'', ''encrypted_reasoning''} \<and> jtrue v) \<or> has_encrypted_content v))"
| "has_encrypted_content _ = False"

section \<open>Sessions\<close>

record work_record =
  wr_line :: nat
  wr_timestamp :: json
  wr_recorded_at :: json
  wr_kind :: string
  wr_name :: json
  wr_inherited :: "bool option"
  wr_content :: json
  wr_call_ids :: "json list"
  wr_truncated :: bool
  wr_unavailable :: bool

text \<open>The lines of the calls and of the results recorded under one call id.\<close>

type_synonym paired_lines = "nat list \<times> nat list"

record session =
  se_metadata :: "(string \<times> json) list"
  se_records :: "work_record list"
  se_unsupported :: "(string \<times> nat) list"
  se_partial :: "nat option"
  se_through :: nat
  se_calls :: "(json \<times> paired_lines) list"

definition empty_session :: session where
  "empty_session = \<lparr>se_metadata = [], se_records = [], se_unsupported = [], se_partial = None, se_through = 0, se_calls = []\<rparr>"

definition count_unsupported :: "string \<Rightarrow> session \<Rightarrow> session" where
  "count_unsupported k s =
     s\<lparr>se_unsupported := dict_set k (case map_of (se_unsupported s) k of None \<Rightarrow> 1 | Some n \<Rightarrow> n + 1) (se_unsupported s)\<rparr>"

definition call_lines :: "session \<Rightarrow> json \<Rightarrow> paired_lines" where
  "call_lines s c = (case map_of (se_calls s) c of None \<Rightarrow> ([], []) | Some p \<Rightarrow> p)"

definition add_call :: "nat \<Rightarrow> session \<Rightarrow> json \<Rightarrow> session" where
  "add_call line s c = s\<lparr>se_calls := dict_set c (fst (call_lines s c) @ [line], snd (call_lines s c)) (se_calls s)\<rparr>"

definition add_result :: "nat \<Rightarrow> session \<Rightarrow> json \<Rightarrow> session" where
  "add_result line s c = s\<lparr>se_calls := dict_set c (fst (call_lines s c), snd (call_lines s c) @ [line]) (se_calls s)\<rparr>"

text \<open>\<open>timestamp(value)\<close> of a decoded value.\<close>

definition parse_time :: "environment \<Rightarrow> json \<Rightarrow> session_error + time" where
  "parse_time env v =
     (case v of JStr s \<Rightarrow> (case env_parse env s of None \<Rightarrow> Inl BadTimestamp | Some t \<Rightarrow> Inr t) | _ \<Rightarrow> Inl (Py TypeError))"

definition number :: "json \<Rightarrow> session_error + time" where
  "number v = (case v of JInt n \<Rightarrow> Inr (of_int n) | JFloat q \<Rightarrow> Inr q | JBool b \<Rightarrow> Inr (if b then 1 else 0) | _ \<Rightarrow> Inl (Py TypeError))"

definition hashable :: "json \<Rightarrow> bool" where
  "hashable v = (case v of JList _ \<Rightarrow> False | JObj _ \<Rightarrow> False | _ \<Rightarrow> True)"

record appended =
  ad_kind :: string
  ad_content :: json
  ad_name :: json
  ad_calls :: "json list"
  ad_results :: "json list"
  ad_inherited :: "bool option"

definition addition :: "string \<Rightarrow> json \<Rightarrow> appended" where
  "addition kind content =
     \<lparr>ad_kind = kind, ad_content = content, ad_name = JNull, ad_calls = [], ad_results = [], ad_inherited = None\<rparr>"

text \<open>When the original message was created, and whether that was before this session.\<close>

definition creation :: "environment \<Rightarrow> session \<Rightarrow> json \<Rightarrow> bool option \<Rightarrow> json \<Rightarrow> session_error + json \<times> bool option" where
  "creation env s recorded_at inherited created =
     (if created = JNull then Inr (recorded_at, inherited)
      else rbind (number created) (\<lambda>t.
        case map_of (se_metadata s) ''timestamp'' of
          Some m \<Rightarrow>
            if inherited = None \<and> jtrue m
            then rbind (parse_time env m) (\<lambda>start. Inr (JStr (env_iso env t), Some (t < start)))
            else Inr (JStr (env_iso env t), inherited)
        | None \<Rightarrow> Inr (JStr (env_iso env t), inherited)))"

definition make_record :: "environment \<Rightarrow> nat \<Rightarrow> appended \<Rightarrow> json \<Rightarrow> json \<Rightarrow> bool option \<Rightarrow> bool \<Rightarrow> work_record" where
  "make_record env line a recorded_at stamp inherited unavailable =
     (let shown = visible (ad_content a);
          content = (if unavailable then JObj (dict_set ''unavailable_content'' (JBool True) (jobj shown)) else shown) in
      \<lparr>wr_line = line, wr_timestamp = stamp, wr_recorded_at = recorded_at, wr_kind = ad_kind a, wr_name = ad_name a,
       wr_inherited = inherited, wr_content = content, wr_call_ids = fromkeys (ad_calls a @ ad_results a),
       wr_truncated = env_marker env (env_render env content), wr_unavailable = unavailable\<rparr>)"

definition link_calls :: "nat \<Rightarrow> appended \<Rightarrow> session \<Rightarrow> session" where
  "link_calls line a s = foldl (add_result line) (foldl (add_call line) s (ad_calls a)) (ad_results a)"

definition append_record :: "environment \<Rightarrow> json \<Rightarrow> nat \<Rightarrow> appended \<Rightarrow> session \<Rightarrow> session_error + session" where
  "append_record env original line a s =
     rbind (get original ''timestamp'') (\<lambda>recorded_at.
     rbind (get_or original ''payload'' (JObj [])) (\<lambda>payload.
     rbind (get_or payload ''internal_chat_message_metadata_passthrough'' (JObj [])) (\<lambda>meta.
     rbind (get meta ''create_time'') (\<lambda>created.
     rbind (creation env s recorded_at (ad_inherited a) created) (\<lambda>(stamp, inherited).
     rbind (get_or original ''payload'' original) (\<lambda>evidence.
       if \<not> list_all hashable (ad_calls a @ ad_results a) then Inl (Py TypeError)
       else Inr (link_calls line a (s\<lparr>se_records := se_records s @
           [make_record env line a recorded_at stamp inherited (has_encrypted_content evidence)]\<rparr>))))))))"

section \<open>Decoding records\<close>

definition string_in :: "json \<Rightarrow> string list \<Rightarrow> bool" where
  "string_in v ss = (case v of JStr s \<Rightarrow> s \<in> set ss | _ \<Rightarrow> False)"

definition work_kind :: "json \<Rightarrow> session_error + bool" where
  "work_kind kind = rbind (text_in ''tool'' kind) (\<lambda>t. if t then Inr True else text_in ''call'' kind)"

definition kind_text :: "json \<Rightarrow> string" where
  "kind_text v = (case v of JStr s \<Rightarrow> s | _ \<Rightarrow> [])"

definition call_id :: "json \<Rightarrow> session_error + json list" where
  "call_id payload = rbind (get payload ''call_id'') (\<lambda>c. Inr (if jtrue c then [c] else []))"

definition codex_response :: "environment \<Rightarrow> json \<Rightarrow> json \<Rightarrow> nat \<Rightarrow> session \<Rightarrow> session_error + session" where
  "codex_response env rec payload line s =
     rbind (get_or payload ''type'' (JStr '''')) (\<lambda>kind.
     rbind (get payload ''role'') (\<lambda>role.
     if string_in role [''developer'', ''system''] \<or> kind = JStr ''additional_tools'' then Inr s
     else if kind = JStr ''message'' \<and> string_in role [''user'', ''assistant''] then
       append_record env rec line (addition ''message''
         (JObj [(''role'', role), (''content'', (case map_of (jobj payload) ''content'' of None \<Rightarrow> JList [] | Some c \<Rightarrow> c))])) s
     else if kind = JStr ''agent_message'' then
       append_record env rec line (addition ''agent_message'' (JObj (pick [''author'', ''recipient'', ''content''] payload))) s
     else if string_in kind [''function_call'', ''custom_tool_call''] then
       rbind (call_id payload) (\<lambda>calls.
         append_record env rec line
           ((addition ''tool_call'' (JObj (pick [''type'', ''name'', ''namespace'', ''arguments'', ''input'', ''status''] payload)))
              \<lparr>ad_name := field ''name'' payload, ad_calls := calls\<rparr>) s)
     else if string_in kind [''function_call_output'', ''custom_tool_call_output''] then
       rbind (call_id payload) (\<lambda>results.
         append_record env rec line
           ((addition ''tool_result'' (JObj [(''type'', kind), (''output'', field ''output'' payload)]))\<lparr>ad_results := results\<rparr>) s)
     else rbind (work_kind kind) (\<lambda>w.
       if w then
         append_record env rec line
           (addition ''unsupported''
             (JObj (filter (\<lambda>(k, v). k \<noteq> ''internal_chat_message_metadata_passthrough'') (jobj payload))))
           (count_unsupported (''codex.response.'' @ kind_text kind) s)
       else Inr s)))"

text \<open>Blocks of a Claude message; a block whose type names a tool but is neither a use nor a result is unsupported.\<close>

definition block_ids :: "string \<Rightarrow> string \<Rightarrow> json list \<Rightarrow> json list" where
  "block_ids kind key blocks =
     concat (map (\<lambda>b. case b of JObj ps \<Rightarrow>
       (if field ''type'' b = JStr kind \<and> jtrue (field key b) then [field key b] else []) | _ \<Rightarrow> []) blocks)"

definition odd_block :: "json \<Rightarrow> session_error + string option" where
  "odd_block b =
     (case b of JObj ps \<Rightarrow>
        (case map_of ps ''type'' of
           None \<Rightarrow> Inr None
         | Some t \<Rightarrow> rbind (text_in ''tool'' t) (\<lambda>odd.
             if odd \<and> \<not> string_in t [''tool_use'', ''tool_result''] then Inr (Some (kind_text t)) else Inr None))
      | _ \<Rightarrow> Inr None)"

fun count_odd :: "json list \<Rightarrow> session \<Rightarrow> session_error + session" where
  "count_odd [] s = Inr s"
| "count_odd (b # bs) s = rbind (odd_block b) (\<lambda>odd.
     count_odd bs (case odd of None \<Rightarrow> s | Some t \<Rightarrow> count_unsupported (''claude.block.'' @ t) s))"

definition claude_metadata :: "json \<Rightarrow> session \<Rightarrow> session" where
  "claude_metadata rec s =
     (if se_metadata s = [] then s\<lparr>se_metadata := (''format'', JStr ''claude'') # pick [''sessionId'', ''cwd''] rec\<rparr> else s)"

definition claude_message :: "environment \<Rightarrow> json \<Rightarrow> nat \<Rightarrow> session \<Rightarrow> session_error + session" where
  "claude_message env rec line s0 =
     (let s = claude_metadata rec s0 in
      rbind (lift (jitem rec ''message'')) (\<lambda>message.
      rbind (get_or message ''content'' (JList [])) (\<lambda>content.
      let blocks = jlist content;
          calls = block_ids ''tool_use'' ''id'' blocks;
          results = block_ids ''tool_result'' ''tool_use_id'' blocks in
      rbind (count_odd blocks s) (\<lambda>s1.
      let cleaned = visible content in
      if \<not> jtrue cleaned then Inr s1
      else append_record env rec line
        ((addition ''message'' (JObj ([(''role'', field ''type'' rec), (''content'', cleaned)] @
            pick [''uuid'', ''parentUuid'', ''sessionId'', ''isSidechain'', ''agentId'', ''sourceToolAssistantUUID'',
                  ''toolUseResult''] rec)))\<lparr>ad_calls := calls, ad_results := results\<rparr>) s1))))"

definition supported_items :: "string list" where
  "supported_items = [''CommandExecution'', ''McpToolCall'', ''FileChange'', ''SubAgentActivity'',
     ''CollabAgentToolCall'', ''Extension'', ''ImageView'', ''ContextCompaction'']"

definition session_meta :: "json \<Rightarrow> session \<Rightarrow> session" where
  "session_meta payload s =
     (if se_metadata s = []
      then s\<lparr>se_metadata := dict_set ''format'' (JStr ''codex'')
              (pick [''id'', ''session_id'', ''timestamp'', ''cwd'', ''source'', ''thread_source'',
                     ''parent_thread_id'', ''forked_from_id''] payload)\<rparr>
      else s)"

text \<open>Whether a turn started in another second than the session; equal seconds leave it open.\<close>

definition lifecycle_inherited :: "environment \<Rightarrow> session \<Rightarrow> json \<Rightarrow> session_error + bool option" where
  "lifecycle_inherited env s started =
     (case map_of (se_metadata s) ''timestamp'' of
        Some created \<Rightarrow>
          if started \<noteq> JNull \<and> jtrue created
          then rbind (parse_time env created) (\<lambda>t. rbind (number started) (\<lambda>v.
                 let second = of_int (if 0 \<le> t then \<lfloor>t\<rfloor> else \<lceil>t\<rceil>) in
                 Inr (if v \<noteq> second then Some (v < second) else None)))
          else Inr None
      | None \<Rightarrow> Inr None)"

definition native_item :: "environment \<Rightarrow> json \<Rightarrow> json \<Rightarrow> nat \<Rightarrow> session \<Rightarrow> session_error + session" where
  "native_item env rec payload line s =
     rbind (get_or payload ''item'' (JObj [])) (\<lambda>item.
     rbind (get_or item ''type'' (JStr '''')) (\<lambda>kind.
     if string_in kind [''Reasoning'', ''UserMessage'', ''AgentMessage''] then Inr s
     else
       let s1 = (if string_in kind supported_items then s else count_unsupported (''codex.item.'' @ kind_text kind) s);
           thread = field ''thread_id'' payload;
           inherited = (if jtrue thread then Some (thread \<noteq> (case map_of (se_metadata s) ''id'' of None \<Rightarrow> JNull | Some i \<Rightarrow> i)) else None) in
       append_record env rec line
         ((addition (if kind = JStr ''CommandExecution'' then ''execution'' else ''native_item'') item)
            \<lparr>ad_name := kind, ad_inherited := inherited\<rparr>) s1))"

definition event_message :: "environment \<Rightarrow> json \<Rightarrow> json \<Rightarrow> nat \<Rightarrow> session \<Rightarrow> session_error + session option" where
  "event_message env rec payload line s =
     rbind (get payload ''type'') (\<lambda>event.
     if string_in event [''task_started'', ''task_complete'', ''turn_aborted''] then
       rbind (lifecycle_inherited env s (field ''started_at'' payload)) (\<lambda>inherited.
         rbind (append_record env rec line
           ((addition ''lifecycle'' payload)\<lparr>ad_name := event, ad_inherited := inherited\<rparr>) s) (\<lambda>s1. Inr (Some s1)))
     else if event = JStr ''item_completed'' then rbind (native_item env rec payload line s) (\<lambda>s1. Inr (Some s1))
     else Inr None)"

text \<open>\<open>_read\<close>: one transcript record.\<close>

definition read_record :: "environment \<Rightarrow> json \<Rightarrow> nat \<Rightarrow> session \<Rightarrow> session_error + session" where
  "read_record env rec line s =
     rbind (get_or rec ''payload'' (JObj [])) (\<lambda>payload.
     rbind (get_or rec ''type'' (JStr '''')) (\<lambda>kind.
     if kind = JStr ''session_meta'' then Inr (session_meta payload s)
     else if kind = JStr ''response_item'' then codex_response env rec payload line s
     else rbind (if kind = JStr ''event_msg'' then event_message env rec payload line s else Inr None) (\<lambda>handled.
       case handled of
         Some s1 \<Rightarrow> Inr s1
       | None \<Rightarrow>
           if string_in kind [''user'', ''assistant''] \<and> has_key ''message'' rec then claude_message env rec line s
           else rbind (work_kind kind) (\<lambda>w.
             if w then append_record env rec line (addition ''unsupported'' rec) (count_unsupported (''record.'' @ kind_text kind) s)
             else Inr s))))"

section \<open>Reading a transcript\<close>

record raw_line =
  rl_blank :: bool
  rl_newline :: bool
  rl_json :: "json option"

fun read_lines :: "environment \<Rightarrow> nat option \<Rightarrow> nat \<Rightarrow> raw_line list \<Rightarrow> session \<Rightarrow> session_error + session" where
  "read_lines env bound line [] s = Inr s"
| "read_lines env bound line (r # rs) s =
     (if (case bound of None \<Rightarrow> False | Some b \<Rightarrow> b < line) then Inr s
      else if rl_blank r then
        (if \<not> rl_newline r then Inr (s\<lparr>se_partial := Some line\<rparr>)
         else read_lines env bound (line + 1) rs (s\<lparr>se_through := line\<rparr>))
      else case rl_json r of
        None \<Rightarrow> if \<not> rl_newline r then Inr (s\<lparr>se_partial := Some line\<rparr>) else Inl (BadLine line)
      | Some (JObj ps) \<Rightarrow>
          rbind (read_record env (JObj ps) line s) (\<lambda>s1.
            read_lines env bound (line + 1) rs (s1\<lparr>se_through := line\<rparr>))
      | Some _ \<Rightarrow> Inl (NotAnObject line))"

definition session_records :: "environment \<Rightarrow> raw_line list \<Rightarrow> nat option \<Rightarrow> session_error + session" where
  "session_records env lines bound =
     rbind (read_lines env bound 1 lines empty_session) (\<lambda>s.
       case bound of
         Some b \<Rightarrow> if se_through s < b then Inl (ShortTranscript b (se_through s)) else Inr s
       | None \<Rightarrow> Inr s)"

section \<open>Index and evidence\<close>

datatype pairing = Paired | MissingCall | NoResult

definition pair_status :: "paired_lines \<Rightarrow> pairing" where
  "pair_status p = (if fst p \<noteq> [] \<and> snd p \<noteq> [] then Paired else if fst p = [] then MissingCall else NoResult)"

text \<open>\<open>details\<close>: the call pairs of a record; its other fields are those of the record itself.\<close>

definition call_pairs :: "session \<Rightarrow> work_record \<Rightarrow> (json \<times> paired_lines \<times> pairing) list" where
  "call_pairs s r = map (\<lambda>c. (c, call_lines s c, pair_status (call_lines s c))) (wr_call_ids r)"

record index_args =
  ia_since :: "time option"
  ia_until :: "time option"
  ia_after_line :: nat
  ia_limit :: nat
  ia_inherited :: bool

definition outside_window :: "index_args \<Rightarrow> time option \<Rightarrow> bool" where
  "outside_window args stamp =
     (case stamp of None \<Rightarrow> False
      | Some t \<Rightarrow> (case ia_since args of None \<Rightarrow> False | Some a \<Rightarrow> t < a) \<or>
                  (case ia_until args of None \<Rightarrow> False | Some b \<Rightarrow> b < t))"

definition record_time :: "environment \<Rightarrow> work_record \<Rightarrow> session_error + time option" where
  "record_time env r =
     (if jtrue (wr_timestamp r) then rbind (parse_time env (wr_timestamp r)) (\<lambda>t. Inr (Some t)) else Inr None)"

fun select_records :: "environment \<Rightarrow> index_args \<Rightarrow> work_record list \<Rightarrow> session_error + work_record list \<times> nat" where
  "select_records env args [] = Inr ([], 0)"
| "select_records env args (r # rs) =
     (if wr_line r \<le> ia_after_line args then select_records env args rs
      else rbind (record_time env r) (\<lambda>t.
        if outside_window args t then select_records env args rs
        else rbind (select_records env args rs) (\<lambda>(sel, omitted).
          if wr_inherited r = Some True \<and> \<not> ia_inherited args then Inr (sel, omitted + 1)
          else Inr (r # sel, omitted))))"

record page_entry =
  pe_record :: work_record
  pe_calls :: "(json \<times> paired_lines \<times> pairing) list"
  pe_total :: nat
  pe_preview :: string
  pe_cut :: bool

record index_page =
  ix_omitted :: nat
  ix_records :: "page_entry list"
  ix_more :: bool
  ix_next :: "nat option"

definition page_entry_of :: "environment \<Rightarrow> session \<Rightarrow> work_record \<Rightarrow> page_entry" where
  "page_entry_of env s r =
     (let text = env_render env (wr_content r) in
      \<lparr>pe_record = r, pe_calls = call_pairs s r, pe_total = length text, pe_preview = take 160 text,
       pe_cut = (160 < length text)\<rparr>)"

definition index :: "environment \<Rightarrow> session \<Rightarrow> index_args \<Rightarrow> session_error + index_page" where
  "index env s args =
     rbind (select_records env args (se_records s)) (\<lambda>(selected, omitted).
       let page = take (ia_limit args) selected; more = (length page < length selected) in
       Inr \<lparr>ix_omitted = omitted, ix_records = map (page_entry_of env s) page, ix_more = more,
            ix_next = (if more then Some (wr_line (last page)) else None)\<rparr>)"

datatype relationship = Selected | PairedRecord | IntervalExecution

record evidence =
  bu_line :: nat
  bu_complete :: "bool option"
  bu_unavailable :: bool
  bu_truncated :: bool
  bu_records :: "(work_record \<times> (json \<times> paired_lines \<times> pairing) list \<times> relationship) list"

definition evidence_bundle :: "session \<Rightarrow> work_record \<Rightarrow> evidence" where
  "evidence_bundle s r =
     (let pairs = call_pairs s r;
          paired = concat (map (\<lambda>(_, (cs, rs), _). cs @ rs) pairs);
          intervals = map (\<lambda>(_, (cs, rs), _). (Min (set cs), Max (set rs)))
                        (filter (\<lambda>(_, (cs, rs), _). cs \<noteq> [] \<and> rs \<noteq> []) pairs);
          selected = filter (\<lambda>i. wr_line i = wr_line r \<or> wr_line i \<in> set paired \<or>
                       (wr_kind i = ''execution'' \<and> (\<exists>(a, b) \<in> set intervals. a < wr_line i \<and> wr_line i < b))) (se_records s) in
      \<lparr>bu_line = wr_line r,
       bu_complete = (if pairs = [] then None else Some (\<forall>(_, _, st) \<in> set pairs. st = Paired)),
       bu_unavailable = (\<exists>i \<in> set selected. wr_unavailable i),
       bu_truncated = (\<exists>i \<in> set selected. wr_truncated i),
       bu_records = map (\<lambda>i. (i, call_pairs s i,
          if wr_line i = wr_line r then Selected
          else if wr_line i \<in> set paired then PairedRecord else IntervalExecution)) selected\<rparr>)"

record show_args =
  sa_line :: nat
  sa_offset :: nat
  sa_length :: nat

record show_page =
  sp_bundle :: evidence
  sp_offset :: nat
  sp_end :: nat
  sp_total :: nat
  sp_content :: string
  sp_more :: bool
  sp_next :: "nat option"

text \<open>\<open>show\<close>; \<open>bundle_text\<close> renders the evidence bundle.\<close>

definition show_record :: "(evidence \<Rightarrow> string) \<Rightarrow> session \<Rightarrow> show_args \<Rightarrow> session_error + show_page" where
  "show_record bundle_text s args =
     (case find (\<lambda>i. wr_line i = sa_line args) (se_records s) of
        None \<Rightarrow> Inl (NoRecord (sa_line args))
      | Some r \<Rightarrow>
          let b = evidence_bundle s r; text = bundle_text b in
          if length text < sa_offset args then Inl (OffsetTooLarge (length text))
          else let stop = min (sa_offset args + sa_length args) (length text) in
            Inr \<lparr>sp_bundle = b, sp_offset = sa_offset args, sp_end = stop, sp_total = length text,
                 sp_content = take (stop - sa_offset args) (drop (sa_offset args) text),
                 sp_more = (stop < length text), sp_next = (if stop < length text then Some stop else None)\<rparr>)"

definition nonnegative :: "string \<Rightarrow> nat option" where
  "nonnegative value = (case py_int value of Some n \<Rightarrow> if n < 0 then None else Some (nat n) | None \<Rightarrow> None)"

definition positive :: "string \<Rightarrow> nat option" where
  "positive value = (case nonnegative value of Some n \<Rightarrow> if n = 0 then None else Some n | None \<Rightarrow> None)"

text \<open>The two commands with their argument checks.\<close>

definition run_index :: "environment \<Rightarrow> raw_line list \<Rightarrow> index_args \<Rightarrow> session_error + index_page" where
  "run_index env lines args =
     (if (case (ia_since args, ia_until args) of (Some a, Some b) \<Rightarrow> b < a | _ \<Rightarrow> False) then Inl BadArguments
      else rbind (session_records env lines None) (\<lambda>s. index env s args))"

definition run_show :: "environment \<Rightarrow> (evidence \<Rightarrow> string) \<Rightarrow> raw_line list \<Rightarrow> nat option \<Rightarrow> show_args \<Rightarrow> session_error + show_page" where
  "run_show env bundle_text lines through args =
     (if sa_offset args \<noteq> 0 \<and> through = None then Inl BadArguments
      else rbind (session_records env lines through) (\<lambda>s. show_record bundle_text s args))"

section \<open>What reading one record changes\<close>

text \<open>
  At most one work record is appended, under the line being read, and its content is free of hidden parts: no object
  has a field of \<open>hidden_keys\<close>, an object of the type \<open>encrypted_content\<close> shows nothing but that type and the marks
  that its payload is unavailable, and no list contains an item of \<open>hidden_types\<close>. An object of such a type that is the
  value of a field is not dropped by \<open>visible\<close>, so it is not excluded here.
\<close>

definition encrypted_marks :: "(string \<times> json) list" where
  "encrypted_marks = [(''type'', JStr ''encrypted_content''), (''unavailable'', JBool True), (''unavailable_content'', JBool True)]"

definition only_marks :: "(string \<times> json) list \<Rightarrow> bool" where
  "only_marks ps \<longleftrightarrow> (type_in [''encrypted_content''] ps \<longrightarrow> set ps \<subseteq> set encrypted_marks)"

fun clean :: "json \<Rightarrow> bool" where
  "clean (JList xs) = (\<forall>x \<in> set xs. \<not> hidden_item x \<and> clean x)"
| "clean (JObj ps) = (only_marks ps \<and> (\<forall>(k, v) \<in> set ps. k \<notin> set hidden_keys \<and> clean v))"
| "clean _ = True"

lemma map_of_visible:
  "map_of (map (\<lambda>(k, v). (k, visible v)) (filter (\<lambda>(k, v). k \<notin> set hidden_keys) ps)) ''type'' =
     map_option visible (map_of ps ''type'')"
  by (induction ps) (auto simp: hidden_keys_def)

lemma visible_JStr: "visible v = JStr t \<longleftrightarrow> v = JStr t"
  by (cases v) auto

lemma type_in_visible:
  "type_in ts (map (\<lambda>(k, v). (k, visible v)) (filter (\<lambda>(k, v). k \<notin> set hidden_keys) ps)) = type_in ts ps"
proof (cases "map_of ps ''type''")
  case (Some v)
  then show ?thesis using visible_JStr [of v] unfolding type_in_def map_of_visible by (cases v) auto
qed (simp add: type_in_def map_of_visible)

lemma hidden_item_visible: "\<not> hidden_item v \<Longrightarrow> \<not> hidden_item (visible v)"
proof (cases v)
  case (JObj ps)
  assume "\<not> hidden_item v"
  then have "\<not> type_in hidden_types (map (\<lambda>(k, v). (k, visible v)) (filter (\<lambda>(k, v). k \<notin> set hidden_keys) ps))"
    by (simp add: JObj hidden_item_def type_in_visible)
  then show ?thesis
    by (simp add: JObj hidden_item_def) (simp add: type_in_def hidden_types_def)
qed (auto simp: hidden_item_def)

lemma visible_clean: "clean (visible v)"
proof (induction v rule: visible.induct)
  case (1 xs)
  then show ?case using hidden_item_visible by auto
next
  case (2 ps)
  show ?case
  proof (cases "type_in [''encrypted_content''] ps")
    case True
    then show ?thesis by (simp add: hidden_keys_def only_marks_def encrypted_marks_def)
  next
    case False
    then have "only_marks (map (\<lambda>(k, v). (k, visible v)) (filter (\<lambda>(k, v). k \<notin> set hidden_keys) ps))"
      using type_in_visible [of "[''encrypted_content'']" ps] by (simp add: only_marks_def)
    then show ?thesis using False "2.IH" by auto
  qed
qed auto

definition grows :: "nat \<Rightarrow> session \<Rightarrow> session \<Rightarrow> bool" where
  "grows line s s' \<longleftrightarrow> se_partial s' = se_partial s \<and> se_through s' = se_through s \<and>
     (se_records s' = se_records s \<or>
      (\<exists>r. se_records s' = se_records s @ [r] \<and> wr_line r = line \<and> clean (wr_content r)))"

lemma call_folds [simp]:
  "se_records (foldl (add_call line) s cs) = se_records s" "se_records (foldl (add_result line) s cs) = se_records s"
  "se_partial (foldl (add_call line) s cs) = se_partial s" "se_partial (foldl (add_result line) s cs) = se_partial s"
  "se_through (foldl (add_call line) s cs) = se_through s" "se_through (foldl (add_result line) s cs) = se_through s"
  by (induction cs arbitrary: s) (simp_all add: add_call_def add_result_def)

lemma grows_count [simp]: "grows line (count_unsupported k s) = grows line s"
  by (rule ext) (simp add: grows_def count_unsupported_def)

lemma grows_same [simp]: "grows line s s" "grows line s (count_unsupported k s)" "grows line s (session_meta p s)"
  by (simp_all add: grows_def count_unsupported_def session_meta_def)

lemma grows_claude_metadata [simp]: "grows line (claude_metadata r s) = grows line s"
  by (rule ext) (simp add: grows_def claude_metadata_def)

lemma clean_dict_set: "list_all (\<lambda>(k, v). k \<notin> set hidden_keys \<and> clean v) ps \<Longrightarrow> k \<notin> set hidden_keys \<Longrightarrow> clean v \<Longrightarrow>
    list_all (\<lambda>(k, v). k \<notin> set hidden_keys \<and> clean v) (dict_set k v ps)"
  by (induction ps) auto

lemma only_marks_mark: "only_marks ps \<Longrightarrow> only_marks (dict_set ''unavailable_content'' (JBool True) ps)"
proof -
  assume marks: "only_marks ps"
  have "set (dict_set ''unavailable_content'' (JBool True) ps) \<subseteq> insert (''unavailable_content'', JBool True) (set ps)"
    by (induction ps) (auto split: if_splits)
  moreover have "type_in ts (dict_set ''unavailable_content'' (JBool True) ps) = type_in ts ps" for ts
    by (simp add: type_in_def map_of_dict_set)
  ultimately show ?thesis using marks unfolding only_marks_def encrypted_marks_def by auto
qed

lemma clean_mark: "clean v \<Longrightarrow> clean (JObj (dict_set ''unavailable_content'' (JBool True) (jobj v)))"
proof -
  assume v: "clean v"
  have "list_all (\<lambda>(k, v). k \<notin> set hidden_keys \<and> clean v) (jobj v)" using v by (cases v) (auto simp: list_all_iff)
  note fields = clean_dict_set [OF this, of "''unavailable_content''" "JBool True"]
  have "only_marks (jobj v)" using v by (cases v) (auto simp: only_marks_def type_in_def)
  then show ?thesis using fields only_marks_mark by (simp add: list_all_iff hidden_keys_def)
qed

lemma make_record_clean: "clean (wr_content (make_record env line a recorded_at stamp inherited unavailable))"
  using visible_clean [of "ad_content a"] clean_mark [OF visible_clean, of "ad_content a"]
  by (simp add: make_record_def Let_def del: clean.simps)

lemma append_grows:
  assumes "append_record env original line a s = Inr s'"
  shows "grows line s s'"
proof -
  from assms obtain recorded_at stamp inherited u where
    s': "s' = link_calls line a (s\<lparr>se_records := se_records s @ [make_record env line a recorded_at stamp inherited u]\<rparr>)"
    unfolding append_record_def by (auto elim!: rbind_InrE split: if_splits)
  have "wr_line (make_record env line a recorded_at stamp inherited u) = line" by (simp add: make_record_def Let_def)
  then show ?thesis unfolding grows_def s' link_calls_def using make_record_clean by (simp del: clean.simps)
qed

lemma codex_response_grows: "codex_response env rec payload line s = Inr s' \<Longrightarrow> grows line s s'"
  unfolding codex_response_def
  by (elim rbind_InrE) (simp split: if_splits, (elim rbind_InrE | auto dest: append_grows split: if_splits)+)

lemma count_odd_grows: "count_odd bs s = Inr s' \<Longrightarrow> grows line s' = grows line s"
proof (induction bs arbitrary: s)
  case (Cons b bs)
  then show ?case by (auto simp: rbind_eq_Inr_iff split: option.splits)
qed simp

lemma claude_message_grows: "claude_message env rec line s = Inr s' \<Longrightarrow> grows line s s'"
proof -
  assume "claude_message env rec line s = Inr s'"
  then obtain bs s1 where s1: "count_odd bs (claude_metadata rec s) = Inr s1" and
    "s' = s1 \<or> (\<exists>a. append_record env rec line a s1 = Inr s')"
    by (auto simp: claude_message_def rbind_eq_Inr_iff Let_def split: if_splits)
  then have "grows line s1 s'" using append_grows by auto
  then show ?thesis using count_odd_grows [OF s1] by simp
qed

lemma append_count_grows:
  "append_record env rec line a (if b then s else count_unsupported k s) = Inr s' \<Longrightarrow> grows line s s'"
  using append_grows [of env rec line a "if b then s else count_unsupported k s" s'] by (cases b) simp_all

lemma native_item_grows: "native_item env rec payload line s = Inr s' \<Longrightarrow> grows line s s'"
  unfolding native_item_def Let_def
proof (elim rbind_InrE)
  fix item kind
  assume "(if string_in kind [''Reasoning'', ''UserMessage'', ''AgentMessage''] then Inr s
     else append_record env rec line
       ((addition (if kind = JStr ''CommandExecution'' then ''execution'' else ''native_item'') item)
         \<lparr>ad_name := kind, ad_inherited := if jtrue (field ''thread_id'' payload) then
            Some (field ''thread_id'' payload \<noteq> (case map_of (se_metadata s) ''id'' of None \<Rightarrow> JNull | Some i \<Rightarrow> i)) else None\<rparr>)
       (if string_in kind supported_items then s else count_unsupported (''codex.item.'' @ kind_text kind) s)) = Inr s'"
  then show "grows line s s'"
    by (cases "string_in kind [''Reasoning'', ''UserMessage'', ''AgentMessage'']")
      (simp_all only: if_True if_False simp_thms sum.inject append_count_grows grows_same)
qed

lemma event_message_grows: "event_message env rec payload line s = Inr (Some s') \<Longrightarrow> grows line s s'"
  unfolding event_message_def
proof (elim rbind_InrE)
  fix event
  assume e: "(if string_in event [''task_started'', ''task_complete'', ''turn_aborted''] then
       rbind (lifecycle_inherited env s (field ''started_at'' payload)) (\<lambda>inherited.
         rbind (append_record env rec line
           ((addition ''lifecycle'' payload)\<lparr>ad_name := event, ad_inherited := inherited\<rparr>) s) (\<lambda>s1. Inr (Some s1)))
     else if event = JStr ''item_completed'' then rbind (native_item env rec payload line s) (\<lambda>s1. Inr (Some s1))
     else Inr None) = Inr (Some s')"
  show "grows line s s'"
  proof (cases "string_in event [''task_started'', ''task_complete'', ''turn_aborted'']")
    case True
    then have "\<exists>a. append_record env rec line a s = Inr s'" using e by (auto elim!: rbind_InrE)
    then show ?thesis using append_grows by blast
  next
    case False
    then have "native_item env rec payload line s = Inr s'" using e by (auto elim!: rbind_InrE split: if_splits)
    then show ?thesis by (rule native_item_grows)
  qed
qed

lemma read_record_grows: "read_record env rec line s = Inr s' \<Longrightarrow> grows line s s'"
  unfolding read_record_def
proof (elim rbind_InrE)
  fix payload kind
  assume e: "(if kind = JStr ''session_meta'' then Inr (session_meta payload s)
     else if kind = JStr ''response_item'' then codex_response env rec payload line s
     else rbind (if kind = JStr ''event_msg'' then event_message env rec payload line s else Inr None) (\<lambda>handled.
       case handled of
         Some s1 \<Rightarrow> Inr s1
       | None \<Rightarrow>
           if string_in kind [''user'', ''assistant''] \<and> has_key ''message'' rec then claude_message env rec line s
           else rbind (work_kind kind) (\<lambda>w.
             if w then append_record env rec line (addition ''unsupported'' rec) (count_unsupported (''record.'' @ kind_text kind) s)
             else Inr s))) = Inr s'"
  show "grows line s s'"
  proof (cases "kind = JStr ''session_meta'' \<or> kind = JStr ''response_item''")
    case True
    then show ?thesis using e codex_response_grows by (auto split: if_splits)
  next
    case False
    then obtain handled where h: "(if kind = JStr ''event_msg'' then event_message env rec payload line s else Inr None) = Inr handled"
      and rest: "(case handled of
         Some s1 \<Rightarrow> Inr s1
       | None \<Rightarrow>
           if string_in kind [''user'', ''assistant''] \<and> has_key ''message'' rec then claude_message env rec line s
           else rbind (work_kind kind) (\<lambda>w.
             if w then append_record env rec line (addition ''unsupported'' rec) (count_unsupported (''record.'' @ kind_text kind) s)
             else Inr s)) = Inr s'"
      using e by (auto elim!: rbind_InrE)
    show ?thesis
    proof (cases handled)
      case (Some s1)
      then have "event_message env rec payload line s = Inr (Some s')" using h rest by (auto split: if_splits)
      then show ?thesis by (rule event_message_grows)
    next
      case None
      then have "claude_message env rec line s = Inr s' \<or> s' = s \<or>
          append_record env rec line (addition ''unsupported'' rec) (count_unsupported (''record.'' @ kind_text kind) s) = Inr s'"
        using rest by (auto elim!: rbind_InrE split: if_splits)
      then show ?thesis using claude_message_grows append_grows by fastforce
    qed
  qed
qed

section \<open>What reading a transcript establishes\<close>

definition session_inv :: "nat \<Rightarrow> session \<Rightarrow> bool" where
  "session_inv line s \<longleftrightarrow> sorted_wrt (<) (map wr_line (se_records s)) \<and>
     (\<forall>r \<in> set (se_records s). wr_line r < line \<and> clean (wr_content r))"

lemma session_inv_step:
  assumes "session_inv line s" and "grows line s s'"
  shows "session_inv (line + 1) (s'\<lparr>se_through := n\<rparr>)"
  using assms by (auto simp: session_inv_def grows_def sorted_wrt_append less_Suc_eq)

lemma session_inv_skip: "session_inv line s \<Longrightarrow> session_inv (line + 1) (s\<lparr>se_through := n\<rparr>)"
  by (auto simp: session_inv_def less_Suc_eq)

lemma session_inv_partial: "session_inv line s \<Longrightarrow> session_inv line (s\<lparr>se_partial := p\<rparr>)"
  by (simp add: session_inv_def)

lemma read_lines_inv:
  "read_lines env bound line rs s = Inr s' \<Longrightarrow> session_inv line s \<Longrightarrow> \<exists>n. session_inv n s'"
proof (induction env bound line rs s rule: read_lines.induct)
  case (2 env bound line r rs s)
  show ?case
  proof (cases "(case bound of None \<Rightarrow> False | Some b \<Rightarrow> b < line)")
    case True
    then show ?thesis using "2.prems" by auto
  next
    case False
    consider (blank) "rl_blank r" | (bad) "\<not> rl_blank r" "rl_json r = None"
      | (json) v where "\<not> rl_blank r" "rl_json r = Some v" by (cases "rl_json r") auto
    then show ?thesis
    proof cases
      case blank
      then show ?thesis
        using "2.prems" "2.IH"(1) False session_inv_skip [OF "2.prems"(2), of line]
          session_inv_partial [OF "2.prems"(2), of "Some line"] by (auto split: if_splits)
    next
      case bad
      then show ?thesis
        using "2.prems" False session_inv_partial [OF "2.prems"(2), of "Some line"] by (auto split: if_splits)
    next
      case (json v)
      then obtain ps where v: "v = JObj ps" using "2.prems"(1) False by (cases v) auto
      from "2.prems"(1) json False v obtain s1 where s1: "read_record env (JObj ps) line s = Inr s1"
        "read_lines env bound (line + 1) rs (s1\<lparr>se_through := line\<rparr>) = Inr s'" by (auto simp: rbind_eq_Inr_iff)
      show ?thesis
        using "2.IH"(2) [OF False json(1,2) v s1(2)] session_inv_step [OF "2.prems"(2) read_record_grows [OF s1(1)]]
        by blast
    qed
  qed
qed auto

lemma session_records_inv:
  assumes "session_records env lines bound = Inr s"
  shows "sorted_wrt (<) (map wr_line (se_records s))" "\<forall>r \<in> set (se_records s). clean (wr_content r)"
proof -
  have "session_inv 1 empty_session" by (simp add: session_inv_def empty_session_def)
  moreover have "read_lines env bound 1 lines empty_session = Inr s"
    using assms by (auto simp: session_records_def split: option.splits if_splits elim!: rbind_InrE)
  ultimately obtain n where "session_inv n s" using read_lines_inv by blast
  then show "sorted_wrt (<) (map wr_line (se_records s))" "\<forall>r \<in> set (se_records s). clean (wr_content r)"
    by (simp_all add: session_inv_def)
qed

section \<open>Following the index\<close>

definition kept :: "environment \<Rightarrow> index_args \<Rightarrow> work_record \<Rightarrow> bool" where
  "kept env args r \<longleftrightarrow>
     (case record_time env r of Inl _ \<Rightarrow> False | Inr t \<Rightarrow> \<not> outside_window args t) \<and>
     \<not> (wr_inherited r = Some True \<and> \<not> ia_inherited args)"

lemma outside_window_after [simp]: "outside_window (args\<lparr>ia_after_line := n\<rparr>) t = outside_window args t"
  by (cases t) (simp_all add: outside_window_def)

lemma kept_after [simp]: "kept env (args\<lparr>ia_after_line := n\<rparr>) r = kept env args r"
  by (cases "record_time env r") (simp_all add: kept_def)

lemma select_records_filter:
  "select_records env args rs = Inr (sel, omitted) \<Longrightarrow> sel = filter (\<lambda>r. ia_after_line args < wr_line r \<and> kept env args r) rs"
proof (induction rs arbitrary: sel omitted)
  case (Cons r rs)
  then show ?case
    by (fastforce simp: kept_def rbind_eq_Inr_iff split: if_splits)
qed simp

lemma select_records_later:
  "select_records env args rs = Inr p \<Longrightarrow> ia_after_line args \<le> n \<Longrightarrow>
   \<exists>q. select_records env (args\<lparr>ia_after_line := n\<rparr>) rs = Inr q"
proof (induction rs arbitrary: p)
  case (Cons r rs)
  show ?case
  proof (cases "wr_line r \<le> ia_after_line args")
    case True
    then show ?thesis using Cons by simp
  next
    case False
    then obtain t where t: "record_time env r = Inr t" "\<exists>p. select_records env args rs = Inr p"
      using Cons.prems(1) by (auto elim!: rbind_InrE split: if_splits)
    then obtain q where "select_records env (args\<lparr>ia_after_line := n\<rparr>) rs = Inr q" using Cons by blast
    then show ?thesis using t(1) by (auto simp: outside_window_def split: prod.splits)
  qed
qed simp

lemma filter_after_last:
  assumes "sorted_wrt (<) (map wr_line rs)" and "sel = filter (\<lambda>r. a < wr_line r \<and> P r) rs" and "0 < k" and "k < length sel"
  shows "filter (\<lambda>r. wr_line (last (take k sel)) < wr_line r \<and> P r) rs = drop k sel"
proof -
  let ?l = "wr_line (last (take k sel))"
  have sorted: "sorted_wrt (\<lambda>x y. wr_line x < wr_line y) sel"
    using assms(1,2) by (simp add: sorted_wrt_map sorted_wrt_filter)
  have "take k sel \<noteq> []" using assms(3,4) by (cases sel) auto
  then obtain pre x where pre: "take k sel = pre @ [x]" by (metis append_butlast_last_id)
  then have split: "sel = pre @ x # drop k sel" using append_take_drop_id [of k sel] by simp
  have x: "x \<in> set sel" by (subst split) simp
  then have "a < wr_line x" using assms(2) by simp
  then have "filter (\<lambda>r. wr_line x < wr_line r \<and> P r) rs = filter (\<lambda>r. wr_line x < wr_line r) sel"
    unfolding assms(2) filter_filter by (intro filter_cong) auto
  also have "\<dots> = drop k sel"
  proof -
    have s: "sorted_wrt (\<lambda>x y. wr_line x < wr_line y) (pre @ x # drop k sel)" using sorted split by simp
    have "filter (\<lambda>r. wr_line x < wr_line r) (pre @ x # drop k sel) = drop k sel"
      using s by (auto simp: sorted_wrt_append filter_empty_conv filter_id_conv)
    then show ?thesis using split by simp
  qed
  finally show ?thesis using pre by simp
qed

text \<open>A reader that follows the cursors of the index, for at most \<open>n\<close> pages.\<close>

fun follow_pages :: "nat \<Rightarrow> environment \<Rightarrow> session \<Rightarrow> index_args \<Rightarrow> session_error + page_entry list option" where
  "follow_pages 0 env s args = Inr None"
| "follow_pages (Suc n) env s args =
     rbind (index env s args) (\<lambda>p.
       case ix_next p of
         None \<Rightarrow> Inr (Some (ix_records p))
       | Some l \<Rightarrow> rbind (follow_pages n env s (args\<lparr>ia_after_line := l\<rparr>)) (\<lambda>rest.
           Inr (map_option ((@) (ix_records p)) rest)))"

lemma follow_pages_all:
  assumes sorted: "sorted_wrt (<) (map wr_line (se_records s))"
  shows "select_records env args (se_records s) = Inr (sel, omitted) \<Longrightarrow> 0 < ia_limit args \<Longrightarrow> length sel < n \<Longrightarrow>
    follow_pages n env s args = Inr (Some (map (page_entry_of env s) sel))"
proof (induction n arbitrary: args sel omitted)
  case (Suc n)
  let ?k = "ia_limit args" and ?page = "take (ia_limit args) sel"
  have sel: "sel = filter (\<lambda>r. ia_after_line args < wr_line r \<and> kept env args r) (se_records s)"
    by (rule select_records_filter [OF Suc.prems(1)])
  show ?case
  proof (cases "?k < length sel")
    case False
    then show ?thesis using Suc.prems by (simp add: index_def Let_def)
  next
    case True
    let ?l = "wr_line (last ?page)"
    have "last ?page \<in> set sel" using True Suc.prems(2)
      by (metis in_set_takeD last_in_set length_0_conv length_take less_nat_zero_code min.absorb4 neq0_conv)
    then have le: "ia_after_line args \<le> ?l" using sel by (metis (no_types, lifting) less_imp_le mem_Collect_eq set_filter)
    from select_records_later [OF Suc.prems(1) le] obtain sel' omitted'
      where later: "select_records env (args\<lparr>ia_after_line := ?l\<rparr>) (se_records s) = Inr (sel', omitted')" by auto
    from select_records_filter [OF later] have "sel' = drop ?k sel"
      using filter_after_last [OF sorted sel Suc.prems(2) True] by simp
    moreover have "length sel' < n" using calculation True Suc.prems(2,3) by simp
    ultimately have "follow_pages n env s (args\<lparr>ia_after_line := ?l\<rparr>) = Inr (Some (map (page_entry_of env s) (drop ?k sel)))"
      using Suc.IH [OF later] Suc.prems(2) by simp
    then show ?thesis
      using Suc.prems(1) True by (simp add: index_def Let_def map_append [symmetric])
  qed
qed simp

section \<open>Following the text of one record\<close>

text \<open>A reader that follows \<open>next_offset\<close>.\<close>

fun follow_text :: "nat \<Rightarrow> (evidence \<Rightarrow> string) \<Rightarrow> session \<Rightarrow> show_args \<Rightarrow> session_error + string option" where
  "follow_text 0 bundle_text s args = Inr None"
| "follow_text (Suc n) bundle_text s args =
     rbind (show_record bundle_text s args) (\<lambda>p.
       case sp_next p of
         None \<Rightarrow> Inr (Some (sp_content p))
       | Some k \<Rightarrow> rbind (follow_text n bundle_text s (args\<lparr>sa_offset := k\<rparr>)) (\<lambda>rest.
           Inr (map_option ((@) (sp_content p)) rest)))"

lemma follow_text_all:
  assumes r: "find (\<lambda>i. wr_line i = line) (se_records s) = Some r"
  shows "sa_line args = line \<Longrightarrow> 0 < sa_length args \<Longrightarrow> sa_offset args \<le> length (bundle_text (evidence_bundle s r)) \<Longrightarrow>
    length (bundle_text (evidence_bundle s r)) - sa_offset args < n \<Longrightarrow>
    follow_text n bundle_text s args = Inr (Some (drop (sa_offset args) (bundle_text (evidence_bundle s r))))"
proof (induction n arbitrary: args)
  case (Suc n)
  let ?t = "bundle_text (evidence_bundle s r)" and ?o = "sa_offset args"
  let ?stop = "min (?o + sa_length args) (length ?t)"
  show ?case
  proof (cases "?stop < length ?t")
    case False
    then have "?stop = length ?t" by simp
    then show ?thesis using Suc.prems r by (simp add: show_record_def Let_def)
  next
    case True
    then have stop: "?stop = ?o + sa_length args" by simp
    have "follow_text n bundle_text s (args\<lparr>sa_offset := ?stop\<rparr>) = Inr (Some (drop ?stop ?t))"
      using Suc.IH [of "args\<lparr>sa_offset := ?stop\<rparr>"] Suc.prems stop True by simp
    moreover have "take (?stop - ?o) (drop ?o ?t) @ drop ?stop ?t = drop ?o ?t"
      unfolding stop by (metis add.commute add_diff_cancel_left' append_take_drop_id drop_drop)
    ultimately show ?thesis using Suc.prems r True by (simp add: show_record_def Let_def)
  qed
qed simp

section \<open>Reading up to a recorded boundary\<close>

lemma read_lines_stop: "read_lines env (Some m) (Suc m) ls s = Inr s"
  by (cases ls) auto

lemma read_lines_bound:
  "read_lines env None (Suc m) ls s0 = Inr s \<Longrightarrow> se_through s0 = m \<Longrightarrow> se_partial s0 = None \<Longrightarrow>
     m \<le> se_through s \<and>
     (\<forall>ls'. take (se_through s - m) ls' = take (se_through s - m) ls \<longrightarrow>
        read_lines env (Some (se_through s)) (Suc m) ls' s0 = Inr (s\<lparr>se_partial := None\<rparr>))"
proof (induction ls arbitrary: m s0)
  case Nil
  then show ?case by (auto simp: read_lines_stop)
next
  case (Cons r rs)
  have next_line: ?case
    if rec: "read_lines env None (Suc (Suc m)) rs s1 = Inr s" "se_through s1 = Suc m" "se_partial s1 = None"
      and step: "\<And>rs' b. Suc m \<le> b \<Longrightarrow> read_lines env (Some b) (Suc m) (r # rs') s0 = read_lines env (Some b) (Suc (Suc m)) rs' s1"
    for s1
  proof -
    note ih = Cons.IH [OF rec]
    have "read_lines env (Some (se_through s)) (Suc m) ls' s0 = Inr (s\<lparr>se_partial := None\<rparr>)"
      if eq: "take (se_through s - m) ls' = take (se_through s - m) (r # rs)" for ls'
    proof -
      have k: "se_through s - m = Suc (se_through s - Suc m)" using ih by linarith
      then obtain rs' where "ls' = r # rs'" "take (se_through s - Suc m) rs' = take (se_through s - Suc m) rs"
        using eq by (cases ls') auto
      then show ?thesis using ih step by simp
    qed
    then show ?thesis using ih by auto
  qed
  consider (partial) "s = s0\<lparr>se_partial := Some (Suc m)\<rparr>"
    | (blank) "rl_blank r" "rl_newline r"
    | (json) ps where "\<not> rl_blank r" "rl_json r = Some (JObj ps)"
    using Cons.prems(1) by (auto split: if_splits option.splits json.splits)
  then show ?case
  proof cases
    case partial
    then show ?thesis using Cons.prems(2,3) by (auto simp: read_lines_stop)
  next
    case blank
    then show ?thesis using Cons.prems by (intro next_line [of "s0\<lparr>se_through := Suc m\<rparr>"]) auto
  next
    case (json ps)
    then obtain s1 where s1: "read_record env (JObj ps) (Suc m) s0 = Inr s1"
      "read_lines env None (Suc (Suc m)) rs (s1\<lparr>se_through := Suc m\<rparr>) = Inr s"
      using Cons.prems(1) by (auto elim!: rbind_InrE)
    have "se_partial s1 = None" using read_record_grows [OF s1(1)] Cons.prems(3) by (simp add: grows_def)
    then show ?thesis using json s1 by (intro next_line [of "s1\<lparr>se_through := Suc m\<rparr>"]) auto
  qed
qed

lemma session_records_bound:
  assumes "session_records env lines None = Inr s"
    and "take (se_through s) lines' = take (se_through s) lines"
  shows "session_records env lines' (Some (se_through s)) = Inr (s\<lparr>se_partial := None\<rparr>)"
proof -
  have "read_lines env None (Suc 0) lines empty_session = Inr s"
    using assms(1) by (auto simp: session_records_def elim!: rbind_InrE)
  from read_lines_bound [OF this] assms(2) show ?thesis
    by (simp add: session_records_def empty_session_def)
qed

section \<open>Properties of the transcript reader\<close>

definition demo_rendering :: environment where
  "demo_rendering = \<lparr>env_parse = (\<lambda>s. Some (of_nat (length s))), env_iso = (\<lambda>t. ''t''),
     env_render = (\<lambda>v. ''rendered''), env_marker = (\<lambda>t. False)\<rparr>"

definition demo_line :: "(string \<times> json) list \<Rightarrow> raw_line" where
  "demo_line ps = \<lparr>rl_blank = False, rl_newline = True, rl_json = Some (JObj ps)\<rparr>"

definition demo_lines :: "raw_line list" where
  "demo_lines =
     [demo_line [(''type'', JStr ''session_meta''), (''payload'', JObj [(''id'', JStr ''s1'')])],
      demo_line [(''type'', JStr ''response_item''), (''payload'', JObj [(''type'', JStr ''function_call''), (''name'', JStr ''sh''),
        (''call_id'', JStr ''c1''), (''encrypted_content'', JStr ''xyz'')])],
      \<lparr>rl_blank = True, rl_newline = True, rl_json = None\<rparr>,
      demo_line [(''type'', JStr ''response_item''), (''payload'', JObj [(''type'', JStr ''function_call_output''),
        (''output'', JList [JObj [(''type'', JStr ''reasoning'')], JStr ''ok'',
          JObj [(''type'', JStr ''encrypted_content''), (''data'', JStr ''xyz'')]]), (''call_id'', JStr ''c1'')])],
      \<lparr>rl_blank = False, rl_newline = False, rl_json = None\<rparr>]"

definition demo_transcript :: session where
  "demo_transcript = (case session_records demo_rendering demo_lines None of Inr s \<Rightarrow> s | Inl _ \<Rightarrow> empty_session)"

lemma demo_transcript_read: "session_records demo_rendering demo_lines None = Inr demo_transcript"
  by code_simp

lemma demo_transcript_facts:
  "se_through demo_transcript = 4" "map wr_line (se_records demo_transcript) = [2, 4]" "se_partial demo_transcript = Some 5"
  by code_simp+

text \<open>C16: No work record of a session shows hidden content: no field named encrypted_content, encrypted_reasoning
  or signature survives in it, an object of the type encrypted_content shows only the marks that its payload is
  unavailable, and no list in it contains a reasoning item.\<close>

theorem records_show_nothing_hidden:
  assumes "session_records env lines bound = Inr s"
  shows "\<forall>r \<in> set (se_records s). clean (wr_content r)"
  using session_records_inv [OF assms] by blast

theorem records_show_nothing_hidden_witness:
  "list_all (\<lambda>r. clean (wr_content r)) (se_records demo_transcript) \<and> se_records demo_transcript \<noteq> []"
  using records_show_nothing_hidden [OF demo_transcript_read] demo_transcript_facts(2) by (auto simp: list_all_iff)

text \<open>Reading a transcript again up to the boundary of an earlier read gives the same session, whatever was
  written after that boundary in the meantime.\<close>

theorem boundary_is_stable:
  assumes "session_records env lines None = Inr s"
    and "take (se_through s) lines' = take (se_through s) lines"
  shows "session_records env lines' (Some (se_through s)) = Inr (s\<lparr>se_partial := None\<rparr>)"
  using assms by (rule session_records_bound)

theorem boundary_is_stable_witness:
  "session_records demo_rendering (take 4 demo_lines @ [demo_line [(''type'', JStr ''tool_new'')]]) (Some 4) =
     Inr (demo_transcript\<lparr>se_partial := None\<rparr>)"
proof -
  have "length demo_lines = 5" by code_simp
  then show ?thesis
    using boundary_is_stable [OF demo_transcript_read, of "take 4 demo_lines @ [demo_line [(''type'', JStr ''tool_new'')]]"]
      demo_transcript_facts(1) by simp
qed

text \<open>A reader that follows the cursors of the index ends after finitely many pages and has then received every
  selected record exactly once, in the order of the transcript.\<close>

theorem index_pages_complete:
  assumes "session_records env lines bound = Inr s"
    and "select_records env args (se_records s) = Inr (selected, omitted)" and "0 < ia_limit args"
  shows "follow_pages (Suc (length selected)) env s args = Inr (Some (map (page_entry_of env s) selected)) \<and>
    selected = filter (\<lambda>r. ia_after_line args < wr_line r \<and> kept env args r) (se_records s)"
  using follow_pages_all [OF session_records_inv(1) [OF assms(1)] assms(2,3) lessI] select_records_filter [OF assms(2)] by blast

definition demo_index :: index_args where
  "demo_index = \<lparr>ia_since = None, ia_until = None, ia_after_line = 0, ia_limit = 1, ia_inherited = False\<rparr>"

theorem index_pages_complete_witness:
  "\<exists>entries. follow_pages 3 demo_rendering demo_transcript demo_index = Inr (Some entries) \<and>
     map (wr_line \<circ> pe_record) entries = [2, 4]"
proof -
  have sel: "select_records demo_rendering demo_index (se_records demo_transcript) = Inr (se_records demo_transcript, 0)" by code_simp
  have len: "length (se_records demo_transcript) = 2" by code_simp
  have "0 < ia_limit demo_index" by (simp add: demo_index_def)
  from index_pages_complete [OF demo_transcript_read sel this] len
  have "follow_pages 3 demo_rendering demo_transcript demo_index = Inr (Some (map (page_entry_of demo_rendering demo_transcript) (se_records demo_transcript)))"
    by (simp add: numeral_3_eq_3)
  moreover have "map (wr_line \<circ> pe_record) (map (page_entry_of demo_rendering demo_transcript) (se_records demo_transcript)) = [2, 4]"
    by code_simp
  ultimately show ?thesis by (intro exI conjI)
qed

text \<open>The chunks of an evidence bundle, read by following the offsets, add up to its complete text.\<close>

theorem evidence_chunks_complete:
  assumes "find (\<lambda>i. wr_line i = sa_line args) (se_records s) = Some r" and "0 < sa_length args" and "sa_offset args = 0"
  shows "follow_text (Suc (length (bundle_text (evidence_bundle s r)))) bundle_text s args =
    Inr (Some (bundle_text (evidence_bundle s r)))"
  using follow_text_all [OF assms(1) refl assms(2), of bundle_text "Suc (length (bundle_text (evidence_bundle s r)))"] assms(3)
  by (simp del: follow_text.simps)

definition demo_text :: "evidence \<Rightarrow> string" where
  "demo_text b = concat (map (\<lambda>(i, _, _). wr_kind i @ ''.'') (bu_records b))"

theorem evidence_chunks_complete_witness:
  "follow_text 23 demo_text demo_transcript \<lparr>sa_line = 4, sa_offset = 0, sa_length = 5\<rparr> = Inr (Some ''tool_call.tool_result.'')"
proof -
  obtain r where r: "find (\<lambda>i. wr_line i = 4) (se_records demo_transcript) = Some r"
    "demo_text (evidence_bundle demo_transcript r) = ''tool_call.tool_result.''"
  proof -
    have "case find (\<lambda>i. wr_line i = 4) (se_records demo_transcript) of None \<Rightarrow> False
      | Some r \<Rightarrow> demo_text (evidence_bundle demo_transcript r) = ''tool_call.tool_result.''" by code_simp
    then show ?thesis using that by (auto split: option.splits)
  qed
  then show ?thesis
    using evidence_chunks_complete [of "\<lparr>sa_line = 4, sa_offset = 0, sa_length = 5\<rparr>" demo_transcript r demo_text]
    by (simp add: eval_nat_numeral)
qed

end
