(* ===== verification/Kubernetes.thy ===== *)
theory Kubernetes
  imports Py_Json Py_Text
begin

text \<open>
  The Kubernetes client of the CLI (\<open>kubernetes/client.py\<close>): resource identities, the classification of
  kubectl failures, the decoding of its JSON output, the arguments of its reads, Kubernetes durations and
  the waits for an object to become ready or to disappear. The kubectl process is a parameter; a wait
  reads a clock and an observation per round.
\<close>

section \<open>Identities and errors\<close>

record resource_ref =
  rr_kind :: string
  rr_name :: string
  rr_namespace :: string

definition display_name :: "resource_ref \<Rightarrow> string" where
  "display_name r = rr_kind r @ ''/'' @ rr_name r"

datatype deploy_error =
    DeploymentError string
  | ServiceUnavailable string
  | PermissionDenied string
  | VersionConflict string

text \<open>\<open>str(error)\<close>.\<close>

fun error_text :: "deploy_error \<Rightarrow> string" where
  "error_text (DeploymentError m) = m"
| "error_text (ServiceUnavailable m) = m"
| "error_text (PermissionDenied m) = m"
| "error_text (VersionConflict m) = m"

record completed =
  cp_code :: int
  cp_out :: string
  cp_err :: string

definition or_text :: "string \<Rightarrow> string \<Rightarrow> string" where
  "or_text a b = (if a = [] then b else a)"

definition failure_detail :: "completed \<Rightarrow> string" where
  "failure_detail c = or_text (strip (cp_err c)) (or_text (strip (cp_out c)) (''exit status '' @ show_int (cp_code c)))"

definition classify_failure :: "string \<Rightarrow> string \<Rightarrow> deploy_error" where
  "classify_failure detail message =
     (if starts_with ''Error from server (ServiceUnavailable):'' detail then ServiceUnavailable message
      else if starts_with ''Error from server (Forbidden):'' detail then PermissionDenied message
      else if contains ''the object has been modified; please apply your changes to the latest version'' detail
           \<or> contains ''metadata.resourceVersion: Invalid value: 0: must be specified for an update'' detail
           \<or> contains ''Precondition failed: ResourceVersion in precondition:'' detail
      then VersionConflict message
      else DeploymentError message)"

text \<open>\<open>command\<close>: the invocation with its cluster selection.\<close>

definition kubectl_command :: "string \<Rightarrow> string \<Rightarrow> string list \<Rightarrow> string list" where
  "kubectl_command executable ctx args = executable # (if ctx = [] then [] else [''--context'', ctx]) @ args"

text \<open>\<open>_timeout\<close>: the client's own deadline bounds every command.\<close>

definition command_timeout :: "time option \<Rightarrow> time \<Rightarrow> time option \<Rightarrow> deploy_error + time option" where
  "command_timeout deadline now timeout =
     (case deadline of
        None \<Rightarrow> Inr timeout
      | Some d \<Rightarrow>
          let remaining = d - now in
          if remaining \<le> 0 then Inl (DeploymentError ''Kubernetes operation deadline exceeded'')
          else Inr (Some (case timeout of None \<Rightarrow> remaining | Some t \<Rightarrow> min t remaining)))"

definition until_deadline :: "time option \<Rightarrow> time \<Rightarrow> time" where
  "until_deadline own deadline = (case own of None \<Rightarrow> deadline | Some d \<Rightarrow> min d deadline)"

definition check_completed :: "string list \<Rightarrow> completed \<Rightarrow> deploy_error + completed" where
  "check_completed command c =
     (if cp_code c \<noteq> 0
      then Inl (classify_failure (failure_detail c) (join '' '' command @ '' failed: '' @ failure_detail c))
      else Inr c)"

text \<open>\<open>run\<close> with \<open>check\<close>; \<open>exec\<close> is the kubectl process.\<close>

definition run_kubectl ::
  "(string list \<Rightarrow> time option \<Rightarrow> completed) \<Rightarrow> string \<Rightarrow> string \<Rightarrow> time option \<Rightarrow> time \<Rightarrow> string list \<Rightarrow> time option \<Rightarrow>
   deploy_error + completed" where
  "run_kubectl exec executable ctx deadline now args timeout =
     (let command = kubectl_command executable ctx args in
      rbind (command_timeout deadline now timeout) (\<lambda>t. check_completed command (exec command t)))"

section \<open>Decoding\<close>

definition decode_object :: "(string \<Rightarrow> json option) \<Rightarrow> string \<Rightarrow> deploy_error + json" where
  "decode_object loads output =
     (case loads output of
        None \<Rightarrow> Inl (DeploymentError ''kubectl returned invalid JSON'')
      | Some (JObj ps) \<Rightarrow> Inr (JObj ps)
      | Some _ \<Rightarrow> Inl (DeploymentError ''kubectl returned an unexpected JSON value''))"

fun is_object :: "json \<Rightarrow> bool" where
  "is_object (JObj _) = True"
| "is_object _ = False"

definition decode_resource_list :: "(string \<Rightarrow> json option) \<Rightarrow> string \<Rightarrow> deploy_error + json list" where
  "decode_resource_list loads output =
     rbind (decode_object loads output) (\<lambda>doc.
       case jor (field ''items'' doc) (JList []) of
         JList items \<Rightarrow>
           if list_all is_object items then Inr items
           else Inl (DeploymentError ''kubectl returned an unexpected resource list'')
       | _ \<Rightarrow> Inl (DeploymentError ''kubectl returned an unexpected resource list''))"

definition resource_ref_of :: "json \<Rightarrow> deploy_error + resource_ref" where
  "resource_ref_of value =
     (let metadata = field ''metadata'' value in
      if \<not> is_object metadata then Inl (DeploymentError ''Kubernetes object has no metadata'')
      else case field ''kind'' value of
        JStr (c # kind) \<Rightarrow>
          (case field ''name'' metadata of
             JStr (n # name) \<Rightarrow>
               (case field ''namespace'' metadata of
                  JNull \<Rightarrow> Inr \<lparr>rr_kind = c # kind, rr_name = n # name, rr_namespace = []\<rparr>
                | JStr ns \<Rightarrow> Inr \<lparr>rr_kind = c # kind, rr_name = n # name, rr_namespace = ns\<rparr>
                | _ \<Rightarrow> Inl (DeploymentError (''Kubernetes '' @ (c # kind) @ ''/'' @ (n # name) @ '' has an invalid metadata.namespace'')))
           | _ \<Rightarrow> Inl (DeploymentError (''Kubernetes '' @ (c # kind) @ '' object has no metadata.name'')))
      | _ \<Rightarrow> Inl (DeploymentError ''Kubernetes object has no kind''))"

section \<open>Reads\<close>

definition namespace_args :: "string \<Rightarrow> string list" where
  "namespace_args ns = (if ns = [] then [] else [''--namespace'', ns])"

definition selector_args :: "string \<Rightarrow> string list" where
  "selector_args s = (if s = [] then [] else [''--selector'', s])"

definition get_args :: "string \<Rightarrow> string \<Rightarrow> string \<Rightarrow> bool \<Rightarrow> string list" where
  "get_args kind name ns ignore_not_found =
     [''get'', kind, name] @ (if ignore_not_found then [''--ignore-not-found''] else []) @ namespace_args ns @ [''-o'', ''json'']"

text \<open>\<open>kubectl run args\<close> is the output of a successful command.\<close>

type_synonym kubectl = "string list \<Rightarrow> deploy_error + string"

definition get_object :: "(string \<Rightarrow> json option) \<Rightarrow> kubectl \<Rightarrow> string \<Rightarrow> string \<Rightarrow> string \<Rightarrow> deploy_error + json" where
  "get_object loads kubectl kind name ns = rbind (kubectl (get_args kind name ns False)) (decode_object loads)"

definition get_if_exists ::
  "(string \<Rightarrow> json option) \<Rightarrow> kubectl \<Rightarrow> string \<Rightarrow> string \<Rightarrow> string \<Rightarrow> deploy_error + json option" where
  "get_if_exists loads kubectl kind name ns =
     rbind (kubectl (get_args kind name ns True)) (\<lambda>out.
       if strip out = [] then Inr None else rbind (decode_object loads (strip out)) (\<lambda>v. Inr (Some v)))"

definition object_exists :: "kubectl \<Rightarrow> string \<Rightarrow> string \<Rightarrow> string \<Rightarrow> deploy_error + bool" where
  "object_exists kubectl kind name ns =
     rbind (kubectl ([''get'', kind, name, ''--ignore-not-found'', ''-o'', ''name''] @ namespace_args ns)) (\<lambda>out.
       Inr (strip out \<noteq> []))"

definition get_resources ::
  "(string \<Rightarrow> json option) \<Rightarrow> kubectl \<Rightarrow> resource_ref list \<Rightarrow> bool \<Rightarrow> deploy_error + json list" where
  "get_resources loads kubectl refs ignore_not_found =
     (case remdups (map rr_namespace refs) of
        [ns] \<Rightarrow>
          (case refs of
             [r] \<Rightarrow>
               if ignore_not_found
               then rbind (get_if_exists loads kubectl (rr_kind r) (rr_name r) (rr_namespace r)) (\<lambda>v.
                      Inr (case v of None \<Rightarrow> [] | Some x \<Rightarrow> [x]))
               else rbind (get_object loads kubectl (rr_kind r) (rr_name r) (rr_namespace r)) (\<lambda>v. Inr [v])
           | _ \<Rightarrow>
               rbind (kubectl ([''get''] @ map (\<lambda>r. lower (rr_kind r) @ ''/'' @ rr_name r) refs @ namespace_args ns @
                       (if ignore_not_found then [''--ignore-not-found''] else []) @ [''-o'', ''json''])) (\<lambda>out.
                 if ignore_not_found \<and> strip out = [] then Inr [] else decode_resource_list loads out))
      | _ \<Rightarrow> Inl (DeploymentError ''selected resources must share one namespace''))"

definition list_resources ::
  "(string \<Rightarrow> json option) \<Rightarrow> kubectl \<Rightarrow> string list \<Rightarrow> string \<Rightarrow> string \<Rightarrow> deploy_error + json list" where
  "list_resources loads kubectl kinds ns selector =
     rbind (kubectl ([''get'', join '','' kinds, ''--namespace'', ns, ''-o'', ''json''] @ selector_args selector))
       (decode_resource_list loads)"

definition list_cluster_resources ::
  "(string \<Rightarrow> json option) \<Rightarrow> kubectl \<Rightarrow> string list \<Rightarrow> string \<Rightarrow> deploy_error + json list" where
  "list_cluster_resources loads kubectl kinds selector =
     rbind (kubectl ([''get'', join '','' kinds, ''-o'', ''json''] @ selector_args selector)) (decode_resource_list loads)"

definition list_all_resources ::
  "(string \<Rightarrow> json option) \<Rightarrow> kubectl \<Rightarrow> string list \<Rightarrow> string \<Rightarrow> deploy_error + json list" where
  "list_all_resources loads kubectl kinds selector =
     rbind (kubectl ([''get'', join '','' kinds, ''--all-namespaces'', ''-o'', ''json''] @ selector_args selector))
       (decode_resource_list loads)"

definition api_resource_names :: "kubectl \<Rightarrow> string option \<Rightarrow> deploy_error + string list" where
  "api_resource_names kubectl grp =
     rbind (kubectl ([''api-resources'', ''-o'', ''name''] @ (case grp of None \<Rightarrow> [] | Some g \<Rightarrow> [''--api-group'', g]))) (\<lambda>out.
       Inr (filter (\<lambda>l. l \<noteq> []) (map strip (splitlines out))))"

section \<open>Durations\<close>

definition unit_char :: "char \<Rightarrow> bool" where
  "unit_char c \<longleftrightarrow> c \<in> {CHR ''s'', CHR ''m'', CHR ''h''}"

text \<open>\<open>re.findall("(\d+)([smh])", value)\<close>: a run of digits counts when a unit follows it.\<close>

function duration_parts :: "string \<Rightarrow> (string \<times> char) list" where
  "duration_parts s =
     (case dropWhile (\<lambda>c. \<not> is_digit c) s of
        [] \<Rightarrow> []
      | t \<Rightarrow>
          (case dropWhile is_digit t of
             [] \<Rightarrow> []
           | u # rest \<Rightarrow> if unit_char u then (takeWhile is_digit t, u) # duration_parts rest else duration_parts (u # rest)))"
  by pat_completeness auto

lemma dropWhile_shorter:
  assumes "dropWhile (\<lambda>c. \<not> p c) s = c # t" and "dropWhile p (c # t) = u # rest"
  shows "length (u # rest) < length s"
proof -
  have "p c" using assms(1) by (metis dropWhile_eq_Cons_conv)
  then have "length (dropWhile p (c # t)) \<le> length t" by (simp add: length_dropWhile_le)
  moreover have "length (c # t) \<le> length s" using assms(1) by (metis length_dropWhile_le)
  ultimately show ?thesis using assms(2) by simp
qed

termination duration_parts
proof (relation "measure length")
  fix s x21 x22 u rest
  assume "dropWhile (\<lambda>c. \<not> is_digit c) s = x21 # x22" "dropWhile is_digit (x21 # x22) = u # rest"
  then have "length (u # rest) < length s" by (rule dropWhile_shorter)
  then show "(rest, s) \<in> measure length" "(u # rest, s) \<in> measure length" by simp_all
qed simp

declare duration_parts.simps [simp del]

definition multiplier :: "char \<Rightarrow> nat" where
  "multiplier u = (if u = CHR ''s'' then 1 else if u = CHR ''m'' then 60 else 3600)"

definition timeout_seconds :: "string \<Rightarrow> deploy_error + nat" where
  "timeout_seconds value =
     (let parts = duration_parts value in
      if parts = [] \<or> concat (map (\<lambda>(amount, u). amount @ [u]) parts) \<noteq> value
      then Inl (DeploymentError ''--timeout must use Kubernetes duration syntax, such as 10m or 1h30m'')
      else Inr (sum_list (map (\<lambda>(amount, u). read_nat amount * multiplier u) parts)))"

type_synonym clock_readings = "nat \<Rightarrow> time"

section \<open>Writes and raw requests\<close>

text \<open>One kubectl invocation: its arguments, standard input and own time limit.\<close>

record invocation =
  iv_args :: "string list"
  iv_input :: "string option"
  iv_timeout :: "nat option"

datatype cli_error = Deploy deploy_error | Raised py_error | YamlError string

definition deploying :: "deploy_error + 'a \<Rightarrow> cli_error + 'a" where
  "deploying m = (case m of Inl e \<Rightarrow> Inl (Deploy e) | Inr x \<Rightarrow> Inr x)"

definition raising :: "py_error + 'a \<Rightarrow> cli_error + 'a" where
  "raising m = (case m of Inl e \<Rightarrow> Inl (Raised e) | Inr x \<Rightarrow> Inr x)"

definition plain_invocation :: "string list \<Rightarrow> invocation" where
  "plain_invocation args = \<lparr>iv_args = args, iv_input = None, iv_timeout = None\<rparr>"

definition raw_args :: "string \<Rightarrow> string \<Rightarrow> string list" where
  "raw_args path request_timeout = [''get'', ''--request-timeout='' @ request_timeout, ''--raw'', path]"

definition get_raw :: "string \<Rightarrow> string \<Rightarrow> deploy_error + invocation" where
  "get_raw path request_timeout =
     rbind (timeout_seconds request_timeout) (\<lambda>t.
       Inr \<lparr>iv_args = raw_args path request_timeout, iv_input = None, iv_timeout = (if t = 0 then None else Some t)\<rparr>)"

text \<open>\<open>get_raw_if_not_found\<close>: only the API server's NotFound answer reads as absence.\<close>

definition raw_answer :: "string list \<Rightarrow> completed \<Rightarrow> deploy_error + string option" where
  "raw_answer command c =
     (let detail = or_text (strip (cp_err c)) (strip (cp_out c)) in
      if cp_code c = 0 then Inr (Some (cp_out c))
      else if starts_with ''Error from server (NotFound):'' detail then Inr None
      else Inl (DeploymentError (join '' '' command @ '' failed: '' @ detail)))"

definition kustomize :: "string \<Rightarrow> invocation" where
  "kustomize path = plain_invocation [''kustomize'', path]"

definition apply_rendered :: "string \<Rightarrow> invocation" where
  "apply_rendered rendered =
     \<lparr>iv_args = [''apply'', ''--server-side'', ''--filename=-''], iv_input = Some rendered, iv_timeout = None\<rparr>"

definition delete_rendered :: "string \<Rightarrow> string \<Rightarrow> invocation" where
  "delete_rendered rendered timeout =
     \<lparr>iv_args = [''delete'', ''--filename=-'', ''--ignore-not-found'', ''--wait=true'', ''--timeout='' @ timeout],
      iv_input = Some rendered, iv_timeout = None\<rparr>"

definition rollout_status :: "resource_ref \<Rightarrow> string \<Rightarrow> deploy_error + invocation" where
  "rollout_status r timeout =
     rbind (timeout_seconds timeout) (\<lambda>t.
       Inr \<lparr>iv_args = [''rollout'', ''status'', lower (rr_kind r) @ ''/'' @ rr_name r, ''--namespace'', rr_namespace r,
              ''--timeout='' @ timeout], iv_input = None, iv_timeout = Some t\<rparr>)"

definition label_namespace :: "string \<Rightarrow> string \<Rightarrow> string \<Rightarrow> invocation" where
  "label_namespace name key v = plain_invocation [''label'', ''namespace'', name, key @ ''='' @ v, ''--overwrite'']"

definition annotate_namespace :: "string \<Rightarrow> string \<Rightarrow> string \<Rightarrow> invocation" where
  "annotate_namespace name key v = plain_invocation [''annotate'', ''namespace'', name, key @ ''='' @ v, ''--overwrite'']"

definition remove_namespace_label :: "string \<Rightarrow> string \<Rightarrow> invocation" where
  "remove_namespace_label name key = plain_invocation [''label'', ''namespace'', name, key @ ''-'']"

definition remove_namespace_annotation :: "string \<Rightarrow> string \<Rightarrow> invocation" where
  "remove_namespace_annotation name key = plain_invocation [''annotate'', ''namespace'', name, key @ ''-'']"

definition restart_deployment :: "string \<Rightarrow> string \<Rightarrow> string \<Rightarrow> invocation list" where
  "restart_deployment name ns timeout =
     [plain_invocation [''rollout'', ''restart'', ''deployment/'' @ name, ''--namespace'', ns],
      plain_invocation [''rollout'', ''status'', ''deployment/'' @ name, ''--namespace'', ns, ''--timeout='' @ timeout]]"

text \<open>\<open>d[k]\<close> used as text.\<close>

definition text_item :: "json \<Rightarrow> string \<Rightarrow> py_error + string" where
  "text_item d k = rbind (jitem d k) (\<lambda>v. case v of JStr s \<Rightarrow> Inr s | _ \<Rightarrow> Inl TypeError)"

definition api_base :: "string \<Rightarrow> string" where
  "api_base version = (if CHR ''/'' \<in> set version then ''/apis/'' else ''/api/'') @ version"

text \<open>\<open>next(item for item in resources if ...)\<close>; without such an item \<open>next\<close> raises \<open>StopIteration\<close>.\<close>

fun find_api_resource :: "json \<Rightarrow> json list \<Rightarrow> py_error + json" where
  "find_api_resource kind [] = Inl (ValueError ''StopIteration'')"
| "find_api_resource kind (item # items) =
     rbind (jitem item ''kind'') (\<lambda>k.
       if k \<noteq> kind then find_api_resource kind items
       else rbind (text_item item ''name'') (\<lambda>name.
         if CHR ''/'' \<in> set name then find_api_resource kind items else Inr item))"

definition delete_options :: "json \<Rightarrow> json \<Rightarrow> string \<Rightarrow> bool \<Rightarrow> json" where
  "delete_options uid version propagation match_version =
     JObj [(''apiVersion'', JStr ''v1''), (''kind'', JStr ''DeleteOptions''),
       (''preconditions'', JObj ((''uid'', uid) # (if match_version then [(''resourceVersion'', version)] else []))),
       (''propagationPolicy'', JStr propagation)]"

definition object_path :: "string \<Rightarrow> json \<Rightarrow> json \<Rightarrow> py_error + string" where
  "object_path base resource metadata =
     rbind (jitem resource ''namespaced'') (\<lambda>namespaced.
     rbind (if jtrue namespaced
            then rbind (text_item metadata ''namespace'') (\<lambda>ns. Inr (''/namespaces/'' @ ns)) else Inr []) (\<lambda>scope.
     rbind (text_item resource ''name'') (\<lambda>plural.
     rbind (text_item metadata ''name'') (\<lambda>name.
       Inr (base @ scope @ ''/'' @ plural @ ''/'' @ name)))))"

text \<open>
  \<open>delete_object\<close>: the deletion request, and the resource whose disappearance the caller waits for.
  \<open>discover\<close> is the discovery document of an API group version.
\<close>

definition delete_object ::
  "(string \<Rightarrow> cli_error + json) \<Rightarrow> (json \<Rightarrow> string) \<Rightarrow> json \<Rightarrow> string \<Rightarrow> bool \<Rightarrow> string \<Rightarrow> bool \<Rightarrow>
   cli_error + invocation \<times> string option" where
  "delete_object discover dumps value timeout wait propagation match_version =
     rbind (raising (jitem value ''metadata'')) (\<lambda>metadata.
     rbind (raising (text_item value ''apiVersion'')) (\<lambda>version.
     rbind (discover (api_base version)) (\<lambda>doc.
     rbind (raising (rbind (jitem doc ''resources'') jiter)) (\<lambda>resources.
     rbind (raising (jitem value ''kind'')) (\<lambda>kind.
     rbind (raising (find_api_resource kind resources)) (\<lambda>resource.
     rbind (raising (object_path (api_base version) resource metadata)) (\<lambda>path.
     rbind (raising (jitem metadata ''uid'')) (\<lambda>uid.
     rbind (if match_version then raising (jitem metadata ''resourceVersion'') else Inr JNull) (\<lambda>rv.
     rbind (deploying (timeout_seconds timeout)) (\<lambda>t.
     rbind (raising (text_item resource ''name'')) (\<lambda>plural.
       Inr (\<lparr>iv_args = [''delete'', ''--raw'', path, ''--filename=-''],
              iv_input = Some (dumps (delete_options uid rv propagation match_version)), iv_timeout = Some t\<rparr>,
            if wait then Some (plural @ (if CHR ''/'' \<in> set version then ''.'' @ fst (split_first (CHR ''/'') version) else []))
            else None))))))))))))"

text \<open>The kubeconfig selection of a client: context, namespace and server.\<close>

definition client_selection :: "string \<Rightarrow> json \<Rightarrow> py_error + string \<times> json \<times> json" where
  "client_selection ctx configuration =
     rbind (if ctx = [] then text_item configuration ''current-context'' else Inr ctx) (\<lambda>selected.
     rbind (rbind (jitem configuration ''contexts'') jiter) (\<lambda>contexts.
     rbind (case contexts of [] \<Rightarrow> Inl IndexError | c # _ \<Rightarrow> jitem c ''context'') (\<lambda>c.
     rbind (jget c ''namespace'' JNull) (\<lambda>ns.
     rbind (rbind (jitem configuration ''clusters'') jiter) (\<lambda>clusters.
     rbind (case clusters of [] \<Rightarrow> Inl IndexError | k # _ \<Rightarrow> jitem k ''cluster'') (\<lambda>k.
     rbind (jitem k ''server'') (\<lambda>server.
       Inr (selected, jor ns (JStr ''default''), server))))))))"

section \<open>Waiting\<close>

text \<open>
  \<open>wait_for_object\<close>: round \<open>k\<close> reads the clock, fetches the object and sleeps. A wait that never ends is
  \<open>None\<close>.
\<close>

partial_function (option) wait_for_object ::
  "clock_readings \<Rightarrow> (nat \<Rightarrow> deploy_error + json option) \<Rightarrow> (json \<Rightarrow> bool) \<Rightarrow> time \<Rightarrow> string \<Rightarrow> nat \<Rightarrow>
   (deploy_error + json) option" where
  "wait_for_object clk fetch ready deadline description k =
     (if \<not> clk k < deadline then Some (Inl (DeploymentError (''timed out waiting for '' @ description)))
      else case fetch k of
        Inl e \<Rightarrow> Some (Inl e)
      | Inr None \<Rightarrow> wait_for_object clk fetch ready deadline description (Suc k)
      | Inr (Some v) \<Rightarrow>
          if ready v then Some (Inr v) else wait_for_object clk fetch ready deadline description (Suc k))"

definition established :: "json \<Rightarrow> bool" where
  "established resource \<longleftrightarrow>
     (\<exists>c \<in> set (jlist (field ''conditions'' (field ''status'' resource))).
        field ''type'' c = JStr ''Established'' \<and> field ''status'' c = JStr ''True'')"

text \<open>\<open>wait_for_crds\<close> waits for each definition in turn under one deadline; \<open>k\<close> counts all rounds.\<close>

fun wait_for_crds ::
  "(string \<Rightarrow> clock_readings) \<Rightarrow> (string \<Rightarrow> nat \<Rightarrow> deploy_error + json option) \<Rightarrow> time \<Rightarrow> string list \<Rightarrow>
   (deploy_error + unit) option" where
  "wait_for_crds clk fetch deadline [] = Some (Inr ())"
| "wait_for_crds clk fetch deadline (name # names) =
     (case wait_for_object (clk name) (fetch name) established deadline (''CRD/'' @ name @ '' to become Established'') 0 of
        None \<Rightarrow> None
      | Some (Inl e) \<Rightarrow> Some (Inl e)
      | Some (Inr _) \<Rightarrow> wait_for_crds clk fetch deadline names)"

text \<open>\<open>wait_deleted\<close>: a reused name with another uid counts as deleted.\<close>

partial_function (option) wait_deleted ::
  "clock_readings \<Rightarrow> (nat \<Rightarrow> deploy_error + json option) \<Rightarrow> json \<Rightarrow> time \<Rightarrow> string \<Rightarrow> nat \<Rightarrow> (deploy_error + unit) option" where
  "wait_deleted clk fetch uid deadline message k =
     (case fetch k of
        Inl e \<Rightarrow> Some (Inl e)
      | Inr None \<Rightarrow> Some (Inr ())
      | Inr (Some v) \<Rightarrow>
          if field ''uid'' (field ''metadata'' v) \<noteq> uid then Some (Inr ())
          else if deadline \<le> clk k then Some (Inl (DeploymentError message))
          else wait_deleted clk fetch uid deadline message (Suc k))"

declare wait_for_object.simps [code] wait_deleted.simps [code]

section \<open>Durations and waits, proved\<close>

lemma duration_parts_step:
  assumes "ds \<noteq> []" and "\<And>c. c \<in> set ds \<Longrightarrow> is_digit c" and "unit_char u"
  shows "duration_parts (ds @ u # rest) = (ds, u) # duration_parts rest"
proof -
  obtain c cs where ds: "ds = c # cs" using assms(1) by (cases ds) auto
  have "\<not> is_digit u" using assms(3) by (auto simp: unit_char_def is_digit_def)
  moreover have "takeWhile is_digit (ds @ u # rest) = ds" "dropWhile is_digit (ds @ u # rest) = u # rest"
    using assms(2) calculation by (simp_all add: takeWhile_append2 dropWhile_append2)
  moreover have "dropWhile (\<lambda>c. \<not> is_digit c) (ds @ u # rest) = ds @ u # rest" using assms(2) ds by simp
  ultimately show ?thesis
    unfolding duration_parts.simps [of "ds @ u # rest"] using assms(3) ds by simp
qed

lemma duration_parts_Nil [simp]: "duration_parts [] = []"
  by (simp add: duration_parts.simps)

text \<open>The text of a duration, as users write it.\<close>

definition duration_text :: "(nat \<times> char) list \<Rightarrow> string" where
  "duration_text ps = concat (map (\<lambda>(n, u). show_nat n @ [u]) ps)"

lemma duration_parts_text:
  "list_all (\<lambda>(n, u). unit_char u) ps \<Longrightarrow> duration_parts (duration_text ps) = map (\<lambda>(n, u). (show_nat n, u)) ps"
proof (induction ps)
  case (Cons p ps)
  obtain n u where p: "p = (n, u)" by (cases p)
  have "duration_parts (show_nat n @ u # duration_text ps) = (show_nat n, u) # duration_parts (duration_text ps)"
    using Cons.prems p show_nat_digits by (intro duration_parts_step) auto
  then show ?case using Cons by (simp add: p duration_text_def)
qed (simp add: duration_text_def)

lemma duration_parts_sound:
  "(a, u) \<in> set (duration_parts s) \<Longrightarrow> a \<noteq> [] \<and> list_all is_digit a \<and> unit_char u"
proof (induction s rule: duration_parts.induct)
  case (1 s)
  show ?case
  proof (cases "dropWhile (\<lambda>c. \<not> is_digit c) s")
    case Nil
    have "duration_parts s = []" unfolding duration_parts.simps [of s] Nil list.case ..
    then show ?thesis using "1.prems" by simp
  next
    case (Cons c t)
    have c: "is_digit c" using Cons by (metis dropWhile_eq_Cons_conv)
    then have tk: "takeWhile is_digit (c # t) \<noteq> []" "list_all is_digit (takeWhile is_digit (c # t))"
      by (auto simp: list_all_iff dest: set_takeWhileD)
    show ?thesis
    proof (cases "dropWhile is_digit (c # t)")
      case Nil
      have "duration_parts s = []" unfolding duration_parts.simps [of s] Cons list.case Nil ..
      then show ?thesis using "1.prems" by simp
    next
      case rest: (Cons v rest)
      have "duration_parts s = (if unit_char v then (takeWhile is_digit (c # t), v) # duration_parts rest else duration_parts (v # rest))"
        unfolding duration_parts.simps [of s] Cons list.case rest ..
      then show ?thesis
        using "1.prems" "1.IH" [OF Cons rest] tk by (cases "unit_char v") auto
    qed
  qed
qed

lemma wait_for_object_ends:
  "deadline \<le> clk (k + n) \<Longrightarrow> \<exists>r. wait_for_object clk fetch ready deadline description k = Some r"
proof (induction n arbitrary: k)
  case 0
  then show ?case by (simp add: wait_for_object.simps not_less)
next
  case (Suc n)
  then have ih: "\<exists>r. wait_for_object clk fetch ready deadline description (Suc k) = Some r" by simp
  then show ?case
    by (subst wait_for_object.simps) (auto split: sum.splits option.splits)
qed

lemma wait_for_object_sound:
  assumes "wait_for_object clk fetch ready deadline description k = Some r"
  shows "\<forall>v. r = Inr v \<longrightarrow> (\<exists>j \<ge> k. fetch j = Inr (Some v) \<and> ready v \<and> clk j < deadline)"
proof (rule wait_for_object.raw_induct [OF _ assms, where P = "\<lambda>clk fetch ready deadline description k r.
    \<forall>v. r = Inr v \<longrightarrow> (\<exists>j \<ge> k. fetch j = Inr (Some v) \<and> ready v \<and> clk j < deadline)"])
  fix rec :: "clock_readings \<Rightarrow> (nat \<Rightarrow> deploy_error + json option) \<Rightarrow> (json \<Rightarrow> bool) \<Rightarrow> time \<Rightarrow> string \<Rightarrow> nat \<Rightarrow>
      (deploy_error + json) option"
    and clk fetch ready deadline description k r
  assume ih: "\<And>clk fetch ready deadline description k r. rec clk fetch ready deadline description k = Some r \<Longrightarrow>
      \<forall>v. r = Inr v \<longrightarrow> (\<exists>j \<ge> k. fetch j = Inr (Some v) \<and> ready v \<and> clk j < deadline)"
    and body: "(if \<not> clk k < deadline then Some (Inl (DeploymentError (''timed out waiting for '' @ description)))
      else case fetch k of
        Inl e \<Rightarrow> Some (Inl e)
      | Inr None \<Rightarrow> rec clk fetch ready deadline description (Suc k)
      | Inr (Some v) \<Rightarrow> if ready v then Some (Inr v) else rec clk fetch ready deadline description (Suc k)) = Some r"
  have "(\<exists>e. r = Inl e) \<or> (\<exists>v. r = Inr v \<and> fetch k = Inr (Some v) \<and> ready v \<and> clk k < deadline) \<or>
      rec clk fetch ready deadline description (Suc k) = Some r"
    using body by (auto split: if_splits sum.splits option.splits)
  then show "\<forall>v. r = Inr v \<longrightarrow> (\<exists>j \<ge> k. fetch j = Inr (Some v) \<and> ready v \<and> clk j < deadline)"
    using ih [of clk fetch ready deadline description "Suc k" r] by (metis Inl_Inr_False Suc_leD order_refl sum.inject(2))
qed

section \<open>Properties of the client\<close>

text \<open>A duration written as amounts with units is read as its number of seconds, and whatever is accepted is the
  concatenation of such amounts.\<close>

theorem timeout_seconds_roundtrip:
  "(ps \<noteq> [] \<longrightarrow> list_all (\<lambda>(n, u). unit_char u) ps \<longrightarrow>
      timeout_seconds (duration_text ps) = Inr (sum_list (map (\<lambda>(n, u). n * multiplier u) ps))) \<and>
   (timeout_seconds value = Inr t \<longrightarrow>
      (\<exists>parts. parts \<noteq> [] \<and> list_all (\<lambda>(a, u). a \<noteq> [] \<and> list_all is_digit a \<and> unit_char u) parts \<and>
        value = concat (map (\<lambda>(a, u). a @ [u]) parts) \<and> t = sum_list (map (\<lambda>(a, u). read_nat a * multiplier u) parts)))"
proof (intro conjI impI)
  assume ps: "ps \<noteq> []" "list_all (\<lambda>(n, u). unit_char u) ps"
  have "map (\<lambda>(a, u). a @ [u]) (map (\<lambda>(n, u). (show_nat n, u)) ps) = map (\<lambda>(n, u). show_nat n @ [u]) ps"
    "map (\<lambda>(a, u). read_nat a * multiplier u) (map (\<lambda>(n, u). (show_nat n, u)) ps) = map (\<lambda>(n, u). n * multiplier u) ps"
    by (auto simp: comp_def)
  then show "timeout_seconds (duration_text ps) = Inr (sum_list (map (\<lambda>(n, u). n * multiplier u) ps))"
    unfolding timeout_seconds_def Let_def duration_parts_text [OF ps(2)]
    using ps(1) by (simp add: duration_text_def del: map_map)
next
  assume t: "timeout_seconds value = Inr t"
  have "list_all (\<lambda>(a, u). a \<noteq> [] \<and> list_all is_digit a \<and> unit_char u) (duration_parts value)"
    using duration_parts_sound [of _ _ "value"] by (auto simp: list_all_iff)
  then show "\<exists>parts. parts \<noteq> [] \<and> list_all (\<lambda>(a, u). a \<noteq> [] \<and> list_all is_digit a \<and> unit_char u) parts \<and>
        value = concat (map (\<lambda>(a, u). a @ [u]) parts) \<and> t = sum_list (map (\<lambda>(a, u). read_nat a * multiplier u) parts)"
    using t unfolding timeout_seconds_def Let_def by (intro exI [of _ "duration_parts value"]) (auto split: if_splits)
qed

theorem timeout_seconds_roundtrip_witness: "timeout_seconds ''1h30m'' = Inr 5400"
proof -
  have "duration_text [(1, CHR ''h''), (30, CHR ''m'')] = ''1h30m''" by code_simp
  then show ?thesis
    using timeout_seconds_roundtrip [of "[(1, CHR ''h''), (30, CHR ''m'')]"]
    by (auto simp: unit_char_def multiplier_def)
qed

text \<open>A wait whose clock passes the deadline ends, and what it returns was fetched before the deadline and is
  ready.\<close>

theorem wait_for_object_returns:
  assumes "deadline \<le> clk (k + n)"
  shows "\<exists>r. wait_for_object clk fetch ready deadline description k = Some r \<and>
    (\<forall>v. r = Inr v \<longrightarrow> (\<exists>j \<ge> k. fetch j = Inr (Some v) \<and> ready v \<and> clk j < deadline))"
  using wait_for_object_ends [of deadline clk k n fetch ready description, OF assms] wait_for_object_sound by blast

theorem wait_for_object_returns_witness:
  "\<exists>r. wait_for_object of_nat (\<lambda>k. Inr (if k = 2 then Some (JObj []) else None)) is_object 5 ''x'' 0 = Some r"
  using wait_for_object_returns [of 5 of_nat 0 5 "\<lambda>k. Inr (if k = 2 then Some (JObj []) else None)" is_object "''x''"] by auto

end
