(* ===== verification/Documents.thy ===== *)
theory Documents
  imports Py_Json Py_Text Kubernetes
begin

text \<open>
  The resource loader of the CLI (\<open>kubernetes/documents.py\<close>): the classification of plain YAML scalars in
  the order of the Go decoder, the construction of tagged scalars, mapping keys and whole documents. The
  YAML composer and emitter, base64 text and the float32 formatting of NumPy are parameters. Merge keys are
  expanded by the composer; a node shared by aliases is a repeated tree.
\<close>

section \<open>Binary floating point\<close>

text \<open>\<open>float\<close> rounds a real number to the nearest double, ties to even; a zero has no sign here.\<close>

fun log2_nat :: "nat \<Rightarrow> nat" where
  "log2_nat n = (if n < 2 then 0 else Suc (log2_nat (n div 2)))"

declare log2_nat.simps [simp del]

definition pow2 :: "int \<Rightarrow> rat" where
  "pow2 e = (if 0 \<le> e then 2 ^ nat e else 1 / 2 ^ nat (- e))"

definition binade :: "rat \<Rightarrow> int" where
  "binade q =
     (case quotient_of q of (a, b) \<Rightarrow>
        let e = int (log2_nat (nat a)) - int (log2_nat (nat b)) in if pow2 e \<le> q then e else e - 1)"

definition round_half_even :: "rat \<Rightarrow> int" where
  "round_half_even x =
     (let f = floor x; d = x - of_int f in
      if d < 1 / 2 then f else if 1 / 2 < d then f + 1 else if even f then f else f + 1)"

definition to_double :: "rat \<Rightarrow> pyfloat" where
  "to_double q =
     (if q = 0 then Finite 0
      else let u = pow2 (max (binade (abs q)) (- 1022) - 52); r = of_int (round_half_even (abs q / u)) * u in
        if 2 ^ 1024 \<le> r then Infinite (q < 0) else Finite (if q < 0 then - r else r))"

fun float_of_text :: "string \<Rightarrow> pyfloat" where
  "float_of_text s =
     (case py_float s of None \<Rightarrow> NotANumber | Some (Finite q) \<Rightarrow> to_double q | Some x \<Rightarrow> x)"

fun is_finite :: "pyfloat \<Rightarrow> bool" where
  "is_finite (Finite q) = True"
| "is_finite _ = False"

section \<open>Plain scalars\<close>

datatype scalar = SBool bool | SNull | SFloat pyfloat | SInt int | SStr string

fun scalar_kind :: "scalar \<Rightarrow> string" where
  "scalar_kind (SBool _) = ''bool''"
| "scalar_kind SNull = ''null''"
| "scalar_kind (SFloat _) = ''float''"
| "scalar_kind (SInt _) = ''int''"
| "scalar_kind (SStr _) = ''str''"

definition true_words :: "string list" where
  "true_words = [''y'', ''Y'', ''yes'', ''Yes'', ''YES'', ''true'', ''True'', ''TRUE'', ''on'', ''On'', ''ON'']"

definition false_words :: "string list" where
  "false_words = [''n'', ''N'', ''no'', ''No'', ''NO'', ''false'', ''False'', ''FALSE'', ''off'', ''Off'', ''OFF'']"

definition nulls :: "string list" where
  "nulls = ['''', ''~'', ''null'', ''Null'', ''NULL'']"

definition nonfinite :: "(string \<times> pyfloat) list" where
  "nonfinite =
     map (\<lambda>w. (w, Infinite False)) [''.inf'', ''.Inf'', ''.INF'', ''+.inf'', ''+.Inf'', ''+.INF''] @
     map (\<lambda>w. (w, Infinite True)) [''-.inf'', ''-.Inf'', ''-.INF''] @
     map (\<lambda>w. (w, NotANumber)) [''.nan'', ''.NaN'', ''.NAN'']"

definition all_in :: "string \<Rightarrow> string \<Rightarrow> bool" where
  "all_in cs s \<longleftrightarrow> list_all (\<lambda>c. c \<in> set cs) s"

definition binary_digits :: string where "binary_digits = ''01''"
definition octal_digits :: string where "octal_digits = ''01234567''"
definition hex_digits :: string where "hex_digits = ''0123456789abcdefABCDEF''"

text \<open>\<open>_integer\<close> without its optional sign.\<close>

fun integer_match :: "string \<Rightarrow> bool" where
  "integer_match [] = False"
| "integer_match [c] = is_digit c"
| "integer_match (c # p # ds) =
     (if c = CHR ''0'' then
        (p \<in> set ''bB'' \<and> ds \<noteq> [] \<and> all_in binary_digits ds \<or>
         p \<in> set ''oO'' \<and> ds \<noteq> [] \<and> all_in octal_digits ds \<or>
         p \<in> set ''xX'' \<and> ds \<noteq> [] \<and> all_in hex_digits ds \<or>
         all_in octal_digits (p # ds))
      else is_digit c \<and> list_all is_digit (p # ds))"

definition radix_value :: "char \<Rightarrow> nat" where
  "radix_value c =
     (if is_digit c then digit_value c
      else if of_char c \<ge> (97::nat) then of_char c - 87 else of_char c - 55)"

definition read_radix :: "nat \<Rightarrow> string \<Rightarrow> nat" where
  "read_radix b s = foldl (\<lambda>a c. b * a + radix_value c) 0 s"

text \<open>\<open>int(plain, base)\<close>; a decimal beyond 4300 digits is the \<open>ValueError\<close>.\<close>

definition integer_value :: "string \<Rightarrow> int option" where
  "integer_value plain =
     (case signed plain of (neg, digits) \<Rightarrow>
        let prefix = lower (take 2 digits);
            magnitude =
              (if prefix = ''0b'' then Some (read_radix 2 (drop 2 digits))
               else if prefix = ''0o'' then Some (read_radix 8 (drop 2 digits))
               else if prefix = ''0x'' then Some (read_radix 16 (drop 2 digits))
               else if starts_with ''0'' digits then Some (read_radix 8 digits)
               else if 4300 < length digits then None
               else Some (read_nat digits))
        in map_option (\<lambda>n. if neg then - int n else int n) magnitude)"

definition is_signed :: "string \<Rightarrow> bool" where
  "is_signed s \<longleftrightarrow> s \<noteq> [] \<and> hd s \<in> set ''+-''"

definition fits_go :: "string \<Rightarrow> int \<Rightarrow> bool" where
  "fits_go s n \<longleftrightarrow> - (2 ^ 63) \<le> n \<and> n < 2 ^ 63 \<or> \<not> is_signed s \<and> 0 \<le> n \<and> n < 2 ^ 64"

text \<open>The exponent part of \<open>_decimal\<close> and \<open>_dot_float\<close>.\<close>

fun exponent_match :: "(string \<Rightarrow> bool) \<Rightarrow> string \<Rightarrow> bool" where
  "exponent_match digits [] = True"
| "exponent_match digits (e # s) = digits (snd (signed s))"

definition is_e :: "char \<Rightarrow> bool" where
  "is_e c \<longleftrightarrow> c \<in> set ''eE''"

definition all_digits :: "string \<Rightarrow> bool" where
  "all_digits s \<longleftrightarrow> s \<noteq> [] \<and> list_all is_digit s"

definition decimal_match :: "string \<Rightarrow> bool" where
  "decimal_match s =
     (let body = snd (signed s); mantissa = takeWhile (\<lambda>c. \<not> is_e c) body; rest = dropWhile (\<lambda>c. \<not> is_e c) body in
      (case split_first (CHR ''.'') mantissa of
         (w, None) \<Rightarrow> all_digits w
       | (w, Some f) \<Rightarrow> all_digits (w @ f)) \<and>
      exponent_match all_digits rest)"

definition grouped_digits :: "string \<Rightarrow> bool" where
  "grouped_digits s \<longleftrightarrow> digit_group False s \<noteq> None"

fun dot_float_match :: "string \<Rightarrow> bool" where
  "dot_float_match [] = False"
| "dot_float_match (c # s) =
     (c = CHR ''.'' \<and> grouped_digits (takeWhile (\<lambda>c. \<not> is_e c) s) \<and>
      exponent_match grouped_digits (dropWhile (\<lambda>c. \<not> is_e c) s))"

text \<open>The legacy binary prefix, with a sign inside it.\<close>

definition legacy_binary :: "string \<Rightarrow> string \<Rightarrow> scalar" where
  "legacy_binary plain value =
     (if \<not> starts_with ''0b'' plain \<and> \<not> starts_with ''-0b'' plain then SStr value
      else
        let binary = (if starts_with ''0b'' plain then drop 2 plain else ''-'' @ drop 3 plain);
            ds = snd (signed binary);
            number = (if fst (signed binary) then - int (read_radix 2 ds) else int (read_radix 2 ds))
        in if ds \<noteq> [] \<and> all_in binary_digits ds \<and> fits_go binary number then SInt number else SStr value)"

definition scalar_value :: "string \<Rightarrow> scalar" where
  "scalar_value value =
     (if value \<in> set true_words then SBool True
      else if value \<in> set false_words then SBool False
      else if value \<in> set nulls then SNull
      else case map_of nonfinite value of
        Some x \<Rightarrow> SFloat x
      | None \<Rightarrow>
          if hd value \<notin> set ''+-.0123456789'' then SStr value
          else
            let dotted = (hd value = CHR ''.'');
                plain = (if dotted then value else filter (\<lambda>c. c \<noteq> CHR ''_'') value);
                number = (if integer_match (snd (signed plain)) then integer_value plain else None);
                as_float =
                  (if (if dotted then dot_float_match plain else decimal_match plain) \<and> is_finite (float_of_text plain)
                   then SFloat (float_of_text plain) else legacy_binary plain value)
            in (case number of
                  Some n \<Rightarrow> if fits_go plain n then SInt n else as_float
                | None \<Rightarrow> as_float))"

section \<open>Timestamps\<close>

definition digits_between :: "nat \<Rightarrow> nat \<Rightarrow> string \<Rightarrow> bool" where
  "digits_between lo hi s \<longleftrightarrow> lo \<le> length s \<and> length s \<le> hi \<and> list_all is_digit s"

definition is_leap :: "nat \<Rightarrow> bool" where
  "is_leap y \<longleftrightarrow> 4 dvd y \<and> (\<not> 100 dvd y \<or> 400 dvd y)"

definition month_days :: "nat \<Rightarrow> nat \<Rightarrow> nat" where
  "month_days year month =
     (if month = 2 then if is_leap year then 29 else 28
      else if month \<in> {4, 6, 9, 11} then 30 else 31)"

fun zone_match :: "string \<Rightarrow> bool" where
  "zone_match [] = True"
| "zone_match (c # s) =
     (c = CHR ''Z'' \<and> s = [] \<or>
      c \<in> set ''+-'' \<and> length s = 5 \<and> digits_between 2 2 (take 2 s) \<and> s ! 2 = CHR '':'' \<and> digits_between 2 2 (drop 3 s))"

definition zone_valid :: "string \<Rightarrow> bool" where
  "zone_valid zone \<longleftrightarrow>
     zone = [] \<or> zone = ''Z'' \<or> read_nat (take 2 (drop 1 zone)) \<le> 24 \<and> read_nat (drop 4 zone) \<le> 60"

text \<open>The fraction of a second, when there is one; \<open>None\<close> when its digits are missing.\<close>

fun skip_fraction :: "string \<Rightarrow> string option" where
  "skip_fraction [] = Some []"
| "skip_fraction (c # s) =
     (if c \<in> set ''.,'' then if takeWhile is_digit s = [] then None else Some (dropWhile is_digit s) else Some (c # s))"

definition split_time :: "string \<Rightarrow> (string \<times> string \<times> string \<times> string) option" where
  "split_time s =
     (case split_first (CHR '':'') s of
        (h, Some rest) \<Rightarrow>
          (case split_first (CHR '':'') rest of
             (m, Some rest2) \<Rightarrow>
               (case skip_fraction (dropWhile is_digit rest2) of
                  Some zone \<Rightarrow> Some (h, m, takeWhile is_digit rest2, zone)
                | None \<Rightarrow> None)
           | _ \<Rightarrow> None)
      | _ \<Rightarrow> None)"

definition valid_clock :: "bool \<Rightarrow> string \<Rightarrow> bool" where
  "valid_clock t_separator s =
     (case split_time s of
        None \<Rightarrow> False
      | Some (h, m, sec, zone) \<Rightarrow>
          digits_between 1 2 h \<and> digits_between 1 2 m \<and> digits_between 1 2 sec \<and> zone_match zone \<and>
          t_separator = (zone \<noteq> []) \<and>
          read_nat h < 24 \<and> read_nat m < 60 \<and> read_nat sec < 60 \<and> zone_valid zone)"

definition valid_day_time :: "nat \<Rightarrow> nat \<Rightarrow> string \<Rightarrow> bool" where
  "valid_day_time year month s =
     (let day = takeWhile is_digit s; rest = dropWhile is_digit s in
      digits_between 1 2 day \<and> 1 \<le> month \<and> month \<le> 12 \<and> 1 \<le> read_nat day \<and> read_nat day \<le> month_days year month \<and>
      (case rest of
         [] \<Rightarrow> True
       | c # r \<Rightarrow>
           if c \<in> set ''Tt'' then valid_clock True r
           else if c = CHR '' '' then valid_clock False (dropWhile (\<lambda>x. x = CHR '' '') r)
           else False))"

definition valid_timestamp :: "string \<Rightarrow> bool" where
  "valid_timestamp value =
     (case split_first (CHR ''-'') value of
        (year, Some rest) \<Rightarrow>
          (case split_first (CHR ''-'') rest of
             (month, Some rest2) \<Rightarrow>
               digits_between 4 4 year \<and> digits_between 1 2 month \<and> valid_day_time (read_nat year) (read_nat month) rest2
           | _ \<Rightarrow> False)
      | _ \<Rightarrow> False)"

section \<open>Nodes and documents\<close>

datatype ynode = YScalar string string | YSeq string "ynode list" | YMap string "(ynode \<times> ynode) list"

record yaml_lib =
  base_resolve :: "string \<Rightarrow> bool \<times> bool \<Rightarrow> string"
  compose_all :: "(string \<Rightarrow> bool \<times> bool \<Rightarrow> string) \<Rightarrow> string \<Rightarrow> string + ynode list"
  construct_other :: "ynode \<Rightarrow> string + json"
  decode_base64 :: "string \<Rightarrow> string option"
  float32 :: "pyfloat \<Rightarrow> pyfloat"
  format_scientific :: "rat \<Rightarrow> string"
  format_positional :: "rat \<Rightarrow> string"
  dump_all :: "json list \<Rightarrow> string"

definition core_tag :: "string \<Rightarrow> string" where
  "core_tag kind = ''tag:yaml.org,2002:'' @ kind"

definition scalar_tags :: "string list" where
  "scalar_tags = map core_tag [''bool'', ''null'', ''int'', ''float'', ''timestamp'', ''binary'']"

text \<open>\<open>resolve\<close> for scalar nodes: only plain scalars are classified here.\<close>

definition resolve :: "yaml_lib \<Rightarrow> string \<Rightarrow> bool \<times> bool \<Rightarrow> string" where
  "resolve Y value implicit =
     (if fst implicit \<and> value \<noteq> ''<<'' then core_tag (scalar_kind (scalar_value value)) else base_resolve Y value implicit)"

definition after_last :: "char \<Rightarrow> string \<Rightarrow> string" where
  "after_last c s = rev (takeWhile (\<lambda>x. x \<noteq> c) (rev s))"

definition widen :: "string \<Rightarrow> scalar \<Rightarrow> scalar" where
  "widen expected s =
     (case s of
        SInt n \<Rightarrow> if expected = ''float'' \<and> - (2 ^ 63) \<le> n \<and> n < 2 ^ 63 then SFloat (to_double (of_int n)) else s
      | _ \<Rightarrow> s)"

fun nonfinite_scalar :: "scalar \<Rightarrow> bool" where
  "nonfinite_scalar (SFloat x) = (\<not> is_finite x)"
| "nonfinite_scalar _ = False"

definition construct_scalar :: "yaml_lib \<Rightarrow> bool \<Rightarrow> string \<Rightarrow> string \<Rightarrow> string + scalar" where
  "construct_scalar Y key tag value =
     (let expected = after_last (CHR '':'') tag;
          mismatch = Inl (''cannot decode '' @ value @ '' as !!'' @ expected)
      in if expected = ''binary'' then
           (case decode_base64 Y (filter (\<lambda>c. c \<noteq> CHR 0x0D \<and> c \<noteq> CHR 0x0A) value) of
              None \<Rightarrow> Inl ''invalid base64 scalar''
            | Some t \<Rightarrow> Inr (SStr t))
         else if expected = ''timestamp'' then if valid_timestamp value then Inr (SStr value) else mismatch
         else
           let s = widen expected (scalar_value value) in
           if scalar_kind s = expected then
             if key \<or> \<not> nonfinite_scalar s then Inr s
             else Inl ''non-finite numbers cannot be Kubernetes JSON values''
           else mismatch)"

definition float_key :: "yaml_lib \<Rightarrow> pyfloat \<Rightarrow> string" where
  "float_key Y x =
     (case float32 Y x of
        NotANumber \<Rightarrow> ''.nan''
      | Infinite neg \<Rightarrow> if neg then ''-.inf'' else ''.inf''
      | Finite q \<Rightarrow>
          (case py_int (after_last (CHR ''e'') (format_scientific Y q)) of
             None \<Rightarrow> format_scientific Y q
           | Some e \<Rightarrow> if e < - 4 \<or> 6 \<le> e then format_scientific Y q else format_positional Y q))"

text \<open>The text of a mapping key.\<close>

definition key_text :: "yaml_lib \<Rightarrow> scalar \<Rightarrow> string + string" where
  "key_text Y s =
     (case s of
        SBool b \<Rightarrow> Inr (if b then ''true'' else ''false'')
      | SInt n \<Rightarrow> if n < 2 ^ 63 then Inr (show_int n) else Inl ''unsupported Kubernetes JSON object key''
      | SFloat x \<Rightarrow> Inr (float_key Y x)
      | SStr t \<Rightarrow> Inr t
      | SNull \<Rightarrow> Inl ''unsupported Kubernetes JSON object key'')"

definition construct_key :: "yaml_lib \<Rightarrow> ynode \<Rightarrow> string + string" where
  "construct_key Y node =
     (case node of
        YScalar tag value \<Rightarrow>
          rbind (if tag \<in> set scalar_tags then construct_scalar Y True tag value else Inr (SStr value)) (key_text Y)
      | _ \<Rightarrow> Inl ''Kubernetes JSON object keys must be scalars'')"

fun scalar_json :: "scalar \<Rightarrow> json" where
  "scalar_json (SBool b) = JBool b"
| "scalar_json SNull = JNull"
| "scalar_json (SFloat (Finite q)) = JFloat q"
| "scalar_json (SFloat _) = JNull"
| "scalar_json (SInt n) = JInt n"
| "scalar_json (SStr s) = JStr s"

function construct_object :: "yaml_lib \<Rightarrow> ynode \<Rightarrow> string + json"
  and construct_items :: "yaml_lib \<Rightarrow> ynode list \<Rightarrow> string + json list"
  and construct_mapping :: "yaml_lib \<Rightarrow> (string \<times> json) list \<Rightarrow> (ynode \<times> ynode) list \<Rightarrow> string + (string \<times> json) list" where
  "construct_object Y (YScalar tag value) =
     (if tag \<in> set scalar_tags then rbind (construct_scalar Y False tag value) (\<lambda>s. Inr (scalar_json s))
      else Inr (JStr value))"
| "construct_object Y (YSeq tag nodes) =
     (if tag = core_tag ''seq'' then rbind (construct_items Y nodes) (\<lambda>xs. Inr (JList xs))
      else construct_other Y (YSeq tag nodes))"
| "construct_object Y (YMap tag pairs) =
     (if tag = core_tag ''map'' then rbind (construct_mapping Y [] pairs) (\<lambda>ps. Inr (JObj ps))
      else construct_other Y (YMap tag pairs))"
| "construct_items Y [] = Inr []"
| "construct_items Y (n # ns) =
     rbind (construct_object Y n) (\<lambda>x. rbind (construct_items Y ns) (\<lambda>xs. Inr (x # xs)))"
| "construct_mapping Y mapping [] = Inr mapping"
| "construct_mapping Y mapping ((k, v) # pairs) =
     rbind (construct_key Y k) (\<lambda>key.
       rbind (construct_object Y v) (\<lambda>x. construct_mapping Y (dict_set key x mapping) pairs))"
  by pat_completeness auto

termination
  by (relation "measure (\<lambda>x. case x of Inl (Y, n) \<Rightarrow> size n | Inr (Inl (Y, ns)) \<Rightarrow> size_list size ns
    | Inr (Inr (Y, m, ps)) \<Rightarrow> size_list (size_prod size size) ps)") auto

definition decode_resources :: "yaml_lib \<Rightarrow> string \<Rightarrow> string + json list" where
  "decode_resources Y text =
     rbind (compose_all Y (resolve Y) text) (\<lambda>nodes.
       rbind (construct_items Y nodes) (\<lambda>xs. Inr (filter (\<lambda>x. x \<noteq> JNull) xs)))"

definition encode_resources :: "yaml_lib \<Rightarrow> json list \<Rightarrow> string" where
  "encode_resources Y resources = dump_all Y resources"

section \<open>Integers\<close>

lemma show_nat_head:
  assumes "show_nat n = c # cs" and "0 < n"
  shows "c \<noteq> CHR ''0''"
  using assms
proof (induction n arbitrary: cs rule: show_nat.induct)
  case (1 n)
  show ?case
  proof (cases "n < 10")
    case True
    then have "c = char_of (48 + n)" using 1 by (simp add: show_nat.simps [of n])
    then have "digit_value c = n" using True by simp
    then show ?thesis using 1(3) by (auto simp: digit_value_def)
  next
    case False
    then obtain ds where "show_nat (n div 10) = c # ds"
      using 1(2) by (cases "show_nat (n div 10)") (auto simp: show_nat.simps [of n])
    then show ?thesis using 1(1) [OF False, of ds] False by simp
  qed
qed

lemma show_nat_length: "n < 10 ^ k \<Longrightarrow> 0 < k \<Longrightarrow> length (show_nat n) \<le> k"
proof (induction k arbitrary: n)
  case (Suc k)
  show ?case
  proof (cases "n < 10")
    case False
    then have "n div 10 < 10 ^ k" "0 < k" using Suc.prems by (cases k; auto simp: less_mult_imp_div_less)+
    then have "length (show_nat (n div 10)) \<le> k" by (rule Suc.IH)
    then show ?thesis using False by (simp add: show_nat.simps [of n])
  qed (simp add: show_nat.simps [of n])
qed simp

lemma is_digit_cases:
  assumes "is_digit c"
  shows "c \<in> set ''0123456789''"
proof -
  have digits: "map char_of [48 ..< 58 :: nat] = ''0123456789''" by code_simp
  have "(of_char c :: nat) \<in> set [48 ..< 58]"
    using assms unfolding is_digit_def set_upt atLeastLessThan_iff by linarith
  then have "char_of (of_char c :: nat) \<in> set (map char_of [48 ..< 58 :: nat])" unfolding set_map by (rule imageI)
  then show ?thesis unfolding digits by simp
qed

definition reserved_words :: "string list" where
  "reserved_words = true_words @ false_words @ nulls @ map fst nonfinite"

fun number_like :: "string \<Rightarrow> bool" where
  "number_like [] = False"
| "number_like [c] = (c \<in> set ''0123456789'')"
| "number_like (c # d # cs) = (c \<in> set ''0123456789'' \<or> c = CHR ''-'' \<and> d \<in> set ''0123456789'')"

lemma reserved_not_number: "list_all (\<lambda>w. \<not> number_like w) reserved_words"
  by code_simp

lemma not_reserved:
  assumes "number_like w"
  shows "w \<notin> set true_words" "w \<notin> set false_words" "w \<notin> set nulls" "map_of nonfinite w = None"
proof -
  have "w \<notin> set reserved_words" using assms reserved_not_number unfolding list_all_iff by blast
  then show "w \<notin> set true_words" "w \<notin> set false_words" "w \<notin> set nulls" "map_of nonfinite w = None"
    unfolding reserved_words_def by (auto simp: map_of_eq_None_iff)
qed

lemma digit_text_words:
  assumes "is_digit c"
  shows "number_like (c # cs)" "number_like (CHR ''-'' # c # cs)"
  using is_digit_cases [OF assms] by (cases cs; simp del: set_simps)+

lemma digits_plain: "list_all is_digit s \<Longrightarrow> filter (\<lambda>c. c \<noteq> CHR ''_'') s = s"
  by (rule filter_True) (auto simp: list_all_iff is_digit_def)

lemma decimal_integer:
  assumes "0 < n" and "n < 2 ^ 64"
  shows "integer_match (show_nat n)" "integer_value (show_nat n) = Some (int n)"
    "integer_value (CHR ''-'' # show_nat n) = Some (- int n)"
proof -
  obtain c cs where s: "show_nat n = c # cs" by (cases "show_nat n") auto
  have c0: "c \<noteq> CHR ''0''" using show_nat_head [OF s assms(1)] .
  have ds: "is_digit c" "list_all is_digit cs" using show_nat_digits [of _ n] s by (auto simp: list_all_iff)
  show "integer_match (show_nat n)" using ds c0 s by (cases cs) auto
  have "(n :: nat) < 10 ^ 20" using assms(2) by (rule less_trans) simp
  then have "length (show_nat n) \<le> 20" by (rule show_nat_length) simp
  then have len: "length (c # cs) \<le> 4300" using s by simp
  have lc: "lower_char c = c" using is_digit_cases [OF ds(1)] by (auto simp: lower_char_def)
  have prefix: "lower (take 2 (c # cs)) \<notin> {''0b'', ''0o'', ''0x''}" using c0 lc by (auto simp: lower_def)
  have zero: "\<not> starts_with ''0'' (c # cs)" using c0 by (auto simp: starts_with_iff)
  have sg: "signed (c # cs) = (False, c # cs)" using is_digit_cases [OF ds(1)] by auto
  have val: "read_nat (c # cs) = n" using read_show_nat [of n] s by simp
  show "integer_value (show_nat n) = Some (int n)"
    using prefix zero len val unfolding integer_value_def s sg by (simp add: Let_def)
  show "integer_value (CHR ''-'' # show_nat n) = Some (- int n)"
    using prefix zero len val unfolding integer_value_def s by (simp add: Let_def)
qed

lemma scalar_value_nat:
  assumes "n < 2 ^ 64"
  shows "scalar_value (show_nat n) = SInt (int n)"
proof (cases "n = 0")
  case True
  have "scalar_value (show_nat 0) = SInt (int 0)" by code_simp
  then show ?thesis unfolding True .
next
  case False
  then have n: "0 < n" by simp
  obtain c cs where s: "show_nat n = c # cs" by (cases "show_nat n") auto
  have ds: "is_digit c" "list_all is_digit (c # cs)" using show_nat_digits [of _ n] s by (auto simp: list_all_iff)
  have hd: "c \<in> set ''+-.0123456789''" "c \<noteq> CHR ''.''" "signed (c # cs) = (False, c # cs)"
    "\<not> is_signed (c # cs)" using is_digit_cases [OF ds(1)] by (auto simp: is_signed_def)
  have "fits_go (c # cs) (int n)" using assms hd(4) unfolding fits_go_def by simp
  then show ?thesis
    using not_reserved [OF digit_text_words(1) [OF ds(1)]] hd(1-3) digits_plain [OF ds(2)] decimal_integer(1,2) [OF n assms]
    unfolding scalar_value_def s by (simp add: Let_def del: set_simps)
qed

lemma scalar_value_neg:
  assumes "0 < n" and "n \<le> 2 ^ 63"
  shows "scalar_value (CHR ''-'' # show_nat n) = SInt (- int n)"
proof -
  have n64: "n < 2 ^ 64" using assms(2) by (rule le_less_trans) simp
  obtain c cs where s: "show_nat n = c # cs" by (cases "show_nat n") auto
  have ds: "is_digit c" "list_all is_digit (c # cs)" using show_nat_digits [of _ n] s by (auto simp: list_all_iff)
  have plain: "filter (\<lambda>c. c \<noteq> CHR ''_'') (CHR ''-'' # c # cs) = CHR ''-'' # c # cs" using digits_plain [OF ds(2)] by simp
  have hd: "CHR ''-'' \<in> set ''+-.0123456789''" "signed (CHR ''-'' # c # cs) = (True, c # cs)" by simp_all
  have "fits_go (CHR ''-'' # c # cs) (- int n)" using assms unfolding fits_go_def by simp
  then show ?thesis
    using not_reserved [OF digit_text_words(2) [OF ds(1)]] hd plain decimal_integer(1,3) [OF assms(1) n64]
    unfolding scalar_value_def s by (simp add: Let_def del: set_simps filter.simps)
qed

lemma scalar_value_int_range: "scalar_value s = SInt n \<Longrightarrow> - (2 ^ 63) \<le> n \<and> n < 2 ^ 64"
proof -
  have fits: "fits_go t m \<Longrightarrow> - (2 ^ 63) \<le> m \<and> m < 2 ^ 64" for t m unfolding fits_go_def by auto
  have legacy: "legacy_binary p v = SInt m \<Longrightarrow> \<exists>t. fits_go t m" for p v m
    unfolding legacy_binary_def Let_def by (auto split: if_splits)
  assume "scalar_value s = SInt n"
  then have "\<exists>t. fits_go t n"
    unfolding scalar_value_def Let_def by (auto split: if_splits option.splits dest: legacy)
  then show ?thesis using fits by blast
qed

section \<open>Decoded documents\<close>

text \<open>What the API server accepts as JSON: integers of 64 bits and no key twice in an object.\<close>

fun json_wf :: "json \<Rightarrow> bool" where
  "json_wf (JInt n) = (- (2 ^ 63) \<le> n \<and> n < 2 ^ 64)"
| "json_wf (JList xs) = list_all json_wf xs"
| "json_wf (JObj ps) = (distinct (map fst ps) \<and> list_all (\<lambda>p. json_wf (snd p)) ps)"
| "json_wf _ = True"

lemma construct_scalar_wf: "construct_scalar Y False tag v = Inr s \<Longrightarrow> json_wf (scalar_json s)"
proof (cases s)
  case (SInt n)
  assume "construct_scalar Y False tag v = Inr s"
  then have "scalar_value v = SInt n"
    using SInt unfolding construct_scalar_def Let_def widen_def
    by (auto split: if_splits option.splits scalar.splits)
  then show ?thesis using SInt scalar_value_int_range by simp
next
  case (SFloat x)
  then show ?thesis by (cases x) auto
qed auto

lemma dict_set_wf:
  assumes "distinct (map fst m)" and "list_all (\<lambda>p. json_wf (snd p)) m" and "json_wf x"
  shows "distinct (map fst (dict_set k x m))" "list_all (\<lambda>p. json_wf (snd p)) (dict_set k x m)"
proof -
  show "distinct (map fst (dict_set k x m))" using assms(1) by (rule distinct_dict_set)
  show "list_all (\<lambda>p. json_wf (snd p)) (dict_set k x m)"
    using assms(2,3) by (induction m) (auto split: if_splits)
qed

definition other_wf :: "yaml_lib \<Rightarrow> bool" where
  "other_wf Y \<longleftrightarrow> (\<forall>n d. construct_other Y n = Inr d \<longrightarrow> json_wf d)"

lemma construct_wf:
  "other_wf Y \<Longrightarrow> construct_object Y n = Inr d \<Longrightarrow> json_wf d"
  "other_wf Y \<Longrightarrow> construct_items Y ns = Inr ds \<Longrightarrow> list_all json_wf ds"
  "other_wf Y \<Longrightarrow> construct_mapping Y m ps = Inr m' \<Longrightarrow> distinct (map fst m) \<Longrightarrow> list_all (\<lambda>p. json_wf (snd p)) m \<Longrightarrow>
     distinct (map fst m') \<and> list_all (\<lambda>p. json_wf (snd p)) m'"
proof (induction Y n and Y ns and Y m ps arbitrary: d and ds and m'
    rule: construct_object_construct_items_construct_mapping.induct)
  case (1 Y tag v)
  then show ?case by (auto split: if_splits elim!: rbind_InrE dest: construct_scalar_wf)
next
  case (2 Y tag nodes)
  then show ?case by (auto simp: other_wf_def split: if_splits elim!: rbind_InrE)
next
  case (3 Y tag pairs)
  then show ?case by (auto simp: other_wf_def split: if_splits elim!: rbind_InrE)
next
  case (5 Y n ns)
  then show ?case by (auto elim!: rbind_InrE)
next
  case (7 Y m k v pairs)
  from \<open>construct_mapping Y m ((k, v) # pairs) = Inr m'\<close>
  obtain key x where steps: "construct_key Y k = Inr key" "construct_object Y v = Inr x"
    "construct_mapping Y (dict_set key x m) pairs = Inr m'" by (auto elim!: rbind_InrE)
  have "json_wf x" using 7(1) [OF \<open>other_wf Y\<close> steps(2)] .
  then show ?case
    using 7(2) [OF \<open>other_wf Y\<close> steps(3)] dict_set_wf [OF 7(5,6)] by blast
qed auto

section \<open>Properties of the loader\<close>

text \<open>Every integer of the 64-bit ranges of Go reads back from its decimal text as that integer, and no scalar is
  ever read as an integer outside these ranges.\<close>

theorem scalar_integers_roundtrip:
  "(- (2 ^ 63) \<le> n \<and> n < 2 ^ 64 \<longrightarrow> scalar_value (show_int n) = SInt n) \<and>
   (scalar_value s = SInt m \<longrightarrow> - (2 ^ 63) \<le> m \<and> m < 2 ^ 64)"
proof (intro conjI [OF impI] impI)
  assume n: "- (2 ^ 63) \<le> n \<and> n < 2 ^ 64"
  show "scalar_value (show_int n) = SInt n"
  proof (cases "n < 0")
    case True
    then have "nat (- n) \<le> 2 ^ 63" "0 < nat (- n)" using n by auto
    then show ?thesis using True scalar_value_neg [of "nat (- n)"] by (simp add: show_int_def)
  next
    case False
    then have "nat n < 2 ^ 64" using n by (simp add: nat_less_iff)
    then show ?thesis using False scalar_value_nat [of "nat n"] by (simp add: show_int_def)
  qed
qed (rule scalar_value_int_range)

theorem scalar_integers_roundtrip_witness:
  "scalar_value (show_int (- 9223372036854775808)) = SInt (- 9223372036854775808) \<and>
   scalar_value ''18446744073709551616'' \<noteq> SInt 18446744073709551616"
proof (intro conjI)
  show "scalar_value (show_int (- 9223372036854775808)) = SInt (- 9223372036854775808)"
    using scalar_integers_roundtrip [of "- 9223372036854775808"] by simp
  show "scalar_value ''18446744073709551616'' \<noteq> SInt 18446744073709551616"
    using scalar_integers_roundtrip [of 0 "''18446744073709551616''" 18446744073709551616] by auto
qed

text \<open>Every decoded resource is a non-null document that the API server accepts: its objects have no key twice and
  its integers fit in 64 bits.\<close>

theorem decoded_resources_wf:
  assumes "other_wf Y" and "decode_resources Y source = Inr docs"
  shows "list_all (\<lambda>d. d \<noteq> JNull \<and> json_wf d) docs"
  using assms(2) construct_wf(2) [OF assms(1)] unfolding decode_resources_def
  by (auto simp: list_all_iff elim!: rbind_InrE)

definition demo_yaml :: yaml_lib where
  "demo_yaml = \<lparr>base_resolve = (\<lambda>v i. core_tag ''str''),
     compose_all = (\<lambda>res t. Inr [YMap (core_tag ''map'')
       [(YScalar (core_tag ''str'') ''kind'', YScalar (res t (False, True)) t),
        (YScalar (res ''yes'' (True, False)) ''yes'', YScalar (res ''no'' (True, False)) ''no''),
        (YScalar (core_tag ''str'') ''true'', YScalar (core_tag ''null'') '''')], YScalar (core_tag ''null'') ''~'']),
     construct_other = (\<lambda>n. Inl ''unsupported tag''), decode_base64 = (\<lambda>s. None), float32 = id,
     format_scientific = (\<lambda>q. []), format_positional = (\<lambda>q. []), dump_all = (\<lambda>xs. [])\<rparr>"

theorem decoded_resources_wf_witness:
  "decode_resources demo_yaml ''on'' = Inr [JObj [(''kind'', JStr ''on''), (''true'', JNull)]] \<and>
   json_wf (JObj [(''kind'', JStr ''on''), (''true'', JNull)])"
proof -
  have other: "other_wf demo_yaml" by (simp add: other_wf_def demo_yaml_def)
  have run: "decode_resources demo_yaml ''on'' = Inr [JObj [(''kind'', JStr ''on''), (''true'', JNull)]]" by code_simp
  then show ?thesis using decoded_resources_wf [OF other run] by simp
qed

end
