(* ===== verification/Manifest.thy ===== *)
theory Manifest
  imports Documents "HOL-Library.Multiset"
begin

text \<open>
  Deployment manifests of the CLI (\<open>deployment/manifest.py\<close>): indexing rendered resources into a deployment,
  loading a Kustomize root, and the projection of a deployment under an instance prefix with its reversible
  staging of environment maps. The YAML library, Kustomize, the file system and the text that \<open>str\<close> gives
  for floats and containers are parameters.
\<close>

section \<open>Deployments\<close>

record runtime_cache =
  rc_name :: string
  rc_namespace :: string
  rc_directory :: string
  rc_access_mode :: string
  rc_retention :: string

record foretoken_deployment =
  fd_path :: "string option"
  fd_rendered :: string
  fd_namespace :: string
  fd_frontend :: string
  fd_hostname :: string
  fd_models :: "(string \<times> string) list"
  fd_caches :: "runtime_cache list"
  fd_objects :: "json list"
  fd_name :: string
  fd_uid :: string

definition api_group :: string where
  "api_group = ''inference.foretoken.io/''"

definition deployment_kind :: string where
  "deployment_kind = ''InferenceDeployment''"

definition deploy_fail :: "string \<Rightarrow> cli_error + 'a" where
  "deploy_fail message = Inl (Deploy (DeploymentError message))"

text \<open>\<open>str(x)\<close>.\<close>

definition py_str :: "(json \<Rightarrow> string) \<Rightarrow> json \<Rightarrow> string" where
  "py_str render v =
     (case v of
        JStr s \<Rightarrow> s
      | JInt n \<Rightarrow> show_int n
      | JBool b \<Rightarrow> if b then ''True'' else ''False''
      | JNull \<Rightarrow> ''None''
      | _ \<Rightarrow> render v)"

text \<open>\<open>str(x or "").strip()\<close>.\<close>

definition clean_text :: "(json \<Rightarrow> string) \<Rightarrow> json \<Rightarrow> string" where
  "clean_text render v = strip (py_str render (jor v (JStr [])))"

text \<open>\<open>d.get("apiVersion", "").startswith(group)\<close>, and the same on \<open>d["apiVersion"]\<close>.\<close>

definition group_member :: "json \<Rightarrow> py_error + bool" where
  "group_member v = (case v of JStr s \<Rightarrow> Inr (starts_with api_group s) | _ \<Rightarrow> Inl AttributeError)"

definition in_group :: "json \<Rightarrow> py_error + bool" where
  "in_group document = rbind (jget document ''apiVersion'' (JStr [])) group_member"

definition item_in_group :: "json \<Rightarrow> py_error + bool" where
  "item_in_group document = rbind (jitem document ''apiVersion'') group_member"

fun map_list :: "('a \<Rightarrow> 'e + 'b) \<Rightarrow> 'a list \<Rightarrow> 'e + 'b list" where
  "map_list f [] = Inr []"
| "map_list f (x # xs) = rbind (f x) (\<lambda>y. rbind (map_list f xs) (\<lambda>ys. Inr (y # ys)))"

fun filter_list :: "('a \<Rightarrow> 'e + bool) \<Rightarrow> 'a list \<Rightarrow> 'e + 'a list" where
  "filter_list f [] = Inr []"
| "filter_list f (x # xs) =
     rbind (f x) (\<lambda>b. rbind (filter_list f xs) (\<lambda>ys. Inr (if b then x # ys else ys)))"

section \<open>Indexing rendered resources\<close>

record manifest_index =
  mi_frontends :: "json list"
  mi_models :: "(string \<times> string) list"
  mi_caches :: "runtime_cache list"
  mi_namespaces :: "string list"

definition empty_index :: manifest_index where
  "empty_index = \<lparr>mi_frontends = [], mi_models = [], mi_caches = [], mi_namespaces = []\<rparr>"

definition metadata_of :: "json \<Rightarrow> py_error + json" where
  "metadata_of document = rbind (jget document ''metadata'' JNull) (\<lambda>m. Inr (jor m (JObj [])))"

definition spec_of :: "json \<Rightarrow> py_error + json" where
  "spec_of document = rbind (jget document ''spec'' JNull) (\<lambda>m. Inr (jor m (JObj [])))"

definition clean_field :: "(json \<Rightarrow> string) \<Rightarrow> json \<Rightarrow> string \<Rightarrow> py_error + string" where
  "clean_field render d k = rbind (jget d k JNull) (\<lambda>v. Inr (clean_text render v))"

definition or_default :: "(json \<Rightarrow> string) \<Rightarrow> json \<Rightarrow> string \<Rightarrow> string" where
  "or_default render v dflt = py_str render (jor v (JStr dflt))"

text \<open>The \<open>RuntimeCache\<close> branch.\<close>

definition cache_manifest :: "(json \<Rightarrow> string) \<Rightarrow> string \<Rightarrow> string \<Rightarrow> json \<Rightarrow> cli_error + runtime_cache" where
  "cache_manifest render name ns spec =
     (if name = [] \<or> ns = [] \<or> \<not> is_object spec
      then deploy_fail ''RuntimeCache requires metadata.name, metadata.namespace, and spec''
      else
        case (case map_of (jobj spec) ''directory'' of None \<Rightarrow> JStr [] | Some d \<Rightarrow> d) of
          JStr directory \<Rightarrow>
            if has_key ''directory'' spec \<and> directory = []
            then deploy_fail (''RuntimeCache/'' @ name @ '' directory must be a nonempty path string'')
            else Inr \<lparr>rc_name = name, rc_namespace = ns, rc_directory = directory,
                   rc_access_mode = or_default render (field ''accessMode'' spec) ''ReadWriteMany'',
                   rc_retention = or_default render (field ''retentionPolicy'' spec) ''Retain''\<rparr>
        | _ \<Rightarrow> deploy_fail (''RuntimeCache/'' @ name @ '' directory must be a nonempty path string''))"

definition add_namespace :: "string \<Rightarrow> manifest_index \<Rightarrow> manifest_index" where
  "add_namespace ns m = m\<lparr>mi_namespaces := (if ns \<in> set (mi_namespaces m) then mi_namespaces m else mi_namespaces m @ [ns])\<rparr>"

definition index_cache :: "(json \<Rightarrow> string) \<Rightarrow> json \<Rightarrow> json \<Rightarrow> string \<Rightarrow> manifest_index \<Rightarrow> cli_error + manifest_index" where
  "index_cache render document metadata ns m =
     rbind (raising (clean_field render metadata ''name'')) (\<lambda>name.
     rbind (raising (spec_of document)) (\<lambda>spec.
     rbind (cache_manifest render name ns spec) (\<lambda>cache.
       Inr (m\<lparr>mi_caches := mi_caches m @ [cache]\<rparr>))))"

definition index_model :: "(json \<Rightarrow> string) \<Rightarrow> json \<Rightarrow> json \<Rightarrow> manifest_index \<Rightarrow> cli_error + manifest_index" where
  "index_model render document metadata m =
     rbind (raising (clean_field render metadata ''name'')) (\<lambda>name.
     rbind (raising (rbind (spec_of document) (\<lambda>spec. clean_field render spec ''model''))) (\<lambda>model.
       if name = [] \<or> model = [] then deploy_fail ''each ModelService requires metadata.name and spec.model''
       else Inr (m\<lparr>mi_models := dict_set name model (mi_models m)\<rparr>)))"

text \<open>The kinds are compared with strings; a list or dictionary has no hash for the set of kinds.\<close>

definition index_service ::
  "(json \<Rightarrow> string) \<Rightarrow> json \<Rightarrow> json \<Rightarrow> json \<Rightarrow> string \<Rightarrow> manifest_index \<Rightarrow> cli_error + manifest_index" where
  "index_service render document metadata kind ns m =
     (case kind of
        JList _ \<Rightarrow> Inl (Raised TypeError)
      | JObj _ \<Rightarrow> Inl (Raised TypeError)
      | _ \<Rightarrow>
          if kind = JStr ''FrontendService''
          then Inr (add_namespace ns (m\<lparr>mi_frontends := mi_frontends m @ [document]\<rparr>))
          else if kind = JStr ''ModelService'' then index_model render document metadata (add_namespace ns m)
          else Inr m)"

definition index_document :: "(json \<Rightarrow> string) \<Rightarrow> nat \<Rightarrow> json \<Rightarrow> manifest_index \<Rightarrow> cli_error + manifest_index" where
  "index_document render i document m =
     (if \<not> is_object document then deploy_fail (''rendered document '' @ show_nat i @ '' is not a Kubernetes object'')
      else
        rbind (raising (metadata_of document)) (\<lambda>metadata.
        if \<not> starts_with api_group (or_default render (field ''apiVersion'' document) []) then Inr m
        else
          rbind (raising (clean_field render metadata ''namespace'')) (\<lambda>ns.
          let kind = field ''kind'' document in
          if kind = JStr ''RuntimeCache'' then index_cache render document metadata ns m
          else index_service render document metadata kind ns m)))"

fun index_documents :: "(json \<Rightarrow> string) \<Rightarrow> nat \<Rightarrow> json list \<Rightarrow> manifest_index \<Rightarrow> cli_error + manifest_index" where
  "index_documents render i [] m = Inr m"
| "index_documents render i (d # ds) m = rbind (index_document render i d m) (index_documents render (Suc i) ds)"

definition path_text :: "string option \<Rightarrow> string" where
  "path_text path = (case path of None \<Rightarrow> ''None'' | Some p \<Rightarrow> p)"

text \<open>The checks after the loop, on the one frontend.\<close>

definition finish_deployment ::
  "(json \<Rightarrow> string) \<Rightarrow> string option \<Rightarrow> string \<Rightarrow> string option \<Rightarrow> string \<Rightarrow> json list \<Rightarrow> manifest_index \<Rightarrow> json \<Rightarrow> string \<Rightarrow>
   cli_error + foretoken_deployment" where
  "finish_deployment render path rendered instance_name uid documents m frontend ns =
     rbind (raising (rbind (metadata_of frontend) (\<lambda>metadata. clean_field render metadata ''name''))) (\<lambda>name.
     if name = [] then deploy_fail ''FrontendService requires metadata.name''
     else if list_ex (\<lambda>c. rc_namespace c \<noteq> ns) (mi_caches m)
     then deploy_fail ''RuntimeCache resources must share the FrontendService and ModelService namespace''
     else if 1 < length (mi_caches m) then deploy_fail ''a deployment may render at most one RuntimeCache''
     else
       rbind (raising (rbind (spec_of frontend) (\<lambda>spec. clean_field render spec ''hostname''))) (\<lambda>hostname.
         Inr \<lparr>fd_path = path, fd_rendered = rendered, fd_namespace = ns, fd_frontend = name, fd_hostname = hostname,
               fd_models = mi_models m, fd_caches = mi_caches m, fd_objects = documents,
               fd_name = (case instance_name of None \<Rightarrow> name | Some n \<Rightarrow> or_text n name), fd_uid = uid\<rparr>))"

definition parse_documents ::
  "(json \<Rightarrow> string) \<Rightarrow> string option \<Rightarrow> string \<Rightarrow> string option \<Rightarrow> string \<Rightarrow> json list \<Rightarrow> cli_error + foretoken_deployment" where
  "parse_documents render path rendered instance_name uid documents =
     (if documents = [] then deploy_fail (''deployment rendered no Kubernetes resources: '' @ path_text path)
      else
        rbind (index_documents render 1 documents empty_index) (\<lambda>m.
        case mi_frontends m of
          [frontend] \<Rightarrow>
            if mi_models m = [] then deploy_fail ''a deployment must render at least one Foretoken ModelService''
            else (case mi_namespaces m of
              [ns] \<Rightarrow> finish_deployment render path rendered instance_name uid documents m frontend ns
            | _ \<Rightarrow> deploy_fail ''FrontendService and ModelService resources must share one namespace'')
        | _ \<Rightarrow> deploy_fail ''a deployment must render exactly one Foretoken FrontendService''))"

definition parse_deployment ::
  "yaml_lib \<Rightarrow> (json \<Rightarrow> string) \<Rightarrow> string option \<Rightarrow> string \<Rightarrow> string option \<Rightarrow> string \<Rightarrow> cli_error + foretoken_deployment" where
  "parse_deployment Y render path rendered instance_name uid =
     (case decode_resources Y rendered of
        Inl e \<Rightarrow> deploy_fail (''deployment rendered invalid YAML: '' @ e)
      | Inr documents \<Rightarrow> parse_documents render path rendered instance_name uid documents)"

definition with_objects ::
  "yaml_lib \<Rightarrow> (json \<Rightarrow> string) \<Rightarrow> foretoken_deployment \<Rightarrow> json list \<Rightarrow> cli_error + foretoken_deployment" where
  "with_objects Y render d objects =
     parse_deployment Y render (fd_path d) (encode_resources Y objects) (Some (fd_name d)) (fd_uid d)"

text \<open>\<open>service_refs\<close>: frontends first, then models, each in document order.\<close>

definition service_refs_of :: "string \<Rightarrow> string \<Rightarrow> json list \<Rightarrow> py_error + resource_ref list" where
  "service_refs_of ns kind objects =
     rbind (filter_list (\<lambda>d. rbind (jget d ''kind'' JNull) (\<lambda>k. if k = JStr kind then in_group d else Inr False)) objects)
       (map_list (\<lambda>d. rbind (jitem d ''metadata'') (\<lambda>m. rbind (text_item m ''name'') (\<lambda>name.
          Inr \<lparr>rr_kind = kind, rr_name = name, rr_namespace = ns\<rparr>))))"

definition service_refs :: "foretoken_deployment \<Rightarrow> py_error + resource_ref list" where
  "service_refs d =
     rbind (service_refs_of (fd_namespace d) ''FrontendService'' (fd_objects d)) (\<lambda>fs.
     rbind (service_refs_of (fd_namespace d) ''ModelService'' (fd_objects d)) (\<lambda>ms. Inr (fs @ ms)))"

definition resource_references :: "foretoken_deployment \<Rightarrow> py_error + json list" where
  "resource_references d =
     rbind (filter_list (\<lambda>doc. rbind (jitem doc ''kind'') (\<lambda>k.
              Inr (k \<notin> {JStr ''Namespace'', JStr deployment_kind}))) (fd_objects d))
       (map_list (\<lambda>doc. rbind (jitem doc ''apiVersion'') (\<lambda>v. rbind (jitem doc ''kind'') (\<lambda>k.
          rbind (jitem doc ''metadata'') (\<lambda>m. rbind (jitem m ''name'') (\<lambda>n.
            Inr (JObj [(''apiVersion'', v), (''kind'', k), (''name'', n)])))))))"

text \<open>\<open>service_requires_execution\<close>.\<close>

definition wants_replicas :: "json \<Rightarrow> py_error + bool" where
  "wants_replicas d = rbind (jget d ''replicas'' (JInt 1)) (\<lambda>n. Inr (n \<notin> {JInt 0, JFloat 0, JBool False}))"

fun any_list :: "('a \<Rightarrow> 'e + bool) \<Rightarrow> 'a list \<Rightarrow> 'e + bool" where
  "any_list f [] = Inr False"
| "any_list f (x # xs) = rbind (f x) (\<lambda>b. if b then Inr True else any_list f xs)"

definition service_requires_execution :: "json \<Rightarrow> py_error + bool" where
  "service_requires_execution service =
     rbind (spec_of service) (\<lambda>spec.
     rbind (jget spec ''suspend'' (JBool False)) (\<lambda>suspended.
     if jtrue suspended then Inr False
     else
       rbind (jitem service ''kind'') (\<lambda>kind.
       if kind = JStr ''ModelService'' then
         if field ''autoscaling'' spec \<noteq> JNull then Inr True
         else if jtrue (field ''modelPools'' spec)
         then rbind (jiter (field ''modelPools'' spec)) (any_list wants_replicas)
         else wants_replicas spec
       else wants_replicas spec)))"

section \<open>Environment scopes\<close>

text \<open>\<open>d[k] = v\<close>.\<close>

fun set_field :: "string \<Rightarrow> json \<Rightarrow> json \<Rightarrow> py_error + json" where
  "set_field k v (JObj ps) = Inr (JObj (dict_set k v ps))"
| "set_field k v _ = Inl TypeError"

definition is_model_service :: "json \<Rightarrow> py_error + bool" where
  "is_model_service document =
     rbind (jitem document ''kind'') (\<lambda>kind. if kind \<noteq> JStr ''ModelService'' then Inr False else item_in_group document)"

definition has_env :: "json \<Rightarrow> bool" where
  "has_env scope \<longleftrightarrow> is_object scope \<and> has_key ''env'' scope"

definition document_name :: "json \<Rightarrow> py_error + json" where
  "document_name document = rbind (jitem document ''metadata'') (\<lambda>m. jitem m ''name'')"

text \<open>
  \<open>_model_environment_scopes\<close> yields the scopes of a model service with their key, service name and position,
  and its callers replace the field \<open>env\<close> of a scope in place. \<open>visit\<close> is the caller's loop body: the new
  field, or \<open>None\<close> when the caller leaves the scope alone.
\<close>

type_synonym scope_key = "json \<times> nat"
type_synonym visit = "scope_key \<Rightarrow> json \<Rightarrow> cli_error + json option"

definition update_scope :: "visit \<Rightarrow> json \<Rightarrow> nat \<Rightarrow> json \<Rightarrow> cli_error + json" where
  "update_scope visit document i scope =
     (if \<not> has_env scope then Inr scope
      else
        rbind (raising (document_name document)) (\<lambda>name.
        rbind (visit (name, i) (field ''env'' scope)) (\<lambda>env.
          case env of None \<Rightarrow> Inr scope | Some e \<Rightarrow> raising (set_field ''env'' e scope))))"

fun update_pools :: "visit \<Rightarrow> json \<Rightarrow> nat \<Rightarrow> json list \<Rightarrow> cli_error + json list" where
  "update_pools visit document i [] = Inr []"
| "update_pools visit document i (p # ps) =
     rbind (update_scope visit document i p) (\<lambda>q. rbind (update_pools visit document (Suc i) ps) (\<lambda>qs. Inr (q # qs)))"

definition update_spec :: "visit \<Rightarrow> json \<Rightarrow> json \<Rightarrow> cli_error + json" where
  "update_spec visit document spec =
     rbind (update_scope visit document 0 spec) (\<lambda>spec'.
     case field ''modelPools'' spec of
       JList pools \<Rightarrow>
         rbind (update_pools visit document 1 pools) (\<lambda>pools'. raising (set_field ''modelPools'' (JList pools') spec'))
     | _ \<Rightarrow> Inr spec')"

definition update_document :: "visit \<Rightarrow> json \<Rightarrow> cli_error + json" where
  "update_document visit document =
     rbind (raising (is_model_service document)) (\<lambda>b.
     if \<not> b \<or> \<not> is_object (field ''spec'' document) then Inr document
     else rbind (update_spec visit document (field ''spec'' document)) (\<lambda>spec. raising (set_field ''spec'' spec document)))"

definition update_scopes :: "visit \<Rightarrow> json list \<Rightarrow> cli_error + json list" where
  "update_scopes visit objects = map_list (update_document visit) objects"

section \<open>Staging and restoring environment maps\<close>

definition stage_entry :: "string \<times> json \<Rightarrow> json" where
  "stage_entry kv =
     JObj [(''name'', JStr (fst kv)), (if is_object (snd kv) then ''reference'' else ''literal'', snd kv)]"

fun stage_env :: "visit" where
  "stage_env key (JObj env) = Inr (Some (JList (map stage_entry env)))"
| "stage_env key _ = Inr None"

text \<open>The keys of the scopes that were maps, under the name their service gets.\<close>

definition scope_keys :: "string \<Rightarrow> json \<Rightarrow> nat \<Rightarrow> json \<Rightarrow> cli_error + scope_key list" where
  "scope_keys prefix document i scope =
     (if \<not> has_env scope then Inr []
      else
        rbind (raising (document_name document)) (\<lambda>name.
        if \<not> is_object (field ''env'' scope) then Inr []
        else (case name of JStr s \<Rightarrow> Inr [(JStr (prefix @ s), i)] | _ \<Rightarrow> Inl (Raised TypeError))))"

fun env_keys :: "string \<Rightarrow> json \<Rightarrow> nat \<Rightarrow> json list \<Rightarrow> cli_error + scope_key list" where
  "env_keys prefix document i [] = Inr []"
| "env_keys prefix document i (scope # scopes) =
     rbind (scope_keys prefix document i scope) (\<lambda>k. rbind (env_keys prefix document (Suc i) scopes) (\<lambda>ks. Inr (k @ ks)))"

definition document_scopes :: "json \<Rightarrow> json list" where
  "document_scopes document =
     (let spec = field ''spec'' document in
      if is_object spec then spec # jlist (field ''modelPools'' spec) else [])"

definition document_keys :: "string \<Rightarrow> json \<Rightarrow> cli_error + scope_key list" where
  "document_keys prefix document =
     rbind (raising (is_model_service document)) (\<lambda>b.
     if b then env_keys prefix document 0 (document_scopes document) else Inr [])"

definition environment_maps :: "string \<Rightarrow> json list \<Rightarrow> cli_error + scope_key list" where
  "environment_maps prefix objects = rbind (map_list (document_keys prefix) objects) (\<lambda>kss. Inr (concat kss))"

definition entry_value :: "json \<Rightarrow> py_error + json" where
  "entry_value entry = (if has_key ''reference'' entry then jitem entry ''reference'' else jitem entry ''literal'')"

fun restore_entries :: "(string \<times> json) list \<Rightarrow> json list \<Rightarrow> py_error + (string \<times> json) list" where
  "restore_entries env [] = Inr env"
| "restore_entries env (entry # entries) =
     rbind (text_item entry ''name'') (\<lambda>k. rbind (entry_value entry) (\<lambda>v. restore_entries (dict_set k v env) entries))"

definition restore_env :: "scope_key list \<Rightarrow> visit" where
  "restore_env keys key env =
     (if key \<in> set keys
      then raising (rbind (jiter env) (\<lambda>entries. rbind (restore_entries [] entries) (\<lambda>ps. Inr (Some (JObj ps)))))
      else Inr None)"

section \<open>Projection\<close>

definition deployment_group :: string where
  "deployment_group = ''inference.foretoken.io''"

definition field_spec :: "string \<times> string \<Rightarrow> json" where
  "field_spec kp = JObj [(''group'', JStr deployment_group), (''kind'', JStr (fst kp)), (''path'', JStr (snd kp))]"

definition name_reference :: "string \<times> string \<times> (string \<times> string) list \<Rightarrow> json" where
  "name_reference r = (case r of (kind, grp, specs) \<Rightarrow>
     JObj [(''group'', JStr grp), (''kind'', JStr kind), (''fieldSpecs'', JList (map field_spec specs))])"

definition model_scopes :: "string list" where
  "model_scopes = [''spec'', ''spec/modelPools'']"

definition name_reference_configuration :: json where
  "name_reference_configuration =
     JObj [(''nameReference'', JList (map name_reference
       [(''KVService'', deployment_group, map (\<lambda>p. (''ModelService'', p @ ''/kvCache/mooncakeStore/kvServiceRef/name'')) model_scopes),
        (''Secret'', [], map (\<lambda>p. (''ModelService'', p @ ''/env/reference/valueFrom/secretKeyRef/name'')) model_scopes),
        (''ConfigMap'', [], map (\<lambda>p. (''ModelService'', p @ ''/env/reference/valueFrom/configMapKeyRef/name'')) model_scopes),
        (''PersistentVolumeClaim'', [], [(''FrontendService'', ''spec/videoTasks/claimName''), (''VideoTask'', ''spec/worker/outputClaimName'')]),
        (''ModelService'', deployment_group, [(''ProfileRun'', ''spec/modelServiceRef/name''), (''VideoTask'', ''spec/modelServiceRef/name'')])]))]"

definition projection_configuration :: "string \<Rightarrow> string \<Rightarrow> string \<Rightarrow> json" where
  "projection_configuration ns prefix uid =
     JObj ([(''apiVersion'', JStr ''kustomize.config.k8s.io/v1beta1''), (''kind'', JStr ''Kustomization''),
            (''namespace'', JStr ns), (''resources'', JList [JStr ''resources.yaml''])] @
           (if prefix \<noteq> [] then [(''namePrefix'', JStr prefix), (''configurations'', JList [JStr ''references.yaml''])] else []) @
           (if uid \<noteq> [] then [(''labels'', JList [JObj [(''pairs'', JObj [(''inference.foretoken.io/deployment-uid'', JStr uid)]),
              (''includeSelectors'', JBool True), (''includeTemplates'', JBool True)]])] else []))"

text \<open>The singleton frontend keeps the readable name of the instance.\<close>

definition anchor_frontend :: "string \<Rightarrow> json \<Rightarrow> py_error + json" where
  "anchor_frontend name document =
     rbind (jitem document ''kind'') (\<lambda>kind.
     if kind \<noteq> JStr ''FrontendService'' then Inr document
     else rbind (item_in_group document) (\<lambda>b.
       if \<not> b then Inr document
       else rbind (jitem document ''metadata'') (\<lambda>m.
         rbind (set_field ''name'' (JStr name) m) (\<lambda>m'. set_field ''metadata'' m' document))))"

definition yaml_documents :: "yaml_lib \<Rightarrow> string \<Rightarrow> cli_error + json list" where
  "yaml_documents Y rendered = (case decode_resources Y rendered of Inl e \<Rightarrow> Inl (YamlError e) | Inr ds \<Rightarrow> Inr ds)"

definition unproject :: "yaml_lib \<Rightarrow> scope_key list \<Rightarrow> string \<Rightarrow> string \<Rightarrow> cli_error + string" where
  "unproject Y keys name rendered =
     rbind (yaml_documents Y rendered) (\<lambda>projected.
     rbind (update_scopes (restore_env keys) projected) (\<lambda>restored.
     rbind (raising (map_list (anchor_frontend name) restored)) (\<lambda>anchored.
       Inr (encode_resources Y anchored))))"

definition in_namespace :: "string \<Rightarrow> json \<Rightarrow> py_error + bool" where
  "in_namespace ns document =
     rbind (jitem document ''metadata'') (\<lambda>m. rbind (jget m ''namespace'' JNull) (\<lambda>v. Inr (v = JStr ns)))"

definition check_projected ::
  "yaml_lib \<Rightarrow> (json \<Rightarrow> string) \<Rightarrow> foretoken_deployment \<Rightarrow> string \<Rightarrow> string \<Rightarrow> cli_error + foretoken_deployment" where
  "check_projected Y render d uid rendered =
     rbind (parse_deployment Y render (fd_path d) rendered (Some (fd_name d)) (or_text uid (fd_uid d))) (\<lambda>projected.
     rbind (raising (any_list (\<lambda>doc. rbind (in_namespace (fd_namespace d) doc) (\<lambda>b. Inr (\<not> b))) (fd_objects projected))) (\<lambda>foreign.
       if foreign then deploy_fail ''deployment resources must belong to the current Kubernetes namespace''
       else Inr projected))"

text \<open>\<open>transform\<close> is Kustomize: it renders the resource stream under the configuration and the optional name references.\<close>

definition project_deployment ::
  "yaml_lib \<Rightarrow> (json \<Rightarrow> string) \<Rightarrow> (string \<Rightarrow> json \<Rightarrow> json option \<Rightarrow> cli_error + string) \<Rightarrow> foretoken_deployment \<Rightarrow> string \<Rightarrow> string \<Rightarrow>
   cli_error + foretoken_deployment" where
  "project_deployment Y render transform d prefix uid =
     rbind (if prefix = [] then Inr [] else environment_maps prefix (fd_objects d)) (\<lambda>keys.
     rbind (if prefix = [] then Inr (fd_objects d) else update_scopes stage_env (fd_objects d)) (\<lambda>staged.
     rbind (transform (encode_resources Y staged) (projection_configuration (fd_namespace d) prefix uid)
             (if prefix = [] then None else Some name_reference_configuration)) (\<lambda>rendered.
     rbind (if prefix = [] then Inr rendered else unproject Y keys (fd_name d) rendered) (\<lambda>final.
       check_projected Y render d uid final))))"

section \<open>Loading\<close>

definition lower_letter :: "char \<Rightarrow> bool" where
  "lower_letter c \<longleftrightarrow> 97 \<le> (of_char c :: nat) \<and> (of_char c :: nat) \<le> 122"

definition name_char :: "char \<Rightarrow> bool" where
  "name_char c \<longleftrightarrow> lower_letter c \<or> is_digit c"

definition valid_instance_name :: "string \<Rightarrow> bool" where
  "valid_instance_name name \<longleftrightarrow>
     name \<noteq> [] \<and> length name \<le> 63 \<and> lower_letter (hd name) \<and> name_char (last name) \<and>
     list_all (\<lambda>c. name_char c \<or> c = CHR ''-'') name"

definition validate_instance_name :: "string \<Rightarrow> cli_error + string" where
  "validate_instance_name name =
     (if valid_instance_name name then Inr name else deploy_fail (''instance name must be a Kubernetes Service name: at most 63 lowercase letters, digits or '-', '' @
       ''starting with a letter and ending with a letter or digit''))"

text \<open>\<open>deployment_path\<close> on a resolved path.\<close>

definition deployment_path :: "(string \<Rightarrow> bool) \<Rightarrow> (string \<Rightarrow> bool) \<Rightarrow> string \<Rightarrow> cli_error + string" where
  "deployment_path is_dir is_file path =
     (if \<not> is_dir path then deploy_fail (''deployment directory not found: '' @ path)
      else if \<not> list_ex (\<lambda>name. is_file (path @ ''/'' @ name)) [''kustomization.yaml'', ''kustomization.yml'', ''Kustomization'']
      then deploy_fail (''deployment directory is not a Kustomize root: '' @ path)
      else Inr path)"

definition scope_document :: "string \<Rightarrow> json \<Rightarrow> py_error + json" where
  "scope_document ns document =
     rbind (in_group document) (\<lambda>b.
     if \<not> b then Inr document
     else rbind (set_field ''namespace'' (JStr ns) (case map_of (jobj document) ''metadata'' of None \<Rightarrow> JObj [] | Some m \<Rightarrow> m)) (\<lambda>m.
       set_field ''metadata'' m document))"

text \<open>One rendered document: dropped, refused, or retained in the current namespace.\<close>

definition retain_document :: "string \<Rightarrow> json \<Rightarrow> cli_error + json list" where
  "retain_document ns document =
     (if \<not> is_object document then deploy_fail ''deployment rendered a value that is not a Kubernetes object''
      else if field ''kind'' document = JStr ''Namespace'' then Inr []
      else
        rbind (if field ''kind'' document = JStr deployment_kind then raising (in_group document) else Inr False) (\<lambda>managed.
        if managed
        then deploy_fail ''InferenceDeployment is managed by foretoken deploy; declare its service resources instead''
        else rbind (raising (scope_document ns document)) (\<lambda>d. Inr [d])))"

definition load_deployment ::
  "yaml_lib \<Rightarrow> (json \<Rightarrow> string) \<Rightarrow> (string \<Rightarrow> json \<Rightarrow> json option \<Rightarrow> cli_error + string) \<Rightarrow> (string \<Rightarrow> bool) \<Rightarrow> (string \<Rightarrow> bool) \<Rightarrow>
   (string \<Rightarrow> cli_error + string) \<Rightarrow> string \<Rightarrow> string \<Rightarrow> string option \<Rightarrow> cli_error + foretoken_deployment" where
  "load_deployment Y render transform is_dir is_file render_root ns path_value name =
     rbind (deployment_path is_dir is_file path_value) (\<lambda>path.
     rbind (render_root path) (\<lambda>rendered.
     rbind (case decode_resources Y rendered of
              Inl e \<Rightarrow> deploy_fail (''deployment rendered invalid YAML: '' @ e) | Inr ds \<Rightarrow> Inr ds) (\<lambda>objects.
     rbind (map_list (retain_document ns) objects) (\<lambda>retained.
     rbind (parse_deployment Y render (Some path) (encode_resources Y (concat retained)) name []) (\<lambda>d.
     rbind (validate_instance_name (fd_name d)) (\<lambda>_.
       project_deployment Y render transform d (fd_name d @ ''-'') []))))))"

section \<open>Documents as dictionaries\<close>

lemma raising_Inr [simp]: "raising m = Inr x \<longleftrightarrow> m = Inr x"
  by (cases m) (simp_all add: raising_def)

lemma raising_simps [simp]: "raising (Inr x) = Inr x" "raising (Inl e) = Inl (Raised e)"
  by (simp_all add: raising_def)

lemma deploy_fail_Inr [simp]: "deploy_fail m \<noteq> Inr x"
  by (simp add: deploy_fail_def)

lemma map_list_Inr: "map_list f xs = Inr ys \<longleftrightarrow> list_all2 (\<lambda>x y. f x = Inr y) xs ys"
proof (induction xs arbitrary: ys)
  case (Cons x xs)
  show ?case
  proof
    assume "map_list f (x # xs) = Inr ys"
    then obtain y zs where "f x = Inr y" "map_list f xs = Inr zs" "ys = y # zs" by (auto elim!: rbind_InrE)
    then show "list_all2 (\<lambda>x y. f x = Inr y) (x # xs) ys" using Cons.IH by simp
  next
    assume "list_all2 (\<lambda>x y. f x = Inr y) (x # xs) ys"
    then obtain y zs where "f x = Inr y" "list_all2 (\<lambda>x y. f x = Inr y) xs zs" "ys = y # zs" by (cases ys) auto
    moreover have "map_list f xs = Inr zs" using Cons.IH calculation(2) by blast
    ultimately show "map_list f (x # xs) = Inr ys" by simp
  qed
qed auto

lemma map_list_image: "map_list f xs = Inr ys \<Longrightarrow> Inr ` set ys = f ` set xs"
  unfolding map_list_Inr by (induction rule: list_all2_induct) auto

definition put :: "string \<Rightarrow> json \<Rightarrow> json \<Rightarrow> json" where
  "put k v d = JObj (dict_set k v (jobj d))"

lemma is_object_conv: "is_object d \<longleftrightarrow> d = JObj (jobj d)"
  by (cases d) auto

lemma is_object_put [simp]: "is_object (put k v d)"
  by (simp add: put_def)

lemma field_put [simp]: "field j (put k v d) = (if j = k then v else field j d)"
  by (simp add: put_def field_def)

lemma has_key_put [simp]: "has_key j (put k v d) \<longleftrightarrow> j = k \<or> has_key j d"
  by (simp add: put_def has_key_def)

lemma jitem_put: "is_object d \<Longrightarrow> jitem (put k v d) j = (if j = k then Inr v else jitem d j)"
  by (cases d) (auto simp: put_def)

lemma set_field_put: "is_object d \<Longrightarrow> set_field k v d = Inr (put k v d)"
  by (cases d) (auto simp: put_def)

lemma put_same: "is_object d \<Longrightarrow> has_key k d \<Longrightarrow> put k (field k d) d = d"
  by (cases d) (auto simp: put_def has_key_def field_def dict_set_same)

lemma put_twice [simp]: "put k v (put k w d) = put k v d"
  by (simp add: put_def dict_set_twice)

lemma put_swap: "k \<noteq> j \<Longrightarrow> has_key k d \<Longrightarrow> put k v (put j w d) = put j w (put k v d)"
  by (auto simp: put_def has_key_def dict_set_swap map_of_eq_None_iff)

lemma field_has_key: "field k d \<noteq> JNull \<Longrightarrow> has_key k d"
  by (auto simp: field_def has_key_def split: option.splits)

lemma field_not_null_object: "field k d \<noteq> JNull \<Longrightarrow> is_object d"
  by (cases d) (auto simp: field_def)

lemma jget_null: "jget d k JNull = Inr v \<longleftrightarrow> is_object d \<and> v = field k d"
  by (cases d) (auto simp: field_def split: option.splits)

lemma jitem_field: "jitem d k = Inr v \<longleftrightarrow> is_object d \<and> has_key k d \<and> v = field k d"
  by (cases d) (auto simp: field_def has_key_def split: option.splits)

lemma json_wf_field: "json_wf d \<Longrightarrow> json_wf (field k d)"
proof (cases "map_of (jobj d) k")
  case (Some v)
  assume wf: "json_wf d"
  have "(k, v) \<in> set (jobj d)" using Some by (rule map_of_SomeD)
  then have "json_wf v" using wf by (cases d) (auto simp: list_all_iff)
  then show ?thesis using Some by (simp add: field_def)
qed (simp add: field_def)

section \<open>The staged environment is restored\<close>

definition staged :: "json \<Rightarrow> bool" where
  "staged scope \<longleftrightarrow> has_env scope \<and> is_object (field ''env'' scope)"

definition stage :: "json \<Rightarrow> json" where
  "stage scope =
     (if staged scope then put ''env'' (JList (map stage_entry (jobj (field ''env'' scope)))) scope else scope)"

lemma update_scope_stage:
  assumes "update_scope stage_env doc i scope = Inr sc"
  shows "sc = stage scope" "has_env scope \<Longrightarrow> \<exists>n. document_name doc = Inr n"
proof -
  show "has_env scope \<Longrightarrow> \<exists>n. document_name doc = Inr n"
    using assms unfolding update_scope_def by (auto elim!: rbind_InrE)
  show "sc = stage scope"
  proof (cases "has_env scope")
    case True
    then obtain n where n: "document_name doc = Inr n" using assms unfolding update_scope_def by (auto elim!: rbind_InrE)
    have obj: "is_object scope" using True by (simp add: has_env_def)
    show ?thesis
      using assms n True obj unfolding update_scope_def stage_def staged_def
      by (cases "field ''env'' scope") (auto simp: set_field_put)
  next
    case False
    then show ?thesis using assms by (simp add: update_scope_def stage_def staged_def)
  qed
qed

lemma update_pools_stage:
  "update_pools stage_env doc i ps = Inr qs \<Longrightarrow>
   qs = map stage ps \<and> (\<forall>p \<in> set ps. has_env p \<longrightarrow> (\<exists>n. document_name doc = Inr n))"
proof (induction ps arbitrary: i qs)
  case (Cons p ps)
  then obtain q qs' where "update_scope stage_env doc i p = Inr q" "update_pools stage_env doc (Suc i) ps = Inr qs'" "qs = q # qs'"
    by (auto elim!: rbind_InrE)
  then show ?case using Cons.IH update_scope_stage by fastforce
qed simp

section \<open>What Kustomize keeps\<close>

text \<open>
  Kustomize is a parameter of the projection. It prefixes names, sets the namespace, adds labels and rewrites the names
  in references, and it may reorder the documents. The relations below say what the projection relies on, and leave
  everything else free: \<open>R\<close> is any relation between a reference before and after the rewriting. An entry of a staged
  list keeps its name and its literal and stays a reference or a literal; the entries of a list stay in order.
\<close>

type_synonym json_rel = "json \<Rightarrow> json \<Rightarrow> bool"

definition field_kept :: "string \<Rightarrow> json_rel" where
  "field_kept k v v' \<longleftrightarrow> (has_key k v' \<longleftrightarrow> has_key k v) \<and> field k v' = field k v"

definition staged_kept :: "json_rel \<Rightarrow> json_rel" where
  "staged_kept R e e' \<longleftrightarrow>
     (is_object e' \<longleftrightarrow> is_object e) \<and> field_kept ''name'' e e' \<and> field_kept ''literal'' e e' \<and>
     (has_key ''reference'' e' \<longleftrightarrow> has_key ''reference'' e) \<and>
     (has_key ''reference'' e \<longrightarrow> R (field ''reference'' e) (field ''reference'' e'))"

definition env_kept :: "json_rel \<Rightarrow> json_rel" where
  "env_kept R v v' =
     (case v of JList es \<Rightarrow> (case v' of JList es' \<Rightarrow> list_all2 (staged_kept R) es es' | _ \<Rightarrow> False) | _ \<Rightarrow> True)"

definition scope_kept :: "json_rel \<Rightarrow> json_rel" where
  "scope_kept R s s' \<longleftrightarrow> (has_env s' \<longleftrightarrow> has_env s) \<and> env_kept R (field ''env'' s) (field ''env'' s')"

text \<open>What \<open>namePrefix\<close> does to the name of a resource.\<close>

fun prefixed :: "string \<Rightarrow> json \<Rightarrow> json" where
  "prefixed p (JStr s) = JStr (p @ s)"
| "prefixed p n = n"

definition document_kept :: "json_rel \<Rightarrow> string \<Rightarrow> json_rel" where
  "document_kept R p doc doc' \<longleftrightarrow>
     is_object doc' \<and> field_kept ''kind'' doc doc' \<and> field_kept ''apiVersion'' doc doc' \<and>
     (is_model_service doc = Inr True \<longrightarrow>
        (case document_name doc of Inl _ \<Rightarrow> True | Inr n \<Rightarrow> document_name doc' = Inr (prefixed p n)) \<and>
        list_all2 (scope_kept R) (document_scopes doc) (document_scopes doc'))"

text \<open>
  What comes back. Every environment map has its keys in their order, with the literal values as they were and the
  references related by \<open>R\<close>. Everything outside these maps is as Kustomize rendered it.
\<close>

definition value_kept :: "json_rel \<Rightarrow> string \<times> json \<Rightarrow> string \<times> json \<Rightarrow> bool" where
  "value_kept R x y \<longleftrightarrow> fst y = fst x \<and> (if is_object (snd x) then R (snd x) (snd y) else snd y = snd x)"

definition env_restored :: "json_rel \<Rightarrow> json_rel" where
  "env_restored R s s' \<longleftrightarrow>
     (staged s \<longrightarrow> staged s' \<and> list_all2 (value_kept R) (jobj (field ''env'' s)) (jobj (field ''env'' s')))"

definition document_restored :: "json_rel \<Rightarrow> json_rel" where
  "document_restored R doc doc' \<longleftrightarrow>
     (is_model_service doc = Inr True \<longrightarrow> list_all2 (env_restored R) (document_scopes doc) (document_scopes doc'))"

definition fields_but :: "string list \<Rightarrow> json \<Rightarrow> (string \<times> json) list" where
  "fields_but ks v = filter (\<lambda>p. fst p \<notin> set ks) (jobj v)"

definition only_env :: json_rel where
  "only_env s s' \<longleftrightarrow> s' = s \<or> is_object s' \<and> fields_but [''env''] s' = fields_but [''env''] s"

definition only_environments :: json_rel where
  "only_environments doc doc' \<longleftrightarrow>
     doc' = doc \<or>
     fields_but [''spec''] doc' = fields_but [''spec''] doc \<and>
     fields_but [''env'', ''modelPools''] (field ''spec'' doc') = fields_but [''env'', ''modelPools''] (field ''spec'' doc) \<and>
     list_all2 only_env (jlist (field ''modelPools'' (field ''spec'' doc))) (jlist (field ''modelPools'' (field ''spec'' doc')))"

lemma fields_but_put [simp]: "k \<in> set ks \<Longrightarrow> fields_but ks (put k v d) = fields_but ks d"
proof -
  assume k: "k \<in> set ks"
  have "filter (\<lambda>p. fst p \<notin> set ks) (dict_set k v ps) = filter (\<lambda>p. fst p \<notin> set ks) ps" for ps :: "(string \<times> json) list"
    using k by (induction ps) auto
  then show ?thesis by (simp add: fields_but_def put_def)
qed

lemma restore_entry:
  assumes "staged_kept R (stage_entry (k, v)) e"
  shows "text_item e ''name'' = Inr k" and "\<exists>v'. entry_value e = Inr v' \<and> value_kept R (k, v) (k, v')"
proof -
  have e: "is_object e" "has_key ''name'' e" "field ''name'' e = JStr k"
    using assms by (auto simp: staged_kept_def field_kept_def stage_entry_def field_def has_key_def)
  then show "text_item e ''name'' = Inr k"
    using jitem_field [of e "''name''" "JStr k"] by (simp add: text_item_def)
  show "\<exists>v'. entry_value e = Inr v' \<and> value_kept R (k, v) (k, v')"
  proof (cases "is_object v")
    case True
    then have "has_key ''reference'' e" "R v (field ''reference'' e)"
      using assms by (auto simp: staged_kept_def stage_entry_def field_def has_key_def)
    then show ?thesis
      using True e(1) jitem_field [of e "''reference''" "field ''reference'' e"] by (simp add: entry_value_def value_kept_def)
  next
    case False
    then have "\<not> has_key ''reference'' e" "has_key ''literal'' e" "field ''literal'' e = v"
      using assms by (auto simp: staged_kept_def field_kept_def stage_entry_def field_def has_key_def)
    then show ?thesis
      using False e(1) jitem_field [of e "''literal''" v] by (simp add: entry_value_def value_kept_def)
  qed
qed

lemma restore_entries_kept:
  "list_all2 (staged_kept R) (map stage_entry env) es \<Longrightarrow> distinct (map fst acc @ map fst env) \<Longrightarrow>
   \<exists>env'. restore_entries acc es = Inr (acc @ env') \<and> list_all2 (value_kept R) env env'"
proof (induction env arbitrary: acc es)
  case (Cons kv env)
  obtain k v where kv: "kv = (k, v)" by (cases kv)
  obtain e es' where es: "es = e # es'" "staged_kept R (stage_entry (k, v)) e" "list_all2 (staged_kept R) (map stage_entry env) es'"
    using Cons.prems(1) kv by (auto simp: list_all2_Cons1)
  obtain v' where v': "entry_value e = Inr v'" "value_kept R (k, v) (k, v')" using restore_entry(2) [OF es(2)] by blast
  have "k \<notin> fst ` set acc" using Cons.prems(2) kv by auto
  then have new: "dict_set k v' acc = acc @ [(k, v')]" by (induction acc) auto
  have "distinct (map fst (acc @ [(k, v')]) @ map fst env)" using Cons.prems(2) kv by auto
  from Cons.IH [OF es(3) this] obtain env' where
    "restore_entries (acc @ [(k, v')]) es' = Inr ((acc @ [(k, v')]) @ env')" "list_all2 (value_kept R) env env'" by blast
  then show ?case
    using restore_entry(1) [OF es(2)] v' new by (intro exI [of _ "(k, v') # env'"]) (simp add: es(1) kv)
qed simp

definition scope_wf :: "json \<Rightarrow> bool" where
  "scope_wf scope \<longleftrightarrow> distinct (map fst (jobj (field ''env'' scope)))"

lemma update_scope_restore:
  assumes "has_env scope \<Longrightarrow> document_name doc = Inr n \<and> ((n, i) \<in> set K \<longleftrightarrow> staged scope)"
    and "scope_wf scope" and kept: "has_env sc \<longleftrightarrow> has_env scope" "env_kept R (field ''env'' (stage scope)) (field ''env'' sc)"
  shows "\<exists>env. update_scope (restore_env K) doc i sc = Inr (if staged scope then put ''env'' (JObj env) sc else sc) \<and>
    (staged scope \<longrightarrow> list_all2 (value_kept R) (jobj (field ''env'' scope)) env)"
proof (cases "staged scope")
  case True
  then have has: "has_env scope" by (simp add: staged_def)
  have "env_kept R (JList (map stage_entry (jobj (field ''env'' scope)))) (field ''env'' sc)"
    using kept(2) True by (simp add: stage_def)
  then obtain es where es: "field ''env'' sc = JList es" "list_all2 (staged_kept R) (map stage_entry (jobj (field ''env'' scope))) es"
    by (auto simp: env_kept_def split: json.splits)
  from restore_entries_kept [OF es(2), of "[]"] assms(2) obtain env where
    "restore_entries [] es = Inr env" "list_all2 (value_kept R) (jobj (field ''env'' scope)) env"
    unfolding scope_wf_def by auto
  moreover have "is_object sc" using kept(1) has by (simp add: has_env_def)
  ultimately show ?thesis
    using assms(1) [OF has] kept(1) has True es(1)
    by (intro exI [of _ env]) (simp add: update_scope_def restore_env_def set_field_put)
next
  case False
  then show ?thesis
    using assms(1) kept(1) by (cases "has_env scope") (auto simp: update_scope_def restore_env_def)
qed

lemma scope_outcome:
  assumes "list_all2 (value_kept R) (jobj (field ''env'' scope)) env \<or> \<not> staged scope"
    and "has_env sc \<longleftrightarrow> has_env scope"
  shows "env_restored R scope (if staged scope then put ''env'' (JObj env) sc else sc)"
    and "only_env sc (if staged scope then put ''env'' (JObj env) sc else sc)"
  using assms by (auto simp: env_restored_def only_env_def staged_def has_env_def)

lemma has_env_stage [simp]: "has_env (stage scope) \<longleftrightarrow> has_env scope"
  by (auto simp: stage_def staged_def has_env_def)

lemma update_pools_restore:
  assumes "\<And>j. j < length ps \<Longrightarrow> has_env (ps ! j) \<Longrightarrow> document_name doc = Inr n \<and> ((n, i + j) \<in> set K \<longleftrightarrow> staged (ps ! j))"
    and "\<And>p. p \<in> set ps \<Longrightarrow> scope_wf p" and "list_all2 (scope_kept R) (map stage ps) qs"
  shows "\<exists>qs'. update_pools (restore_env K) doc i qs = Inr qs' \<and> list_all2 (env_restored R) ps qs' \<and> list_all2 only_env qs qs'"
  using assms
proof (induction ps arbitrary: i qs)
  case (Cons p ps)
  obtain q qs1 where qs: "qs = q # qs1" "scope_kept R (stage p) q" "list_all2 (scope_kept R) (map stage ps) qs1"
    using Cons.prems(3) by (auto simp: list_all2_Cons1)
  have has: "has_env q \<longleftrightarrow> has_env p" and env: "env_kept R (field ''env'' (stage p)) (field ''env'' q)"
    using qs(2) by (auto simp: scope_kept_def)
  have own: "document_name doc = Inr n \<and> ((n, i) \<in> set K \<longleftrightarrow> staged p)" if "has_env p"
    using Cons.prems(1) [of 0] that by simp
  obtain e where e: "update_scope (restore_env K) doc i q = Inr (if staged p then put ''env'' (JObj e) q else q)"
    "staged p \<longrightarrow> list_all2 (value_kept R) (jobj (field ''env'' p)) e"
    using update_scope_restore [OF own Cons.prems(2) has env] by auto
  have rest: "\<exists>qs'. update_pools (restore_env K) doc (Suc i) qs1 = Inr qs' \<and> list_all2 (env_restored R) ps qs' \<and> list_all2 only_env qs1 qs'"
    by (rule Cons.IH) (use Cons.prems(1) [of "Suc _"] Cons.prems(2) qs(3) in auto)
  have "list_all2 (value_kept R) (jobj (field ''env'' p)) e \<or> \<not> staged p" using e(2) by blast
  from scope_outcome [OF this has] rest e(1) show ?case by (auto simp: qs(1))
qed simp

definition stage_spec :: "json \<Rightarrow> json" where
  "stage_spec spec =
     (case field ''modelPools'' spec of
        JList pools \<Rightarrow> put ''modelPools'' (JList (map stage pools)) (stage spec)
      | _ \<Rightarrow> stage spec)"

definition scopes_named :: "json \<Rightarrow> json list \<Rightarrow> bool" where
  "scopes_named doc scopes \<longleftrightarrow> (\<forall>s \<in> set scopes. has_env s \<longrightarrow> (\<exists>n. document_name doc = Inr n))"

lemma is_object_stage [simp]: "is_object (stage s) \<longleftrightarrow> is_object s"
  by (auto simp: stage_def staged_def has_env_def)

lemma update_spec_stage:
  assumes "update_spec stage_env doc spec = Inr sspec" and "is_object spec"
  shows "sspec = stage_spec spec \<and> scopes_named doc (spec # jlist (field ''modelPools'' spec))"
proof -
  obtain s where s: "update_scope stage_env doc 0 spec = Inr s"
    using assms(1) unfolding update_spec_def by (auto elim!: rbind_InrE)
  note st = update_scope_stage [OF s]
  show ?thesis
  proof (cases "field ''modelPools'' spec")
    case (JList pools)
    then obtain qs where qs: "update_pools stage_env doc 1 pools = Inr qs" "set_field ''modelPools'' (JList qs) s = Inr sspec"
      using assms(1) s unfolding update_spec_def by (auto elim!: rbind_InrE)
    then show ?thesis
      using JList st update_pools_stage [OF qs(1)] assms(2) by (auto simp: stage_spec_def scopes_named_def set_field_put)
  qed (use assms(1) s st in \<open>auto simp: update_spec_def stage_spec_def scopes_named_def\<close>)
qed

definition keys_match :: "scope_key list \<Rightarrow> json \<Rightarrow> json list \<Rightarrow> bool" where
  "keys_match K name scopes \<longleftrightarrow>
     (\<forall>j < length scopes. has_env (scopes ! j) \<longrightarrow> ((name, j) \<in> set K \<longleftrightarrow> staged (scopes ! j)))"

lemma stage_spec_env [simp]:
  assumes "is_object spec"
  shows "field ''env'' (stage_spec spec) = field ''env'' (stage spec)" "has_env (stage_spec spec) \<longleftrightarrow> has_env spec"
    "jlist (field ''modelPools'' (stage_spec spec)) = map stage (jlist (field ''modelPools'' spec))"
proof -
  have same: "field ''modelPools'' (stage spec) = field ''modelPools'' spec" by (simp add: stage_def)
  have env: "has_env (put ''modelPools'' v (stage spec)) \<longleftrightarrow> has_env spec" for v
    using has_env_stage [of spec] assms by (auto simp: has_env_def)
  show "field ''env'' (stage_spec spec) = field ''env'' (stage spec)"
    by (cases "field ''modelPools'' spec") (simp_all add: stage_spec_def)
  show "has_env (stage_spec spec) \<longleftrightarrow> has_env spec"
    using env by (cases "field ''modelPools'' spec") (simp_all add: stage_spec_def)
  show "jlist (field ''modelPools'' (stage_spec spec)) = map stage (jlist (field ''modelPools'' spec))"
    using same by (cases "field ''modelPools'' spec") (simp_all add: stage_spec_def)
qed

lemma update_spec_restore:
  assumes spec: "is_object spec" "json_wf spec"
    and named: "\<forall>s \<in> set (spec # jlist (field ''modelPools'' spec)). has_env s \<longrightarrow> document_name doc = Inr n"
    and keys: "keys_match K n (spec # jlist (field ''modelPools'' spec))"
    and out: "is_object out" "scope_kept R (stage_spec spec) out"
      "list_all2 (scope_kept R) (map stage (jlist (field ''modelPools'' spec))) (jlist (field ''modelPools'' out))"
  shows "\<exists>r. update_spec (restore_env K) doc out = Inr r \<and> is_object r \<and> env_restored R spec r \<and>
    list_all2 (env_restored R) (jlist (field ''modelPools'' spec)) (jlist (field ''modelPools'' r)) \<and>
    fields_but [''env'', ''modelPools''] r = fields_but [''env'', ''modelPools''] out \<and>
    list_all2 only_env (jlist (field ''modelPools'' out)) (jlist (field ''modelPools'' r))"
proof -
  let ?pools = "jlist (field ''modelPools'' spec)"
  have wf: "scope_wf s" if "json_wf s" for s
    using json_wf_field [OF that, of "''env''"] by (cases "field ''env'' s") (auto simp: scope_wf_def)
  have own: "document_name doc = Inr n \<and> ((n, 0) \<in> set K \<longleftrightarrow> staged spec)" if "has_env spec"
    using that named keys by (auto simp: keys_match_def)
  have has: "has_env out \<longleftrightarrow> has_env spec" and env: "env_kept R (field ''env'' (stage spec)) (field ''env'' out)"
    using out(2) spec(1) by (auto simp: scope_kept_def)
  obtain e where e: "update_scope (restore_env K) doc 0 out = Inr (if staged spec then put ''env'' (JObj e) out else out)"
    "staged spec \<longrightarrow> list_all2 (value_kept R) (jobj (field ''env'' spec)) e"
    using update_scope_restore [OF own wf [OF spec(2)] has env] by auto
  define s where "s = (if staged spec then put ''env'' (JObj e) out else out)"
  have s: "env_restored R spec s" "is_object s" "field ''modelPools'' s = field ''modelPools'' out"
    "fields_but [''env'', ''modelPools''] s = fields_but [''env'', ''modelPools''] out"
    using scope_outcome(1) [of R spec e out] e(2) has out(1) by (auto simp: s_def)
  have pool: "document_name doc = Inr n \<and> ((n, 1 + j) \<in> set K \<longleftrightarrow> staged (?pools ! j))"
    if "j < length ?pools" "has_env (?pools ! j)" for j
    using that named keys unfolding keys_match_def by fastforce
  have "scope_wf p" if "p \<in> set ?pools" for p
    using json_wf_field [OF spec(2), of "''modelPools''"] that wf
    by (cases "field ''modelPools'' spec") (auto simp: list_all_iff)
  from update_pools_restore [OF pool this out(3)] obtain qs where qs:
    "update_pools (restore_env K) doc 1 (jlist (field ''modelPools'' out)) = Inr qs"
    "list_all2 (env_restored R) ?pools qs" "list_all2 only_env (jlist (field ''modelPools'' out)) qs" by blast
  have spec_out: "update_scope (restore_env K) doc 0 out = Inr s" using e(1) by (simp add: s_def)
  show ?thesis
  proof (cases "field ''modelPools'' out")
    case (JList pools)
    define r where "r = put ''modelPools'' (JList qs) s"
    have "update_spec (restore_env K) doc out = Inr r"
      using spec_out qs(1) s(2) by (simp add: update_spec_def JList r_def set_field_put)
    moreover have "env_restored R spec r" using s(1,2) by (auto simp: env_restored_def staged_def has_env_def r_def)
    moreover have "fields_but [''env'', ''modelPools''] r = fields_but [''env'', ''modelPools''] out" using s(4) by (simp add: r_def)
    moreover have "jlist (field ''modelPools'' r) = qs" "is_object r" by (simp_all add: r_def)
    ultimately show ?thesis using qs(2,3) by metis
  qed (use spec_out s qs in \<open>auto simp: update_spec_def\<close>)
qed

lemma scope_keys_set:
  "scope_keys p doc i scope = Inr ks \<Longrightarrow>
   set ks = {(JStr (p @ s), i) | s. document_name doc = Inr (JStr s) \<and> staged scope}"
  unfolding scope_keys_def staged_def by (auto split: if_splits json.splits elim!: rbind_InrE)

lemma env_keys_set:
  "env_keys p doc i scopes = Inr ks \<Longrightarrow>
   (a, x) \<in> set ks \<longleftrightarrow>
     (\<exists>s. a = JStr (p @ s) \<and> document_name doc = Inr (JStr s)) \<and> (\<exists>j < length scopes. x = i + j \<and> staged (scopes ! j))"
proof (induction scopes arbitrary: i ks)
  case (Cons scope scopes)
  then obtain k ks' where k: "scope_keys p doc i scope = Inr k" "env_keys p doc (Suc i) scopes = Inr ks'" "ks = k @ ks'"
    by (auto elim!: rbind_InrE)
  have split: "(\<exists>j < length (scope # scopes). x = i + j \<and> staged ((scope # scopes) ! j)) \<longleftrightarrow>
      x = i \<and> staged scope \<or> (\<exists>j < length scopes. x = Suc i + j \<and> staged (scopes ! j))" for x
  proof -
    have "(\<exists>j < length (scope # scopes). Q j) \<longleftrightarrow> Q 0 \<or> (\<exists>j < length scopes. Q (Suc j))" for Q
      by (simp add: Ex_less_Suc2)
    then show ?thesis by simp
  qed
  define named where "named a \<longleftrightarrow> (\<exists>s. a = JStr (p @ s) \<and> document_name doc = Inr (JStr s))" for a
  have "(a, x) \<in> set k \<longleftrightarrow> named a \<and> x = i \<and> staged scope"
    unfolding scope_keys_set [OF k(1)] named_def by auto
  moreover have "(a, x) \<in> set ks' \<longleftrightarrow> named a \<and> (\<exists>j < length scopes. x = Suc i + j \<and> staged (scopes ! j))"
    unfolding named_def using Cons.IH [OF k(2)] by simp
  ultimately have "(a, x) \<in> set ks \<longleftrightarrow> named a \<and> (\<exists>j < length (scope # scopes). x = i + j \<and> staged ((scope # scopes) ! j))"
    unfolding k(3) set_append Un_iff split by blast
  then show ?case unfolding named_def .
qed simp

section \<open>A rendered and restored document\<close>

lemma document_name_Inr:
  "document_name doc = Inr n \<longleftrightarrow>
     is_object doc \<and> has_key ''metadata'' doc \<and> is_object (field ''metadata'' doc) \<and> has_key ''name'' (field ''metadata'' doc) \<and>
     n = field ''name'' (field ''metadata'' doc)"
  unfolding document_name_def rbind_eq_Inr_iff by (auto simp: jitem_field)

lemma jitem_cong:
  assumes "field k a = field k b" and "has_key k a \<longleftrightarrow> has_key k b" and "is_object a" and "is_object b"
  shows "jitem a k = jitem b k"
  using assms by (cases a; cases b) (auto simp: field_def has_key_def split: option.splits)

lemma is_model_service_cong:
  assumes "\<And>k. k \<in> {''kind'', ''apiVersion''} \<Longrightarrow> field k a = field k b \<and> (has_key k a \<longleftrightarrow> has_key k b)"
    and "is_object a" and "is_object b"
  shows "is_model_service a = is_model_service b"
proof -
  have "jitem a ''kind'' = jitem b ''kind''" "jitem a ''apiVersion'' = jitem b ''apiVersion''"
    using assms by (auto intro: jitem_cong)
  then show ?thesis unfolding is_model_service_def item_in_group_def by (simp cong: if_cong)
qed

lemma is_model_service_object: "is_model_service doc = Inr b \<Longrightarrow> is_object doc"
  unfolding is_model_service_def by (auto simp: jitem_field elim!: rbind_InrE)

lemma document_name_put_spec: "is_object doc \<Longrightarrow> document_name (put ''spec'' v doc) = document_name doc"
  unfolding document_name_def by (simp add: jitem_put)

lemma is_object_stage_spec: "is_object spec \<Longrightarrow> is_object (stage_spec spec)"
  by (cases "field ''modelPools'' spec") (simp_all add: stage_spec_def)

lemma env_keys_strings:
  "env_keys p doc i scopes = Inr ks \<Longrightarrow> j < length scopes \<Longrightarrow> staged (scopes ! j) \<Longrightarrow> \<exists>s. document_name doc = Inr (JStr s)"
proof (induction scopes arbitrary: i j ks)
  case (Cons scope scopes)
  then obtain k ks' where k: "scope_keys p doc i scope = Inr k" "env_keys p doc (Suc i) scopes = Inr ks'"
    by (auto elim!: rbind_InrE)
  show ?case
  proof (cases j)
    case 0
    then show ?thesis
      using k(1) Cons.prems unfolding scope_keys_def staged_def by (auto split: if_splits json.splits elim!: rbind_InrE)
  next
    case (Suc j')
    then show ?thesis using Cons.IH [OF k(2), of j'] Cons.prems by auto
  qed
qed simp

lemma document_keys_set:
  assumes "document_keys p doc = Inr ks"
  shows "(a, i) \<in> set ks \<Longrightarrow> is_model_service doc = Inr True \<and> (\<exists>s. a = prefixed p (JStr s) \<and> document_name doc = Inr (JStr s))"
    and "is_model_service doc = Inr True \<Longrightarrow> document_name doc = Inr n \<Longrightarrow> i < length (document_scopes doc) \<Longrightarrow>
      staged (document_scopes doc ! i) \<Longrightarrow> (prefixed p n, i) \<in> set ks"
    and "is_model_service doc = Inr True \<Longrightarrow> i < length (document_scopes doc) \<Longrightarrow> \<not> staged (document_scopes doc ! i) \<Longrightarrow> (a, i) \<notin> set ks"
proof -
  obtain b where b: "is_model_service doc = Inr b" "(if b then env_keys p doc 0 (document_scopes doc) else Inr []) = Inr ks"
    using assms unfolding document_keys_def by (auto elim!: rbind_InrE)
  have set: "(a, i) \<in> set ks \<longleftrightarrow> b \<and> (\<exists>s. a = JStr (p @ s) \<and> document_name doc = Inr (JStr s)) \<and>
      i < length (document_scopes doc) \<and> staged (document_scopes doc ! i)" for a i
    using b(2) env_keys_set [of p doc 0 "document_scopes doc" ks a i] by (auto split: if_splits)
  show "(a, i) \<in> set ks \<Longrightarrow> is_model_service doc = Inr True \<and> (\<exists>s. a = prefixed p (JStr s) \<and> document_name doc = Inr (JStr s))"
    using set b(1) by auto
  show "is_model_service doc = Inr True \<Longrightarrow> i < length (document_scopes doc) \<Longrightarrow> \<not> staged (document_scopes doc ! i) \<Longrightarrow> (a, i) \<notin> set ks"
    using set by blast
  show "(prefixed p n, i) \<in> set ks" if "is_model_service doc = Inr True" "document_name doc = Inr n"
    "i < length (document_scopes doc)" "staged (document_scopes doc ! i)"
  proof -
    have "\<exists>s. n = JStr s" using that b env_keys_strings [of p doc 0 "document_scopes doc" ks i] by auto
    then show ?thesis using set that b(1) by auto
  qed
qed

lemma update_document_stage:
  assumes "update_document stage_env doc = Inr sdoc"
  obtains (same) b where "is_model_service doc = Inr b" "\<not> b \<or> \<not> is_object (field ''spec'' doc)" "sdoc = doc"
  | (staged) "is_model_service doc = Inr True" "is_object (field ''spec'' doc)"
      "sdoc = put ''spec'' (stage_spec (field ''spec'' doc)) doc" "scopes_named doc (document_scopes doc)"
proof -
  obtain b where b: "is_model_service doc = Inr b"
    "(if \<not> b \<or> \<not> is_object (field ''spec'' doc) then Inr doc
      else rbind (update_spec stage_env doc (field ''spec'' doc)) (\<lambda>spec. raising (set_field ''spec'' spec doc))) = Inr sdoc"
    using assms unfolding update_document_def by (auto elim!: rbind_InrE)
  show thesis
  proof (cases "\<not> b \<or> \<not> is_object (field ''spec'' doc)")
    case True
    then show thesis using same b by simp
  next
    case False
    then obtain s where s: "update_spec stage_env doc (field ''spec'' doc) = Inr s" "set_field ''spec'' s doc = Inr sdoc"
      using b(2) by (auto elim!: rbind_InrE)
    then show thesis
      using staged False b(1) update_spec_stage [OF s(1)] is_model_service_object [OF b(1)]
      by (auto simp: set_field_put document_scopes_def Let_def)
  qed
qed

lemma document_kept_model:
  "document_kept R p doc out \<Longrightarrow> is_object doc \<Longrightarrow> is_model_service out = is_model_service doc"
  by (intro is_model_service_cong) (auto simp: document_kept_def field_kept_def)

lemma restore_document:
  assumes wf: "json_wf doc" and stage: "update_document stage_env doc = Inr sdoc" and keys: "document_keys p doc = Inr ks"
    and K: "\<And>n i. is_model_service doc = Inr True \<Longrightarrow> document_name doc = Inr n \<Longrightarrow>
      (prefixed p n, i) \<in> set K \<longleftrightarrow> (prefixed p n, i) \<in> set ks"
    and kept: "document_kept R p sdoc out"
  shows "\<exists>v. update_document (restore_env K) out = Inr v \<and> document_restored R doc v \<and> only_environments out v"
  using stage
proof (cases rule: update_document_stage)
  case (same b)
  have model: "is_model_service out = Inr b"
    using document_kept_model [OF kept] is_model_service_object same(1,3) by simp
  have scopes: "b \<longrightarrow> list_all2 (scope_kept R) (document_scopes doc) (document_scopes out)"
    using kept same(1,3) by (auto simp: document_kept_def)
  have "\<not> b \<or> \<not> is_object (field ''spec'' out)"
    using same(2) scopes by (auto simp: document_scopes_def Let_def split: if_splits)
  then have "update_document (restore_env K) out = Inr out" using model by (auto simp: update_document_def)
  moreover have "document_restored R doc out"
    using same(1,2) scopes by (auto simp: document_restored_def document_scopes_def Let_def split: if_splits)
  ultimately show ?thesis by (auto simp: only_environments_def)
next
  case staged
  let ?spec = "field ''spec'' doc" let ?pools = "jlist (field ''modelPools'' ?spec)" let ?out = "field ''spec'' out"
  have obj: "is_object doc" using is_model_service_object staged(1) .
  have sdoc: "is_object sdoc" "field ''spec'' sdoc = stage_spec ?spec" "document_name sdoc = document_name doc"
    using staged(3) document_name_put_spec [OF obj] by simp_all
  have smodel: "is_model_service sdoc = Inr True"
    using is_model_service_cong [of sdoc doc] sdoc(1) obj staged(1) by (force simp: staged(3))
  have scopes: "document_scopes doc = ?spec # ?pools" using staged(2) by (simp add: document_scopes_def Let_def)
  have "document_scopes sdoc = stage_spec ?spec # map stage ?pools"
    using is_object_stage_spec [OF staged(2)] staged(2) by (simp add: document_scopes_def Let_def sdoc(2))
  then have "list_all2 (scope_kept R) (stage_spec ?spec # map stage ?pools) (document_scopes out)"
    using kept smodel by (simp add: document_kept_def)
  then have out: "is_object ?out" "scope_kept R (stage_spec ?spec) ?out"
    "list_all2 (scope_kept R) (map stage ?pools) (jlist (field ''modelPools'' ?out))"
    by (auto simp: document_scopes_def Let_def split: if_splits)
  have oobj: "is_object out" using kept by (simp add: document_kept_def)
  have "\<exists>n. (\<forall>s \<in> set (document_scopes doc). has_env s \<longrightarrow> document_name out = Inr n) \<and> keys_match K n (document_scopes doc)"
  proof (cases "document_name doc")
    case (Inr n)
    have "document_name out = Inr (prefixed p n)" using kept smodel sdoc(3) Inr by (simp add: document_kept_def)
    moreover have "keys_match K (prefixed p n) (document_scopes doc)"
      using K [OF staged(1) Inr] document_keys_set(2) [OF keys staged(1) Inr] document_keys_set(3) [OF keys staged(1)]
      unfolding keys_match_def by blast
    ultimately show ?thesis by blast
  next
    case (Inl e)
    then have none: "s \<in> set (document_scopes doc) \<Longrightarrow> \<not> has_env s" for s using staged(4) by (auto simp: scopes_named_def)
    then have "keys_match K JNull (document_scopes doc)" unfolding keys_match_def by (metis nth_mem)
    then show ?thesis using none by blast
  qed
  then obtain n where n: "\<forall>s \<in> set (?spec # ?pools). has_env s \<longrightarrow> document_name out = Inr n" "keys_match K n (?spec # ?pools)"
    unfolding scopes by blast
  from update_spec_restore [OF staged(2) json_wf_field [OF wf] n out] obtain r where r:
    "update_spec (restore_env K) out ?out = Inr r" "is_object r" "env_restored R ?spec r"
    "list_all2 (env_restored R) ?pools (jlist (field ''modelPools'' r))"
    "fields_but [''env'', ''modelPools''] r = fields_but [''env'', ''modelPools''] ?out"
    "list_all2 only_env (jlist (field ''modelPools'' ?out)) (jlist (field ''modelPools'' r))"
    by (elim exE conjE)
  have "is_model_service out = Inr True" using document_kept_model [OF kept sdoc(1)] smodel by simp
  then have "update_document (restore_env K) out = Inr (put ''spec'' r out)"
    using out(1) r(1) oobj by (simp add: update_document_def set_field_put)
  moreover have "document_restored R doc (put ''spec'' r out)"
    unfolding document_restored_def scopes using r(2-4) by (simp add: document_scopes_def)
  moreover have "only_environments out (put ''spec'' r out)"
    using r(5,6) by (simp add: only_environments_def)
  ultimately show ?thesis by blast
qed

definition distinct_models :: "json list \<Rightarrow> bool" where
  "distinct_models objects \<longleftrightarrow> distinct (map document_name (filter (\<lambda>d. is_model_service d = Inr True) objects))"

lemma environment_maps_own:
  assumes K: "environment_maps p objects = Inr K" and "distinct_models objects" and "doc \<in> set objects"
    and "is_model_service doc = Inr True" "document_name doc = Inr n" and ks: "document_keys p doc = Inr ks"
  shows "(prefixed p n, i) \<in> set K \<longleftrightarrow> (prefixed p n, i) \<in> set ks"
proof -
  obtain kss where kss: "list_all2 (\<lambda>d ks. document_keys p d = Inr ks) objects kss" "K = concat kss"
    using K unfolding environment_maps_def by (auto simp: map_list_Inr elim!: rbind_InrE)
  have mem: "x \<in> set K \<longleftrightarrow> (\<exists>d \<in> set objects. \<exists>ks. document_keys p d = Inr ks \<and> x \<in> set ks)" for x
    using kss(1) unfolding kss(2) by (induction rule: list_all2_induct) auto
  show ?thesis
  proof
    assume "(prefixed p n, i) \<in> set K"
    then obtain d kd where d: "d \<in> set objects" "document_keys p d = Inr kd" "(prefixed p n, i) \<in> set kd" using mem by blast
    obtain s where s: "is_model_service d = Inr True" "prefixed p n = prefixed p (JStr s)" "document_name d = Inr (JStr s)"
      using document_keys_set(1) [OF d(2,3)] by blast
    have "n = JStr s" using s(2) by (cases n) auto
    then have "document_name d = document_name doc" using s(3) assms(5) by simp
    then have "d = doc"
      using distinct_key_eq [of document_name "filter (\<lambda>d. is_model_service d = Inr True) objects" d doc]
        assms(2-4) d(1) s(1) by (simp add: distinct_models_def)
    then show "(prefixed p n, i) \<in> set ks" using d(2,3) ks by simp
  qed (use mem assms(3) ks in blast)
qed

lemma list_all2_conj_set: "list_all2 P xs ys \<Longrightarrow> list_all2 (\<lambda>x y. x \<in> set xs \<and> P x y) xs ys"
  by (auto simp: list_all2_conv_all_nth)

lemma staged_scopes_restored:
  assumes wf: "list_all json_wf objects" and models: "distinct_models objects"
    and keys: "environment_maps p objects = Inr K" and stage: "update_scopes stage_env objects = Inr staged_objects"
    and kept: "rel_mset (document_kept R p) (mset staged_objects) (mset outs)"
  shows "\<exists>restored. update_scopes (restore_env K) outs = Inr restored \<and>
    rel_mset (document_restored R) (mset objects) (mset restored) \<and> list_all2 only_environments outs restored"
proof -
  obtain kss where kss: "list_all2 (\<lambda>d ks. document_keys p d = Inr ks) objects kss"
    using keys unfolding environment_maps_def by (auto simp: map_list_Inr elim!: rbind_InrE)
  define T where "T = (\<lambda>d s. d \<in> set objects \<and> update_document stage_env d = Inr s) OO document_kept R p"
  define f where "f out = projr (update_document (restore_env K) out)" for out
  have T: "update_document (restore_env K) out = Inr (f out) \<and> document_restored R d (f out) \<and> only_environments out (f out)"
    if "T d out" for d out
  proof -
    obtain s where s: "d \<in> set objects" "update_document stage_env d = Inr s" "document_kept R p s out"
      using \<open>T d out\<close> unfolding T_def by blast
    obtain ks where ks: "document_keys p d = Inr ks"
      using kss s(1) unfolding list_all2_conv_all_nth in_set_conv_nth by blast
    have "json_wf d" using wf s(1) by (auto simp: list_all_iff)
    from restore_document [OF this s(2) ks environment_maps_own [OF keys models s(1) _ _ ks] s(3)] obtain v where
      "update_document (restore_env K) out = Inr v" "document_restored R d v" "only_environments out v" by blast
    then show ?thesis by (simp add: f_def)
  qed
  have staged: "list_all2 (\<lambda>d s. update_document stage_env d = Inr s) objects staged_objects"
    using stage unfolding update_scopes_def map_list_Inr .
  have "list_all2 (\<lambda>d s. d \<in> set objects \<and> update_document stage_env d = Inr s) objects staged_objects"
    using list_all2_conj_set [OF staged] .
  then have "rel_mset (\<lambda>d s. d \<in> set objects \<and> update_document stage_env d = Inr s) (mset objects) (mset staged_objects)"
    unfolding rel_mset_def by blast
  then have "rel_mset T (mset objects) (mset outs)"
    unfolding T_def multiset.rel_compp using kept by (rule relcomppI)
  then obtain xs ys where xy: "mset xs = mset objects" "mset ys = mset outs" "list_all2 T xs ys"
    unfolding rel_mset_def by blast
  have all: "update_document (restore_env K) out = Inr (f out) \<and> only_environments out (f out)" if "out \<in> set outs" for out
  proof -
    have "out \<in> set ys" using that xy(2) by (metis set_mset_mset)
    then obtain d where "T d out" using xy(3) by (auto simp: list_all2_conv_all_nth in_set_conv_nth)
    then show ?thesis using T by blast
  qed
  have "update_scopes (restore_env K) outs = Inr (map f outs)"
    unfolding update_scopes_def map_list_Inr using all by (simp add: list_all2_map2 list.rel_refl_strong)
  moreover have "list_all2 only_environments outs (map f outs)"
    using all by (simp add: list_all2_map2 list.rel_refl_strong)
  moreover have "list_all2 (document_restored R) xs (map f ys)"
    using xy(3) T unfolding list_all2_map2 by (auto elim!: list_all2_mono)
  then have "rel_mset (document_restored R) (mset objects) (mset (map f outs))"
    unfolding rel_mset_def using xy(1,2) by (metis mset_map)
  ultimately show ?thesis by blast
qed

section \<open>What an index holds\<close>

definition service_document :: "(json \<Rightarrow> string) \<Rightarrow> string \<Rightarrow> json \<Rightarrow> bool" where
  "service_document render kind doc \<longleftrightarrow>
     starts_with api_group (or_default render (field ''apiVersion'' doc) []) \<and> field ''kind'' doc = JStr kind"

definition metadata_text :: "(json \<Rightarrow> string) \<Rightarrow> string \<Rightarrow> json \<Rightarrow> string" where
  "metadata_text render k doc = clean_text render (field k (jor (field ''metadata'' doc) (JObj [])))"

lemma clean_field_Inr: "clean_field render d k = Inr t \<Longrightarrow> t = clean_text render (field k d)"
  unfolding clean_field_def by (auto simp: jget_null elim!: rbind_InrE)

lemma metadata_of_Inr: "metadata_of doc = Inr m \<Longrightarrow> m = jor (field ''metadata'' doc) (JObj [])"
  unfolding metadata_of_def by (auto simp: jget_null elim!: rbind_InrE)

lemma cache_manifest_namespace: "cache_manifest render name ns spec = Inr c \<Longrightarrow> rc_namespace c = ns"
  unfolding cache_manifest_def by (auto split: if_splits json.splits option.splits)

lemma index_document_cases:
  assumes "index_document render i doc m = Inr m'"
  obtains (other) "m' = m" "\<And>k. k \<in> {''RuntimeCache'', ''FrontendService'', ''ModelService''} \<Longrightarrow> \<not> service_document render k doc"
  | (cache) c where "service_document render ''RuntimeCache'' doc" "m' = m\<lparr>mi_caches := mi_caches m @ [c]\<rparr>"
  | (frontend) "service_document render ''FrontendService'' doc"
      "m' = add_namespace (metadata_text render ''namespace'' doc) (m\<lparr>mi_frontends := mi_frontends m @ [doc]\<rparr>)"
  | (model) v where "service_document render ''ModelService'' doc" "metadata_text render ''name'' doc \<noteq> []" "v \<noteq> []"
      "m' = (add_namespace (metadata_text render ''namespace'' doc) m)\<lparr>mi_models := dict_set (metadata_text render ''name'' doc) v (mi_models m)\<rparr>"
proof -
  obtain md where md: "metadata_of doc = Inr md"
    using assms unfolding index_document_def by (auto split: if_splits elim!: rbind_InrE)
  note mdv = metadata_of_Inr [OF md]
  define grp where "grp \<longleftrightarrow> starts_with api_group (or_default render (field ''apiVersion'' doc) [])"
  show thesis
  proof (cases grp)
    case False
    then have "m' = m" using assms md unfolding index_document_def grp_def by (auto split: if_splits)
    then show thesis using other False by (simp add: service_document_def grp_def)
  next
    case True
    then obtain ns where ns: "clean_field render md ''namespace'' = Inr ns"
      "(if field ''kind'' doc = JStr ''RuntimeCache'' then index_cache render doc md ns m
        else index_service render doc md (field ''kind'' doc) ns m) = Inr m'"
      using assms md unfolding index_document_def grp_def Let_def by (auto split: if_splits elim!: rbind_InrE)
    have nsv: "ns = metadata_text render ''namespace'' doc" using clean_field_Inr [OF ns(1)] mdv by (simp add: metadata_text_def)
    consider "field ''kind'' doc = JStr ''RuntimeCache''" | "field ''kind'' doc = JStr ''FrontendService''"
      | "field ''kind'' doc = JStr ''ModelService''"
      | "field ''kind'' doc \<noteq> JStr ''RuntimeCache''" "field ''kind'' doc \<noteq> JStr ''FrontendService''" "field ''kind'' doc \<noteq> JStr ''ModelService''"
      by blast
    then show thesis
    proof cases
      case 1
      then show thesis using ns cache True unfolding index_cache_def service_document_def grp_def by (auto elim!: rbind_InrE)
    next
      case 2
      then show thesis using ns nsv frontend True unfolding index_service_def service_document_def grp_def by auto
    next
      case 3
      then obtain name v where nv: "clean_field render md ''name'' = Inr name" "name \<noteq> []" "v \<noteq> []"
        "m' = (add_namespace ns m)\<lparr>mi_models := dict_set name v (mi_models (add_namespace ns m))\<rparr>"
        using ns unfolding index_service_def index_model_def by (auto split: if_splits elim!: rbind_InrE)
      have "name = metadata_text render ''name'' doc" using clean_field_Inr [OF nv(1)] mdv by (simp add: metadata_text_def)
      then show thesis using 3 True nv nsv model by (simp add: service_document_def grp_def add_namespace_def)
    next
      case 4
      then show thesis
        using ns other unfolding index_service_def service_document_def by (auto split: json.splits)
    qed
  qed
qed

text \<open>The index of the documents seen so far.\<close>

definition index_of :: "(json \<Rightarrow> string) \<Rightarrow> json list \<Rightarrow> manifest_index \<Rightarrow> bool" where
  "index_of render ds m \<longleftrightarrow>
     mi_frontends m = filter (service_document render ''FrontendService'') ds \<and>
     length (mi_caches m) = length (filter (service_document render ''RuntimeCache'') ds) \<and>
     distinct (map fst (mi_models m)) \<and> list_all (\<lambda>(n, v). n \<noteq> [] \<and> v \<noteq> []) (mi_models m) \<and>
     fst ` set (mi_models m) = metadata_text render ''name'' ` set (filter (service_document render ''ModelService'') ds) \<and>
     list_all (\<lambda>d. service_document render ''FrontendService'' d \<or> service_document render ''ModelService'' d \<longrightarrow>
       metadata_text render ''namespace'' d \<in> set (mi_namespaces m)) ds"

lemma service_document_kind: "service_document render k d \<Longrightarrow> service_document render j d \<longleftrightarrow> j = k"
  by (auto simp: service_document_def)

lemma add_namespace_simps [simp]:
  "mi_frontends (add_namespace ns m) = mi_frontends m" "mi_models (add_namespace ns m) = mi_models m"
  "mi_caches (add_namespace ns m) = mi_caches m" "set (mi_namespaces (add_namespace ns m)) = insert ns (set (mi_namespaces m))"
  by (auto simp: add_namespace_def)

lemma dict_set_list_all:
  "list_all (\<lambda>(n, v). P n v) ps \<Longrightarrow> P k w \<Longrightarrow> list_all (\<lambda>(n, v). P n v) (dict_set k w ps)"
  by (induction ps) auto

lemma index_document_step:
  assumes "index_document render i doc m = Inr m'" and "index_of render ds m"
  shows "index_of render (ds @ [doc]) m'"
  using assms(1)
proof (cases rule: index_document_cases)
  case other
  then show ?thesis using assms(2) by (simp add: index_of_def)
next
  case (cache c)
  then show ?thesis using assms(2) service_document_kind [OF cache(1)] by (simp add: index_of_def)
next
  case frontend
  then show ?thesis using assms(2) service_document_kind [OF frontend(1)] by (auto simp: index_of_def list_all_iff)
next
  case (model v)
  have "list_all (\<lambda>(n, v). n \<noteq> [] \<and> v \<noteq> []) (dict_set (metadata_text render ''name'' doc) v (mi_models m))"
    using assms(2) model(2,3) unfolding index_of_def by (intro dict_set_list_all) auto
  then show ?thesis
    using assms(2) model service_document_kind [OF model(1)] by (auto simp: index_of_def list_all_iff distinct_dict_set)
qed

lemma index_documents_of:
  "index_documents render i ds m = Inr m' \<Longrightarrow> index_of render pre m \<Longrightarrow> index_of render (pre @ ds) m'"
proof (induction ds arbitrary: i m pre)
  case (Cons d ds)
  then obtain m1 where m1: "index_document render i d m = Inr m1" "index_documents render (Suc i) ds m1 = Inr m'"
    by (auto elim!: rbind_InrE)
  have "index_of render (pre @ [d]) m1" using m1(1) Cons.prems(2) by (rule index_document_step)
  then show ?case using Cons.IH [OF m1(2)] by fastforce
qed simp

lemma empty_index_of: "index_of render [] empty_index"
  by (simp add: index_of_def empty_index_def)

text \<open>A deployment its documents justify.\<close>

definition deployment_wf :: "(json \<Rightarrow> string) \<Rightarrow> foretoken_deployment \<Rightarrow> bool" where
  "deployment_wf render d \<longleftrightarrow>
     (\<exists>f. filter (service_document render ''FrontendService'') (fd_objects d) = [f] \<and> fd_frontend d = metadata_text render ''name'' f) \<and>
     fd_frontend d \<noteq> [] \<and> fd_name d \<noteq> [] \<and> fd_models d \<noteq> [] \<and>
     distinct (map fst (fd_models d)) \<and> list_all (\<lambda>(n, v). n \<noteq> [] \<and> v \<noteq> []) (fd_models d) \<and>
     fst ` set (fd_models d) = metadata_text render ''name'' ` set (filter (service_document render ''ModelService'') (fd_objects d)) \<and>
     list_all (\<lambda>o'. service_document render ''FrontendService'' o' \<or> service_document render ''ModelService'' o' \<longrightarrow>
       metadata_text render ''namespace'' o' = fd_namespace d) (fd_objects d) \<and>
     length (filter (service_document render ''RuntimeCache'') (fd_objects d)) = length (fd_caches d) \<and> length (fd_caches d) \<le> 1 \<and>
     list_all (\<lambda>c. rc_namespace c = fd_namespace d) (fd_caches d)"

lemma finish_deployment_Inr:
  assumes "finish_deployment render path rendered name uid ds m f ns = Inr d"
  shows "fd_namespace d = ns" "fd_models d = mi_models m" "fd_caches d = mi_caches m" "fd_objects d = ds"
    "fd_frontend d = metadata_text render ''name'' f" "fd_frontend d \<noteq> []" "fd_name d \<noteq> []"
    "list_all (\<lambda>c. rc_namespace c = ns) (mi_caches m)" "length (mi_caches m) \<le> 1"
proof -
  obtain t where t: "rbind (metadata_of f) (\<lambda>md. clean_field render md ''name'') = Inr t" "t \<noteq> []"
    "\<not> list_ex (\<lambda>c. rc_namespace c \<noteq> ns) (mi_caches m)" "\<not> 1 < length (mi_caches m)"
    "\<exists>h. d = \<lparr>fd_path = path, fd_rendered = rendered, fd_namespace = ns, fd_frontend = t, fd_hostname = h,
               fd_models = mi_models m, fd_caches = mi_caches m, fd_objects = ds,
               fd_name = (case name of None \<Rightarrow> t | Some n \<Rightarrow> or_text n t), fd_uid = uid\<rparr>"
    using assms unfolding finish_deployment_def by (auto split: if_splits elim!: rbind_InrE)
  have "t = metadata_text render ''name'' f"
    using t(1) by (auto dest!: clean_field_Inr metadata_of_Inr simp: metadata_text_def elim!: rbind_InrE)
  then show "fd_namespace d = ns" "fd_models d = mi_models m" "fd_caches d = mi_caches m" "fd_objects d = ds"
    "fd_frontend d = metadata_text render ''name'' f" "fd_frontend d \<noteq> []" "fd_name d \<noteq> []"
    "list_all (\<lambda>c. rc_namespace c = ns) (mi_caches m)" "length (mi_caches m) \<le> 1"
    using t(2-5) by (auto simp: list_ex_iff list_all_iff or_text_def split: option.splits if_splits)
qed

lemma parse_documents_wf:
  assumes "parse_documents render path rendered name uid ds = Inr d"
  shows "deployment_wf render d" "fd_objects d = ds"
proof -
  obtain m where m: "index_documents render 1 ds empty_index = Inr m"
    "(case mi_frontends m of
          [frontend] \<Rightarrow>
            if mi_models m = [] then deploy_fail ''a deployment must render at least one Foretoken ModelService''
            else (case mi_namespaces m of
              [ns] \<Rightarrow> finish_deployment render path rendered name uid ds m frontend ns
            | _ \<Rightarrow> deploy_fail ''FrontendService and ModelService resources must share one namespace'')
        | _ \<Rightarrow> deploy_fail ''a deployment must render exactly one Foretoken FrontendService'') = Inr d"
    using assms unfolding parse_documents_def by (auto split: if_splits elim!: rbind_InrE)
  obtain f ns where fin: "mi_frontends m = [f]" "mi_models m \<noteq> []" "mi_namespaces m = [ns]"
    "finish_deployment render path rendered name uid ds m f ns = Inr d"
    using m(2) by (auto split: list.splits if_splits)
  have idx: "index_of render ds m" using index_documents_of [OF m(1) empty_index_of] by simp
  show "fd_objects d = ds" using finish_deployment_Inr(4) [OF fin(4)] .
  show "deployment_wf render d"
    using idx fin(1-3) finish_deployment_Inr [OF fin(4)] unfolding deployment_wf_def index_of_def
    by (intro conjI exI [of _ f]) simp_all
qed

section \<open>Properties of manifests\<close>

text \<open>C36: A parsed deployment is justified by its documents: one named frontend, named models that are exactly the model
  services, one namespace for all services, and at most one runtime cache, in that namespace.\<close>

theorem parsed_deployment_wf:
  assumes "parse_deployment Y render path rendered name uid = Inr d"
  shows "decode_resources Y rendered = Inr (fd_objects d) \<and> deployment_wf render d"
  using assms parse_documents_wf unfolding parse_deployment_def by (auto split: sum.splits)

fun to_node :: "json \<Rightarrow> ynode" where
  "to_node (JList xs) = YSeq (core_tag ''seq'') (map to_node xs)"
| "to_node (JObj ps) = YMap (core_tag ''map'') (map (\<lambda>p. (YScalar (core_tag ''str'') (fst p), to_node (snd p))) ps)"
| "to_node (JStr s) = YScalar (core_tag ''str'') s"
| "to_node v = YScalar (core_tag ''null'') []"

definition loaded_yaml :: "json list \<Rightarrow> yaml_lib" where
  "loaded_yaml docs = demo_yaml\<lparr>compose_all := (\<lambda>res t. Inr (map to_node docs))\<rparr>"

definition demo_service :: "string \<Rightarrow> string \<Rightarrow> json \<Rightarrow> json" where
  "demo_service kind name spec =
     JObj [(''apiVersion'', JStr ''inference.foretoken.io/v1alpha1''), (''kind'', JStr kind),
       (''metadata'', JObj [(''name'', JStr name), (''namespace'', JStr ''prod'')]), (''spec'', spec)]"

definition demo_objects :: "json list" where
  "demo_objects = [demo_service ''FrontendService'' ''web'' (JObj []),
     demo_service ''ModelService'' ''llm'' (JObj [(''model'', JStr ''m''),
       (''env'', JObj [(''A'', JStr ''1''),
          (''B'', JObj [(''valueFrom'', JObj [(''secretKeyRef'', JObj [(''name'', JStr ''tok''), (''key'', JStr ''k'')])])])])]),
     JObj [(''apiVersion'', JStr ''v1''), (''kind'', JStr ''Secret''), (''metadata'', JObj [(''name'', JStr ''tok''), (''namespace'', JStr ''prod'')])]]"

definition demo_deployment :: foretoken_deployment where
  "demo_deployment = \<lparr>fd_path = None, fd_rendered = ''r'', fd_namespace = ''prod'', fd_frontend = ''web'', fd_hostname = [],
     fd_models = [(''llm'', ''m'')], fd_caches = [], fd_objects = demo_objects, fd_name = ''web'', fd_uid = []\<rparr>"

lemma demo_decoded: "decode_resources (loaded_yaml demo_objects) ''r'' = Inr demo_objects"
  by code_simp

lemma demo_parsed: "parse_documents (\<lambda>_. []) None ''r'' None [] demo_objects = Inr demo_deployment"
  by code_simp

theorem parsed_deployment_wf_witness:
  "parse_deployment (loaded_yaml demo_objects) (\<lambda>_. []) None ''r'' None [] = Inr demo_deployment \<and>
   deployment_wf (\<lambda>_. []) demo_deployment"
proof -
  have "parse_deployment (loaded_yaml demo_objects) (\<lambda>_. []) None ''r'' None [] = Inr demo_deployment"
    by (simp add: parse_deployment_def demo_decoded demo_parsed)
  then show ?thesis using parsed_deployment_wf by blast
qed

text \<open>C4: Under a prefix, the environment maps of the model services survive the projection. Kustomize may set the
  namespace, add labels, prefix names, rewrite the references in staged entries by any relation R, change any other
  field and reorder the documents; it is assumed to keep the kind and API group of a document, to prefix the name of a
  model service, and to keep the order, names and literals of the staged entries. Model services have distinct names.
  Then what is parsed again are the documents Kustomize rendered, with the frontend under the instance name, changed
  only in the environment maps: each map has its original keys in their order, its literal values are unchanged, and
  its references are the rewritten ones.\<close>

theorem projection_keeps_environment:
  assumes "prefix \<noteq> []" and "list_all json_wf (fd_objects d)" and "distinct_models (fd_objects d)"
    and "environment_maps prefix (fd_objects d) = Inr keys" and "update_scopes stage_env (fd_objects d) = Inr staged_objects"
    and "transform (encode_resources Y staged_objects) (projection_configuration (fd_namespace d) prefix uid)
      (Some name_reference_configuration) = Inr rendered"
    and "decode_resources Y rendered = Inr outs"
    and "rel_mset (document_kept R prefix) (mset staged_objects) (mset outs)"
  shows "\<exists>restored. rel_mset (document_restored R) (mset (fd_objects d)) (mset restored) \<and>
    list_all2 only_environments outs restored \<and>
    project_deployment Y render transform d prefix uid =
      rbind (raising (map_list (anchor_frontend (fd_name d)) restored)) (\<lambda>anchored.
        check_projected Y render d uid (encode_resources Y anchored))"
proof -
  obtain restored where restored: "update_scopes (restore_env keys) outs = Inr restored"
    "rel_mset (document_restored R) (mset (fd_objects d)) (mset restored)" "list_all2 only_environments outs restored"
    using staged_scopes_restored [OF assms(2-5,8)] by blast
  have "unproject Y keys (fd_name d) rendered =
      rbind (raising (map_list (anchor_frontend (fd_name d)) restored)) (\<lambda>anchored. Inr (encode_resources Y anchored))"
    using assms(7) restored(1) by (simp add: unproject_def yaml_documents_def)
  then have "project_deployment Y render transform d prefix uid =
      rbind (raising (map_list (anchor_frontend (fd_name d)) restored)) (\<lambda>anchored.
        check_projected Y render d uid (encode_resources Y anchored))"
    using assms(1,4-6) unfolding project_deployment_def
    by (cases "raising (map_list (anchor_frontend (fd_name d)) restored)") simp_all
  then show ?thesis using restored(2,3) by blast
qed

text \<open>
  A small Kustomize: it prefixes names, sets namespace and labels from its configuration, rewrites the secret that an
  environment entry refers to, and returns the documents in reverse order.
\<close>

definition demo_staged :: "json list" where
  "demo_staged = (case update_scopes stage_env demo_objects of Inr xs \<Rightarrow> xs | Inl _ \<Rightarrow> [])"

definition demo_rewrite :: "string \<Rightarrow> json \<Rightarrow> json" where
  "demo_rewrite p v =
     (let source = field ''valueFrom'' v; secret = field ''secretKeyRef'' source in
      put ''valueFrom'' (put ''secretKeyRef'' (put ''name'' (prefixed p (field ''name'' secret)) secret) source) v)"

definition demo_rewrite_entry :: "string \<Rightarrow> json \<Rightarrow> json" where
  "demo_rewrite_entry p e = (if has_key ''reference'' e then put ''reference'' (demo_rewrite p (field ''reference'' e)) e else e)"

definition demo_transformed :: "json \<Rightarrow> json \<Rightarrow> json" where
  "demo_transformed c doc =
     (let p = (case field ''namePrefix'' c of JStr s \<Rightarrow> s | _ \<Rightarrow> []); spec = field ''spec'' doc;
          doc1 = put ''metadata'' (JObj [(''labels'', field ''pairs'' (hd (jlist (field ''labels'' c)))),
            (''name'', prefixed p (field ''name'' (field ''metadata'' doc))), (''namespace'', field ''namespace'' c)]) doc in
      if field ''kind'' doc = JStr ''ModelService''
      then put ''spec'' (put ''env'' (JList (map (demo_rewrite_entry p) (jlist (field ''env'' spec)))) spec) doc1
      else doc1)"

definition demo_rendered :: "json list" where
  "demo_rendered = rev (map (demo_transformed (projection_configuration ''prod'' ''web-'' ''u1'')) demo_staged)"

definition demo_final :: "json list" where
  "demo_final = projr (map_list (anchor_frontend ''web'') (projr (update_scopes (restore_env [(JStr ''web-llm'', 0)]) demo_rendered)))"

text \<open>A YAML library for the three streams of this projection, and the transformation through it.\<close>

definition demo_codec :: yaml_lib where
  "demo_codec =
     (let table = [(''staged'', demo_staged), (''rendered'', demo_rendered), (''final'', demo_final)] in
      demo_yaml\<lparr>compose_all := (\<lambda>res t. Inr (map to_node (case map_of table t of None \<Rightarrow> [] | Some ds \<Rightarrow> ds))),
        dump_all := (\<lambda>xs. case find (\<lambda>(t, ds). ds = xs) table of None \<Rightarrow> [] | Some (t, _) \<Rightarrow> t)\<rparr>)"

definition demo_kustomize :: "string \<Rightarrow> json \<Rightarrow> json option \<Rightarrow> cli_error + string" where
  "demo_kustomize resources c n =
     rbind (yaml_documents demo_codec resources) (\<lambda>docs. Inr (encode_resources demo_codec (rev (map (demo_transformed c) docs))))"

definition demo_projected :: "cli_error + foretoken_deployment" where
  "demo_projected = project_deployment demo_codec (\<lambda>_. []) demo_kustomize demo_deployment ''web-'' ''u1''"

text \<open>The projected model service has its own map again, with the rewritten secret.\<close>

theorem projection_keeps_environment_witness:
  "(\<exists>restored. rel_mset (document_restored (\<lambda>v v'. v' = demo_rewrite ''web-'' v)) (mset demo_objects) (mset restored) \<and>
      list_all2 only_environments demo_rendered restored \<and>
      demo_projected = rbind (raising (map_list (anchor_frontend ''web'') restored)) (\<lambda>anchored.
        check_projected demo_codec (\<lambda>_. []) demo_deployment ''u1'' (encode_resources demo_codec anchored))) \<and>
   map (\<lambda>doc. field ''env'' (field ''spec'' doc)) (filter (\<lambda>doc. field ''kind'' doc = JStr ''ModelService'') (fd_objects (projr demo_projected))) =
     [JObj [(''A'', JStr ''1''), (''B'', JObj [(''valueFrom'', JObj [(''secretKeyRef'', JObj [(''name'', JStr ''web-tok''), (''key'', JStr ''k'')])])])]]"
proof -
  have "list_all json_wf demo_objects" "distinct_models demo_objects"
    "environment_maps ''web-'' demo_objects = Inr [(JStr ''web-llm'', 0)]" "update_scopes stage_env demo_objects = Inr demo_staged"
    by code_simp+
  moreover have "demo_kustomize (encode_resources demo_codec demo_staged) (projection_configuration ''prod'' ''web-'' ''u1'')
      (Some name_reference_configuration) = Inr ''rendered''"
    by code_simp
  moreover have "decode_resources demo_codec ''rendered'' = Inr demo_rendered" by code_simp
  moreover have "list_all2 (document_kept (\<lambda>v v'. v' = demo_rewrite ''web-'' v) ''web-'') demo_staged
      (map (demo_transformed (projection_configuration ''prod'' ''web-'' ''u1'')) demo_staged)"
    by code_simp
  then have "rel_mset (document_kept (\<lambda>v v'. v' = demo_rewrite ''web-'' v) ''web-'') (mset demo_staged) (mset demo_rendered)"
    unfolding rel_mset_def demo_rendered_def by (metis mset_rev)
  moreover have "map (\<lambda>doc. field ''env'' (field ''spec'' doc)) (filter (\<lambda>doc. field ''kind'' doc = JStr ''ModelService'') (fd_objects (projr demo_projected))) =
     [JObj [(''A'', JStr ''1''), (''B'', JObj [(''valueFrom'', JObj [(''secretKeyRef'', JObj [(''name'', JStr ''web-tok''), (''key'', JStr ''k'')])])])]]"
    by code_simp
  ultimately show ?thesis
    using projection_keeps_environment [of "''web-''" demo_deployment "[(JStr ''web-llm'', 0)]" demo_staged demo_kustomize demo_codec "''u1''"
        "''rendered''" demo_rendered "\<lambda>v v'. v' = demo_rewrite ''web-'' v" "\<lambda>_. []"]
    by (simp add: demo_projected_def demo_deployment_def)
qed

end
