(* ===== verification/Service_Status.thy ===== *)
theory Service_Status
  imports Manifest
begin

text \<open>
  Service readiness of the CLI (\<open>deployment/status.py\<close>): the interpretation of a service's status without
  accepting stale generations, the readiness of a selection, and the wait of a deployment for its services.
  Observations and clock readings are given per round; observation callbacks and printing are left out.
\<close>

section \<open>Progress of one service\<close>

record progress =
  rp_resource :: resource_ref
  rp_state :: string
  rp_reason :: string
  rp_message :: string
  rp_converged :: bool

definition detail :: "progress \<Rightarrow> string" where
  "detail p = or_text (rp_message p) (rp_reason p)"

definition progress_of :: "resource_ref \<Rightarrow> string \<Rightarrow> string \<Rightarrow> string \<Rightarrow> bool \<Rightarrow> progress" where
  "progress_of r state reason message converged =
     \<lparr>rp_resource = r, rp_state = state, rp_reason = reason, rp_message = message, rp_converged = converged\<rparr>"

text \<open>\<open>int(x)\<close>, \<open>int(d.get(k) or 0)\<close> and \<open>str(d.get(k) or default)\<close>.\<close>

definition to_int :: "json \<Rightarrow> py_error + int" where
  "to_int v =
     (case v of
        JInt n \<Rightarrow> Inr n
      | JBool b \<Rightarrow> Inr (if b then 1 else 0)
      | JFloat q \<Rightarrow> Inr (if q < 0 then - floor (- q) else floor q)
      | JStr s \<Rightarrow> (case py_int s of None \<Rightarrow> Inl (ValueError s) | Some n \<Rightarrow> Inr n)
      | _ \<Rightarrow> Inl TypeError)"

definition int_field :: "json \<Rightarrow> string \<Rightarrow> py_error + int" where
  "int_field d k = rbind (jget d k JNull) (\<lambda>v. to_int (jor v (JInt 0)))"

definition text_field :: "(json \<Rightarrow> string) \<Rightarrow> json \<Rightarrow> string \<Rightarrow> string \<Rightarrow> py_error + string" where
  "text_field render d k dflt = rbind (jget d k JNull) (\<lambda>v. Inr (or_default render v dflt))"

definition item_text :: "(json \<Rightarrow> string) \<Rightarrow> json \<Rightarrow> string \<Rightarrow> py_error + string" where
  "item_text render d k = rbind (jitem d k) (\<lambda>v. Inr (py_str render v))"

definition has_status :: "string \<Rightarrow> json \<Rightarrow> bool" where
  "has_status s c \<longleftrightarrow> field ''status'' c = JStr s"

text \<open>\<open>next((item for item in conditions if item.get("type") == name), None)\<close>.\<close>

fun find_condition :: "string \<Rightarrow> json list \<Rightarrow> py_error + json option" where
  "find_condition name [] = Inr None"
| "find_condition name (c # cs) =
     rbind (jget c ''type'' JNull) (\<lambda>t. if t = JStr name then Inr (Some c) else find_condition name cs)"

fun find_ready :: "json list \<Rightarrow> json option" where
  "find_ready [] = None"
| "find_ready (c # cs) = (if is_object c \<and> field ''type'' c = JStr ''Ready'' then Some c else find_ready cs)"

definition is_current :: "int \<Rightarrow> json option \<Rightarrow> py_error + bool" where
  "is_current generation c =
     (case c of None \<Rightarrow> Inr False | Some d \<Rightarrow> rbind (int_field d ''observedGeneration'') (\<lambda>g. Inr (g = generation)))"

text \<open>What \<open>resource_progress\<close> reads before it looks at the Ready condition.\<close>

record view =
  vw_status :: json
  vw_generation :: int
  vw_observed :: int
  vw_conditions :: "json list"
  vw_required :: bool
  vw_suspended :: bool
  vw_alerts_selected :: bool
  vw_alerts :: "json option"
  vw_alerts_current :: bool

definition or_object :: "json \<Rightarrow> string \<Rightarrow> py_error + json" where
  "or_object d k = rbind (jget d k JNull) (\<lambda>v. Inr (jor v (JObj [])))"

definition alerts_selected :: "json \<Rightarrow> py_error + bool" where
  "alerts_selected spec =
     rbind (or_object spec ''observability'') (\<lambda>o'. rbind (or_object o' ''alerts'') (\<lambda>a.
       rbind (jget a ''rules'' JNull) (\<lambda>r. Inr (jtrue r))))"

definition read_view :: "json \<Rightarrow> json \<Rightarrow> json \<Rightarrow> py_error + view" where
  "read_view value metadata status =
     rbind (int_field metadata ''generation'') (\<lambda>generation.
     rbind (int_field status ''observedGeneration'') (\<lambda>observed.
     rbind (rbind (jget status ''conditions'' JNull) (\<lambda>c. jiter (jor c (JList [])))) (\<lambda>conditions.
     rbind (service_requires_execution value) (\<lambda>required.
     rbind (spec_of value) (\<lambda>spec.
     rbind (jget spec ''suspend'' (JBool False)) (\<lambda>suspended.
     rbind (alerts_selected spec) (\<lambda>selected.
     rbind (find_condition ''AlertsReady'' conditions) (\<lambda>alerts.
     rbind (is_current generation alerts) (\<lambda>current.
       Inr \<lparr>vw_status = status, vw_generation = generation, vw_observed = observed, vw_conditions = conditions,
             vw_required = required, vw_suspended = jtrue suspended, vw_alerts_selected = selected, vw_alerts = alerts,
             vw_alerts_current = current\<rparr>)))))))))"

definition alerts_status :: "string \<Rightarrow> view \<Rightarrow> bool" where
  "alerts_status s v \<longleftrightarrow> vw_alerts_current v \<and> (case vw_alerts v of None \<Rightarrow> False | Some c \<Rightarrow> has_status s c)"

definition json_is_int :: "json \<Rightarrow> int \<Rightarrow> bool" where
  "json_is_int v g \<longleftrightarrow> v \<in> {JInt g, JFloat (of_int g)} \<or> g = 1 \<and> v = JBool True \<or> g = 0 \<and> v = JBool False"

definition stopped :: "resource_ref \<Rightarrow> view \<Rightarrow> string \<Rightarrow> string \<Rightarrow> json option \<Rightarrow> bool" where
  "stopped r v condition_status reason target \<longleftrightarrow>
     condition_status = ''False'' \<and> reason = ''ScaledToZero'' \<and> \<not> vw_required v \<and>
     (rr_kind r = ''FrontendService'' \<or>
      rr_kind r = ''ModelService'' \<and>
      (case target of
         None \<Rightarrow> False
       | Some t \<Rightarrow> json_is_int (field ''observedGeneration'' t) (vw_generation v) \<and> has_status ''True'' t \<and>
           field ''reason'' t = JStr ''ScaledToZero''))"

text \<open>The branch of a true Ready condition or a stopped service.\<close>

definition settled_progress :: "resource_ref \<Rightarrow> view \<Rightarrow> bool \<Rightarrow> string \<Rightarrow> string \<Rightarrow> py_error + progress" where
  "settled_progress r v is_stopped reason message =
     rbind (if rr_kind r = ''ModelService'' then int_field (vw_status v) ''servingGeneration'' else Inr (vw_generation v)) (\<lambda>serving.
     if serving \<noteq> vw_generation v
     then Inr (progress_of r ''Progressing'' ''Updating'' ''Waiting for the current ModelService generation to serve'' False)
     else if \<not> vw_suspended v \<and> \<not> vw_alerts_selected v \<and> vw_alerts v \<noteq> None
     then Inr (progress_of r ''Progressing'' ''AlertsRemoving'' ''Waiting for service alert removal'' False)
     else if \<not> vw_suspended v \<and> vw_alerts_selected v \<and> \<not> alerts_status ''True'' v
     then Inr (progress_of r ''Progressing'' ''AlertsReconciling'' ''Waiting for the selected service alerts'' False)
     else Inr (progress_of r (if is_stopped then ''Stopped'' else ''Ready'') reason message True))"

definition rejected_progress ::
  "(json \<Rightarrow> string) \<Rightarrow> resource_ref \<Rightarrow> view \<Rightarrow> string \<Rightarrow> string \<Rightarrow> py_error + progress" where
  "rejected_progress render r v reason message =
     rbind (find_condition ''IntentCompiled'' (vw_conditions v)) (\<lambda>compiled.
     rbind (is_current (vw_generation v) compiled) (\<lambda>current.
     rbind (case compiled of
              Some c \<Rightarrow> if current \<and> has_status ''False'' c then item_text render c ''message'' else Inr message
            | None \<Rightarrow> Inr message) (\<lambda>m.
       Inr (progress_of r ''Failed'' reason m False))))"

definition failed_target ::
  "(json \<Rightarrow> string) \<Rightarrow> resource_ref \<Rightarrow> view \<Rightarrow> string \<Rightarrow> json \<Rightarrow> py_error + progress" where
  "failed_target render r v condition_status target =
     rbind (item_text render target ''message'') (\<lambda>message.
     rbind (if rr_kind r = ''ModelService'' \<and> condition_status = ''True''
            then int_field (vw_status v) ''servingGeneration'' else Inr (vw_generation v)) (\<lambda>serving.
     rbind (item_text render target ''reason'') (\<lambda>reason.
       Inr (progress_of r ''Failed'' reason
         (message @ (if serving \<noteq> vw_generation v then CHR 0x0A # ''The previous generation remains available.'' else [])) False))))"

definition service_progress ::
  "(json \<Rightarrow> string) \<Rightarrow> resource_ref \<Rightarrow> view \<Rightarrow> string \<Rightarrow> string \<Rightarrow> string \<Rightarrow> py_error + progress" where
  "service_progress render r v condition_status reason message =
     rbind (find_condition ''TargetReady'' (vw_conditions v)) (\<lambda>target.
     rbind (is_current (vw_generation v) target) (\<lambda>current.
     case (if current then target else None) of
       Some t \<Rightarrow>
         if has_status ''False'' t then failed_target render r v condition_status t
         else if condition_status = ''True'' \<and> \<not> has_status ''True'' t
         then rbind (item_text render t ''reason'') (\<lambda>rs. rbind (item_text render t ''message'') (\<lambda>m.
                Inr (progress_of r ''Progressing'' rs m False)))
         else if condition_status = ''True'' \<or> stopped r v condition_status reason target
         then settled_progress r v (stopped r v condition_status reason target) reason message
         else if condition_status = ''False'' \<and> reason \<in> {''InvalidIntent'', ''ConfigurationRejected'', ''DeploymentRequired''}
         then rejected_progress render r v reason message
         else Inr (progress_of r ''Progressing'' reason message False)
     | None \<Rightarrow>
         if condition_status = ''True'' \<or> stopped r v condition_status reason target
         then settled_progress r v (stopped r v condition_status reason target) reason message
         else if condition_status = ''False'' \<and> reason \<in> {''InvalidIntent'', ''ConfigurationRejected'', ''DeploymentRequired''}
         then rejected_progress render r v reason message
         else Inr (progress_of r ''Progressing'' reason message False)))"

definition controller_state :: "string \<Rightarrow> string" where
  "controller_state s =
     (if s = ''True'' then ''ControllerReady'' else if s = ''False'' then ''NotReady'' else ''Progressing'')"

definition ready_progress :: "(json \<Rightarrow> string) \<Rightarrow> resource_ref \<Rightarrow> view \<Rightarrow> json \<Rightarrow> py_error + progress" where
  "ready_progress render r v ready =
     rbind (text_field render ready ''reason'' ''Reconciling'') (\<lambda>reason.
     rbind (text_field render ready ''message'' []) (\<lambda>message.
     rbind (int_field ready ''observedGeneration'') (\<lambda>condition_generation.
     if vw_observed v \<noteq> vw_generation v \<or> condition_generation \<noteq> vw_generation v
     then Inr (progress_of r ''Progressing'' ''Updating'' ''Waiting for the current configuration to be reconciled'' False)
     else
       rbind (text_field render ready ''status'' ''Unknown'') (\<lambda>condition_status.
       if rr_kind r = deployment_kind
       then Inr (progress_of r (controller_state condition_status) reason message (condition_status = ''True''))
       else service_progress render r v condition_status reason message))))"

definition failed_alerts :: "(json \<Rightarrow> string) \<Rightarrow> resource_ref \<Rightarrow> json \<Rightarrow> py_error + progress" where
  "failed_alerts render r c =
     rbind (text_field render c ''reason'' ''AlertsFailed'') (\<lambda>reason.
     rbind (text_field render c ''message'' ''Service alerts are not configured'') (\<lambda>message.
       Inr (progress_of r ''Failed'' reason message False)))"

definition superseded :: "json \<Rightarrow> string option \<Rightarrow> py_error + bool" where
  "superseded value expected =
     (case expected of
        None \<Rightarrow> Inr False
      | Some e \<Rightarrow> rbind (spec_of value) (\<lambda>spec. rbind (jget spec ''deploymentRevision'' JNull) (\<lambda>v. Inr (v \<noteq> JStr e))))"

definition resource_progress ::
  "(json \<Rightarrow> string) \<Rightarrow> resource_ref \<Rightarrow> json \<Rightarrow> string option \<Rightarrow> py_error + progress" where
  "resource_progress render r value expected =
     rbind (metadata_of value) (\<lambda>metadata.
     rbind (or_object value ''status'') (\<lambda>status.
     rbind (jget metadata ''deletionTimestamp'' JNull) (\<lambda>deleted.
     if jtrue deleted then Inr (progress_of r ''Terminating'' ''Deleting'' ''Resource is being deleted'' False)
     else
       rbind (superseded value expected) (\<lambda>replaced.
       if replaced
       then Inr (progress_of r ''Failed'' ''DeploymentSuperseded'' ''A newer deployment replaced this operation's target'' False)
       else
         rbind (read_view value metadata status) (\<lambda>v.
         case (if \<not> vw_suspended v \<and> alerts_status ''False'' v then vw_alerts v else None) of
           Some c \<Rightarrow> failed_alerts render r c
         | None \<Rightarrow>
             (case find_ready (vw_conditions v) of
                None \<Rightarrow> Inr (progress_of r ''Progressing'' ''Reconciling'' ''Waiting for controller status'' False)
              | Some ready \<Rightarrow> ready_progress render r v ready))))))"

section \<open>Selections\<close>

definition index_values :: "json list \<Rightarrow> cli_error + ((string \<times> string) \<times> json) list" where
  "index_values values =
     rbind (map_list (\<lambda>v. rbind (deploying (resource_ref_of v)) (\<lambda>r. Inr ((rr_kind r, rr_name r), v))) values) (\<lambda>ps.
       Inr (foldl (\<lambda>m (k, v). dict_set k v m) [] ps))"

definition read_progress ::
  "(json \<Rightarrow> string) \<Rightarrow> (string \<Rightarrow> json option) \<Rightarrow> kubectl \<Rightarrow> resource_ref list \<Rightarrow> (resource_ref \<Rightarrow> string option) \<Rightarrow>
   cli_error + progress list" where
  "read_progress render loads kubectl resources expected =
     rbind (deploying (get_resources loads kubectl resources False)) (\<lambda>values.
     rbind (index_values values) (\<lambda>by_identity.
       map_list (\<lambda>r.
         case map_of by_identity (rr_kind r, rr_name r) of
           None \<Rightarrow> deploy_fail ''kubectl omitted a selected Foretoken service''
         | Some v \<Rightarrow>
             (case resource_progress render r v (expected r) of
                Inl (KeyError _) \<Rightarrow> deploy_fail ''kubectl omitted a selected Foretoken service''
              | m \<Rightarrow> raising m)) resources))"

text \<open>\<open>_instance_progress\<close>: the controller's own state, then each declared service.\<close>

fun object_index :: "json list \<Rightarrow> py_error + ((json \<times> json) \<times> json) list" where
  "object_index [] = Inr []"
| "object_index (d # ds) =
     rbind (item_in_group d) (\<lambda>b.
     rbind (if b then rbind (jitem d ''kind'') (\<lambda>k. rbind (document_name d) (\<lambda>n. Inr [((k, n), d)])) else Inr []) (\<lambda>ps.
     rbind (object_index ds) (\<lambda>qs. Inr (qs @ ps))))"

definition service_or_pending :: "(json \<Rightarrow> string) \<Rightarrow> ((json \<times> json) \<times> json) list \<Rightarrow> resource_ref \<Rightarrow> py_error + progress" where
  "service_or_pending render objects r =
     (case map_of objects (JStr (rr_kind r), JStr (rr_name r)) of
        None \<Rightarrow> Inl (KeyError (rr_name r))
      | Some v \<Rightarrow>
          if \<not> has_key ''spec'' v
          then Inr (progress_of r ''Pending'' ''NotCreated'' ''Waiting for the instance to submit this service'' False)
          else resource_progress render r v None)"

definition instance_progress ::
  "(json \<Rightarrow> string) \<Rightarrow> foretoken_deployment \<Rightarrow> string \<Rightarrow> string \<Rightarrow> json \<Rightarrow> py_error + progress list" where
  "instance_progress render d name ns resource =
     rbind (resource_progress render \<lparr>rr_kind = deployment_kind, rr_name = name, rr_namespace = ns\<rparr> resource None) (\<lambda>p.
     rbind (object_index (fd_objects d)) (\<lambda>objects.
     rbind (service_refs d) (\<lambda>refs.
     rbind (map_list (service_or_pending render objects) refs) (\<lambda>ps. Inr (p # ps)))))"

section \<open>Waiting\<close>

type_synonym signature = "string \<times> string \<times> string"

definition signature_of :: "progress \<Rightarrow> signature" where
  "signature_of p = (rp_state p, rp_reason p, rp_message p)"

text \<open>The changes to report: each state that differs from the last one reported for its resource.\<close>

fun report_changes :: "(resource_ref \<times> signature) list \<Rightarrow> progress list \<Rightarrow> (resource_ref \<times> signature) list \<times> progress list" where
  "report_changes previous [] = (previous, [])"
| "report_changes previous (p # ps) =
     (if map_of previous (rp_resource p) \<noteq> Some (signature_of p)
      then (case report_changes (dict_set (rp_resource p) (signature_of p) previous) ps of (q, out) \<Rightarrow> (q, p # out))
      else report_changes previous ps)"

definition pending_text :: "progress list \<Rightarrow> deploy_error option \<Rightarrow> string" where
  "pending_text latest e =
     or_text (join ''; '' (map (\<lambda>p. display_name (rp_resource p) @ '': '' @ or_text (detail p) (rp_state p))
                (filter (\<lambda>p. \<not> rp_converged p) latest))) ''no service status was observed'' @
     (case e of None \<Rightarrow> [] | Some x \<Rightarrow> CHR 0x0A # ''Last observation: '' @ error_text x)"

definition failed_message :: "progress \<Rightarrow> string" where
  "failed_message p = display_name (rp_resource p) @ '' failed: '' @ or_text (detail p) (rp_reason p)"

text \<open>An expired wait carries what was still pending; its message adds the elapsed time and the budget.\<close>

datatype wait_error = Expired string | Raises cli_error

text \<open>
  \<open>wait_for_resources\<close>: in round \<open>k\<close> the loop reads \<open>clk k\<close>, and \<open>err_clk k\<close> when the observation fails.
  \<open>reported\<close> collects the reported changes.
\<close>

partial_function (option) wait_for_resources ::
  "clock_readings \<Rightarrow> clock_readings \<Rightarrow> (nat \<Rightarrow> cli_error + progress list) \<Rightarrow> time \<Rightarrow> (resource_ref \<times> signature) list \<Rightarrow>
   progress list \<Rightarrow> progress list \<Rightarrow> nat \<Rightarrow> ((wait_error + progress list) \<times> progress list) option" where
  "wait_for_resources clk err_clk obs deadline previous reported latest k =
     (if \<not> clk k < deadline then Some (Inl (Expired (pending_text latest None)), reported)
      else case obs k of
        Inl (Deploy e) \<Rightarrow>
          if err_clk k < deadline then Some (Inl (Raises (Deploy e)), reported) else Some (Inl (Expired (pending_text latest (Some e))), reported)
      | Inl e \<Rightarrow> Some (Inl (Raises e), reported)
      | Inr ps \<Rightarrow>
          case report_changes previous ps of (previous', out) \<Rightarrow>
          if list_all rp_converged ps then Some (Inr ps, reported @ out)
          else (case find (\<lambda>p. rp_state p = ''Failed'') ps of
            Some p \<Rightarrow> Some (Inl (Raises (Deploy (DeploymentError (failed_message p)))), reported @ out)
          | None \<Rightarrow> wait_for_resources clk err_clk obs deadline previous' (reported @ out) ps (Suc k)))"

declare wait_for_resources.simps [code]

section \<open>What convergence means\<close>

lemma progress_of_simps [simp]:
  "rp_converged (progress_of r s a m c) = c" "rp_state (progress_of r s a m c) = s" "rp_resource (progress_of r s a m c) = r"
  by (simp_all add: progress_of_def)

lemma settled_progress_converged:
  assumes "settled_progress r v st reason message = Inr p" and "rp_converged p"
  shows "rp_state p = (if st then ''Stopped'' else ''Ready'')"
    "rr_kind r = ''ModelService'' \<Longrightarrow> int_field (vw_status v) ''servingGeneration'' = Inr (vw_generation v)"
  using assms unfolding settled_progress_def by (auto split: if_splits elim!: rbind_InrE)

lemma unsettled_not_converged:
  "rejected_progress render r v reason message = Inr p \<Longrightarrow> \<not> rp_converged p"
  "failed_target render r v cs t = Inr p \<Longrightarrow> \<not> rp_converged p"
  "failed_alerts render r c = Inr p \<Longrightarrow> \<not> rp_converged p"
  unfolding rejected_progress_def failed_target_def failed_alerts_def by (auto elim!: rbind_InrE)

lemma service_progress_converged:
  assumes run: "service_progress render r v cs reason message = Inr p" and conv: "rp_converged p"
  obtains target where "cs = ''True'' \<or> stopped r v cs reason target"
    "settled_progress r v (stopped r v cs reason target) reason message = Inr p"
proof -
  obtain target current where t: "find_condition ''TargetReady'' (vw_conditions v) = Inr target"
    "is_current (vw_generation v) target = Inr current"
    using run unfolding service_progress_def by (auto elim!: rbind_InrE)
  show thesis
  proof (cases "if current then target else None")
    case None
    then show thesis
      using run conv t that [of target] unfolding service_progress_def
      by (auto split: if_splits dest: unsettled_not_converged)
  next
    case (Some c)
    then show thesis
      using run conv t that [of target] unfolding service_progress_def
      by (auto split: if_splits dest: unsettled_not_converged elim!: rbind_InrE)
  qed
qed

text \<open>
  A service that has reached its current intent: it is not being deleted, its revision is the expected one,
  the controller has observed its current generation, and its Ready condition of that generation is true, or
  the service is scaled to zero and nothing of it should run.
\<close>

definition at_intent :: "(json \<Rightarrow> string) \<Rightarrow> resource_ref \<Rightarrow> view \<Rightarrow> json \<Rightarrow> bool" where
  "at_intent render r v ready \<longleftrightarrow>
     vw_observed v = vw_generation v \<and> int_field ready ''observedGeneration'' = Inr (vw_generation v) \<and>
     (text_field render ready ''status'' ''Unknown'' = Inr ''True'' \<or>
      text_field render ready ''status'' ''Unknown'' = Inr ''False'' \<and>
      text_field render ready ''reason'' ''Reconciling'' = Inr ''ScaledToZero'' \<and> \<not> vw_required v) \<and>
     (rr_kind r = ''ModelService'' \<longrightarrow> int_field (vw_status v) ''servingGeneration'' = Inr (vw_generation v))"

lemma ready_progress_converged:
  assumes run: "ready_progress render r v ready = Inr p" and conv: "rp_converged p"
  shows "at_intent render r v ready"
    "rp_state p \<in> {''Ready'', ''Stopped'', ''ControllerReady''}" "rp_state p = ''Stopped'' \<Longrightarrow> \<not> vw_required v"
proof -
  obtain reason message where t: "text_field render ready ''reason'' ''Reconciling'' = Inr reason"
    "text_field render ready ''message'' [] = Inr message"
    using run unfolding ready_progress_def by (auto elim!: rbind_InrE)
  obtain cs where g: "vw_observed v = vw_generation v" "int_field ready ''observedGeneration'' = Inr (vw_generation v)"
    "text_field render ready ''status'' ''Unknown'' = Inr cs"
    "(if rr_kind r = deployment_kind
       then Inr (progress_of r (controller_state cs) reason message (cs = ''True''))
       else service_progress render r v cs reason message) = Inr p"
    using run conv t unfolding ready_progress_def by (auto split: if_splits elim!: rbind_InrE)
  have "at_intent render r v ready \<and> rp_state p \<in> {''Ready'', ''Stopped'', ''ControllerReady''} \<and>
      (rp_state p = ''Stopped'' \<longrightarrow> \<not> vw_required v)"
  proof (cases "rr_kind r = deployment_kind")
    case True
    then show ?thesis using g conv t by (auto simp: at_intent_def controller_state_def deployment_kind_def)
  next
    case False
    then have "service_progress render r v cs reason message = Inr p" using g(4) by simp
    then obtain target where s: "cs = ''True'' \<or> stopped r v cs reason target"
      "settled_progress r v (stopped r v cs reason target) reason message = Inr p"
      using conv by (rule service_progress_converged)
    have st: "rp_state p = (if stopped r v cs reason target then ''Stopped'' else ''Ready'')"
      using s(2) conv by (rule settled_progress_converged(1))
    have serving: "rr_kind r = ''ModelService'' \<longrightarrow> int_field (vw_status v) ''servingGeneration'' = Inr (vw_generation v)"
      using settled_progress_converged(2) [OF s(2) conv] by blast
    have zero: "stopped r v cs reason target \<Longrightarrow> cs = ''False'' \<and> reason = ''ScaledToZero'' \<and> \<not> vw_required v"
      by (simp add: stopped_def)
    show ?thesis using g(1-3) t(1) s(1) st serving zero unfolding at_intent_def by auto
  qed
  then show "at_intent render r v ready"
    "rp_state p \<in> {''Ready'', ''Stopped'', ''ControllerReady''}" "rp_state p = ''Stopped'' \<Longrightarrow> \<not> vw_required v"
    by blast+
qed

lemma resource_progress_converged:
  assumes run: "resource_progress render r value expected = Inr p" and conv: "rp_converged p"
  obtains metadata status deleted v ready where "metadata_of value = Inr metadata" "or_object value ''status'' = Inr status"
    "jget metadata ''deletionTimestamp'' JNull = Inr deleted" "\<not> jtrue deleted" "superseded value expected = Inr False"
    "read_view value metadata status = Inr v" "find_ready (vw_conditions v) = Some ready" "ready_progress render r v ready = Inr p"
proof -
  obtain metadata status deleted' where a: "metadata_of value = Inr metadata" "or_object value ''status'' = Inr status"
    "jget metadata ''deletionTimestamp'' JNull = Inr deleted'" "\<not> jtrue deleted'"
    using run conv unfolding resource_progress_def by (auto split: if_splits elim!: rbind_InrE)
  obtain v where b: "superseded value expected = Inr False" "read_view value metadata status = Inr v"
    "(case (if \<not> vw_suspended v \<and> alerts_status ''False'' v then vw_alerts v else None) of
           Some c \<Rightarrow> failed_alerts render r c
         | None \<Rightarrow>
             (case find_ready (vw_conditions v) of
                None \<Rightarrow> Inr (progress_of r ''Progressing'' ''Reconciling'' ''Waiting for controller status'' False)
              | Some ready \<Rightarrow> ready_progress render r v ready)) = Inr p"
    using run conv a unfolding resource_progress_def by (auto split: if_splits elim!: rbind_InrE)
  then obtain ready where "find_ready (vw_conditions v) = Some ready" "ready_progress render r v ready = Inr p"
    using conv by (auto split: option.splits if_splits dest: unsettled_not_converged)
  then show thesis using that a b by blast
qed

section \<open>The wait ends\<close>

definition wait_sound ::
  "clock_readings \<Rightarrow> (nat \<Rightarrow> cli_error + progress list) \<Rightarrow> time \<Rightarrow> nat \<Rightarrow> (wait_error + progress list) \<times> progress list \<Rightarrow> bool" where
  "wait_sound clk obs deadline k out \<longleftrightarrow>
     (\<forall>ps. fst out = Inr ps \<longrightarrow> (\<exists>j \<ge> k. clk j < deadline \<and> obs j = Inr ps \<and> list_all rp_converged ps))"

lemma wait_sound_later: "wait_sound clk obs deadline (Suc k) out \<Longrightarrow> wait_sound clk obs deadline k out"
  unfolding wait_sound_def by (meson Suc_leD)

lemma wait_round:
  obtains (ends) out where "wait_for_resources clk err_clk obs deadline previous reported latest k = Some out"
      "wait_sound clk obs deadline k out"
  | (continues) previous' reported' latest' where "clk k < deadline"
      "wait_for_resources clk err_clk obs deadline previous reported latest k =
       wait_for_resources clk err_clk obs deadline previous' reported' latest' (Suc k)"
proof (cases "clk k < deadline")
  case False
  then show thesis using ends by (simp add: wait_for_resources.simps wait_sound_def)
next
  case True
  note unfold = wait_for_resources.simps [of clk err_clk obs deadline previous reported latest k]
  show thesis
  proof (cases "obs k")
    case (Inl e)
    then show thesis using ends True by (cases e; cases "err_clk k < deadline") (auto simp: unfold wait_sound_def)
  next
    case (Inr ps)
    obtain previous' out where rep: "report_changes previous ps = (previous', out)" by fastforce
    show thesis
    proof (cases "list_all rp_converged ps")
      case conv: True
      then show thesis using ends True Inr rep by (auto simp: unfold wait_sound_def)
    next
      case False
      then show thesis
        using ends continues True Inr rep
        by (cases "find (\<lambda>p. rp_state p = ''Failed'') ps") (auto simp: unfold wait_sound_def)
    qed
  qed
qed

lemma wait_for_resources_ends:
  "deadline \<le> clk (k + n) \<Longrightarrow>
   \<exists>out. wait_for_resources clk err_clk obs deadline previous reported latest k = Some out \<and> wait_sound clk obs deadline k out"
proof (induction n arbitrary: k previous reported latest)
  case 0
  show ?case
  proof (cases rule: wait_round [of clk err_clk obs deadline previous reported latest k])
    case (continues previous' reported' latest')
    then show ?thesis using 0 by simp
  qed blast
next
  case (Suc n)
  show ?case
  proof (cases rule: wait_round [of clk err_clk obs deadline previous reported latest k])
    case (continues previous' reported' latest')
    then show ?thesis using Suc.IH [of "Suc k" previous' reported' latest'] Suc.prems wait_sound_later by auto
  qed blast
qed

section \<open>Properties of service status\<close>

text \<open>C6: A service counts as converged only at its current intent: not being deleted, at the expected revision, observed
  and ready in its current generation, or scaled to zero with nothing required to run.\<close>

theorem converged_at_intent:
  assumes "resource_progress render r resource expected = Inr p" and "rp_converged p"
  shows "\<exists>metadata status v ready. metadata_of resource = Inr metadata \<and> or_object resource ''status'' = Inr status \<and>
    \<not> jtrue (field ''deletionTimestamp'' metadata) \<and> superseded resource expected = Inr False \<and>
    (case expected of None \<Rightarrow> True | Some e \<Rightarrow> \<exists>spec. spec_of resource = Inr spec \<and> field ''deploymentRevision'' spec = JStr e) \<and>
    read_view resource metadata status = Inr v \<and> find_ready (vw_conditions v) = Some ready \<and> at_intent render r v ready \<and>
    rp_state p \<in> {''Ready'', ''Stopped'', ''ControllerReady''} \<and> (rp_state p = ''Stopped'' \<longrightarrow> \<not> vw_required v)"
proof -
  obtain metadata status deleted v ready where o: "metadata_of resource = Inr metadata" "or_object resource ''status'' = Inr status"
    "jget metadata ''deletionTimestamp'' JNull = Inr deleted" "\<not> jtrue deleted" "superseded resource expected = Inr False"
    "read_view resource metadata status = Inr v" "find_ready (vw_conditions v) = Some ready" "ready_progress render r v ready = Inr p"
    using assms by (rule resource_progress_converged)
  have "\<not> jtrue (field ''deletionTimestamp'' metadata)" using o(3,4) by (auto simp: jget_null)
  moreover have "case expected of None \<Rightarrow> True | Some e \<Rightarrow> \<exists>spec. spec_of resource = Inr spec \<and> field ''deploymentRevision'' spec = JStr e"
    using o(5) by (auto simp: superseded_def jget_null split: option.splits elim!: rbind_InrE)
  ultimately show ?thesis using o ready_progress_converged [OF o(8) assms(2)] by blast
qed

definition demo_ready :: json where
  "demo_ready = JObj [(''kind'', JStr ''FrontendService''), (''metadata'', JObj [(''generation'', JInt 3)]), (''spec'', JObj [(''deploymentRevision'', JStr ''v7'')]),
     (''status'', JObj [(''observedGeneration'', JInt 3),
       (''conditions'', JList [JObj [(''type'', JStr ''Ready''), (''status'', JStr ''True''), (''observedGeneration'', JInt 3)]])])]"

definition demo_ref :: resource_ref where
  "demo_ref = \<lparr>rr_kind = ''FrontendService'', rr_name = ''web'', rr_namespace = ''prod''\<rparr>"

definition demo_progress :: progress where
  "demo_progress = progress_of demo_ref ''Ready'' ''Reconciling'' [] True"

theorem converged_at_intent_witness:
  "resource_progress (\<lambda>_. []) demo_ref demo_ready (Some ''v7'') = Inr demo_progress \<and>
   (\<exists>metadata status v ready. read_view demo_ready metadata status = Inr v \<and> find_ready (vw_conditions v) = Some ready \<and>
     at_intent (\<lambda>_. []) demo_ref v ready)"
proof -
  have run: "resource_progress (\<lambda>_. []) demo_ref demo_ready (Some ''v7'') = Inr demo_progress" by code_simp
  moreover have "rp_converged demo_progress" by (simp add: demo_progress_def)
  ultimately show ?thesis using converged_at_intent [OF run] by blast
qed

text \<open>C37: A wait whose clock passes the deadline ends, and it returns only an observation made before the deadline in which
  every selected service has converged.\<close>

theorem wait_for_resources_returns:
  assumes "deadline \<le> clk (k + n)"
  shows "\<exists>out. wait_for_resources clk err_clk obs deadline previous reported latest k = Some out \<and>
    (\<forall>ps. fst out = Inr ps \<longrightarrow> (\<exists>j \<ge> k. clk j < deadline \<and> obs j = Inr ps \<and> list_all rp_converged ps))"
  using wait_for_resources_ends [of deadline clk k n, OF assms] unfolding wait_sound_def .

theorem wait_for_resources_returns_witness:
  "\<exists>out. wait_for_resources of_nat of_nat (\<lambda>j. Inr [demo_progress\<lparr>rp_converged := 2 < j\<rparr>]) 5 [] [] [] 0 = Some out"
  using wait_for_resources_returns [of 5 of_nat 0 5 of_nat "\<lambda>j. Inr [demo_progress\<lparr>rp_converged := 2 < j\<rparr>]" "[]" "[]" "[]"] by auto

end
