(* ===== verification/Download_Sources.thy ===== *)
theory Download_Sources
  imports Manifest
begin

text \<open>
  Source selection of builds and platform downloads (\<open>downloads/sources.py\<close>): the probes of official sources
  and mirrors, the choice between them, and the platform images, GitHub archives, build settings and model
  repositories that use it. A measurement of a probe is a parameter of the selections; the HTTP client is a
  parameter of the probes. Elapsed times are exact rationals. Probes run concurrently in the code, each of
  them once, and their results are read in the order of the model.
\<close>

section \<open>Text\<close>

text \<open>\<open>s.rpartition(c)[0]\<close> and \<open>s.rstrip(c)\<close>.\<close>

definition before_last :: "char \<Rightarrow> string \<Rightarrow> string" where
  "before_last c s = rev (drop 1 (dropWhile (\<lambda>x. x \<noteq> c) (rev s)))"

definition rstrip_char :: "char \<Rightarrow> string \<Rightarrow> string" where
  "rstrip_char c s = rev (dropWhile (\<lambda>x. x = c) (rev s))"

text \<open>\<open>urllib.parse.quote(s, safe="/")\<close> on the bytes of a text.\<close>

definition unreserved :: "char \<Rightarrow> bool" where
  "unreserved c \<longleftrightarrow> is_digit c \<or> lower_letter (lower_char c) \<or> c \<in> set ''_.-~/''"

definition percent_encode :: "string \<Rightarrow> string" where
  "percent_encode s =
     concat (map (\<lambda>c. if unreserved c then [c]
       else let n = of_char c :: nat; hex = ''0123456789ABCDEF'' in [CHR ''%'', hex ! (n div 16), hex ! (n mod 16)]) s)"

text \<open>\<open>f"{x:.2f}"\<close> for an elapsed time.\<close>

definition two_decimals :: "rat \<Rightarrow> string" where
  "two_decimals q =
     (let n = nat (round_half_even (q * 100)); d = n mod 100 in
      show_nat (n div 100) @ ''.'' @ (if d < 10 then ''0'' else []) @ show_nat d)"

section \<open>Choosing a mirror\<close>

text \<open>A probe and its arguments; a measurement answers its elapsed time, or \<open>None\<close> for an unavailable source.\<close>

type_synonym probe = "string \<times> string list"
type_synonym measurement = "probe \<Rightarrow> deploy_error + rat option"

record source_mirror =
  sm_measure :: probe
  sm_value :: string

record source_probe =
  sp_name :: string
  sp_environment :: string
  sp_official :: probe
  sp_mirrors :: "source_mirror list"
  sp_registry :: "string option"

definition mirror_faster_ratio :: rat where "mirror_faster_ratio = 7 / 10"
definition mirror_faster_margin :: rat where "mirror_faster_margin = 1 / 4"

definition select_mirror ::
  "rat option \<Rightarrow> source_mirror list \<Rightarrow> rat option list \<Rightarrow> string option \<Rightarrow> (source_mirror \<times> rat) option" where
  "select_mirror official mirrors measurements preferred =
     (if preferred = Some [] \<and> official \<noteq> None then None
      else
        let available = [(m, e). (m, Some e) \<leftarrow> zip mirrors measurements] in
        case find (\<lambda>(m, e). Some (sm_value m) = preferred) available of
          Some found \<Rightarrow> Some found
        | None \<Rightarrow>
            (case min_by snd available of
               None \<Rightarrow> None
             | Some (mirror, elapsed) \<Rightarrow>
                 (case official of
                    None \<Rightarrow> Some (mirror, elapsed)
                  | Some t \<Rightarrow>
                      if elapsed \<le> t * mirror_faster_ratio \<and> mirror_faster_margin \<le> t - elapsed
                      then Some (mirror, elapsed) else None)))"

section \<open>Platform images\<close>

definition oci_mirror_prefixes :: "string \<Rightarrow> string list" where
  "oci_mirror_prefixes host =
     (if host \<notin> set [''docker.io'', ''ghcr.io'', ''gcr.io'', ''registry.k8s.io'', ''quay.io'', ''nvcr.io'', ''cr.infini-ai.com'']
      then []
      else (''m.daocloud.io/'' @ host) # (if host = ''docker.io'' then [''docker.1ms.run''] else []))"

definition oci_mirror :: "string \<Rightarrow> string \<Rightarrow> string \<Rightarrow> source_mirror" where
  "oci_mirror repository revision prefix =
     (case split_first (CHR ''/'') prefix of (mirror_host, ns) \<Rightarrow>
        let name = (case ns of Some (c # s) \<Rightarrow> (c # s) @ ''/'' @ repository | _ \<Rightarrow> repository) in
        \<lparr>sm_measure = (''oci'', [mirror_host, name, revision]), sm_value = prefix\<rparr>)"

definition oci_mirrors :: "string \<Rightarrow> string \<Rightarrow> string \<Rightarrow> source_mirror list" where
  "oci_mirrors host repository revision = map (oci_mirror repository revision) (oci_mirror_prefixes host)"

definition repository_revision :: "string \<Rightarrow> string \<times> string" where
  "repository_revision path =
     (if CHR ''@'' \<in> set path then (before_last (CHR ''@'') path, after_last (CHR ''@'') path)
      else if CHR '':'' \<in> set (after_last (CHR ''/'') path) then (before_last (CHR '':'') path, after_last (CHR '':'') path)
      else (path, ''latest''))"

definition official_host :: "string \<Rightarrow> string" where
  "official_host host = (if host = ''docker.io'' then ''registry-1.docker.io'' else host)"

definition reference_scheme :: "string \<Rightarrow> string" where
  "reference_scheme reference = (if starts_with ''oci://'' reference then ''oci://'' else [])"

definition select_platform_oci_reference :: "measurement \<Rightarrow> string \<Rightarrow> string option \<Rightarrow> deploy_error + string" where
  "select_platform_oci_reference measured reference previous =
     (let scheme = reference_scheme reference in
      case split_first (CHR ''/'') (drop (length scheme) reference) of
        (host, None) \<Rightarrow> Inr reference
      | (host, Some path) \<Rightarrow>
          if oci_mirror_prefixes host = [] then Inr reference
          else
            let (repository, revision) = repository_revision path in
            rbind (measured (''oci'', [official_host host, repository, revision])) (\<lambda>official.
            if official \<noteq> None then Inr reference
            else
              let mirrors = oci_mirrors host repository revision;
                  preferred = map_option sm_value (find (\<lambda>m. previous = Some (scheme @ sm_value m @ ''/'' @ path)) mirrors) in
              rbind (map_list (\<lambda>m. measured (sm_measure m)) mirrors) (\<lambda>measurements.
                Inr (case select_mirror None mirrors measurements preferred of
                       None \<Rightarrow> reference
                     | Some (mirror, _) \<Rightarrow> scheme @ sm_value mirror @ ''/'' @ path))))"

definition qualified_host :: "string \<Rightarrow> bool" where
  "qualified_host first \<longleftrightarrow> CHR ''.'' \<in> set first \<or> CHR '':'' \<in> set first \<or> first = ''localhost''"

definition platform_image_reference :: "measurement \<Rightarrow> string \<Rightarrow> string option \<Rightarrow> string option \<Rightarrow> deploy_error + string" where
  "platform_image_reference measured reference registry previous =
     (case registry of
        None \<Rightarrow> select_platform_oci_reference measured reference previous
      | Some r \<Rightarrow>
          Inr (r @ ''/'' @ (case split_first (CHR ''/'') reference of
            (first, Some path) \<Rightarrow> if qualified_host first then path else reference
          | (first, None) \<Rightarrow> reference)))"

text \<open>The installed reference, or an installed mirror of it, that is kept when the origin is unavailable.\<close>

definition prior_image :: "string \<Rightarrow> string set \<Rightarrow> string option" where
  "prior_image reference installed =
     (case split_first (CHR ''/'') reference of (host, rest) \<Rightarrow>
        let path = (case rest of None \<Rightarrow> [] | Some p \<Rightarrow> p) in
        find (\<lambda>c. c \<in> installed) (reference # map (\<lambda>prefix. prefix @ ''/'' @ path) (oci_mirror_prefixes host)))"

definition select_platform_image_sources ::
  "measurement \<Rightarrow> (string \<times> string) list \<Rightarrow> string option \<Rightarrow> (string \<rightharpoonup> string) \<Rightarrow> string set \<Rightarrow> deploy_error + (string \<times> string) list" where
  "select_platform_image_sources measured references registry previous installed =
     map_list (\<lambda>(key, reference).
       let prior = (case previous key of Some p \<Rightarrow> Some p | None \<Rightarrow> prior_image reference installed) in
       rbind (platform_image_reference measured reference registry prior) (\<lambda>selected. Inr (key, selected))) references"

section \<open>GitHub archives and model repositories\<close>

definition github_mirrors :: "string list" where
  "github_mirrors = [''https://gh-proxy.com/https://github.com'', ''https://ghproxy.net/https://github.com'']"

definition github :: string where "github = ''https://github.com''"

definition select_github_download :: "measurement \<Rightarrow> string \<Rightarrow> string option \<Rightarrow> deploy_error + string" where
  "select_github_download measured url mirror =
     (if \<not> starts_with (github @ ''/'') url then Inr url
      else
        let path = drop (length github) url in
        case mirror of
          Some (c # s) \<Rightarrow> Inr (rstrip_char (CHR ''/'') (c # s) @ path)
        | _ \<Rightarrow>
            let mirrors = map (\<lambda>base. \<lparr>sm_measure = (''url'', [base @ path]), sm_value = base @ path\<rparr>) github_mirrors in
            rbind (measured (''url'', [url])) (\<lambda>official.
            rbind (map_list (\<lambda>m. measured (sm_measure m)) mirrors) (\<lambda>measurements.
              Inr (case select_mirror official mirrors measurements None of
                     None \<Rightarrow> url
                   | Some (m, _) \<Rightarrow> sm_value m))))"

definition huggingface :: string where "huggingface = ''https://huggingface.co''"

definition model_url :: "string \<Rightarrow> string \<Rightarrow> string" where
  "model_url endpoint repository = endpoint @ ''/api/models/'' @ percent_encode repository"

definition select_huggingface_endpoint :: "measurement \<Rightarrow> string \<Rightarrow> string option \<Rightarrow> deploy_error + string option" where
  "select_huggingface_endpoint measured repository explicit =
     (case explicit of
        Some (c # s) \<Rightarrow> Inr (Some (rstrip_char (CHR ''/'') (c # s)))
      | _ \<Rightarrow>
          let mirrors = map (\<lambda>endpoint. \<lparr>sm_measure = (''url'', [model_url endpoint repository]), sm_value = endpoint\<rparr>)
                          [''https://hf-mirror.com''] in
          rbind (measured (''url'', [model_url huggingface repository])) (\<lambda>official.
          rbind (map_list (\<lambda>m. measured (sm_measure m)) mirrors) (\<lambda>measurements.
            Inr (case select_mirror official mirrors measurements None of
                   Some (m, _) \<Rightarrow> Some (sm_value m)
                 | None \<Rightarrow> if official \<noteq> None then Some huggingface else None))))"

section \<open>Build settings\<close>

type_synonym environ = "string \<rightharpoonup> string"

text \<open>\<open>environment.get(k)\<close> as a truth value.\<close>

definition configured :: "environ \<Rightarrow> string \<Rightarrow> bool" where
  "configured e k \<longleftrightarrow> (case e k of None \<Rightarrow> False | Some v \<Rightarrow> v \<noteq> [])"

definition oci_probe :: "string \<Rightarrow> string \<Rightarrow> string \<Rightarrow> string \<Rightarrow> string \<Rightarrow> source_probe" where
  "oci_probe name variable host repository revision =
     \<lparr>sp_name = name, sp_environment = variable, sp_official = (''oci'', [official_host host, repository, revision]),
      sp_mirrors = oci_mirrors host repository revision, sp_registry = Some host\<rparr>"

definition oci_probes :: "source_probe list" where
  "oci_probes =
     [oci_probe ''Docker Hub'' ''FORETOKEN_DOCKER_IO_REGISTRY'' ''docker.io'' ''library/rust'' ''1.97.1-slim-bookworm'',
      oci_probe ''GCR'' ''FORETOKEN_GCR_REGISTRY'' ''gcr.io'' ''distroless/static-debian13'' ''nonroot'',
      oci_probe ''GHCR'' ''FORETOKEN_GHCR_REGISTRY'' ''ghcr.io'' ''shiweijiezero/foretoken/model-server'' ''latest'']"

definition package_probe :: "string \<Rightarrow> string \<Rightarrow> probe \<Rightarrow> (probe \<times> string) list \<Rightarrow> source_probe" where
  "package_probe name variable official mirrors =
     \<lparr>sp_name = name, sp_environment = variable, sp_official = official,
      sp_mirrors = map (\<lambda>(p, v). \<lparr>sm_measure = p, sm_value = v\<rparr>) mirrors, sp_registry = None\<rparr>"

definition package_probes :: "source_probe list" where
  "package_probes =
     [package_probe ''PyPI'' ''UV_DEFAULT_INDEX'' (''url'', [''https://pypi.org/simple/modelscope/''])
        (map (\<lambda>i. ((''url'', [i @ ''/modelscope/'']), i))
           [''https://pypi.tuna.tsinghua.edu.cn/simple'', ''https://mirrors.ustc.edu.cn/pypi/simple'',
            ''https://mirrors.aliyun.com/pypi/simple'']),
      package_probe ''Go module proxy'' ''GOPROXY'' (''url'', [''https://proxy.golang.org/golang.org/x/sync/@v/v0.20.0.info''])
        (map (\<lambda>p. ((''url'', [p @ ''/golang.org/x/sync/@v/v0.20.0.info'']), p))
           [''https://goproxy.cn'', ''https://mirrors.aliyun.com/goproxy'', ''https://goproxy.io'']),
      package_probe ''Cargo registry'' ''FORETOKEN_CARGO_REGISTRY'' (''cargo'', [''https://index.crates.io''])
        (map (\<lambda>i. ((''cargo'', [i]), ''sparse+'' @ i @ ''/''))
           [''https://rsproxy.cn/index'', ''https://mirrors.sjtug.sjtu.edu.cn/crates.io-index'']),
      package_probe ''GitHub'' ''FORETOKEN_GITHUB_MIRROR'' (''github'', [github])
        (map (\<lambda>b. ((''github'', [b]), b)) github_mirrors)]"

definition build_probes :: "environ \<Rightarrow> source_probe list" where
  "build_probes environment =
     filter (\<lambda>p. \<not> configured environment (sp_environment p))
       ((if configured environment ''FORETOKEN_OCI_REGISTRY'' then [] else oci_probes) @ package_probes)"

record build_sources =
  bs_environment :: "(string \<times> string) list"
  bs_registry_mirrors :: "(string \<times> string list) list"
  bs_messages :: "string list"

definition no_sources :: build_sources where
  "no_sources = \<lparr>bs_environment = [], bs_registry_mirrors = [], bs_messages = []\<rparr>"

text \<open>The source a previous build used: \<open>''''\<close> is the official one and \<open>None\<close> says there was no previous build.\<close>

definition preferred_source :: "environ option \<Rightarrow> (string \<rightharpoonup> string list) option \<Rightarrow> source_probe \<Rightarrow> string option" where
  "preferred_source previous_environment previous_mirrors p =
     (case sp_registry p of
        Some r \<Rightarrow>
          (case previous_mirrors of
             None \<Rightarrow> None
           | Some m \<Rightarrow> Some (case m r of Some (v # _) \<Rightarrow> v | _ \<Rightarrow> []))
      | None \<Rightarrow>
          (case previous_environment of
             None \<Rightarrow> None
           | Some e \<Rightarrow> Some (case e (sp_environment p) of None \<Rightarrow> [] | Some v \<Rightarrow> v)))"

definition source_message :: "source_probe \<Rightarrow> source_mirror \<Rightarrow> rat \<Rightarrow> rat option \<Rightarrow> string" where
  "source_message p mirror elapsed official =
     sp_name p @ '': '' @ sm_value mirror @ '' '' @ two_decimals elapsed @ ''s, official '' @
     (case official of None \<Rightarrow> ''unavailable'' | Some t \<Rightarrow> two_decimals t @ ''s'')"

definition add_source ::
  "environ option \<Rightarrow> (string \<rightharpoonup> string list) option \<Rightarrow> source_probe \<times> rat option \<times> rat option list \<Rightarrow> build_sources \<Rightarrow> build_sources" where
  "add_source previous_environment previous_mirrors result acc =
     (case result of (p, official, measurements) \<Rightarrow>
        case select_mirror official (sp_mirrors p) measurements (preferred_source previous_environment previous_mirrors p) of
          None \<Rightarrow> acc
        | Some (mirror, elapsed) \<Rightarrow>
            \<lparr>bs_environment =
               (case sp_registry p of
                  None \<Rightarrow> dict_set (sp_environment p) (sm_value mirror) (bs_environment acc)
                | Some _ \<Rightarrow> bs_environment acc),
             bs_registry_mirrors =
               (case sp_registry p of
                  None \<Rightarrow> bs_registry_mirrors acc
                | Some r \<Rightarrow> dict_set r [sm_value mirror] (bs_registry_mirrors acc)),
             bs_messages = bs_messages acc @ [source_message p mirror elapsed official]\<rparr>)"

definition measure_probe :: "measurement \<Rightarrow> source_probe \<Rightarrow> deploy_error + source_probe \<times> rat option \<times> rat option list" where
  "measure_probe measured p =
     rbind (measured (sp_official p)) (\<lambda>official.
     rbind (map_list (\<lambda>m. measured (sm_measure m)) (sp_mirrors p)) (\<lambda>measurements. Inr (p, official, measurements)))"

definition select_build_sources ::
  "measurement \<Rightarrow> environ \<Rightarrow> environ option \<Rightarrow> (string \<rightharpoonup> string list) option \<Rightarrow> deploy_error + build_sources" where
  "select_build_sources measured environment previous_environment previous_mirrors =
     rbind (map_list (measure_probe measured) (build_probes environment)) (\<lambda>results.
       Inr (fold (add_source previous_environment previous_mirrors) results no_sources))"

section \<open>Probes\<close>

text \<open>The probe process, as its parent sees it.\<close>

datatype probe_outcome = Finished completed | Expired deploy_error rat | Broken deploy_error

definition probe_timeout :: rat where "probe_timeout = 4"

text \<open>\<open>_measure\<close>; \<open>cancelled\<close> is the error of the running operation's own check, after the probe.\<close>

definition measure_outcome ::
  "(string \<Rightarrow> json option) \<Rightarrow> deploy_error option \<Rightarrow> probe_outcome \<Rightarrow> deploy_error + rat option" where
  "measure_outcome loads cancelled outcome =
     (case cancelled of
        Some e \<Rightarrow> Inl e
      | None \<Rightarrow>
          (case outcome of
             Expired e timeout \<Rightarrow> if timeout = probe_timeout then Inr None else Inl e
           | Broken e \<Rightarrow> Inl e
           | Finished c \<Rightarrow>
               if cp_code c \<noteq> 0
               then Inl (DeploymentError (''source probe failed: '' @ or_text (strip (cp_err c)) (''exit status '' @ show_int (cp_code c))))
               else (case loads (cp_out c) of
                       None \<Rightarrow> Inl (DeploymentError ''source probe returned invalid JSON'')
                     | Some JNull \<Rightarrow> Inr None
                     | Some (JFloat q) \<Rightarrow> Inr (Some q)
                     | Some _ \<Rightarrow> Inl (DeploymentError ''source probe returned an unexpected result''))))"

text \<open>
  The HTTP client sends one request; an answer is a redirect or the chunks of a body. \<open>Unreadable\<close> stands for
  the exceptions every probe treats as an unavailable source, \<open>Crash\<close> for the others.
\<close>

record http_request =
  rq_url :: string
  rq_headers :: "(string \<times> string) list"

record http_response =
  rs_status :: nat
  rs_next :: "http_request option"
  rs_chunks :: "string list"
  rs_authenticate :: string

datatype probe_failure = Unreadable | Crash py_error

record http_client =
  hc_send :: "http_request \<Rightarrow> probe_failure + http_response"
  hc_scheme :: "string \<Rightarrow> string"
  hc_username :: "string \<Rightarrow> string"
  hc_password :: "string \<Rightarrow> string"
  hc_merge_params :: "string \<Rightarrow> (string \<times> string) list \<Rightarrow> string"

text \<open>\<open>_require_https\<close> runs before every request, redirects included.\<close>

definition require_https :: "http_client \<Rightarrow> http_request \<Rightarrow> probe_failure + unit" where
  "require_https C r =
     (if hc_scheme C (rq_url r) \<noteq> ''https'' \<or> hc_username C (rq_url r) \<noteq> [] \<or> hc_password C (rq_url r) \<noteq> []
      then Inl Unreadable else Inr ())"

definition probe_read_bytes :: nat where "probe_read_bytes = 64 * 1024"

fun read_sample :: "nat \<Rightarrow> string \<Rightarrow> string list \<Rightarrow> string" where
  "read_sample limit body [] = body"
| "read_sample limit body (chunk # chunks) =
     (let body = body @ take (limit - length body) chunk in
      if length body = limit then body else read_sample limit body chunks)"

fun follow :: "http_client \<Rightarrow> nat \<Rightarrow> http_request \<Rightarrow> probe_failure + http_request \<times> http_response \<times> string" where
  "follow C 0 r = Inl Unreadable"
| "follow C (Suc n) r =
     rbind (require_https C r) (\<lambda>_.
     rbind (hc_send C r) (\<lambda>response.
     case rs_next response of
       Some r' \<Rightarrow> follow C n r'
     | None \<Rightarrow> Inr (r, response, read_sample probe_read_bytes [] (rs_chunks response))))"

definition probe_headers :: "(string \<times> string) list" where
  "probe_headers = [(''User-Agent'', ''foretoken-source-probe''), (''Accept-Encoding'', ''identity'')]"

definition https_get :: "http_client \<Rightarrow> string \<Rightarrow> (string \<times> string) list \<Rightarrow> probe_failure + http_request \<times> http_response \<times> string" where
  "https_get C url headers =
     follow C 4 \<lparr>rq_url = url, rq_headers = fold (\<lambda>(k, v). dict_set k v) headers probe_headers\<rparr>"

definition read_url :: "http_client \<Rightarrow> string \<Rightarrow> probe_failure + string" where
  "read_url C url =
     rbind (https_get C url []) (\<lambda>(_, response, body). if rs_status response \<noteq> 200 then Inl Unreadable else Inr body)"

text \<open>A probe returns its elapsed time, or \<open>None\<close> when its source is unreadable or unsuitable.\<close>

definition probed :: "rat \<Rightarrow> probe_failure + bool \<Rightarrow> py_error + rat option" where
  "probed elapsed result =
     (case result of
        Inl Unreadable \<Rightarrow> Inr None
      | Inl (Crash e) \<Rightarrow> Inl e
      | Inr suitable \<Rightarrow> Inr (if suitable then Some elapsed else None))"

definition probe_url :: "http_client \<Rightarrow> rat \<Rightarrow> string \<Rightarrow> py_error + rat option" where
  "probe_url C elapsed url = probed elapsed (rbind (read_url C url) (\<lambda>_. Inr True))"

definition gzip_magic :: string where "gzip_magic = [CHR 0x1F, CHR 0x8B]"

definition probe_github :: "http_client \<Rightarrow> rat \<Rightarrow> string \<Rightarrow> py_error + rat option" where
  "probe_github C elapsed base =
     (let repository = base @ ''/shiweijiezero/foretoken'' in
      probed elapsed (
        rbind (read_url C (repository @ ''.git/info/refs?service=git-upload-pack'')) (\<lambda>refs.
        if \<not> contains ''# service=git-upload-pack'' refs then Inr False
        else rbind (read_url C (repository @ ''/archive/refs/heads/main.tar.gz'')) (\<lambda>archive.
          Inr (starts_with gzip_magic archive)))))"

text \<open>\<open>urllib.request.parse_http_list\<close>: the parts between commas that are not quoted.\<close>

fun http_list :: "bool \<Rightarrow> bool \<Rightarrow> string \<Rightarrow> string \<Rightarrow> string list" where
  "http_list escaped quoted part [] = (if part = [] then [] else [part])"
| "http_list escaped quoted part (c # cs) =
     (if escaped then http_list False quoted (part @ [c]) cs
      else if quoted then
        if c = CHR 0x5C then http_list True True part cs
        else http_list False (c \<noteq> CHR 0x22) (part @ [c]) cs
      else if c = CHR '','' then part # http_list False False [] cs
      else http_list False (c = CHR 0x22) (part @ [c]) cs)"

definition parse_http_list :: "string \<Rightarrow> string list" where
  "parse_http_list s = map strip (http_list False False [] s)"

text \<open>\<open>urllib.request.parse_keqv_list\<close>: an element without \<open>=\<close> is a \<open>ValueError\<close>, an empty value an \<open>IndexError\<close>.\<close>

definition unquote :: "string \<Rightarrow> string" where
  "unquote v = (if hd v = CHR 0x22 \<and> last v = CHR 0x22 then butlast (tl v) else v)"

fun parse_keqv_list :: "string list \<Rightarrow> (string \<times> string) list \<Rightarrow> probe_failure + (string \<times> string) list" where
  "parse_keqv_list [] parsed = Inr parsed"
| "parse_keqv_list (e # es) parsed =
     (case split_first (CHR ''='') e of
        (k, None) \<Rightarrow> Inl Unreadable
      | (k, Some []) \<Rightarrow> Inl (Crash IndexError)
      | (k, Some v) \<Rightarrow> parse_keqv_list es (dict_set k (unquote v) parsed))"

definition bearer_parameters :: "string \<Rightarrow> probe_failure + (string \<times> string) list" where
  "bearer_parameters header =
     (case split_first (CHR '' '') header of (scheme, rest) \<Rightarrow>
        if lower scheme = ''bearer''
        then parse_keqv_list (parse_http_list (case rest of None \<Rightarrow> [] | Some p \<Rightarrow> p)) []
        else Inr [])"

definition manifest_headers :: "(string \<times> string) list" where
  "manifest_headers =
     [(''Accept'',
       ''application/vnd.oci.image.index.v1+json,application/vnd.oci.image.manifest.v1+json,'' @
       ''application/vnd.docker.distribution.manifest.list.v2+json,application/vnd.docker.distribution.manifest.v2+json''),
      (''User-Agent'', ''foretoken-source-probe'')]"

definition access_token :: "(string \<Rightarrow> json option) \<Rightarrow> string \<Rightarrow> probe_failure + string option" where
  "access_token loads body =
     (case loads body of
        None \<Rightarrow> Inl Unreadable
      | Some (JObj ps) \<Rightarrow>
          Inr (case jor (field ''token'' (JObj ps)) (field ''access_token'' (JObj ps)) of
                 JStr (c # s) \<Rightarrow> Some (c # s) | _ \<Rightarrow> None)
      | Some _ \<Rightarrow> Inl (Crash AttributeError))"

text \<open>
  The manifest loop: at most four rounds of a manifest request and, after a challenge, a token request. A
  request that carries a token and is still refused ends the probe. The token is remembered in the headers
  of the next round, which starts at the address that issued the challenge.
\<close>

fun manifest_rounds ::
  "http_client \<Rightarrow> (string \<Rightarrow> json option) \<Rightarrow> nat \<Rightarrow> string \<Rightarrow> (string \<times> string) list \<Rightarrow> probe_failure + bool" where
  "manifest_rounds C loads 0 url headers = Inr False"
| "manifest_rounds C loads (Suc n) url headers =
     rbind (https_get C url headers) (\<lambda>(request, response, _).
     if rs_status response = 200 then Inr True
     else if rs_status response \<noteq> 401 \<or> map_of (rq_headers request) ''Authorization'' \<noteq> None then Inr False
     else
       rbind (bearer_parameters (rs_authenticate response)) (\<lambda>parameters.
       case map_of parameters ''realm'' of
         None \<Rightarrow> Inr False
       | Some [] \<Rightarrow> Inr False
       | Some realm \<Rightarrow>
           rbind (https_get C (hc_merge_params C realm (filter (\<lambda>(k, _). k \<noteq> ''realm'') parameters)) []) (\<lambda>(_, token_response, body).
           if rs_status token_response \<noteq> 200 then Inr False
           else
             rbind (access_token loads body) (\<lambda>token.
             case token of
               None \<Rightarrow> Inr False
             | Some t \<Rightarrow>
                 manifest_rounds C loads n (rq_url request) (dict_set ''Authorization'' (''Bearer '' @ t) headers)))))"

definition probe_oci_manifest ::
  "http_client \<Rightarrow> (string \<Rightarrow> json option) \<Rightarrow> rat \<Rightarrow> string \<Rightarrow> string \<Rightarrow> string \<Rightarrow> py_error + rat option" where
  "probe_oci_manifest C loads elapsed host repository reference =
     probed elapsed (manifest_rounds C loads 4 (''https://'' @ host @ ''/v2/'' @ repository @ ''/manifests/'' @ reference) manifest_headers)"

section \<open>What a selection promises\<close>

lemma split_first_Some: "split_first c s = (a, Some b) \<Longrightarrow> s = a @ c # b"
  by (induction s arbitrary: a) (auto split: if_splits prod.splits)

lemma measured_pair:
  assumes "map_list f xs = Inr ys" and "(x, y) \<in> set (zip xs ys)"
  shows "f x = Inr y"
  using assms by (auto simp: map_list_Inr list_all2_iff)

lemma available_iff: "(m, e) \<in> set [(m, e). (m, Some e) \<leftarrow> xs] \<longleftrightarrow> (m, Some e) \<in> set xs"
  by (auto split: option.splits)

text \<open>A source a build or download may switch to: it answered, and the official source did not or was slower.\<close>

definition worth_it :: "rat option \<Rightarrow> rat \<Rightarrow> bool" where
  "worth_it official elapsed \<longleftrightarrow>
     (case official of
        None \<Rightarrow> True
      | Some t \<Rightarrow> elapsed \<le> t * mirror_faster_ratio \<and> mirror_faster_margin \<le> t - elapsed)"

lemma select_mirror_Some:
  assumes "select_mirror official mirrors ms preferred = Some (m, e)"
  shows "(m, Some e) \<in> set (zip mirrors ms)"
    and "official = None \<or> preferred \<noteq> Some []"
    and "preferred = Some (sm_value m) \<or> worth_it official e"
proof -
  let ?av = "[(m, e). (m, Some e) \<leftarrow> zip mirrors ms]"
  show "official = None \<or> preferred \<noteq> Some []"
    using assms by (auto simp: select_mirror_def split: if_splits)
  have "(m, e) \<in> set ?av \<and> (preferred = Some (sm_value m) \<or> worth_it official e)"
  proof (cases "find (\<lambda>(m, e). Some (sm_value m) = preferred) ?av")
    case None
    then show ?thesis
      using assms unfolding select_mirror_def Let_def
      by (auto simp: worth_it_def simp del: set_concat set_map dest!: min_by_in split: if_splits option.splits)
  next
    case (Some x)
    then show ?thesis
      using assms find_in [OF Some] unfolding select_mirror_def Let_def by (auto simp del: set_concat set_map split: if_splits)
  qed
  then show "(m, Some e) \<in> set (zip mirrors ms)" "preferred = Some (sm_value m) \<or> worth_it official e"
    unfolding available_iff by auto
qed

lemma select_mirror_None:
  assumes "select_mirror None mirrors ms preferred = None" and "(m, y) \<in> set (zip mirrors ms)"
  shows "y = None"
proof (rule ccontr)
  assume "y \<noteq> None"
  then obtain e where "(m, e) \<in> set [(m, e). (m, Some e) \<leftarrow> zip mirrors ms]"
    unfolding available_iff using assms(2) by auto
  then have "[(m, e). (m, Some e) \<leftarrow> zip mirrors ms] \<noteq> []"
    by (metis empty_iff empty_set)
  then show False
    using assms(1) unfolding select_mirror_def Let_def
    by (auto simp del: concat_eq_Nil_conv split: option.splits if_splits prod.splits)
qed

lemma prefix_longer: "p \<in> set (oci_mirror_prefixes host) \<Longrightarrow> length host < length p"
  by (auto simp: oci_mirror_prefixes_def split: if_splits)

lemma oci_mirror_value [simp]: "sm_value (oci_mirror repository revision prefix) = prefix"
  by (simp add: oci_mirror_def Let_def split: prod.splits)

lemma zip_measured:
  assumes "map_list f xs = Inr ys" and "x \<in> set xs"
  obtains y where "(x, y) \<in> set (zip xs ys)"
  using assms by (metis list_all2_lengthD map_list_Inr in_set_impl_in_set_zip1)

lemma split_first_at: "c \<notin> set a \<Longrightarrow> split_first c (a @ c # b) = (a, Some b)"
  by (induction a) auto

lemma scheme_split: "reference = reference_scheme reference @ drop (length (reference_scheme reference)) reference"
  by (auto simp: reference_scheme_def starts_with_iff)

text \<open>The selection for a reference with mirrors whose origin is unavailable.\<close>

lemma mirrored_selection:
  assumes "split_first (CHR ''/'') (drop (length (reference_scheme reference)) reference) = (host, Some path)"
    and "oci_mirror_prefixes host \<noteq> []" and "repository_revision path = (repository, revision)"
    and "measured (''oci'', [official_host host, repository, revision]) = Inr None"
    and "select_platform_oci_reference measured reference previous = Inr r"
  obtains measurements preferred where
    "map_list (\<lambda>m. measured (sm_measure m)) (oci_mirrors host repository revision) = Inr measurements"
    and "r = (case select_mirror None (oci_mirrors host repository revision) measurements preferred of
                None \<Rightarrow> reference
              | Some (mirror, _) \<Rightarrow> reference_scheme reference @ sm_value mirror @ ''/'' @ path)"
  using assms unfolding select_platform_oci_reference_def Let_def by (auto elim!: rbind_InrE)

lemma mirror_of_prefix:
  assumes "map_list (\<lambda>m. measured (sm_measure m)) (oci_mirrors host repository revision) = Inr measurements"
    and "(m, y) \<in> set (zip (oci_mirrors host repository revision) measurements)"
  shows "sm_value m \<in> set (oci_mirror_prefixes host)"
    and "measured (sm_measure (oci_mirror repository revision (sm_value m))) = Inr y"
proof -
  obtain p where p: "p \<in> set (oci_mirror_prefixes host)" "m = oci_mirror repository revision p"
    using set_zip_leftD [OF assms(2)] by (auto simp: oci_mirrors_def)
  show "sm_value m \<in> set (oci_mirror_prefixes host)"
    using p by simp
  show "measured (sm_measure (oci_mirror repository revision (sm_value m))) = Inr y"
    using measured_pair [OF assms] p by simp
qed

lemma switched_reference:
  assumes "select_platform_oci_reference measured reference previous = Inr r" and "r \<noteq> reference"
  obtains host path prefix elapsed repository revision where
    "reference = reference_scheme reference @ host @ ''/'' @ path" and "prefix \<in> set (oci_mirror_prefixes host)"
    and "r = reference_scheme reference @ prefix @ ''/'' @ path"
    and "repository_revision path = (repository, revision)"
    and "measured (''oci'', [official_host host, repository, revision]) = Inr None"
    and "measured (sm_measure (oci_mirror repository revision prefix)) = Inr (Some elapsed)"
proof -
  obtain host path repository revision where s:
      "split_first (CHR ''/'') (drop (length (reference_scheme reference)) reference) = (host, Some path)"
      "oci_mirror_prefixes host \<noteq> []" "repository_revision path = (repository, revision)"
      "measured (''oci'', [official_host host, repository, revision]) = Inr None"
    using assms unfolding select_platform_oci_reference_def Let_def
    by (auto elim!: rbind_InrE split: prod.splits option.splits if_splits)
  obtain ms preferred where ms:
      "map_list (\<lambda>m. measured (sm_measure m)) (oci_mirrors host repository revision) = Inr ms"
      "r = (case select_mirror None (oci_mirrors host repository revision) ms preferred of
              None \<Rightarrow> reference | Some (mirror, _) \<Rightarrow> reference_scheme reference @ sm_value mirror @ ''/'' @ path)"
    using mirrored_selection [OF s assms(1)] by blast
  obtain m e where m: "select_mirror None (oci_mirrors host repository revision) ms preferred = Some (m, e)"
    using ms(2) assms(2) by (auto split: option.splits)
  have "r = reference_scheme reference @ sm_value m @ ''/'' @ path"
    using ms(2) m by simp
  moreover have "reference = reference_scheme reference @ host @ ''/'' @ path"
    using scheme_split [of reference] split_first_Some [OF s(1)] by simp
  ultimately show thesis
    using that mirror_of_prefix [OF ms(1) select_mirror_Some(1) [OF m]] s by blast
qed

lemma kept_reference:
  assumes "select_platform_oci_reference measured reference previous = Inr r"
    and split: "reference = reference_scheme reference @ host @ ''/'' @ path" "CHR ''/'' \<notin> set host"
    and rev: "repository_revision path = (repository, revision)"
    and down: "measured (''oci'', [official_host host, repository, revision]) = Inr None"
    and same: "r = reference" and prefix: "prefix \<in> set (oci_mirror_prefixes host)"
  shows "measured (sm_measure (oci_mirror repository revision prefix)) = Inr None"
proof -
  have s: "split_first (CHR ''/'') (drop (length (reference_scheme reference)) reference) = (host, Some path)"
    using split_first_at [OF split(2), of path] scheme_split [of reference] split(1) by (metis append_Cons append_Nil same_append_eq)
  have ne: "oci_mirror_prefixes host \<noteq> []"
    using prefix by auto
  obtain ms preferred where ms:
      "map_list (\<lambda>m. measured (sm_measure m)) (oci_mirrors host repository revision) = Inr ms"
      "r = (case select_mirror None (oci_mirrors host repository revision) ms preferred of
              None \<Rightarrow> reference | Some (mirror, _) \<Rightarrow> reference_scheme reference @ sm_value mirror @ ''/'' @ path)"
    using mirrored_selection [OF s ne rev down assms(1)] by blast
  have "select_mirror None (oci_mirrors host repository revision) ms preferred = None"
  proof (rule ccontr)
    assume "select_mirror None (oci_mirrors host repository revision) ms preferred \<noteq> None"
    then obtain m e where m: "select_mirror None (oci_mirrors host repository revision) ms preferred = Some (m, e)"
      by auto
    then have "reference_scheme reference @ sm_value m @ ''/'' @ path = reference_scheme reference @ host @ ''/'' @ path"
      using ms(2) same split(1) by simp
    then have "length (sm_value m) = length host"
      by (metis append_same_eq same_append_eq)
    then show False
      using prefix_longer mirror_of_prefix(1) [OF ms(1) select_mirror_Some(1) [OF m]] by fastforce
  qed
  moreover have "oci_mirror repository revision prefix \<in> set (oci_mirrors host repository revision)"
    using prefix by (simp add: oci_mirrors_def)
  then obtain y where y: "(oci_mirror repository revision prefix, y) \<in> set (zip (oci_mirrors host repository revision) ms)"
    using zip_measured [OF ms(1)] by blast
  ultimately show "measured (sm_measure (oci_mirror repository revision prefix)) = Inr None"
    using select_mirror_None mirror_of_prefix(2) [OF ms(1) y] by fastforce
qed

text \<open>C15: A platform image or chart reference that selection changes keeps its repository path, tag and digest
  below a public mirror of its registry; it changes only when the origin did not answer and that mirror did.
  A reference whose origin does not answer is kept only when no mirror of it answers.\<close>

theorem oci_reference_keeps_identity:
  assumes "select_platform_oci_reference measured reference previous = Inr r"
  shows "(r = reference \<or>
      (\<exists>host path prefix elapsed repository revision.
         reference = reference_scheme reference @ host @ ''/'' @ path \<and> prefix \<in> set (oci_mirror_prefixes host) \<and>
         r = reference_scheme reference @ prefix @ ''/'' @ path \<and> repository_revision path = (repository, revision) \<and>
         measured (''oci'', [official_host host, repository, revision]) = Inr None \<and>
         measured (sm_measure (oci_mirror repository revision prefix)) = Inr (Some elapsed))) \<and>
    (\<forall>host path repository revision prefix.
       reference = reference_scheme reference @ host @ ''/'' @ path \<and> CHR ''/'' \<notin> set host \<and>
       repository_revision path = (repository, revision) \<and>
       measured (''oci'', [official_host host, repository, revision]) = Inr None \<and>
       r = reference \<and> prefix \<in> set (oci_mirror_prefixes host) \<longrightarrow>
       measured (sm_measure (oci_mirror repository revision prefix)) = Inr None)"
  using switched_reference [OF assms] kept_reference [OF assms] by metis

definition demo_measured :: measurement where
  "demo_measured p = Inr (if p = (''oci'', [''m.daocloud.io'', ''quay.io/a/b'', ''1'']) then Some (1 / 2) else None)"

theorem oci_reference_keeps_identity_witness:
  "select_platform_oci_reference demo_measured ''quay.io/a/b:1'' None = Inr ''m.daocloud.io/quay.io/a/b:1'' \<and>
   demo_measured (''oci'', [''quay.io'', ''a/b'', ''1'']) = Inr None \<and>
   (\<exists>host path prefix. prefix \<in> set (oci_mirror_prefixes host) \<and> ''quay.io/a/b:1'' = host @ ''/'' @ path \<and>
      ''m.daocloud.io/quay.io/a/b:1'' = prefix @ ''/'' @ path)"
proof -
  have s: "select_platform_oci_reference demo_measured ''quay.io/a/b:1'' None = Inr ''m.daocloud.io/quay.io/a/b:1''"
    by code_simp
  have "reference_scheme ''quay.io/a/b:1'' = []"
    by code_simp
  then show ?thesis
    using oci_reference_keeps_identity [OF s] s by (auto simp: demo_measured_def)
qed

text \<open>A mirror of a probe that a selection may name: it answered, and it is the previous choice or worth the change.\<close>

definition justified :: "measurement \<Rightarrow> string option \<Rightarrow> source_probe \<Rightarrow> string \<Rightarrow> bool" where
  "justified measured preferred p v \<longleftrightarrow>
     (\<exists>m \<in> set (sp_mirrors p). \<exists>elapsed official.
        sm_value m = v \<and> measured (sm_measure m) = Inr (Some elapsed) \<and> measured (sp_official p) = Inr official \<and>
        (preferred = Some v \<or> worth_it official elapsed) \<and> (official = None \<or> preferred \<noteq> Some []))"

lemma measured_choice:
  assumes "measure_probe measured p = Inr (p', official, ms)"
    and "select_mirror official (sp_mirrors p') ms preferred = Some (m, e)"
  shows "p' = p \<and> justified measured preferred p (sm_value m)"
proof -
  have "p' = p" "measured (sp_official p) = Inr official" "map_list (\<lambda>m. measured (sm_measure m)) (sp_mirrors p) = Inr ms"
    using assms(1) by (auto simp: measure_probe_def elim!: rbind_InrE)
  moreover note select_mirror_Some [OF assms(2)]
  ultimately show ?thesis
    using measured_pair set_zip_leftD unfolding justified_def by fastforce
qed

text \<open>Every setting a selection has gathered comes from a measured probe.\<close>

definition sources_from :: "source_probe set \<Rightarrow> (source_probe \<Rightarrow> string \<Rightarrow> bool) \<Rightarrow> build_sources \<Rightarrow> bool" where
  "sources_from ps J s \<longleftrightarrow>
     (\<forall>(k, v) \<in> {(k, v). map_of (bs_environment s) k = Some v}.
        \<exists>p \<in> ps. sp_registry p = None \<and> sp_environment p = k \<and> J p v) \<and>
     (\<forall>(r, vs) \<in> {(r, vs). map_of (bs_registry_mirrors s) r = Some vs}.
        \<exists>p \<in> ps. \<exists>v. sp_registry p = Some r \<and> vs = [v] \<and> J p v)"

lemma add_source_from:
  assumes "sources_from ps J acc" and "p \<in> ps"
    and "\<And>m e. select_mirror official (sp_mirrors p) ms (preferred_source pe pm p) = Some (m, e) \<Longrightarrow> J p (sm_value m)"
  shows "sources_from ps J (add_source pe pm (p, official, ms) acc)"
proof (cases "select_mirror official (sp_mirrors p) ms (preferred_source pe pm p)")
  case None
  then show ?thesis
    using assms(1) by (simp add: add_source_def)
next
  case (Some x)
  then obtain m e where m: "select_mirror official (sp_mirrors p) ms (preferred_source pe pm p) = Some (m, e)"
    by (cases x) simp
  then show ?thesis
    using assms(1,2) assms(3) [OF m]
    by (cases "sp_registry p") (auto simp: add_source_def sources_from_def)
qed

lemma fold_sources_from:
  assumes "list_all2 (\<lambda>p r. measure_probe measured p = Inr r) probes results" and "set probes \<subseteq> ps"
    and "sources_from ps (\<lambda>p. justified measured (preferred_source pe pm p) p) acc"
  shows "sources_from ps (\<lambda>p. justified measured (preferred_source pe pm p) p) (fold (add_source pe pm) results acc)"
  using assms
proof (induction arbitrary: acc rule: list_all2_induct)
  case (Cons p probes r results)
  obtain p' official ms where r: "r = (p', official, ms)"
    by (cases r)
  have p': "p' = p"
    using Cons.hyps(1) r by (auto simp: measure_probe_def elim!: rbind_InrE)
  have "sources_from ps (\<lambda>p. justified measured (preferred_source pe pm p) p) (add_source pe pm r acc)"
    using Cons.prems Cons.hyps(1) measured_choice unfolding r p' by (intro add_source_from) auto
  then show ?case
    using Cons.IH Cons.prems(1) by simp
qed simp

lemma probe_registries:
  "p \<in> set oci_probes \<Longrightarrow> sp_registry p \<noteq> None" "p \<in> set package_probes \<Longrightarrow> sp_registry p = None"
  by (auto simp: oci_probes_def oci_probe_def package_probes_def package_probe_def)

lemma build_probes_package:
  assumes "p \<in> set (build_probes e)" and "sp_registry p = None"
  shows "p \<in> set package_probes \<and> \<not> configured e (sp_environment p)"
  using assms probe_registries(1) [of p] by (simp add: build_probes_def split: if_splits) blast

lemma build_probes_oci:
  assumes "p \<in> set (build_probes e)" and "sp_registry p = Some r"
  shows "p \<in> set oci_probes \<and> \<not> configured e (sp_environment p) \<and> \<not> configured e ''FORETOKEN_OCI_REGISTRY''"
  using assms probe_registries(2) [of p] by (auto simp: build_probes_def split: if_splits)

text \<open>C38: A build setting is only written for a variable the user left unset, and a registry mirror only when
  neither a registry for all images nor the variable of that registry is set. Each written source is a mirror
  of the probe that answered, and either the source of the previous build, or one whose official source did
  not answer or was slower by the ratio and the margin; the official source of a previous build is never left
  while it answers.\<close>

theorem build_sources_respect_settings:
  assumes "select_build_sources measured environment previous_environment previous_mirrors = Inr s"
  shows "(\<forall>k v. map_of (bs_environment s) k = Some v \<longrightarrow>
            \<not> configured environment k \<and>
            (\<exists>p \<in> set package_probes. sp_environment p = k \<and>
               justified measured (preferred_source previous_environment previous_mirrors p) p v)) \<and>
         (\<forall>r vs. map_of (bs_registry_mirrors s) r = Some vs \<longrightarrow>
            \<not> configured environment ''FORETOKEN_OCI_REGISTRY'' \<and>
            (\<exists>p \<in> set oci_probes. \<exists>v. sp_registry p = Some r \<and> \<not> configured environment (sp_environment p) \<and> vs = [v] \<and>
               justified measured (preferred_source previous_environment previous_mirrors p) p v))"
proof -
  let ?J = "\<lambda>p. justified measured (preferred_source previous_environment previous_mirrors p) p"
  obtain results where "list_all2 (\<lambda>p r. measure_probe measured p = Inr r) (build_probes environment) results"
    "s = fold (add_source previous_environment previous_mirrors) results no_sources"
    using assms by (auto simp: select_build_sources_def map_list_Inr elim!: rbind_InrE)
  moreover have "sources_from (set (build_probes environment)) ?J no_sources"
    by (simp add: sources_from_def no_sources_def)
  ultimately have "sources_from (set (build_probes environment)) ?J s"
    using fold_sources_from by blast
  note gathered = this
  show ?thesis
  proof (intro conjI allI impI)
    fix k v
    assume "map_of (bs_environment s) k = Some v"
    then obtain p where "p \<in> set (build_probes environment)" "sp_registry p = None" "sp_environment p = k" "?J p v"
      using gathered unfolding sources_from_def by blast
    then show "\<not> configured environment k"
      "\<exists>p \<in> set package_probes. sp_environment p = k \<and> ?J p v"
      using build_probes_package by blast+
  next
    fix r vs
    assume "map_of (bs_registry_mirrors s) r = Some vs"
    then obtain p v where "p \<in> set (build_probes environment)" "sp_registry p = Some r" "vs = [v]" "?J p v"
      using gathered unfolding sources_from_def by blast
    then show "\<not> configured environment ''FORETOKEN_OCI_REGISTRY''"
      "\<exists>p \<in> set oci_probes. \<exists>v. sp_registry p = Some r \<and> \<not> configured environment (sp_environment p) \<and> vs = [v] \<and> ?J p v"
      using build_probes_oci by blast+
  qed
qed

definition slow_measured :: measurement where
  "slow_measured p = Inr (if p = (''url'', [''https://goproxy.cn/golang.org/x/sync/@v/v0.20.0.info'']) then Some (1 / 2) else Some 1)"

definition only_go :: environ where
  "only_go k = (if k = ''GOPROXY'' then None else Some ''x'')"

lemma only_go_probes: "build_probes only_go = [package_probes ! 1]"
  by (simp add: build_probes_def configured_def only_go_def package_probes_def package_probe_def)

lemma only_go_selection:
  "select_build_sources slow_measured only_go None None =
     Inr \<lparr>bs_environment = [(''GOPROXY'', ''https://goproxy.cn'')], bs_registry_mirrors = [],
           bs_messages = [''Go module proxy: https://goproxy.cn 0.50s, official 1.00s'']\<rparr>"
  unfolding select_build_sources_def only_go_probes by code_simp

theorem build_sources_respect_settings_witness:
  "\<not> configured only_go ''GOPROXY'' \<and> configured only_go ''UV_DEFAULT_INDEX'' \<and>
   (\<exists>s. select_build_sources slow_measured only_go None None = Inr s \<and>
      map_of (bs_environment s) ''GOPROXY'' = Some ''https://goproxy.cn'' \<and>
      (\<exists>p \<in> set package_probes. sp_environment p = ''GOPROXY'' \<and>
         justified slow_measured (preferred_source None None p) p ''https://goproxy.cn''))"
  using build_sources_respect_settings [OF only_go_selection] only_go_selection
  by (simp add: configured_def only_go_def del: bex_simps)

text \<open>The sample of a body is its beginning; a probe that was answered was so over HTTPS and without credentials in the address.\<close>

lemma read_sample_take: "length body \<le> limit \<Longrightarrow> read_sample limit body chunks = take limit (body @ concat chunks)"
proof (induction chunks arbitrary: body)
  case (Cons c cs)
  show ?case
  proof (cases "length (body @ take (limit - length body) c) = limit")
    case True
    then show ?thesis
      using Cons.prems by (auto simp: Let_def min_def split: if_splits)
  next
    case False
    then have "length c < limit - length body"
      using Cons.prems by (auto simp: min_def split: if_splits)
    then show ?thesis
      using Cons by (simp add: Let_def)
  qed
qed simp

lemma follow_answer:
  assumes "follow C n r = Inr (r', response, body)"
  shows "require_https C r' = Inr () \<and> hc_send C r' = Inr response \<and> rs_next response = None \<and>
    body = take probe_read_bytes (concat (rs_chunks response))"
  using assms
proof (induction n arbitrary: r)
  case (Suc n)
  then show ?case
    by (auto simp: read_sample_take elim!: rbind_InrE split: option.splits)
qed simp

end
