(* ===== verification/Helm_Client.thy ===== *)
theory Helm_Client
  imports Download_Sources
begin

text \<open>
  The Helm client of the platform commands (\<open>platform/helm_client.py\<close>): its command lines, the decoding of
  its answers, the ownership of releases, chart values and the image references of charts. The Helm process
  and the JSON and YAML decoders are parameters, and so are the files of a chart on disk.
\<close>

section \<open>Commands\<close>

record release_ref =
  rl_name :: string
  rl_namespace :: string

definition release_name :: "release_ref \<Rightarrow> string" where
  "release_name r = rl_namespace r @ ''/'' @ rl_name r"

record helm_config =
  hc_management :: "string \<times> string"
  hc_legacy :: "string \<times> string"
  hc_install_source :: string

text \<open>\<open>shlex.join\<close>.\<close>

definition safe_char :: "char \<Rightarrow> bool" where
  "safe_char c \<longleftrightarrow> is_digit c \<or> lower_letter (lower_char c) \<or> c \<in> set ''@%+=:,./-_''"

definition shlex_quote :: "string \<Rightarrow> string" where
  "shlex_quote s =
     (if s = [] then [CHR 0x27, CHR 0x27]
      else if list_all safe_char s then s
      else CHR 0x27 # concat (map (\<lambda>c. if c = CHR 0x27 then [CHR 0x27, CHR 0x22, CHR 0x27, CHR 0x22, CHR 0x27] else [c]) s) @ [CHR 0x27])"

definition helm_command_error :: "string list \<Rightarrow> completed \<Rightarrow> deploy_error" where
  "helm_command_error command c =
     DeploymentError (join '' '' (map shlex_quote command) @ '' failed: '' @ or_text (strip (cp_err c)) (strip (cp_out c)))"

text \<open>The client: its executable, cluster context, configuration, and the parameters of the process and decoder.\<close>

record helm_client =
  hm_executable :: string
  hm_context :: string
  hm_config :: helm_config
  hm_exec :: "string list \<Rightarrow> string option \<Rightarrow> completed"
  hm_loads :: "string \<Rightarrow> json option"
  hm_yaml :: yaml_lib

definition helm_command :: "helm_client \<Rightarrow> string list \<Rightarrow> string list" where
  "helm_command H args = hm_executable H # args @ [''--kube-context'', hm_context H]"

text \<open>\<open>run\<close> without \<open>check\<close>, and with it: the standard output of a successful command.\<close>

definition complete_helm :: "helm_client \<Rightarrow> string list \<Rightarrow> string option \<Rightarrow> completed" where
  "complete_helm H args input = hm_exec H (helm_command H args) input"

definition run_helm :: "helm_client \<Rightarrow> string list \<Rightarrow> string option \<Rightarrow> deploy_error + string" where
  "run_helm H args input =
     (let c = complete_helm H args input in
      if cp_code c \<noteq> 0 then Inl (helm_command_error (helm_command H args) c) else Inr (cp_out c))"

definition upgrade_args ::
  "helm_client \<Rightarrow> release_ref \<Rightarrow> string \<Rightarrow> string \<Rightarrow> (string \<times> string) list \<Rightarrow> bool \<Rightarrow> string list" where
  "upgrade_args H r chart timeout labels wait =
     [''upgrade'', ''--install'', rl_name r, chart, ''--namespace'', rl_namespace r, ''--create-namespace'', ''--labels'',
      join '','' (map (\<lambda>(k, v). k @ ''='' @ v) (hc_management (hm_config H) # labels))] @
     (if wait then [''--wait''] else []) @ [''--timeout='' @ timeout]"

text \<open>\<open>render_chart\<close>: the template command of an upgrade; every forwarded option brings its value.\<close>

fun forwarded :: "string list \<Rightarrow> py_error + string list" where
  "forwarded [] = Inr []"
| "forwarded (a # args) =
     (if a \<in> set [''--namespace'', ''--values'', ''--set'', ''--set-string'', ''--set-json'']
      then (case args of
        [] \<Rightarrow> Inl IndexError
      | v # _ \<Rightarrow> rbind (forwarded args) (\<lambda>rest. Inr (a # v # rest)))
      else forwarded args)"

definition render_args :: "string list \<Rightarrow> py_error + string list" where
  "render_args args =
     (if length args < 4 then Inl IndexError
      else rbind (forwarded args) (\<lambda>opts. Inr ([''template'', args ! 2, args ! 3, ''--dry-run=server''] @ opts)))"

definition render_chart :: "helm_client \<Rightarrow> string list \<Rightarrow> string option \<Rightarrow> cli_error + json list" where
  "render_chart H args input =
     rbind (raising (render_args args)) (\<lambda>command.
     rbind (deploying (run_helm H command input)) (yaml_documents (hm_yaml H)))"

section \<open>Releases\<close>

definition decode_json :: "(string \<Rightarrow> json option) \<Rightarrow> string \<Rightarrow> deploy_error + json" where
  "decode_json loads output =
     (case loads output of None \<Rightarrow> Inl (DeploymentError ''helm returned invalid JSON'') | Some v \<Rightarrow> Inr v)"

definition release_exists :: "helm_client \<Rightarrow> release_ref \<Rightarrow> deploy_error + bool" where
  "release_exists H r =
     (let args = [''get'', ''metadata'', rl_name r, ''--namespace'', rl_namespace r, ''--output'', ''json'']; c = complete_helm H args None in
      if cp_code c = 0 then Inr True
      else if contains ''release: not found'' (or_text (strip (cp_err c)) (strip (cp_out c))) then Inr False
      else Inl (helm_command_error (helm_command H args) c))"

text \<open>\<open>re.escape\<close>.\<close>

definition special_char :: "char \<Rightarrow> bool" where
  "special_char c \<longleftrightarrow> c \<in> set ''()[]{}?*+-|^$.&~# '' \<or> c = CHR 0x5C \<or> (of_char c :: nat) \<in> {9, 10, 11, 12, 13}"

definition re_escape :: "string \<Rightarrow> string" where
  "re_escape s = concat (map (\<lambda>c. if special_char c then [CHR 0x5C, c] else [c]) s)"

definition list_args :: "string \<Rightarrow> string option \<Rightarrow> string \<Rightarrow> string list" where
  "list_args name ns selector =
     [''list'', ''--filter'', ''^'' @ re_escape name @ ''$'', ''--output'', ''json'', ''--max'', ''0''] @
     (case ns of None \<Rightarrow> [''--all-namespaces''] | Some n \<Rightarrow> [''--namespace'', n]) @
     (if selector = [] then [] else [''--selector'', selector])"

definition list_releases ::
  "helm_client \<Rightarrow> string \<Rightarrow> string option \<Rightarrow> string \<Rightarrow> deploy_error + json list" where
  "list_releases H name ns selector =
     rbind (run_helm H (list_args name ns selector) None) (\<lambda>out.
     rbind (decode_json (hm_loads H) out) (\<lambda>listed.
     case listed of
       JList items \<Rightarrow>
         if list_all is_object items then Inr items
         else Inl (DeploymentError ''helm list returned an unexpected JSON value'')
     | _ \<Rightarrow> Inl (DeploymentError ''helm list returned an unexpected JSON value'')))"

definition has_release_label ::
  "helm_client \<Rightarrow> release_ref \<Rightarrow> string \<Rightarrow> string \<Rightarrow> deploy_error + bool" where
  "has_release_label H r key v =
     rbind (list_releases H (rl_name r) (Some (rl_namespace r)) (key @ ''='' @ v)) (\<lambda>items. Inr (items \<noteq> []))"

definition is_cli_managed ::
  "helm_client \<Rightarrow> release_ref \<Rightarrow> deploy_error + bool" where
  "is_cli_managed H r = has_release_label H r (fst (hc_management (hm_config H))) (snd (hc_management (hm_config H)))"

definition is_cleanup_managed ::
  "helm_client \<Rightarrow> release_ref \<Rightarrow> deploy_error + bool" where
  "is_cleanup_managed H r =
     rbind (is_cli_managed H r) (\<lambda>managed.
     if managed then Inr True
     else has_release_label H r (fst (hc_legacy (hm_config H))) (snd (hc_legacy (hm_config H))))"

definition get_release_values ::
  "helm_client \<Rightarrow> release_ref \<Rightarrow> bool \<Rightarrow> deploy_error + json" where
  "get_release_values H r include_defaults =
     rbind (run_helm H ([''get'', ''values'', rl_name r, ''--namespace'', rl_namespace r] @
              (if include_defaults then [''--all''] else []) @ [''--output'', ''json'']) None) (\<lambda>out.
     rbind (decode_json (hm_loads H) out) (\<lambda>values.
     if values = JNull \<and> \<not> include_defaults then Inr (JObj [])
     else if is_object values then Inr values
     else Inl (DeploymentError ''helm get values returned an unexpected JSON value'')))"

definition stored_chart_values ::
  "helm_client \<Rightarrow> release_ref \<Rightarrow> deploy_error + json" where
  "stored_chart_values H r =
     rbind (release_exists H r) (\<lambda>b. if b then get_release_values H r False else Inr (JObj []))"

definition install_sources ::
  "helm_client \<Rightarrow> release_ref \<Rightarrow> deploy_error + string list" where
  "install_sources H r =
     filter_list (\<lambda>source. has_release_label H r (hc_install_source (hm_config H)) source) [''release'', ''source'']"

definition release_install_source ::
  "helm_client \<Rightarrow> release_ref \<Rightarrow> deploy_error + string" where
  "release_install_source H r =
     rbind (install_sources H r) (\<lambda>sources.
     case sources of
       [s] \<Rightarrow> Inr s
     | _ \<Rightarrow> Inl (DeploymentError (''Helm release '' @ release_name r @ '' has no valid '' @ hc_install_source (hm_config H) @ '' label'')))"

definition manifest_args :: "release_ref \<Rightarrow> string list" where
  "manifest_args r = [''get'', ''manifest'', rl_name r, ''--namespace'', rl_namespace r]"

definition installed_chart_manifest ::
  "helm_client \<Rightarrow> release_ref \<Rightarrow> cli_error + json list" where
  "installed_chart_manifest H r =
     rbind (deploying (release_exists H r)) (\<lambda>b.
     if \<not> b then Inr []
     else rbind (deploying (run_helm H (manifest_args r) None)) (yaml_documents (hm_yaml H)))"

text \<open>\<open>chart_resource\<close>: the one resource of a kind in an installed manifest.\<close>

definition chart_resource ::
  "helm_client \<Rightarrow> release_ref \<Rightarrow> string \<Rightarrow> string \<Rightarrow> string \<Rightarrow> cli_error + resource_ref" where
  "chart_resource H r api_version kind description =
     rbind (deploying (run_helm H (manifest_args r) None)) (\<lambda>rendered.
     case decode_resources (hm_yaml H) rendered of
       Inl _ \<Rightarrow> deploy_fail (description @ '' returned invalid YAML'')
     | Inr docs \<Rightarrow>
         (case filter (\<lambda>d. is_object d \<and> field ''apiVersion'' d = JStr api_version \<and> field ''kind'' d = JStr kind) docs of
            [d] \<Rightarrow>
              rbind (raising (jitem d ''metadata'')) (\<lambda>m.
              rbind (raising (text_item m ''name'')) (\<lambda>name.
              rbind (raising (jget m ''namespace'' JNull)) (\<lambda>ns.
                case jor ns (JStr (rl_namespace r)) of
                  JStr space \<Rightarrow> Inr \<lparr>rr_kind = kind, rr_name = name, rr_namespace = space\<rparr>
                | _ \<Rightarrow> Inl (Raised TypeError))))
          | _ \<Rightarrow> deploy_fail (description @ '' must contain one '' @ kind)))"

definition uninstall_args :: "release_ref \<Rightarrow> string \<Rightarrow> string list" where
  "uninstall_args r timeout =
     [''uninstall'', rl_name r, ''--namespace'', rl_namespace r, ''--wait'', ''--timeout='' @ timeout]"

text \<open>\<open>owned_by_release\<close>.\<close>

definition owned_by_release :: "json \<Rightarrow> release_ref \<Rightarrow> py_error + bool" where
  "owned_by_release document r =
     rbind (jitem document ''metadata'') (\<lambda>m.
     rbind (jget m ''annotations'' (JObj [])) (\<lambda>annotations.
     rbind (jget m ''labels'' (JObj [])) (\<lambda>labels.
     rbind (jget labels ''app.kubernetes.io/managed-by'' JNull) (\<lambda>tool.
     if tool \<noteq> JStr ''Helm'' then Inr False
     else rbind (jget annotations ''meta.helm.sh/release-name'' JNull) (\<lambda>name.
       if name \<noteq> JStr (rl_name r) then Inr False
       else rbind (jget annotations ''meta.helm.sh/release-namespace'' JNull) (\<lambda>ns. Inr (ns = JStr (rl_namespace r))))))))"

section \<open>Values\<close>

fun value_path :: "json \<Rightarrow> string list \<Rightarrow> py_error + json" where
  "value_path v [] = Inr v"
| "value_path v (k # ks) = rbind (jitem v k) (\<lambda>x. value_path x ks)"

definition value_at :: "json \<Rightarrow> string \<Rightarrow> py_error + json" where
  "value_at values path = value_path values (split_on (CHR ''.'') path)"

function merge_pairs :: "(string \<times> json) list \<Rightarrow> (string \<times> json) list \<Rightarrow> (string \<times> json) list" where
  "merge_pairs merged [] = merged"
| "merge_pairs merged ((k, v) # overrides) =
     merge_pairs
       (dict_set k (case (v, map_of merged k) of (JObj b, Some (JObj a)) \<Rightarrow> JObj (merge_pairs a b) | _ \<Rightarrow> v) merged)
       overrides"
  by pat_completeness auto

termination
  by (relation "measure (\<lambda>(m, os). size (JObj os))") auto

definition merge_values :: "json \<Rightarrow> json \<Rightarrow> py_error + json" where
  "merge_values defaults overrides =
     (case (defaults, overrides) of
        (JObj a, JObj b) \<Rightarrow> Inr (JObj (merge_pairs a b))
      | (JList xs, JObj []) \<Rightarrow> Inr (JList xs)
      | (JList xs, JObj ((_, v) # _)) \<Rightarrow> Inl (if is_object v then AttributeError else TypeError)
      | _ \<Rightarrow> Inl AttributeError)"

text \<open>One automatic choice written into the private chart: missing parents are created.\<close>

fun set_path :: "string list \<Rightarrow> json \<Rightarrow> json \<Rightarrow> py_error + json" where
  "set_path [] v d = Inl IndexError"
| "set_path [k] v d = set_field k v d"
| "set_path (k # k' # ks) v (JObj ps) =
     rbind (set_path (k' # ks) v (case map_of ps k of None \<Rightarrow> JObj [] | Some x \<Rightarrow> x)) (\<lambda>x. Inr (JObj (dict_set k x ps)))"
| "set_path (k # k' # ks) v d = Inl AttributeError"

fun set_chart_defaults :: "(string \<times> json) list \<Rightarrow> json \<Rightarrow> py_error + json" where
  "set_chart_defaults [] values = Inr values"
| "set_chart_defaults ((name, v) # updates) values =
     rbind (set_path (split_on (CHR ''.'') name) v values) (set_chart_defaults updates)"

section \<open>Images\<close>

definition image_repository_tag :: "string \<Rightarrow> deploy_error + string \<times> string" where
  "image_repository_tag reference =
     (if CHR '':'' \<notin> set (after_last (CHR ''/'') reference) then Inr (reference, ''latest'')
      else
        let repository = before_last (CHR '':'') reference; tag = after_last (CHR '':'') reference in
        if repository = [] \<or> tag = [] then Inl (DeploymentError (''source image must include a tag: '' @ reference))
        else Inr (repository, tag))"

text \<open>The repository of an image without registry, under Docker's implicit names.\<close>

definition implicit_repository :: "string \<Rightarrow> string" where
  "implicit_repository repository =
     (case split_first (CHR ''/'') repository of
        (host, None) \<Rightarrow> ''docker.io/library/'' @ repository
      | (host, Some _) \<Rightarrow> if \<not> qualified_host host then ''docker.io/'' @ repository else repository)"

definition image_repository :: "(json \<Rightarrow> string) \<Rightarrow> json \<Rightarrow> py_error + string" where
  "image_repository render img =
     rbind (jitem img ''repository'') (\<lambda>repository.
     if jtrue (field ''registry'' img) then Inr (py_str render repository)
     else case repository of JStr s \<Rightarrow> Inr (implicit_repository s) | _ \<Rightarrow> Inl AttributeError)"

definition image_tag :: "json \<Rightarrow> string \<Rightarrow> bool \<Rightarrow> bool \<Rightarrow> py_error + json" where
  "image_tag img version version_prefix distroless =
     (let tag = jor (field ''tag'' img) (JStr (if version_prefix then ''v'' @ version else version)) in
      if distroless \<and> jtrue (field ''distroless'' img)
      then (case tag of JStr s \<Rightarrow> Inr (JStr (s @ ''-distroless'')) | _ \<Rightarrow> Inl TypeError)
      else Inr tag)"

text \<open>\<open>s in v\<close> for a text \<open>s\<close>.\<close>

fun mentions :: "string \<Rightarrow> json \<Rightarrow> py_error + bool" where
  "mentions s (JStr t) = Inr (contains s t)"
| "mentions s (JList xs) = Inr (JStr s \<in> set xs)"
| "mentions s (JObj ps) = Inr (s \<in> fst ` set ps)"
| "mentions s _ = Inl TypeError"

definition image_digest :: "(json \<Rightarrow> string) \<Rightarrow> json \<Rightarrow> py_error + string option" where
  "image_digest render img =
     (let digest = jor (field ''digest'' img) (field ''sha'' img) in
      if \<not> jtrue digest then Inr None
      else rbind (mentions '':'' digest) (\<lambda>b.
        Inr (Some (if b then py_str render digest else ''sha256:'' @ py_str render digest))))"

text \<open>The reference of one chart image from its merged values.\<close>

definition image_reference :: "(json \<Rightarrow> string) \<Rightarrow> json \<Rightarrow> string \<Rightarrow> bool \<Rightarrow> bool \<Rightarrow> py_error + string" where
  "image_reference render img version version_prefix distroless =
     rbind (image_repository render img) (\<lambda>repository.
     rbind (image_tag img version version_prefix distroless) (\<lambda>tag.
     rbind (image_digest render img) (\<lambda>digest.
     let reference = (case digest of Some d \<Rightarrow> repository @ ''@'' @ d | None \<Rightarrow> repository @ '':'' @ py_str render tag);
         registry = field ''registry'' img in
       Inr (if jtrue registry then py_str render registry @ ''/'' @ reference else reference))))"

text \<open>What the user's own values say of an image, and whether they keep its source as it is.\<close>

definition global_registry :: "json \<Rightarrow> py_error + bool" where
  "global_registry overrides =
     rbind (jget overrides ''global'' (JObj [])) (\<lambda>g.
     any_list (\<lambda>key. rbind (jget g key JNull) (\<lambda>v. Inr (jtrue v))) [''imageRegistry'', ''systemDefaultRegistry''])"

definition explicit_value :: "json \<Rightarrow> string \<Rightarrow> py_error + json" where
  "explicit_value overrides path =
     (case value_at overrides path of Inl (KeyError _) \<Rightarrow> Inr (JObj []) | r \<Rightarrow> r)"

definition explicit_source :: "json \<Rightarrow> py_error + bool" where
  "explicit_source explicit =
     (if explicit = JNull then Inr True else any_list (\<lambda>key. mentions key explicit) [''registry'', ''repository''])"

record chart_options =
  co_version_prefixes :: "string list"
  co_distroless_paths :: "string list"

text \<open>One path of \<open>set_chart_image_sources\<close>: its reference and merged values, or \<open>None\<close> when the user chose the source.\<close>

definition chart_image ::
  "(json \<Rightarrow> string) \<Rightarrow> json \<Rightarrow> (string \<times> string) list \<Rightarrow> chart_options \<Rightarrow> json \<Rightarrow> string \<Rightarrow> py_error + (string \<times> json) option" where
  "chart_image render values versions options overrides path =
     rbind (global_registry overrides) (\<lambda>global_choice.
     if global_choice then Inr None
     else
       rbind (explicit_value overrides path) (\<lambda>explicit.
       rbind (explicit_source explicit) (\<lambda>own.
       if own then Inr None
       else
         rbind (value_at values path) (\<lambda>dflt.
         rbind (merge_values dflt explicit) (\<lambda>img.
         case (map_of versions (hd (split_on (CHR ''.'') path)), map_of versions []) of
           (_, None) \<Rightarrow> Inl (KeyError [])
         | (owned, Some v) \<Rightarrow>
             rbind (image_reference render img (case owned of None \<Rightarrow> v | Some w \<Rightarrow> w)
                      (path \<in> set (co_version_prefixes options)) (path \<in> set (co_distroless_paths options))) (\<lambda>reference.
               Inr (Some (reference, img))))))))"

fun chart_images ::
  "(json \<Rightarrow> string) \<Rightarrow> json \<Rightarrow> (string \<times> string) list \<Rightarrow> chart_options \<Rightarrow> json \<Rightarrow> string list \<Rightarrow>
   (string \<times> string \<times> json) list \<Rightarrow> py_error + (string \<times> string \<times> json) list" where
  "chart_images render values versions options overrides [] found = Inr found"
| "chart_images render values versions options overrides (path # paths) found =
     rbind (chart_image render values versions options overrides path) (\<lambda>entry.
       chart_images render values versions options overrides paths
         (case entry of None \<Rightarrow> found | Some e \<Rightarrow> dict_set path e found))"

text \<open>The chart defaults for an image that a mirror replaces.\<close>

definition image_updates :: "string \<Rightarrow> json \<Rightarrow> string \<Rightarrow> string \<Rightarrow> cli_error + (string \<times> json) list" where
  "image_updates path img reference selected =
     (if selected = reference then Inr []
      else
        rbind (if jtrue (field ''digest'' img) \<or> jtrue (field ''sha'' img)
               then Inr (if CHR ''@'' \<in> set selected then before_last (CHR ''@'') selected else selected)
               else deploying (rbind (image_repository_tag selected) (\<lambda>rt. Inr (fst rt)))) (\<lambda>repository.
        if jtrue (field ''registry'' img)
        then (case split_first (CHR ''/'') repository of
                (registry, Some rest) \<Rightarrow> Inr [(path @ ''.registry'', JStr registry), (path @ ''.repository'', JStr rest)]
              | (_, None) \<Rightarrow> Inl (Raised (ValueError ''not enough values to unpack'')))
        else Inr [(path @ ''.repository'', JStr repository)]))"

text \<open>
  \<open>set_chart_image_sources\<close>: the values of the private chart after its images are chosen. The chart's defaults
  and versions, the installed images and the registry of the configuration are arguments.
\<close>

definition set_chart_image_sources ::
  "measurement \<Rightarrow> (json \<Rightarrow> string) \<Rightarrow> string option \<Rightarrow> string set \<Rightarrow> json \<Rightarrow> json \<Rightarrow> (string \<times> string) list \<Rightarrow> chart_options \<Rightarrow>
   json \<Rightarrow> string list \<Rightarrow> cli_error + json" where
  "set_chart_image_sources measured render registry installed chart values versions options overrides paths =
     rbind (raising (chart_images render values versions options overrides paths [])) (\<lambda>images.
     rbind (deploying (select_platform_image_sources measured (map (\<lambda>(path, reference, _). (path, reference)) images)
              registry Map.empty installed)) (\<lambda>sources.
     rbind (map_list (\<lambda>((path, reference, img), (_, selected)). image_updates path img reference selected) (zip images sources)) (\<lambda>updates.
       raising (set_chart_defaults (concat updates) chart))))"

text \<open>\<open>_chart_image_defaults\<close>: a subchart's defaults lie below the chart's own values for it.\<close>

fun chart_image_defaults ::
  "(json \<Rightarrow> string) \<Rightarrow> (string \<times> json \<times> json) list \<Rightarrow> json \<Rightarrow> (string \<times> string) list \<Rightarrow> py_error + json \<times> (string \<times> string) list" where
  "chart_image_defaults render [] values versions = Inr (values, versions)"
| "chart_image_defaults render ((name, child, metadata) # subcharts) values versions =
     rbind (jget values name (JObj [])) (\<lambda>own.
     rbind (merge_values child own) (\<lambda>merged.
     rbind (set_field name merged values) (\<lambda>values'.
     rbind (jitem metadata ''appVersion'') (\<lambda>v.
       chart_image_defaults render subcharts values' (dict_set name (py_str render v) versions)))))"

text \<open>\<open>_chart_source\<close> and the candidates \<open>prepared_chart\<close> pulls from, in order.\<close>

definition removesuffix :: "string \<Rightarrow> string \<Rightarrow> string" where
  "removesuffix p s = (if p \<noteq> [] \<and> ends_with p s then take (length s - length p) s else s)"

definition chart_source :: "measurement \<Rightarrow> string option \<Rightarrow> string option \<Rightarrow> string \<Rightarrow> string option \<Rightarrow> deploy_error + string" where
  "chart_source measured registry github_mirror source version =
     (if registry \<noteq> None then Inr source
      else if \<not> starts_with ''oci://'' source then select_github_download measured source github_mirror
      else case version of
        None \<Rightarrow> select_platform_oci_reference measured source None
      | Some v \<Rightarrow>
          rbind (select_platform_oci_reference measured (source @ '':'' @ v) None) (\<lambda>selected. Inr (removesuffix ('':'' @ v) selected)))"

definition chart_candidates :: "string option \<Rightarrow> string \<Rightarrow> string \<Rightarrow> string list" where
  "chart_candidates github_mirror source preferred =
     (if \<not> starts_with ''oci://'' source \<and> (case github_mirror of None \<Rightarrow> False | Some m \<Rightarrow> m \<noteq> []) then [preferred]
      else fromkeys [preferred, source])"

definition pull_args :: "string \<Rightarrow> string \<Rightarrow> string option \<Rightarrow> string list" where
  "pull_args candidate destination version =
     [''pull'', candidate, ''--untar'', ''--untardir'', destination] @ (case version of None \<Rightarrow> [] | Some v \<Rightarrow> [''--version'', v])"

text \<open>
  The pulls of \<open>prepared_chart\<close>: a failing candidate is skipped while another remains and the operation is not
  cancelled. The result is the index and text of the candidate that was pulled.
\<close>

fun pull_chart ::
  "helm_client \<Rightarrow> (nat \<Rightarrow> deploy_error option) \<Rightarrow> string \<Rightarrow> string option \<Rightarrow> nat \<Rightarrow> string list \<Rightarrow> deploy_error + (nat \<times> string) option" where
  "pull_chart H cancelled directory version n [] = Inr None"
| "pull_chart H cancelled directory version n (candidate # candidates) =
     (case run_helm H (pull_args candidate (directory @ ''/'' @ show_nat n) version) None of
        Inr _ \<Rightarrow> Inr (Some (n, candidate))
      | Inl e \<Rightarrow>
          (case cancelled n of
             Some c \<Rightarrow> Inl c
           | None \<Rightarrow> if candidates = [] then Inl e else pull_chart H cancelled directory version (Suc n) candidates))"

section \<open>Overlaying values\<close>

fun unique_keys :: "json \<Rightarrow> bool" where
  "unique_keys (JObj ps) = (distinct (map fst ps) \<and> (\<forall>p \<in> set ps. unique_keys (snd p)))"
| "unique_keys _ = True"

text \<open>The value at a path of keys, when every step is an object with the key.\<close>

fun at_path :: "string list \<Rightarrow> json \<Rightarrow> json option" where
  "at_path [] d = Some d"
| "at_path (k # ks) d = (case map_of (jobj d) k of None \<Rightarrow> None | Some v \<Rightarrow> at_path ks v)"

definition overlay :: "json option \<Rightarrow> json \<Rightarrow> json" where
  "overlay prior v = (case (v, prior) of (JObj b, Some (JObj a)) \<Rightarrow> JObj (merge_pairs a b) | _ \<Rightarrow> v)"

lemma map_of_merge_pairs:
  "distinct (map fst os) \<Longrightarrow>
   map_of (merge_pairs m os) k = (case map_of os k of None \<Rightarrow> map_of m k | Some v \<Rightarrow> Some (overlay (map_of m k) v))"
proof (induction os arbitrary: m)
  case (Cons p os)
  obtain a v where p: "p = (a, v)"
    by (cases p)
  have "merge_pairs m (p # os) = merge_pairs (dict_set a (overlay (map_of m a) v) m) os"
    by (simp add: p overlay_def)
  moreover have "map_of os a = None"
    using Cons.prems by (simp add: p map_of_eq_None_iff)
  ultimately show ?case
    using Cons by (auto simp: p split: option.splits)
qed simp

text \<open>A value of the overrides on the way to a path hides what the defaults have below it.\<close>

definition shadowed :: "json \<Rightarrow> string list \<Rightarrow> bool" where
  "shadowed d p \<longleftrightarrow> (\<exists>n \<le> length p. \<exists>v. at_path (take n p) d = Some v \<and> \<not> is_object v)"

lemma shadowed_Nil [simp]: "shadowed (JObj ps) [] = False"
  by (auto simp: shadowed_def)

lemma shadowed_Cons [simp]:
  "shadowed (JObj ps) (k # ks) = (case map_of ps k of None \<Rightarrow> False | Some v \<Rightarrow> shadowed v ks)" (is "?l = ?r")
proof
  assume ?l
  then obtain n v where "n \<le> Suc (length ks)" "at_path (take n (k # ks)) (JObj ps) = Some v" "\<not> is_object v"
    by (auto simp: shadowed_def)
  then show ?r
    by (cases n) (auto simp: shadowed_def split: option.splits)
next
  assume ?r
  then obtain w n v where "map_of ps k = Some w" "n \<le> length ks" "at_path (take n ks) w = Some v" "\<not> is_object v"
    by (auto simp: shadowed_def split: option.splits)
  then show ?l
    unfolding shadowed_def by (intro exI [of _ "Suc n"]) auto
qed

lemma shadowed_leaf: "\<not> is_object v \<Longrightarrow> shadowed v p"
  unfolding shadowed_def by (intro exI [of _ 0]) simp

lemma at_path_leaf: "\<not> is_object v \<Longrightarrow> at_path p v = (if p = [] then Some v else None)"
  by (cases p; cases v) auto

lemma unique_keys_at: "unique_keys (JObj ps) \<Longrightarrow> map_of ps k = Some v \<Longrightarrow> unique_keys v"
  by (fastforce dest: map_of_SomeD)

lemma overlay_leaf: "\<not> is_object v \<Longrightarrow> overlay prior v = v"
  by (cases v) (auto simp: overlay_def)

lemma overlay_fresh: "prior = None \<or> (\<exists>a. prior = Some a \<and> \<not> is_object a) \<Longrightarrow> overlay prior v = v"
  by (auto simp: overlay_def split: json.splits)

lemma bind_leaf: "prior = None \<or> (\<exists>a. prior = Some a \<and> \<not> is_object a) \<Longrightarrow> Option.bind prior (at_path (k # ks)) = None"
  by (auto simp: at_path_leaf simp del: at_path.simps)

lemma at_path_overlay:
  assumes "unique_keys v"
  shows "at_path p (overlay prior v) =
    (case at_path p v of
       Some w \<Rightarrow> Some (overlay (Option.bind prior (at_path p)) w)
     | None \<Rightarrow> if shadowed v p then None else Option.bind prior (at_path p))"
  using assms
proof (induction p arbitrary: v prior)
  case Nil
  show ?case by (cases prior) simp_all
next
  case (Cons k ks)
  consider (leaf) "\<not> is_object v" | (fresh) "prior = None \<or> (\<exists>a. prior = Some a \<and> \<not> is_object a)"
    | (both) a b where "v = JObj b" "prior = Some (JObj a)"
    by (metis is_object.elims(2) option.exhaust)
  then show ?case
  proof cases
    case leaf
    then show ?thesis
      by (simp add: overlay_leaf shadowed_leaf at_path_leaf del: at_path.simps)
  next
    case fresh
    then show ?thesis
      using overlay_fresh [OF fresh] overlay_fresh [of None] bind_leaf [OF fresh, of k ks]
      by (simp del: at_path.simps split: option.splits)
  next
    case both
    have d: "distinct (map fst b)"
      using Cons.prems by (simp add: both)
    have "overlay prior v = JObj (merge_pairs a b)"
      by (simp add: overlay_def both)
    then have "at_path (k # ks) (overlay prior v) =
        (case map_of b k of None \<Rightarrow> Option.bind (map_of a k) (at_path ks) | Some w \<Rightarrow> at_path ks (overlay (map_of a k) w))"
      by (simp add: map_of_merge_pairs [OF d] split: option.splits)
    moreover have "at_path ks (overlay (map_of a k) w) =
        (case at_path ks w of
           Some x \<Rightarrow> Some (overlay (Option.bind (map_of a k) (at_path ks)) x)
         | None \<Rightarrow> if shadowed w ks then None else Option.bind (map_of a k) (at_path ks))"
      if "map_of b k = Some w" for w
      using Cons.IH unique_keys_at Cons.prems that unfolding both by blast
    moreover have "Option.bind prior (at_path (k # ks)) = Option.bind (map_of a k) (at_path ks)"
      by (simp add: both split: option.splits)
    ultimately show ?thesis
      by (simp add: both split: option.splits)
  qed
qed

text \<open>C39: Merged values have, at every path, the value of the overrides when they set one there; a mapping of the
  overrides stays a mapping; and where the overrides say nothing the defaults are kept, unless the overrides
  replaced a mapping above the path by a plain value.\<close>

theorem merged_values_overlay:
  assumes "unique_keys overrides" and "merge_values (JObj defaults) overrides = Inr m"
  shows "(\<forall>w. at_path p overrides = Some w \<and> \<not> is_object w \<longrightarrow> at_path p m = Some w) \<and>
    (\<forall>b. at_path p overrides = Some (JObj b) \<longrightarrow> (\<exists>c. at_path p m = Some (JObj c))) \<and>
    (at_path p overrides = None \<longrightarrow> at_path p m = (if shadowed overrides p then None else at_path p (JObj defaults)))"
proof -
  obtain b where "overrides = JObj b" and "m = JObj (merge_pairs defaults b)"
    using assms(2) by (cases overrides) (auto simp: merge_values_def)
  then have "m = overlay (Some (JObj defaults)) overrides"
    by (simp add: overlay_def)
  then show ?thesis
    using at_path_overlay [OF assms(1), of p "Some (JObj defaults)"]
    by (auto simp: overlay_leaf) (auto simp: overlay_def split: option.splits json.splits)
qed

theorem merged_values_overlay_witness:
  "merge_values (JObj [(''image'', JObj [(''tag'', JStr ''1''), (''pull'', JStr ''x'')])]) (JObj [(''image'', JObj [(''tag'', JStr ''2'')])]) =
     Inr (JObj [(''image'', JObj [(''tag'', JStr ''2''), (''pull'', JStr ''x'')])]) \<and>
   at_path [''image'', ''tag''] (JObj [(''image'', JObj [(''tag'', JStr ''2''), (''pull'', JStr ''x'')])]) = Some (JStr ''2'')"
proof -
  have m: "merge_values (JObj [(''image'', JObj [(''tag'', JStr ''1''), (''pull'', JStr ''x'')])]) (JObj [(''image'', JObj [(''tag'', JStr ''2'')])]) =
     Inr (JObj [(''image'', JObj [(''tag'', JStr ''2''), (''pull'', JStr ''x'')])])"
    by code_simp
  show ?thesis
    using merged_values_overlay [OF _ m, of "[''image'', ''tag'']"] m by simp
qed

section \<open>Image references\<close>

text \<open>The image values after the updates a selection writes for them.\<close>

definition updated_image :: "string \<Rightarrow> json \<Rightarrow> (string \<times> json) list \<Rightarrow> json" where
  "updated_image path img updates =
     JObj (fold (\<lambda>(k, v). dict_set (drop (length path + 1) k) v) updates (jobj img))"

lemma after_last_end:
  assumes "c \<notin> set t"
  shows "after_last c (x @ c # t) = t"
proof -
  have "takeWhile (\<lambda>y. y \<noteq> c) (rev t) = rev t"
    using assms by (auto simp: takeWhile_eq_all_conv)
  then show ?thesis
    by (simp add: after_last_def takeWhile_tail del: takeWhile_eq_all_conv)
qed

lemma before_last_end:
  assumes "c \<notin> set t"
  shows "before_last c (x @ c # t) = x"
proof -
  have "dropWhile (\<lambda>y. y \<noteq> c) (rev t @ c # rev x) = c # rev x"
    using assms by (subst dropWhile_append2) auto
  then show ?thesis
    by (simp add: before_last_def)
qed

text \<open>A revision at the end of a reference lies in the path below the host.\<close>

lemma revision_in_path:
  assumes "y @ c # t = a @ path" and "a \<noteq> []" and "\<And>u. a \<noteq> y @ c # u"
  obtains x where "path = x @ c # t" and "y = a @ x"
proof -
  consider (left) us where "y = a @ us" "us @ c # t = path" | (right) us where "a = y @ us" "us @ path = c # t"
    using assms(1) by (auto simp: append_eq_append_conv2)
  then show thesis
  proof cases
    case right
    then show thesis
      using assms(3) that [of "[]"] by (cases us) auto
  qed (use that in auto)
qed

lemma host_clean: "oci_mirror_prefixes host \<noteq> [] \<Longrightarrow> CHR ''@'' \<notin> set host \<and> CHR ''/'' \<notin> set host"
  by (auto simp: oci_mirror_prefixes_def split: if_splits)

lemma prefix_host:
  assumes "prefix \<in> set (oci_mirror_prefixes host)"
  shows "\<exists>h rest. split_first (CHR ''/'') (reference_scheme reference @ prefix @ ''/'' @ x) = (h, Some rest) \<and> qualified_host h \<and> h \<noteq> []"
  using assms by (auto simp: oci_mirror_prefixes_def reference_scheme_def qualified_host_def split: if_splits)

lemma implicit_prefix:
  assumes "prefix \<in> set (oci_mirror_prefixes host)"
  shows "implicit_repository (reference_scheme reference @ prefix @ ''/'' @ x) = reference_scheme reference @ prefix @ ''/'' @ x"
  using prefix_host [OF assms, of reference x] by (auto simp: implicit_repository_def)

lemma field_dict_set: "field k (JObj (dict_set j v ps)) = (if k = j then v else field k (JObj ps))"
  by (simp add: field_def)

definition registry_part :: "(json \<Rightarrow> string) \<Rightarrow> json \<Rightarrow> string" where
  "registry_part render img =
     (if jtrue (field ''registry'' img) then py_str render (field ''registry'' img) @ ''/'' else [])"

definition revision_part :: "(json \<Rightarrow> string) \<Rightarrow> json \<Rightarrow> string option \<Rightarrow> char \<times> string" where
  "revision_part render tag digest =
     (case digest of Some d \<Rightarrow> (CHR ''@'', d) | None \<Rightarrow> (CHR '':'', py_str render tag))"

lemma image_reference_iff:
  "image_reference render img version vp dl = Inr reference \<longleftrightarrow>
   (\<exists>repository tag digest c t.
      image_repository render img = Inr repository \<and> image_tag img version vp dl = Inr tag \<and>
      image_digest render img = Inr digest \<and> revision_part render tag digest = (c, t) \<and>
      reference = registry_part render img @ repository @ c # t)"
  by (auto simp: image_reference_def registry_part_def revision_part_def rbind_eq_Inr_iff Let_def split: option.splits)

lemma digest_given: "image_digest render img = Inr digest \<Longrightarrow>
    digest = None \<longleftrightarrow> \<not> (jtrue (field ''digest'' img) \<or> jtrue (field ''sha'' img))"
  by (auto simp: image_digest_def Let_def jor_def rbind_eq_Inr_iff split: if_splits)

text \<open>A mirrored reference with its revision: the revision is that of the reference.\<close>

lemma mirrored_revision:
  assumes "name @ c # t = reference_scheme reference @ host @ ''/'' @ path"
    and "oci_mirror_prefixes host \<noteq> []"
    and "c = CHR ''@'' \<or> c = CHR '':'' \<and> CHR ''/'' \<notin> set t"
  obtains x where "path = x @ c # t"
proof -
  let ?a = "reference_scheme reference @ host @ ''/''"
  have "?a \<noteq> name @ c # u" for u
  proof
    assume a: "?a = name @ c # u"
    show False
    proof (cases "c = CHR ''@''")
      case True
      then have "CHR ''@'' \<in> set ?a"
        unfolding a by simp
      then show False
        using host_clean [OF assms(2)] by (auto simp: reference_scheme_def split: if_splits)
    next
      case False
      have "name @ c # u @ path = name @ c # t"
        using assms(1) a by (metis append.assoc append_Cons)
      then have "t = u @ path"
        by simp
      moreover have "last (name @ c # u) = CHR ''/''"
        unfolding a [symmetric] by simp
      then have "CHR ''/'' \<in> set u"
        using False assms(3) by (auto split: if_splits) (metis last_in_set)
      ultimately show False
        using False assms(3) by auto
    qed
  qed
  then show thesis
    using revision_in_path [of name c t ?a path] assms(1) that by auto
qed

lemma updated_repository:
  assumes img: "img = JObj ps"
    and upd: "image_updates path img reference selected = Inr updates" and "selected \<noteq> reference"
    and digest: "image_digest render img = Inr digest" and rev: "revision_part render tag digest = (c, t)"
    and sel: "selected = x @ c # t" and clean: "c \<notin> set t" "digest = None \<Longrightarrow> CHR ''/'' \<notin> set t"
    and x: "implicit_repository x = x" "\<exists>h rest. split_first (CHR ''/'') x = (h, Some rest) \<and> h \<noteq> []"
  shows "\<exists>qs. updated_image path img updates = JObj qs \<and>
    (\<forall>k. k \<notin> {''registry'', ''repository''} \<longrightarrow> field k (JObj qs) = field k img) \<and>
    (\<exists>repository. image_repository render (JObj qs) = Inr repository \<and> registry_part render (JObj qs) @ repository = x)"
proof -
  obtain h rest where h: "split_first (CHR ''/'') x = (h, Some rest)" "h \<noteq> []" "x = h @ ''/'' @ rest"
    using x(2) split_first_Some by fastforce
  have "rt = (x, t)" if "c = CHR '':''" "CHR ''/'' \<notin> set t" "image_repository_tag (x @ CHR '':'' # t) = Inr rt" for rt
  proof -
    have "CHR '':'' \<in> set (after_last (CHR ''/'') (x @ CHR '':'' # t))"
      unfolding after_last_def using that(2) by (simp, subst takeWhile_append2) auto
    then show ?thesis
      using clean(1) that(1,3) before_last_end [of "CHR '':''" t x] after_last_end [of "CHR '':''" t x]
      by (auto simp: image_repository_tag_def Let_def split: if_splits)
  qed
  then have updates: "updates = (if jtrue (field ''registry'' img)
      then [(path @ ''.registry'', JStr h), (path @ ''.repository'', JStr rest)] else [(path @ ''.repository'', JStr x)])"
    using upd \<open>selected \<noteq> reference\<close> digest_given [OF digest] rev sel clean h(1) before_last_end [of c t x]
    by (auto simp: image_updates_def revision_part_def deploying_def rbind_eq_Inr_iff split: option.splits if_splits sum.splits)
  show ?thesis
  proof (cases "jtrue (field ''registry'' img)")
    case True
    then show ?thesis
      using h by (auto simp: updates updated_image_def img field_dict_set image_repository_def registry_part_def py_str_def)
  next
    case False
    then show ?thesis
      using x(1) by (auto simp: updates updated_image_def img field_dict_set image_repository_def registry_part_def)
  qed
qed

lemma revision_kept:
  assumes "\<And>k. k \<notin> {''registry'', ''repository''} \<Longrightarrow> field k a = field k b"
  shows "image_tag a version vp dl = image_tag b version vp dl" "image_digest render a = image_digest render b"
proof -
  have "field ''tag'' a = field ''tag'' b" "field ''distroless'' a = field ''distroless'' b"
    "field ''digest'' a = field ''digest'' b" "field ''sha'' a = field ''sha'' b"
    using assms by simp_all
  then show "image_tag a version vp dl = image_tag b version vp dl" "image_digest render a = image_digest render b"
    by (simp_all add: image_tag_def image_digest_def)
qed

lemma mirrored_image:
  assumes ref: "image_reference render img version vp dl = Inr reference"
    and sel: "select_platform_oci_reference measured reference previous = Inr selected" and diff: "selected \<noteq> reference"
    and upd: "image_updates path img reference selected = Inr updates"
    and tag: "\<And>tag. image_tag img version vp dl = Inr tag \<Longrightarrow> CHR '':'' \<notin> set (py_str render tag) \<and> CHR ''/'' \<notin> set (py_str render tag)"
    and dig: "\<And>d. image_digest render img = Inr (Some d) \<Longrightarrow> CHR ''@'' \<notin> set d"
  shows "image_reference render (updated_image path img updates) version vp dl = Inr selected"
proof -
  obtain repository tg digest c t where r: "image_repository render img = Inr repository"
      "image_tag img version vp dl = Inr tg" "image_digest render img = Inr digest"
      "revision_part render tg digest = (c, t)" "reference = registry_part render img @ repository @ c # t"
    using ref unfolding image_reference_iff by blast
  obtain ps where img: "img = JObj ps"
    using r(1) by (auto simp: image_repository_def rbind_eq_Inr_iff jitem_Inr_iff)
  obtain host below prefix where s: "reference = reference_scheme reference @ host @ ''/'' @ below"
      "prefix \<in> set (oci_mirror_prefixes host)" "selected = reference_scheme reference @ prefix @ ''/'' @ below"
    using switched_reference [OF sel diff] by blast
  have c: "c = CHR ''@'' \<and> c \<notin> set t \<or> c = CHR '':'' \<and> c \<notin> set t \<and> CHR ''/'' \<notin> set t" "digest = None \<Longrightarrow> CHR ''/'' \<notin> set t"
    using r tag dig by (auto simp: revision_part_def split: option.splits)
  have "oci_mirror_prefixes host \<noteq> []"
    using s(2) by auto
  then obtain x where x: "below = x @ c # t"
    using mirrored_revision [of "registry_part render img @ repository" c t reference host below] r(5) s(1) c(1) by auto
  let ?name = "reference_scheme reference @ prefix @ ''/'' @ x"
  have "selected = ?name @ c # t" "c \<notin> set t"
    using s(3) x c(1) by auto
  moreover have "implicit_repository ?name = ?name"
    using implicit_prefix [OF s(2)] .
  moreover have "\<exists>h rest. split_first (CHR ''/'') ?name = (h, Some rest) \<and> h \<noteq> []"
    using prefix_host [OF s(2), of reference x] by blast
  ultimately obtain qs rp where q: "updated_image path img updates = JObj qs"
      "\<And>k. k \<notin> {''registry'', ''repository''} \<Longrightarrow> field k (JObj qs) = field k img"
      "image_repository render (JObj qs) = Inr rp" "registry_part render (JObj qs) @ rp = ?name"
    using updated_repository [OF img upd diff r(3,4)] c(2) by blast
  have "image_tag (JObj qs) version vp dl = Inr tg" "image_digest render (JObj qs) = Inr digest"
    using revision_kept [of "JObj qs" img] q(2) r(2,3) by simp_all
  then show ?thesis
    unfolding image_reference_iff q(1) using q(3,4) r(4) \<open>selected = ?name @ c # t\<close> by fastforce
qed

text \<open>C13: When a mirror is selected for a chart image, the defaults written for it make the chart name exactly
  the selected reference: the registry, repository and tag or digest that Helm assembles from the updated
  values are those of the mirror, for an image with or without a registry of its own.\<close>

theorem updated_image_is_selected:
  assumes "image_reference render img version vp dl = Inr reference"
    and "select_platform_oci_reference measured reference previous = Inr selected"
    and "image_updates path img reference selected = Inr updates"
    and "\<And>tag. image_tag img version vp dl = Inr tag \<Longrightarrow> CHR '':'' \<notin> set (py_str render tag) \<and> CHR ''/'' \<notin> set (py_str render tag)"
    and "\<And>d. image_digest render img = Inr (Some d) \<Longrightarrow> CHR ''@'' \<notin> set d"
  shows "image_reference render (updated_image path img updates) version vp dl = Inr selected"
proof (cases "selected = reference")
  case True
  obtain ps where "img = JObj ps"
    using assms(1) by (auto simp: image_reference_iff image_repository_def rbind_eq_Inr_iff jitem_Inr_iff)
  moreover have "updates = []"
    using assms(3) True by (simp add: image_updates_def)
  ultimately have "updated_image path img updates = img"
    by (simp add: updated_image_def)
  then show ?thesis
    using assms(1) True by simp
next
  case False
  then show ?thesis
    using mirrored_image assms by blast
qed

definition demo_image :: json where
  "demo_image = JObj [(''registry'', JStr ''quay.io''), (''repository'', JStr ''a/b''), (''tag'', JStr ''1'')]"

theorem updated_image_is_selected_witness:
  "image_updates ''speaker'' demo_image ''quay.io/a/b:1'' ''m.daocloud.io/quay.io/a/b:1'' =
     Inr [(''speaker.registry'', JStr ''m.daocloud.io''), (''speaker.repository'', JStr ''quay.io/a/b'')] \<and>
   image_reference (\<lambda>_. []) (updated_image ''speaker'' demo_image
     [(''speaker.registry'', JStr ''m.daocloud.io''), (''speaker.repository'', JStr ''quay.io/a/b'')]) ''9'' True False =
     Inr ''m.daocloud.io/quay.io/a/b:1''"
proof -
  have u: "image_updates ''speaker'' demo_image ''quay.io/a/b:1'' ''m.daocloud.io/quay.io/a/b:1'' =
     Inr [(''speaker.registry'', JStr ''m.daocloud.io''), (''speaker.repository'', JStr ''quay.io/a/b'')]"
    by code_simp
  have r: "image_reference (\<lambda>_. []) demo_image ''9'' True False = Inr ''quay.io/a/b:1''"
    by code_simp
  have s: "select_platform_oci_reference demo_measured ''quay.io/a/b:1'' None = Inr ''m.daocloud.io/quay.io/a/b:1''"
    by code_simp
  have "image_tag demo_image ''9'' True False = Inr (JStr ''1'')" "image_digest (\<lambda>_. []) demo_image = Inr None"
    by code_simp+
  then show ?thesis
    using updated_image_is_selected [OF r s u] u by (simp add: py_str_def)
qed

end
