(* ===== verification/Load_Balancer.thy ===== *)
theory Load_Balancer
  imports Helm_Client "HOL-Library.Char_ord" "HOL-Library.List_Lexorder"
begin

text \<open>
  Cluster LoadBalancer discovery and the managed MetalLB release (\<open>platform/networking/load_balancer.py\<close>), with
  the values that configure it (\<open>platform/config.py\<close>). Decisions read the cluster through the Kubernetes and Helm
  clients before they change anything; what they then change is a list of effects in the order of the code.
\<close>

section \<open>Configuration\<close>

record metallb_kind =
  mk_kind :: string
  mk_resource :: string

definition metallb_api_group :: string where "metallb_api_group = ''metallb.io''"
definition metallb_api_version :: string where "metallb_api_version = ''metallb.io/v1beta1''"

definition address_pool :: metallb_kind where
  "address_pool = \<lparr>mk_kind = ''IPAddressPool'', mk_resource = ''ipaddresspools.metallb.io''\<rparr>"

definition l2_advertisement :: metallb_kind where
  "l2_advertisement = \<lparr>mk_kind = ''L2Advertisement'', mk_resource = ''l2advertisements.metallb.io''\<rparr>"

definition bgp_advertisement :: metallb_kind where
  "bgp_advertisement = \<lparr>mk_kind = ''BGPAdvertisement'', mk_resource = ''bgpadvertisements.metallb.io''\<rparr>"

definition managed_kinds :: "metallb_kind list" where
  "managed_kinds = [address_pool, l2_advertisement]"

fun address_text :: "json \<Rightarrow> string option" where
  "address_text (JStr (c # s)) = Some (c # s)"
| "address_text _ = None"

text \<open>The managed addresses of one values document, or \<open>None\<close> when it leaves them unset.\<close>

definition load_balancer_config_from_values :: "json \<Rightarrow> cli_error + string list option" where
  "load_balancer_config_from_values values =
     rbind (raising (jget values ''loadBalancer'' JNull)) (\<lambda>lb.
     if lb = JNull then Inr None
     else if \<not> is_object lb then deploy_fail ''loadBalancer must be a mapping''
     else if \<not> has_key ''managedAddresses'' lb then Inr None
     else case field ''managedAddresses'' lb of
       JList xs \<Rightarrow>
         (case those (map address_text xs) of
            Some addresses \<Rightarrow> Inr (Some addresses)
          | None \<Rightarrow> deploy_fail ''loadBalancer.managedAddresses must be a list of IP ranges or CIDRs'')
     | _ \<Rightarrow> deploy_fail ''loadBalancer.managedAddresses must be a list of IP ranges or CIDRs'')"

fun resolve_load_balancer_from :: "string list \<Rightarrow> json list \<Rightarrow> cli_error + string list" where
  "resolve_load_balancer_from config [] = Inr config"
| "resolve_load_balancer_from config (item # items) =
     rbind (load_balancer_config_from_values item) (\<lambda>decoded.
       resolve_load_balancer_from (case decoded of None \<Rightarrow> config | Some c \<Rightarrow> c) items)"

definition resolve_load_balancer_config :: "json list \<Rightarrow> cli_error + string list" where
  "resolve_load_balancer_config values = resolve_load_balancer_from [] values"

section \<open>Observing the cluster\<close>

record cluster_observation =
  ob_default_services :: "resource_ref list"
  ob_allocated_service :: "resource_ref option"
  ob_metallb_api :: bool
  ob_metallb_resources :: "resource_ref list"
  ob_metallb_namespaces :: "string list"
  ob_k3s :: string
  ob_cloud :: bool

text \<open>\<open>d.get(k) or {}\<close>, and \<open>str(d.get(k) or "")\<close>.\<close>

definition get_or_empty :: "json \<Rightarrow> string \<Rightarrow> py_error + json" where
  "get_or_empty d k = rbind (jget d k JNull) (\<lambda>v. Inr (jor v (JObj [])))"

definition get_text :: "(json \<Rightarrow> string) \<Rightarrow> json \<Rightarrow> string \<Rightarrow> py_error + string" where
  "get_text render d k = rbind (jget d k JNull) (\<lambda>v. Inr (py_str render (jor v (JStr []))))"

definition default_service :: "json \<Rightarrow> py_error + bool" where
  "default_service service =
     rbind (get_or_empty service ''spec'') (\<lambda>spec.
     rbind (jget spec ''type'' JNull) (\<lambda>t.
     if t \<noteq> JStr ''LoadBalancer'' then Inr False
     else rbind (jget spec ''loadBalancerClass'' JNull) (\<lambda>c. Inr (\<not> jtrue c))))"

definition has_ingress :: "json \<Rightarrow> py_error + bool" where
  "has_ingress service =
     rbind (get_or_empty service ''status'') (\<lambda>status.
     rbind (get_or_empty status ''loadBalancer'') (\<lambda>lb.
     rbind (jget lb ''ingress'' JNull) (\<lambda>v. Inr (jtrue v))))"

fun first_allocated :: "json list \<Rightarrow> cli_error + resource_ref option" where
  "first_allocated [] = Inr None"
| "first_allocated (service # services) =
     rbind (raising (has_ingress service)) (\<lambda>b.
       if b then rbind (deploying (resource_ref_of service)) (\<lambda>r. Inr (Some r)) else first_allocated services)"

text \<open>The text before \<open>://\<close>.\<close>

fun before_scheme :: "string \<Rightarrow> string option" where
  "before_scheme [] = None"
| "before_scheme (c # cs) = (if starts_with ''://'' (c # cs) then Some [] else map_option ((#) c) (before_scheme cs))"

definition is_cloud_provider_id :: "string \<Rightarrow> bool" where
  "is_cloud_provider_id provider =
     (case before_scheme provider of
        None \<Rightarrow> False
      | Some scheme \<Rightarrow> scheme \<notin> set [[], ''k3s'', ''kind'', ''minikube'', ''docker''])"

definition node_in_cloud :: "(json \<Rightarrow> string) \<Rightarrow> json \<Rightarrow> py_error + bool" where
  "node_in_cloud render node =
     rbind (get_or_empty node ''spec'') (\<lambda>spec.
     rbind (get_text render spec ''providerID'') (\<lambda>p. Inr (is_cloud_provider_id p)))"

fun disabled_k3s_components :: "string list \<Rightarrow> string list" where
  "disabled_k3s_components [] = []"
| "disabled_k3s_components (a # args) =
     (if starts_with ''--disable='' a then split_on (CHR '','') (drop (length ''--disable='') a)
      else if a = ''--disable'' then (case args of [] \<Rightarrow> [] | v # _ \<Rightarrow> split_on (CHR '','') v)
      else []) @ disabled_k3s_components args"

definition is_k3s_node :: "(json \<Rightarrow> string) \<Rightarrow> json \<Rightarrow> py_error + bool" where
  "is_k3s_node render node =
     rbind (get_or_empty node ''status'') (\<lambda>status.
     rbind (jget status ''nodeInfo'' (JObj [])) (\<lambda>info.
     rbind (get_text render info ''kubeletVersion'') (\<lambda>v. Inr (contains ''k3s'' v))))"

definition node_arguments :: "(json \<Rightarrow> string) \<Rightarrow> json \<Rightarrow> py_error + string" where
  "node_arguments render node =
     rbind (get_or_empty node ''metadata'') (\<lambda>m.
     rbind (jget m ''annotations'' (JObj [])) (\<lambda>a. get_text render a ''k3s.io/node-args''))"

text \<open>The arguments of every k3s server; \<open>None\<close> when a node's arguments cannot be decoded.\<close>

fun server_arguments ::
  "(json \<Rightarrow> string) \<Rightarrow> (string \<Rightarrow> json option) \<Rightarrow> json list \<Rightarrow> py_error + string list list option" where
  "server_arguments render loads [] = Inr (Some [])"
| "server_arguments render loads (node # nodes) =
     rbind (node_arguments render node) (\<lambda>raw.
     if raw = [] then server_arguments render loads nodes
     else case loads raw of
       None \<Rightarrow> Inr None
     | Some arguments \<Rightarrow>
         rbind (server_arguments render loads nodes) (\<lambda>rest.
           Inr (case (arguments, those (map jstr (jlist arguments))) of
                  (JList _, Some texts) \<Rightarrow> if ''server'' \<in> set texts then map_option ((#) texts) rest else rest
                | _ \<Rightarrow> rest)))"

definition k3s_service_lb_state :: "(json \<Rightarrow> string) \<Rightarrow> (string \<Rightarrow> json option) \<Rightarrow> json list \<Rightarrow> py_error + string" where
  "k3s_service_lb_state render loads nodes =
     rbind (filter_list (is_k3s_node render) nodes) (\<lambda>k3s.
     if k3s = [] then Inr ''not-k3s''
     else
       rbind (server_arguments render loads k3s) (\<lambda>servers.
       Inr (case servers of
              None \<Rightarrow> ''unknown''
            | Some [] \<Rightarrow> ''unknown''
            | Some args \<Rightarrow>
                if \<exists>a \<in> set args. ''servicelb'' \<in> set (disabled_k3s_components a) then ''disabled'' else ''enabled'')))"

definition configured_pool :: "json \<Rightarrow> py_error + bool" where
  "configured_pool v =
     rbind (jget v ''kind'' JNull) (\<lambda>kind.
     if kind \<noteq> JStr (mk_kind address_pool) then Inr False
     else rbind (get_or_empty v ''spec'') (\<lambda>spec. rbind (jget spec ''addresses'' JNull) (\<lambda>a. Inr (jtrue a))))"

definition advertises :: "json \<Rightarrow> py_error + bool" where
  "advertises v =
     rbind (jget v ''kind'' JNull) (\<lambda>kind. Inr (kind \<in> {JStr (mk_kind l2_advertisement), JStr (mk_kind bgp_advertisement)}))"

definition namespace_if :: "(json \<Rightarrow> py_error + bool) \<Rightarrow> json \<Rightarrow> cli_error + string list" where
  "namespace_if select v =
     rbind (raising (select v)) (\<lambda>b.
       if b then rbind (deploying (resource_ref_of v)) (\<lambda>r. Inr [rr_namespace r]) else Inr [])"

definition namespaces_of :: "(json \<Rightarrow> py_error + bool) \<Rightarrow> json list \<Rightarrow> cli_error + string list" where
  "namespaces_of select values = rbind (map_list (namespace_if select) values) (\<lambda>found. Inr (concat found))"

record cluster_reader =
  cr_render :: "json \<Rightarrow> string"
  cr_loads :: "string \<Rightarrow> json option"
  cr_kubectl :: kubectl

definition observe_cluster :: "cluster_reader \<Rightarrow> cli_error + cluster_observation" where
  "observe_cluster K =
     rbind (deploying (list_all_resources (cr_loads K) (cr_kubectl K) [''services''] [])) (\<lambda>all_services.
     rbind (raising (filter_list default_service all_services)) (\<lambda>services.
     rbind (first_allocated services) (\<lambda>allocated.
     rbind (deploying (list_cluster_resources (cr_loads K) (cr_kubectl K) [''nodes''] [])) (\<lambda>nodes.
     rbind (raising (any_list (node_in_cloud (cr_render K)) nodes)) (\<lambda>cloud.
     rbind (deploying (api_resource_names (cr_kubectl K) (Some metallb_api_group))) (\<lambda>supported.
     let selected = filter (\<lambda>r. r \<in> set supported) (map mk_resource [address_pool, l2_advertisement, bgp_advertisement]) in
     rbind (if selected = [] then Inr [] else deploying (list_all_resources (cr_loads K) (cr_kubectl K) selected [])) (\<lambda>values.
     rbind (namespaces_of configured_pool values) (\<lambda>pools.
     rbind (namespaces_of advertises values) (\<lambda>advertisements.
     rbind (map_list (\<lambda>s. deploying (resource_ref_of s)) services) (\<lambda>default_refs.
     rbind (map_list (\<lambda>v. deploying (resource_ref_of v)) values) (\<lambda>metallb_refs.
     rbind (raising (k3s_service_lb_state (cr_render K) (cr_loads K) nodes)) (\<lambda>k3s.
       Inr \<lparr>ob_default_services = default_refs, ob_allocated_service = allocated, ob_metallb_api = (supported \<noteq> []),
             ob_metallb_resources = metallb_refs,
             ob_metallb_namespaces = sort (remdups (filter (\<lambda>n. n \<in> set advertisements) pools)),
             ob_k3s = k3s, ob_cloud = cloud\<rparr>))))))))))))"

section \<open>Ownership\<close>

definition has_label :: "string \<times> string \<Rightarrow> json \<Rightarrow> py_error + bool" where
  "has_label label v =
     rbind (get_or_empty v ''metadata'') (\<lambda>m.
     rbind (get_or_empty m ''labels'') (\<lambda>labels.
       Inr (is_object labels \<and> field (fst label) labels = JStr (snd label))))"

fun managed_objects_of :: "cluster_reader \<Rightarrow> release_ref \<Rightarrow> string list \<Rightarrow> metallb_kind list \<Rightarrow> deploy_error + json list" where
  "managed_objects_of K r supported [] = Inr []"
| "managed_objects_of K r supported (kind # kinds) =
     (if mk_resource kind \<notin> set supported then managed_objects_of K r supported kinds
      else
        rbind (get_if_exists (cr_loads K) (cr_kubectl K) (mk_resource kind) (rl_name r) (rl_namespace r)) (\<lambda>v.
        rbind (managed_objects_of K r supported kinds) (\<lambda>rest.
          Inr (case v of None \<Rightarrow> rest | Some x \<Rightarrow> x # rest))))"

definition managed_objects :: "cluster_reader \<Rightarrow> release_ref \<Rightarrow> deploy_error + json list" where
  "managed_objects K r =
     rbind (api_resource_names (cr_kubectl K) (Some metallb_api_group)) (\<lambda>supported. managed_objects_of K r supported managed_kinds)"

definition collision_text :: "(json \<Rightarrow> string) \<Rightarrow> release_ref \<Rightarrow> json \<Rightarrow> string" where
  "collision_text render r v =
     ''MetalLB '' @ rl_namespace r @ ''/'' @ py_str render (field ''kind'' v) @ ''/'' @ rl_name r @
     '' already exists without Foretoken ownership; rename or manage it through its current lifecycle''"

fun first_collision :: "cluster_reader \<Rightarrow> string \<times> string \<Rightarrow> release_ref \<Rightarrow> json list \<Rightarrow> py_error + string" where
  "first_collision K label r [] = Inr []"
| "first_collision K label r (v # vs) =
     rbind (has_label label v) (\<lambda>b. if b then first_collision K label r vs else Inr (collision_text (cr_render K) r v))"

definition managed_resource_collision :: "cluster_reader \<Rightarrow> string \<times> string \<Rightarrow> release_ref \<Rightarrow> cli_error + string" where
  "managed_resource_collision K label r =
     rbind (deploying (managed_objects K r)) (\<lambda>objects. raising (first_collision K label r objects))"

definition managed_install_conflict :: "cluster_observation \<Rightarrow> string" where
  "managed_install_conflict ob =
     (if ob_metallb_api ob \<or> ob_metallb_resources ob \<noteq> []
      then ''MetalLB is already installed; reuse its lifecycle instead of installing CLI-managed MetalLB''
      else if ob_k3s ob = ''enabled''
      then ''k3s ServiceLB is enabled; disable it on every server before installing CLI-managed MetalLB''
      else if ob_k3s ob = ''unknown''
      then ''k3s ServiceLB state could not be confirmed; disable it on every server before installing CLI-managed MetalLB''
      else if ob_allocated_service ob \<noteq> None
      then ''a default LoadBalancer implementation already publishes addresses; reuse its existing lifecycle''
      else if ob_cloud ob
      then ''cloud provider metadata indicates a cluster-managed integration; confirm it is disabled before installing CLI-managed MetalLB''
      else [])"

definition external_metallb_resources :: "release_ref \<Rightarrow> resource_ref list \<Rightarrow> resource_ref list" where
  "external_metallb_resources r refs =
     filter (\<lambda>x. \<not> (rr_kind x \<in> set (map mk_kind managed_kinds) \<and> rr_name x = rl_name r \<and> rr_namespace x = rl_namespace r)) refs"

definition managed_resource :: "release_ref \<Rightarrow> string \<times> string \<Rightarrow> metallb_kind \<Rightarrow> json option \<Rightarrow> json" where
  "managed_resource r label kind spec =
     JObj ([(''apiVersion'', JStr metallb_api_version), (''kind'', JStr (mk_kind kind)),
            (''metadata'', JObj [(''name'', JStr (rl_name r)), (''namespace'', JStr (rl_namespace r)),
               (''labels'', JObj [(fst label, JStr (snd label))])])] @
           (case spec of None \<Rightarrow> [] | Some s \<Rightarrow> [(''spec'', s)]))"

definition managed_configuration :: "release_ref \<Rightarrow> string \<times> string \<Rightarrow> string list \<Rightarrow> json list" where
  "managed_configuration r label addresses =
     [managed_resource r label address_pool
        (if addresses = [] then None else Some (JObj [(''addresses'', JList (map JStr addresses))])),
      managed_resource r label l2_advertisement
        (if addresses = [] then None else Some (JObj [(''ipAddressPools'', JList [JStr (rl_name r)])]))]"

section \<open>Plans\<close>

record lb_plan =
  lp_release :: release_ref
  lp_addresses :: "string list"
  lp_action :: string
  lp_detail :: string
  lp_install :: bool
  lp_blocking :: bool

definition report :: "release_ref \<Rightarrow> string list \<Rightarrow> string \<Rightarrow> string \<Rightarrow> bool \<Rightarrow> lb_plan" where
  "report r addresses action detail blocking =
     \<lparr>lp_release = r, lp_addresses = addresses, lp_action = action, lp_detail = detail, lp_install = False, lp_blocking = blocking\<rparr>"

definition unverified_details :: "cluster_observation \<Rightarrow> string list" where
  "unverified_details ob =
     (let details =
        (if ob_k3s ob = ''disabled'' then [''k3s ServiceLB is disabled'']
         else if ob_k3s ob = ''unknown'' then [''k3s ServiceLB state could not be confirmed''] else []) @
        (if ob_metallb_api ob then [''MetalLB is installed without a configured address pool''] else []) in
      if details = [] then [''no default LoadBalancer implementation could be confirmed''] else details)"

definition automatic_plan :: "release_ref \<Rightarrow> string list \<Rightarrow> cluster_observation \<Rightarrow> lb_plan" where
  "automatic_plan r addresses ob =
     (case ob_allocated_service ob of
        Some service \<Rightarrow>
          report r addresses ''Reuse''
            (''default LoadBalancer implementation observed through '' @ rr_namespace service @ ''/'' @ display_name service @
             ''; allocation is confirmed per Service'') False
      | None \<Rightarrow>
          if ob_metallb_namespaces ob \<noteq> []
          then report r addresses ''Reuse''
                 (''configured MetalLB observed in '' @ join '', '' (ob_metallb_namespaces ob) @
                  ''; pool capacity is confirmed per Service'') False
          else if ob_k3s ob = ''enabled''
          then report r addresses ''Reuse'' ''k3s ServiceLB is enabled; host-port availability is confirmed per Service'' False
          else if ob_cloud ob
          then report r addresses ''Reuse''
                 ''cloud provider metadata is present; external address allocation is confirmed per Service'' False
          else report r addresses ''Not verified'' (join ''; '' (unverified_details ob)) False)"

text \<open>The managed part of \<open>resolve_install\<close>, once the addresses are known.\<close>

definition managed_plan ::
  "cluster_reader \<Rightarrow> string \<times> string \<Rightarrow> release_ref \<Rightarrow> string list \<Rightarrow> bool \<Rightarrow> cluster_observation \<Rightarrow> cli_error + lb_plan" where
  "managed_plan K label r addresses exists ob =
     (if addresses = [] then
        Inr (if exists
             then report r addresses ''Needs configuration''
                    (''CLI-managed MetalLB '' @ release_name r @ '' has no stored address pool; provide loadBalancer.managedAddresses'') False
             else automatic_plan r addresses ob)
      else
        rbind (managed_resource_collision K label r) (\<lambda>collision.
        let conflict = (if collision \<noteq> [] then collision else if exists then [] else managed_install_conflict ob) in
        Inr (if conflict \<noteq> [] then report r addresses ''Needs configuration'' conflict True
             else \<lparr>lp_release = r, lp_addresses = addresses, lp_action = (if exists then ''Upgrade'' else ''Install''),
                   lp_detail = release_name r @ '' with '' @ show_nat (length addresses) @ '' explicit Layer 2 address range(s)'',
                   lp_install = True, lp_blocking = False\<rparr>)))"

text \<open>The addresses a managed release stores.\<close>

definition stored_addresses :: "helm_client \<Rightarrow> release_ref \<Rightarrow> cli_error + string list" where
  "stored_addresses H r =
     rbind (deploying (get_release_values H r True)) (\<lambda>values.
     rbind (load_balancer_config_from_values values) (\<lambda>c. Inr (case c of None \<Rightarrow> [] | Some a \<Rightarrow> a)))"

definition resolve_install :: "helm_client \<Rightarrow> cluster_reader \<Rightarrow> release_ref \<Rightarrow> string list \<Rightarrow> cli_error + lb_plan" where
  "resolve_install H K r addresses =
     rbind (deploying (release_exists H r)) (\<lambda>present.
     rbind (if present then deploying (is_cli_managed H r) else Inr False) (\<lambda>exists.
     if present \<and> \<not> exists \<and> addresses \<noteq> []
     then Inr (report r addresses ''Needs configuration''
                (''Helm release '' @ release_name r @ '' is not managed by foretoken; use its existing Helm lifecycle'') True)
     else case observe_cluster K of
       Inl (Deploy e) \<Rightarrow>
         Inr (report r addresses (if addresses \<noteq> [] then ''Needs configuration'' else ''Not verified'')
                (''cluster capability could not be inspected: '' @ error_text e) (addresses \<noteq> []))
     | Inl e \<Rightarrow> Inl e
     | Inr ob \<Rightarrow>
         rbind (if exists \<and> addresses = [] then stored_addresses H r else Inr addresses) (\<lambda>config.
           managed_plan K (hc_management (hm_config H)) r config exists ob)))"

section \<open>Effects\<close>

datatype lb_effect =
    HelmRun "string list" "string option"
  | WaitForCrds "string list" string
  | KubectlRun invocation

text \<open>
  \<open>apply\<close>: the upgrade from the prepared chart with the stored values, then the definitions, then the addresses.
  \<open>stored\<close> are the values the release has, \<open>prepared\<close> the path of the private chart copy and \<open>dumps\<close> the JSON encoder.
\<close>

definition install_args :: "helm_client \<Rightarrow> (json \<Rightarrow> string) \<Rightarrow> lb_plan \<Rightarrow> string \<Rightarrow> string \<Rightarrow> string \<Rightarrow> string list" where
  "install_args H dumps plan source prepared timeout =
     (upgrade_args H (lp_release plan) source timeout [] True)[3 := prepared] @
     [''--set'', ''frrk8s.enabled=false'', ''--set-json'',
      ''loadBalancer.managedAddresses='' @ dumps (JList (map JStr (lp_addresses plan))), ''--reset-values'', ''--values'', ''-'']"

definition apply_plan ::
  "helm_client \<Rightarrow> (json \<Rightarrow> string) \<Rightarrow> json \<Rightarrow> string \<Rightarrow> string \<Rightarrow> lb_plan \<Rightarrow> string \<Rightarrow> lb_effect list" where
  "apply_plan H dumps stored source prepared plan timeout =
     (if \<not> lp_install plan then []
      else [HelmRun (install_args H dumps plan source prepared timeout) (Some (dumps stored)),
            WaitForCrds (map mk_resource managed_kinds) timeout,
            KubectlRun (apply_rendered (encode_resources (hm_yaml H)
              (managed_configuration (lp_release plan) (hc_management (hm_config H)) (lp_addresses plan))))])"

text \<open>Why a release stays: foreign configuration, services in use, or a foreign object under its name.\<close>

definition preserve_reason :: "cluster_reader \<Rightarrow> string \<times> string \<Rightarrow> release_ref \<Rightarrow> cli_error + string option" where
  "preserve_reason K label r =
     rbind (observe_cluster K) (\<lambda>ob.
     let external = external_metallb_resources r (ob_metallb_resources ob) in
     if external \<noteq> [] then Inr (Some (''external MetalLB configuration remains: '' @ join '', '' (map display_name external)))
     else if ob_default_services ob \<noteq> []
     then Inr (Some (''default LoadBalancer Services remain: '' @
                join '', '' (map (\<lambda>x. rr_namespace x @ ''/'' @ display_name x) (ob_default_services ob))))
     else rbind (managed_resource_collision K label r) (\<lambda>collision.
       Inr (if collision \<noteq> [] then Some collision else None)))"

definition finish_uninstall ::
  "helm_client \<Rightarrow> cluster_reader \<Rightarrow> release_ref \<Rightarrow> string \<Rightarrow> cli_error + (string \<times> string) option \<times> lb_effect list" where
  "finish_uninstall H K r timeout =
     rbind (deploying (release_exists H r)) (\<lambda>present.
     if \<not> present then Inr (None, [])
     else
       rbind (deploying (is_cleanup_managed H r)) (\<lambda>managed.
       if \<not> managed then Inr (Some (''Preserve'', release_name r @ '' is externally managed''), [])
       else case preserve_reason K (hc_management (hm_config H)) r of
         Inl (Deploy e) \<Rightarrow> Inr (Some (''Preserve'', ''dependency check failed: '' @ error_text e), [])
       | Inl e \<Rightarrow> Inl e
       | Inr (Some reason) \<Rightarrow> Inr (Some (''Preserve'', reason), [])
       | Inr None \<Rightarrow>
           rbind (deploying (managed_objects K r)) (\<lambda>objects.
             Inr (Some (''Removed'', release_name r),
                  (if objects = [] then []
                   else [KubectlRun (delete_rendered (encode_resources (hm_yaml H)
                           (managed_configuration r (hc_management (hm_config H)) [])) timeout)]) @
                  [HelmRun (uninstall_args r timeout) None]))))"

section \<open>What an observation says of the cluster\<close>

lemma deploying_Inr [simp]: "deploying m = Inr x \<longleftrightarrow> m = Inr x"
  by (auto simp: deploying_def split: sum.splits)

lemma filter_list_Inr:
  "filter_list f xs = Inr ys \<Longrightarrow> x \<in> set xs \<Longrightarrow> \<exists>b. f x = Inr b \<and> (b \<longrightarrow> x \<in> set ys)"
  by (induction xs arbitrary: ys) (auto simp: rbind_eq_Inr_iff split: if_splits)

lemma any_list_False: "any_list f xs = Inr False \<Longrightarrow> x \<in> set xs \<Longrightarrow> f x = Inr False"
  by (induction xs) (auto simp: rbind_eq_Inr_iff split: if_splits)

lemma first_allocated_None: "first_allocated ss = Inr None \<Longrightarrow> s \<in> set ss \<Longrightarrow> has_ingress s = Inr False"
  by (induction ss) (auto simp: rbind_eq_Inr_iff split: if_splits)

lemma k3s_states: "k3s_service_lb_state render loads nodes = Inr s \<Longrightarrow> s \<in> {''not-k3s'', ''unknown'', ''disabled'', ''enabled''}"
  unfolding k3s_service_lb_state_def by (elim rbind_InrE) (auto elim!: rbind_InrE split: if_splits option.splits list.splits)

lemma map_list_Nil: "map_list f xs = Inr [] \<longleftrightarrow> xs = []"
  by (simp add: map_list_Inr)

text \<open>No default service has an address, no node names a cloud, no MetalLB API is served, no k3s ServiceLB runs.\<close>

definition no_implementation :: "cluster_reader \<Rightarrow> bool" where
  "no_implementation K \<longleftrightarrow>
     (\<exists>services nodes state.
        list_all_resources (cr_loads K) (cr_kubectl K) [''services''] [] = Inr services \<and>
        (\<forall>s \<in> set services. default_service s = Inr False \<or> has_ingress s = Inr False) \<and>
        list_cluster_resources (cr_loads K) (cr_kubectl K) [''nodes''] [] = Inr nodes \<and>
        (\<forall>n \<in> set nodes. node_in_cloud (cr_render K) n = Inr False) \<and>
        api_resource_names (cr_kubectl K) (Some metallb_api_group) = Inr [] \<and>
        k3s_service_lb_state (cr_render K) (cr_loads K) nodes = Inr state \<and> state \<in> {''not-k3s'', ''disabled''})"

text \<open>No default service is left, and every MetalLB resource is one of the two managed objects of the release.\<close>

definition unused :: "cluster_reader \<Rightarrow> release_ref \<Rightarrow> bool" where
  "unused K r \<longleftrightarrow>
     (\<exists>services supported.
        list_all_resources (cr_loads K) (cr_kubectl K) [''services''] [] = Inr services \<and>
        (\<forall>s \<in> set services. default_service s = Inr False) \<and>
        api_resource_names (cr_kubectl K) (Some metallb_api_group) = Inr supported \<and>
        (let selected = filter (\<lambda>x. x \<in> set supported) (map mk_resource [address_pool, l2_advertisement, bgp_advertisement]) in
         selected \<noteq> [] \<longrightarrow>
         (\<exists>values. list_all_resources (cr_loads K) (cr_kubectl K) selected [] = Inr values \<and>
            (\<forall>v \<in> set values. \<exists>x. resource_ref_of v = Inr x \<and>
               rr_kind x \<in> {''IPAddressPool'', ''L2Advertisement''} \<and> rr_name x = rl_name r \<and> rr_namespace x = rl_namespace r))))"

lemma no_conflict_observed:
  assumes "observe_cluster K = Inr ob" and "managed_install_conflict ob = []"
  shows "no_implementation K"
proof -
  obtain services chosen nodes supported where o:
      "list_all_resources (cr_loads K) (cr_kubectl K) [''services''] [] = Inr services"
      "filter_list default_service services = Inr chosen" "first_allocated chosen = Inr (ob_allocated_service ob)"
      "list_cluster_resources (cr_loads K) (cr_kubectl K) [''nodes''] [] = Inr nodes"
      "any_list (node_in_cloud (cr_render K)) nodes = Inr (ob_cloud ob)"
      "api_resource_names (cr_kubectl K) (Some metallb_api_group) = Inr supported" "ob_metallb_api ob = (supported \<noteq> [])"
      "k3s_service_lb_state (cr_render K) (cr_loads K) nodes = Inr (ob_k3s ob)"
    using assms(1) unfolding observe_cluster_def Let_def by (auto elim!: rbind_InrE)
  have c: "supported = []" "ob_k3s ob \<notin> {''enabled'', ''unknown''}" "ob_allocated_service ob = None" "\<not> ob_cloud ob"
    using assms(2) o(7) by (auto simp: managed_install_conflict_def split: if_splits)
  have "default_service s = Inr False \<or> has_ingress s = Inr False" if "s \<in> set services" for s
    using filter_list_Inr [OF o(2) that] first_allocated_None o(3) c(3) by (metis (full_types))
  moreover have "node_in_cloud (cr_render K) n = Inr False" if "n \<in> set nodes" for n
    using any_list_False [OF _ that] o(5) c(4) by simp
  ultimately show ?thesis
    unfolding no_implementation_def using o c k3s_states [OF o(8)] by blast
qed

lemma unused_observed:
  assumes "observe_cluster K = Inr ob" and "external_metallb_resources r (ob_metallb_resources ob) = []"
    and "ob_default_services ob = []"
  shows "unused K r"
proof -
  obtain services chosen supported "values" where o:
      "list_all_resources (cr_loads K) (cr_kubectl K) [''services''] [] = Inr services"
      "filter_list default_service services = Inr chosen" "map_list (\<lambda>s. deploying (resource_ref_of s)) chosen = Inr (ob_default_services ob)"
      "api_resource_names (cr_kubectl K) (Some metallb_api_group) = Inr supported"
      "let selected = filter (\<lambda>x. x \<in> set supported) (map mk_resource [address_pool, l2_advertisement, bgp_advertisement]) in
       (if selected = [] then Inr [] else deploying (list_all_resources (cr_loads K) (cr_kubectl K) selected [])) = Inr values"
      "map_list (\<lambda>v. deploying (resource_ref_of v)) values = Inr (ob_metallb_resources ob)"
    using assms(1) unfolding observe_cluster_def Let_def by (auto elim!: rbind_InrE)
  have "default_service s = Inr False" if "s \<in> set services" for s
  proof -
    have "chosen = []"
      using o(3) assms(3) by (simp add: map_list_Nil)
    then show ?thesis
      using filter_list_Inr [OF o(2) that] by auto
  qed
  moreover have "\<exists>x. resource_ref_of v = Inr x \<and> rr_kind x \<in> {''IPAddressPool'', ''L2Advertisement''} \<and>
      rr_name x = rl_name r \<and> rr_namespace x = rl_namespace r" if member: "v \<in> set values" for v
  proof -
    obtain x where x: "(v, x) \<in> set (zip values (ob_metallb_resources ob))"
      using zip_measured [OF o(6) member] by blast
    then have "resource_ref_of v = Inr x" "x \<in> set (ob_metallb_resources ob)"
      using measured_pair [OF o(6) x] set_zip_rightD [OF x] by simp_all
    then show ?thesis
      using assms(2) by (auto simp: external_metallb_resources_def managed_kinds_def address_pool_def l2_advertisement_def filter_empty_conv)
  qed
  ultimately show ?thesis
    unfolding unused_def using o(1,4,5) by (auto simp: Let_def)
qed

lemma no_collision_labels:
  "first_collision K label r vs = Inr [] \<Longrightarrow> v \<in> set vs \<Longrightarrow> has_label label v = Inr True"
  by (induction vs) (auto simp: rbind_eq_Inr_iff collision_text_def split: if_splits)

lemma no_collision:
  assumes "managed_resource_collision K label r = Inr []"
  shows "\<exists>objects. managed_objects K r = Inr objects \<and> (\<forall>v \<in> set objects. has_label label v = Inr True)"
  using assms no_collision_labels by (fastforce simp: managed_resource_collision_def rbind_eq_Inr_iff)

section \<open>Installing and removing the managed implementation\<close>

lemma automatic_plan_reports: "\<not> lp_install (automatic_plan r addresses ob)"
  by (simp add: automatic_plan_def report_def split: option.splits)

lemma report_fields [simp]: "\<not> lp_install (report r addresses action detail blocking)"
  by (simp add: report_def)

lemma managed_plan_install:
  assumes "managed_plan K label r addresses exists ob = Inr plan" and "lp_install plan"
  shows "addresses \<noteq> []" "lp_addresses plan = addresses" "lp_release plan = r"
    "managed_resource_collision K label r = Inr []" "exists \<or> managed_install_conflict ob = []"
  using assms unfolding managed_plan_def
  by (auto simp: automatic_plan_reports Let_def elim!: rbind_InrE split: if_splits)

lemma resolve_install_managed:
  assumes "resolve_install H K r addresses = Inr plan" and "lp_install plan"
  shows "\<exists>present ob config. observe_cluster K = Inr ob \<and>
    managed_plan K (hc_management (hm_config H)) r config present ob = Inr plan \<and>
    (addresses \<noteq> [] \<longrightarrow> config = addresses) \<and>
    (if present then release_exists H r = Inr True \<and> is_cli_managed H r = Inr True
     else config = addresses \<and> (release_exists H r = Inr False \<or> addresses = []))"
proof -
  obtain found owned where f: "release_exists H r = Inr found" "(if found then is_cli_managed H r else Inr False) = Inr owned"
      "\<not> (found \<and> \<not> owned \<and> addresses \<noteq> [])"
    using assms unfolding resolve_install_def by (auto elim!: rbind_InrE split: if_splits)
  moreover obtain ob config where "observe_cluster K = Inr ob"
      "(if owned \<and> addresses = [] then stored_addresses H r else Inr addresses) = Inr config"
      "managed_plan K (hc_management (hm_config H)) r config owned ob = Inr plan"
    using assms f unfolding resolve_install_def
    by (auto elim!: rbind_InrE split: if_splits sum.splits cli_error.splits)
  ultimately show ?thesis
    by (intro exI [of _ owned] exI [of _ ob] exI [of _ config]) (auto split: if_splits)
qed

text \<open>C40: The managed MetalLB is only installed with an explicit address pool and over objects that carry the
  management label. It upgrades a release the tool owns, or it is the first implementation of the cluster: no
  default LoadBalancer service has an address, no node belongs to a cloud, no MetalLB API is served, and k3s
  does not run its own ServiceLB.\<close>

theorem managed_install_is_exclusive:
  assumes "resolve_install H K r addresses = Inr plan" and "lp_install plan"
  shows "lp_release plan = r \<and> lp_addresses plan \<noteq> [] \<and> (addresses \<noteq> [] \<longrightarrow> lp_addresses plan = addresses) \<and>
    (\<exists>objects. managed_objects K r = Inr objects \<and> (\<forall>v \<in> set objects. has_label (hc_management (hm_config H)) v = Inr True)) \<and>
    (release_exists H r = Inr True \<and> is_cli_managed H r = Inr True \<or> release_exists H r = Inr False \<and> no_implementation K)"
proof -
  obtain present ob config where o: "observe_cluster K = Inr ob"
      "managed_plan K (hc_management (hm_config H)) r config present ob = Inr plan"
      "addresses \<noteq> [] \<longrightarrow> config = addresses"
      "if present then release_exists H r = Inr True \<and> is_cli_managed H r = Inr True
       else config = addresses \<and> (release_exists H r = Inr False \<or> addresses = [])"
    using resolve_install_managed [OF assms] by blast
  note p = managed_plan_install [OF o(2) assms(2)]
  show ?thesis
    using o p no_collision [OF p(4)] no_conflict_observed [OF o(1)] by (cases present) auto
qed

definition demo_release :: release_ref where
  "demo_release = \<lparr>rl_name = ''foretoken-metallb'', rl_namespace = ''metallb-system''\<rparr>"

definition demo_helm :: "bool \<Rightarrow> helm_client" where
  "demo_helm present =
     \<lparr>hm_executable = ''helm'', hm_context = ''c'',
      hm_config = \<lparr>hc_management = (''foretoken.io/managed-by'', ''foretoken''),
                   hc_legacy = (''foretoken.io/managed-by'', ''foretoken-cli''), hc_install_source = ''foretoken.io/source''\<rparr>,
      hm_exec = (\<lambda>_ _. if present then \<lparr>cp_code = 0, cp_out = [], cp_err = []\<rparr>
                       else \<lparr>cp_code = 1, cp_out = [], cp_err = ''Error: release: not found''\<rparr>),
      hm_loads = (\<lambda>_. Some (JList [JObj []])), hm_yaml = demo_yaml\<rparr>"

text \<open>A cluster without services, nodes and MetalLB.\<close>

definition empty_cluster :: cluster_reader where
  "empty_cluster = \<lparr>cr_render = (\<lambda>_. []), cr_loads = (\<lambda>_. Some (JObj [])), cr_kubectl = (\<lambda>_. Inr [])\<rparr>"

lemma empty_cluster_observed:
  "observe_cluster empty_cluster =
     Inr \<lparr>ob_default_services = [], ob_allocated_service = None, ob_metallb_api = False, ob_metallb_resources = [],
           ob_metallb_namespaces = [], ob_k3s = ''not-k3s'', ob_cloud = False\<rparr>"
  by code_simp

theorem managed_install_is_exclusive_witness:
  "\<exists>plan. resolve_install (demo_helm False) empty_cluster demo_release [''10.0.0.1-10.0.0.9''] = Inr plan \<and>
     lp_install plan \<and> lp_action plan = ''Install'' \<and> release_exists (demo_helm False) demo_release = Inr False \<and> no_implementation empty_cluster"
proof -
  define plan where "plan = \<lparr>lp_release = demo_release, lp_addresses = [''10.0.0.1-10.0.0.9''], lp_action = ''Install'',
      lp_detail = ''metallb-system/foretoken-metallb with 1 explicit Layer 2 address range(s)'', lp_install = True, lp_blocking = False\<rparr>"
  have p: "resolve_install (demo_helm False) empty_cluster demo_release [''10.0.0.1-10.0.0.9''] = Inr plan"
    unfolding plan_def by code_simp
  have i: "lp_install plan" "lp_action plan = ''Install''"
    by (simp_all add: plan_def)
  have "is_cli_managed (demo_helm False) demo_release \<noteq> Inr True"
    by code_simp
  then show ?thesis
    using managed_install_is_exclusive [OF p i(1)] p i by auto
qed

text \<open>C11: The managed MetalLB is removed only when the tool may retire its release, no default LoadBalancer
  service is left in the cluster, no MetalLB configuration but its own two objects exists, and those carry the
  management label; the removal deletes these objects and then uninstalls that release, and nothing else.
  Every other answer leaves the cluster unchanged.\<close>

theorem uninstall_preserves_users:
  assumes "finish_uninstall H K r timeout = Inr (answer, effects)"
  shows "(effects \<noteq> [] \<longleftrightarrow> answer = Some (''Removed'', release_name r)) \<and>
    (effects \<noteq> [] \<longrightarrow>
       is_cleanup_managed H r = Inr True \<and> unused K r \<and>
       (\<exists>objects. managed_objects K r = Inr objects \<and> (\<forall>v \<in> set objects. has_label (hc_management (hm_config H)) v = Inr True) \<and>
          effects = (if objects = [] then [] else [KubectlRun (delete_rendered (encode_resources (hm_yaml H)
                      (managed_configuration r (hc_management (hm_config H)) [])) timeout)]) @ [HelmRun (uninstall_args r timeout) None]))"
proof (cases "effects = []")
  case True
  then show ?thesis
    using assms unfolding finish_uninstall_def
    by (auto elim!: rbind_InrE split: if_splits sum.splits cli_error.splits option.splits)
next
  case False
  then obtain objects where f: "answer = Some (''Removed'', release_name r)" "is_cleanup_managed H r = Inr True"
      "preserve_reason K (hc_management (hm_config H)) r = Inr None" "managed_objects K r = Inr objects"
      "effects = (if objects = [] then [] else [KubectlRun (delete_rendered (encode_resources (hm_yaml H)
         (managed_configuration r (hc_management (hm_config H)) [])) timeout)]) @ [HelmRun (uninstall_args r timeout) None]"
    using assms unfolding finish_uninstall_def
    by (auto elim!: rbind_InrE split: if_splits sum.splits cli_error.splits option.splits)
  obtain ob where ob: "observe_cluster K = Inr ob" "external_metallb_resources r (ob_metallb_resources ob) = []"
      "ob_default_services ob = []" "managed_resource_collision K (hc_management (hm_config H)) r = Inr []"
    using f(3) unfolding preserve_reason_def Let_def by (auto elim!: rbind_InrE split: if_splits)
  show ?thesis
    using f no_collision [OF ob(4)] unused_observed [OF ob(1-3)] by auto
qed

theorem uninstall_preserves_users_witness:
  "finish_uninstall (demo_helm True) empty_cluster demo_release ''5m'' =
     Inr (Some (''Removed'', release_name demo_release), [HelmRun (uninstall_args demo_release ''5m'') None]) \<and>
   unused empty_cluster demo_release"
proof -
  have f: "finish_uninstall (demo_helm True) empty_cluster demo_release ''5m'' =
     Inr (Some (''Removed'', release_name demo_release), [HelmRun (uninstall_args demo_release ''5m'') None])"
    by code_simp
  then show ?thesis
    using uninstall_preserves_users [OF f] by simp
qed

end
