(* ===== verification/Deployment_Mutation.thy ===== *)
theory Deployment_Mutation
  imports Kubernetes
begin

text \<open>
  The mutation lock of a deployment instance (\<open>kubernetes/mutation.py\<close>). The decisions of each call are
  functions of what it observed: the pinned read, the patch of the holder annotation, one round of
  acquisition, the recovery of a local holder that has exited, one round of release, and what becomes of
  the lock file. \<open>mutation_step\<close> interleaves any number of operations with each other, with the API server,
  which applies a patch only at the observed uid and resource version, and with other writers of the
  instance. A request whose caller stopped waiting may still be applied later.
\<close>

section \<open>Observations and patches\<close>

text \<open>The metadata of the instance record that the lock reads.\<close>

record observed =
  ob_uid :: string
  ob_version :: nat
  ob_deleting :: bool
  ob_holder :: string

record patch =
  pt_uid :: string
  pt_version :: nat
  pt_annotation :: string
  pt_value :: string

definition holder_annotation :: string where
  "holder_annotation = ''inference.foretoken.io/deployment-holder''"

definition operation_annotation :: string where
  "operation_annotation = ''inference.foretoken.io/service-operation''"

definition fenced_patch :: "observed \<Rightarrow> string \<Rightarrow> string \<Rightarrow> patch" where
  "fenced_patch current annotation v =
     \<lparr>pt_uid = ob_uid current, pt_version = ob_version current, pt_annotation = annotation, pt_value = v\<rparr>"

definition set_holder :: "observed \<Rightarrow> string \<Rightarrow> patch" where
  "set_holder current operation = fenced_patch current holder_annotation operation"

text \<open>The command line of a patch; \<open>version\<close> is the text of a resource version.\<close>

definition patch_document :: "(nat \<Rightarrow> string) \<Rightarrow> patch \<Rightarrow> json" where
  "patch_document version p =
     JObj [(''metadata'', JObj [(''uid'', JStr (pt_uid p)), (''resourceVersion'', JStr (version (pt_version p))),
       (''annotations'', JObj [(pt_annotation p, JStr (pt_value p))])])]"

definition patch_args :: "(json \<Rightarrow> string) \<Rightarrow> (nat \<Rightarrow> string) \<Rightarrow> string \<Rightarrow> string \<Rightarrow> bool \<Rightarrow> patch \<Rightarrow> string list" where
  "patch_args dumps version name ns output p =
     [''patch'', ''inferencedeployments.inference.foretoken.io'', name, ''--namespace'', ns, ''--type=merge''] @
     (if output then [''--output=json''] else []) @ [''--patch'', dumps (patch_document version p)]"

definition quoted :: "string \<Rightarrow> string" where
  "quoted s = CHR 0x27 # s @ [CHR 0x27]"

section \<open>Decisions\<close>

text \<open>\<open>_read\<close>: the uid that the operation is pinned to, or an error for a replaced or deleted instance.\<close>

definition read_instance :: "string \<Rightarrow> string \<Rightarrow> observed \<Rightarrow> deploy_error + string" where
  "read_instance name pinned current =
     (if ob_deleting current \<or> pinned \<noteq> [] \<and> ob_uid current \<noteq> pinned
      then Inl (DeploymentError (''DeploymentSuperseded: deployment instance '' @ quoted name @ '' was replaced or deleted''))
      else Inr (ob_uid current))"

datatype round = Abort deploy_error | Occupied string | Acquire patch

text \<open>One round of the acquisition loop of \<open>hold\<close>.\<close>

definition hold_round :: "string \<Rightarrow> string \<Rightarrow> string \<Rightarrow> time \<Rightarrow> observed \<Rightarrow> round" where
  "hold_round name pinned operation remaining current =
     (if remaining \<le> 0
      then Abort (DeploymentError (''Timed out waiting for another operation on deployment instance '' @ quoted name))
      else case read_instance name pinned current of
        Inl e \<Rightarrow> Abort e
      | Inr uid \<Rightarrow> if ob_holder current \<noteq> [] then Occupied uid else Acquire (set_holder current operation))"

text \<open>
  \<open>_recover_local\<close>: the lock file of the recorded holder, when it is on this machine and no process holds
  it. A lock file reads \<open>Some True\<close> while a process has it locked; \<open>uuid_hex\<close> is \<open>uuid.UUID(s).hex\<close>.
\<close>

definition recover_local ::
  "(string \<Rightarrow> string option) \<Rightarrow> (string \<Rightarrow> bool option) \<Rightarrow> observed \<Rightarrow> py_error + (string \<times> patch) option" where
  "recover_local uuid_hex files current =
     (case uuid_hex (ob_holder current) of
        None \<Rightarrow> Inl (ValueError ''badly formed hexadecimal UUID string'')
      | Some owner \<Rightarrow>
          (case files owner of
             Some False \<Rightarrow> Inr (Some (owner, set_holder current []))
           | _ \<Rightarrow> Inr None))"

datatype release_answer = Released | Changed deploy_error | Clear patch

definition release_round :: "string \<Rightarrow> string \<Rightarrow> string \<Rightarrow> observed option \<Rightarrow> release_answer" where
  "release_round name uid operation current =
     (case current of
        None \<Rightarrow> Released
      | Some c \<Rightarrow>
          if ob_uid c \<noteq> uid then Released
          else if ob_holder c \<noteq> operation
          then Changed (DeploymentError (''Deployment operation ownership changed for '' @ quoted name))
          else Clear (set_holder c []))"

text \<open>The lock file after an acquisition that failed: a write that may still land keeps it.\<close>

definition abandoned_file :: "bool \<Rightarrow> bool option" where
  "abandoned_file uncertain_write = (if uncertain_write then Some False else None)"

text \<open>Nested \<open>hold\<close> blocks of one operation only count.\<close>

definition enter :: "nat \<Rightarrow> nat" where
  "enter depth = depth + 1"

definition leave :: "nat \<Rightarrow> nat" where
  "leave depth = depth - 1"

text \<open>One round of \<open>supersede\<close> under the held lock.\<close>

definition supersede_round :: "string \<Rightarrow> string \<Rightarrow> string \<Rightarrow> time \<Rightarrow> observed \<Rightarrow> deploy_error + patch" where
  "supersede_round name pinned fresh remaining current =
     (if remaining \<le> 0 then Inl (DeploymentError (''Timed out superseding deployment instance '' @ quoted name))
      else rbind (read_instance name pinned current) (\<lambda>_. Inr (fenced_patch current operation_annotation fresh)))"

section \<open>Interleaved operations\<close>

text \<open>
  The life of an operation, named by its random hexadecimal identity: it tries, possibly recovering another
  holder, waits for the answer to its own patch, holds the instance, and releases it. A command whose own
  process is gone but whose subprocesses still run, and so keep its lock file locked, still holds.
\<close>

datatype phase =
    Unborn
  | Trying string
  | Recovering string string patch
  | Acquiring patch
  | Holding string
  | Leaving string
  | Releasing string patch
  | Ended

text \<open>A request in flight, with its author and the holder its author had observed.\<close>

record holder_request =
  rq_author :: string
  rq_seen :: string
  rq_patch :: patch

record world =
  w_server :: "observed option"
  w_pending :: "holder_request list"
  w_files :: "string \<Rightarrow> bool option"
  w_phase :: "string \<Rightarrow> phase"
  w_versions :: nat
  w_uids :: "string list"

definition initial_world :: "world \<Rightarrow> bool" where
  "initial_world w \<longleftrightarrow>
     w_server w = None \<and> w_pending w = [] \<and> w_files w = (\<lambda>_. None) \<and> w_phase w = (\<lambda>_. Unborn) \<and> w_uids w = []"

definition set_phase :: "string \<Rightarrow> phase \<Rightarrow> world \<Rightarrow> world" where
  "set_phase op p w = w\<lparr>w_phase := (w_phase w)(op := p)\<rparr>"

definition set_file :: "string \<Rightarrow> bool option \<Rightarrow> world \<Rightarrow> world" where
  "set_file op f w = w\<lparr>w_files := (w_files w)(op := f)\<rparr>"

definition send :: "string \<Rightarrow> string \<Rightarrow> patch \<Rightarrow> world \<Rightarrow> world" where
  "send op seen p w = w\<lparr>w_pending := \<lparr>rq_author = op, rq_seen = seen, rq_patch = p\<rparr> # w_pending w\<rparr>"

definition answered :: "holder_request \<Rightarrow> world \<Rightarrow> world" where
  "answered rq w = w\<lparr>w_pending := filter (\<lambda>x. x \<noteq> rq) (w_pending w)\<rparr>"

definition fits_record :: "patch \<Rightarrow> observed \<Rightarrow> bool" where
  "fits_record p r \<longleftrightarrow> ob_uid r = pt_uid p \<and> ob_version r = pt_version p"

definition write_record :: "observed \<Rightarrow> world \<Rightarrow> world" where
  "write_record r w = w\<lparr>w_server := Some (r\<lparr>ob_version := w_versions w\<rparr>), w_versions := Suc (w_versions w)\<rparr>"

text \<open>What the author does with the answer of the server.\<close>

definition on_applied :: "holder_request \<Rightarrow> world \<Rightarrow> world" where
  "on_applied rq w =
     (let op = rq_author rq; p = rq_patch rq in
      case w_phase w op of
        Acquiring q \<Rightarrow> if q = p then set_phase op (Holding (pt_uid p)) w else w
      | Releasing u q \<Rightarrow> if q = p then set_file op None (set_phase op Ended w) else w
      | Recovering pinned owner q \<Rightarrow> if q = p then set_file owner None (set_phase op (Trying pinned) w) else w
      | _ \<Rightarrow> w)"

definition on_conflict :: "holder_request \<Rightarrow> world \<Rightarrow> world" where
  "on_conflict rq w =
     (let op = rq_author rq; p = rq_patch rq in
      case w_phase w op of
        Acquiring q \<Rightarrow> if q = p then set_phase op (Trying (pt_uid p)) w else w
      | Releasing u q \<Rightarrow> if q = p then set_phase op (Leaving u) w else w
      | Recovering pinned owner q \<Rightarrow> if q = p then set_file owner (Some False) (set_phase op (Trying pinned) w) else w
      | _ \<Rightarrow> w)"

text \<open>An operation that stops: a recovery it had begun lets go of the other lock file.\<close>

definition stop :: "string \<Rightarrow> bool option \<Rightarrow> world \<Rightarrow> world" where
  "stop op f w =
     set_file op f (set_phase op Ended
       (case w_phase w op of Recovering _ owner _ \<Rightarrow> set_file owner (Some False) w | _ \<Rightarrow> w))"

inductive mutation_step :: "(string \<Rightarrow> string option) \<Rightarrow> string \<Rightarrow> world \<Rightarrow> world \<Rightarrow> bool"
  for uuid_hex :: "string \<Rightarrow> string option" and name :: string where
  begin_operation: "w_phase w op = Unborn \<Longrightarrow> w_files w op = None \<Longrightarrow> op \<noteq> [] \<Longrightarrow> uuid_hex op = Some op \<Longrightarrow>
    mutation_step uuid_hex name w (set_file op (Some True) (set_phase op (Trying pinned) w))"
| take: "w_phase w op = Trying pinned \<Longrightarrow> w_server w = Some r \<Longrightarrow> hold_round name pinned op remaining r = Acquire p \<Longrightarrow>
    mutation_step uuid_hex name w (send op (ob_holder r) p (set_phase op (Acquiring p) w))"
| wait: "w_phase w op = Trying pinned \<Longrightarrow> w_server w = Some r \<Longrightarrow> hold_round name pinned op remaining r = Occupied uid \<Longrightarrow>
    recover_local uuid_hex (w_files w) r = Inr None \<Longrightarrow>
    mutation_step uuid_hex name w (set_phase op (Trying uid) w)"
| recover: "w_phase w op = Trying pinned \<Longrightarrow> w_server w = Some r \<Longrightarrow> hold_round name pinned op remaining r = Occupied uid \<Longrightarrow>
    recover_local uuid_hex (w_files w) r = Inr (Some (owner, p)) \<Longrightarrow>
    mutation_step uuid_hex name w
      (send op (ob_holder r) p (set_file owner (Some True) (set_phase op (Recovering uid owner p) w)))"
| apply_patch: "rq \<in> set (w_pending w) \<Longrightarrow> w_server w = Some r \<Longrightarrow> fits_record (rq_patch rq) r \<Longrightarrow>
    mutation_step uuid_hex name w
      (on_applied rq (answered rq (write_record (r\<lparr>ob_holder := pt_value (rq_patch rq)\<rparr>) w)))"
| conflict: "rq \<in> set (w_pending w) \<Longrightarrow> (case w_server w of None \<Rightarrow> True | Some r \<Rightarrow> \<not> fits_record (rq_patch rq) r) \<Longrightarrow>
    mutation_step uuid_hex name w (on_conflict rq (answered rq w))"
| give_up: "w_phase w op \<in> {Trying pinned, Recovering pinned owner p} \<Longrightarrow>
    mutation_step uuid_hex name w (stop op (abandoned_file False) w)"
| uncertain: "w_phase w op = Acquiring p \<Longrightarrow> mutation_step uuid_hex name w (stop op (abandoned_file True) w)"
| finish_body: "w_phase w op = Holding u \<Longrightarrow> mutation_step uuid_hex name w (set_phase op (Leaving u) w)"
| released: "w_phase w op = Leaving u \<Longrightarrow> release_round name u op (w_server w) = Released \<Longrightarrow>
    mutation_step uuid_hex name w (stop op None w)"
| clear_holder: "w_phase w op = Leaving u \<Longrightarrow> release_round name u op (w_server w) = Clear p \<Longrightarrow>
    mutation_step uuid_hex name w (send op op p (set_phase op (Releasing u p) w))"
| exit: "w_phase w op \<noteq> Unborn \<Longrightarrow> w_phase w op \<noteq> Ended \<Longrightarrow> mutation_step uuid_hex name w (stop op (Some False) w)"
| other_write: "w_server w = Some r \<Longrightarrow> mutation_step uuid_hex name w (write_record (r\<lparr>ob_deleting := b\<rparr>) w)"
| delete: "mutation_step uuid_hex name w (w\<lparr>w_server := None\<rparr>)"
| create: "w_server w = None \<Longrightarrow> uid \<notin> set (w_uids w) \<Longrightarrow>
    mutation_step uuid_hex name w
      (write_record \<lparr>ob_uid = uid, ob_version = 0, ob_deleting = False, ob_holder = []\<rparr> (w\<lparr>w_uids := uid # w_uids w\<rparr>))"

section \<open>The invariant of the lock\<close>

definition holds :: "world \<Rightarrow> string \<Rightarrow> string \<Rightarrow> bool" where
  "holds w op u \<longleftrightarrow> w_phase w op = Holding u \<or> w_phase w op = Leaving u \<or> (\<exists>p. w_phase w op = Releasing u p)"

text \<open>Identities, lock files and recoveries: a live operation has its lock file locked, a recovery concerns a dead one.\<close>

definition lives_ok :: "(string \<Rightarrow> string option) \<Rightarrow> world \<Rightarrow> bool" where
  "lives_ok uuid_hex w \<longleftrightarrow>
     w_phase w [] = Unborn \<and>
     (\<forall>op. w_phase w op = Unborn \<longrightarrow> w_files w op = None) \<and>
     (\<forall>op. w_phase w op \<noteq> Unborn \<longrightarrow> uuid_hex op = Some op) \<and>
     (\<forall>op. w_phase w op \<noteq> Unborn \<and> w_phase w op \<noteq> Ended \<longrightarrow> w_files w op = Some True) \<and>
     (\<forall>op pinned owner p. w_phase w op = Recovering pinned owner p \<longrightarrow> w_phase w owner = Ended)"

text \<open>One holder per instance identity, and the record names it.\<close>

definition holders_ok :: "world \<Rightarrow> bool" where
  "holders_ok w \<longleftrightarrow>
     (\<forall>op u. holds w op u \<longrightarrow> u \<in> set (w_uids w)) \<and>
     (\<forall>u. Uniq (\<lambda>op. holds w op u)) \<and>
     (\<forall>r. w_server w = Some r \<longrightarrow> ob_uid r \<in> set (w_uids w) \<and> ob_version r < w_versions w \<and>
       (\<forall>op. holds w op (ob_uid r) \<longrightarrow> ob_holder r = op) \<and> (ob_holder r \<noteq> [] \<longrightarrow> w_phase w (ob_holder r) \<noteq> Unborn))"

text \<open>A request that still fits_record the record was decided on the holder the record has.\<close>

definition fence_ok :: "world \<Rightarrow> bool" where
  "fence_ok w \<longleftrightarrow>
     (\<forall>rq \<in> set (w_pending w). pt_uid (rq_patch rq) \<in> set (w_uids w) \<and> pt_version (rq_patch rq) < w_versions w \<and>
       (\<forall>r. w_server w = Some r \<longrightarrow> fits_record (rq_patch rq) r \<longrightarrow> ob_holder r = rq_seen rq))"

definition waits_for :: "phase \<Rightarrow> holder_request \<Rightarrow> bool" where
  "waits_for ph rq \<longleftrightarrow>
     ph = Ended \<or> ph = Acquiring (rq_patch rq) \<and> pt_value (rq_patch rq) \<noteq> [] \<or>
     (\<exists>u. ph = Releasing u (rq_patch rq) \<and> rq_seen rq = rq_author rq \<and> pt_value (rq_patch rq) = []) \<or>
     (\<exists>pinned owner. ph = Recovering pinned owner (rq_patch rq) \<and> pt_value (rq_patch rq) = [])"

text \<open>
  The author of a request is waiting for it or has ended. It takes a free instance for itself, or it clears
  a holder that has ended, unless that is its own.
\<close>

definition request_ok :: "world \<Rightarrow> holder_request \<Rightarrow> bool" where
  "request_ok w rq \<longleftrightarrow>
     waits_for (w_phase w (rq_author rq)) rq \<and>
     (pt_value (rq_patch rq) \<noteq> [] \<longrightarrow> pt_value (rq_patch rq) = rq_author rq \<and> rq_seen rq = []) \<and>
     (pt_value (rq_patch rq) = [] \<longrightarrow>
       w_phase w (rq_seen rq) = Ended \<or>
       rq_author rq = rq_seen rq \<and> (\<exists>u. w_phase w (rq_author rq) = Releasing u (rq_patch rq)))"

definition requests_ok :: "world \<Rightarrow> bool" where
  "requests_ok w \<longleftrightarrow>
     (\<forall>rq \<in> set (w_pending w). request_ok w rq) \<and>
     (\<forall>a. w_phase w a \<noteq> Ended \<longrightarrow> Uniq (\<lambda>rq. rq \<in> set (w_pending w) \<and> rq_author rq = a))"

definition mutation_inv :: "(string \<Rightarrow> string option) \<Rightarrow> world \<Rightarrow> bool" where
  "mutation_inv uuid_hex w \<longleftrightarrow> lives_ok uuid_hex w \<and> holders_ok w \<and> fence_ok w \<and> requests_ok w"

lemma phase_simps [simp]:
  "w_phase (set_phase op p w) = (w_phase w)(op := p)" "w_phase (set_file op f w) = w_phase w"
  "w_phase (send op seen q w) = w_phase w" "w_phase (answered rq w) = w_phase w" "w_phase (write_record r w) = w_phase w"
  "w_files (set_file op f w) = (w_files w)(op := f)" "w_files (set_phase op p w) = w_files w"
  "w_files (send op seen q w) = w_files w" "w_files (answered rq w) = w_files w" "w_files (write_record r w) = w_files w"
  "w_pending (set_phase op p w) = w_pending w" "w_pending (set_file op f w) = w_pending w" "w_pending (write_record r w) = w_pending w"
  "w_pending (send op seen q w) = \<lparr>rq_author = op, rq_seen = seen, rq_patch = q\<rparr> # w_pending w"
  "w_pending (answered rq w) = filter (\<lambda>x. x \<noteq> rq) (w_pending w)"
  "w_server (set_phase op p w) = w_server w" "w_server (set_file op f w) = w_server w" "w_server (send op seen q w) = w_server w"
  "w_server (answered rq w) = w_server w" "w_server (write_record r w) = Some (r\<lparr>ob_version := w_versions w\<rparr>)"
  "w_versions (set_phase op p w) = w_versions w" "w_versions (set_file op f w) = w_versions w" "w_versions (send op seen q w) = w_versions w"
  "w_versions (answered rq w) = w_versions w" "w_versions (write_record r w) = Suc (w_versions w)"
  "w_uids (set_phase op p w) = w_uids w" "w_uids (set_file op f w) = w_uids w" "w_uids (send op seen q w) = w_uids w"
  "w_uids (answered rq w) = w_uids w" "w_uids (write_record r w) = w_uids w"
  by (simp_all add: set_phase_def set_file_def send_def answered_def write_record_def)

lemma holds_cong: "w_phase w op = w_phase w' op \<Longrightarrow> holds w op u = holds w' op u"
  by (simp add: holds_def)

lemma holds_set_phase: "holds (set_phase a p w) op u \<longleftrightarrow>
    (if op = a then p = Holding u \<or> p = Leaving u \<or> (\<exists>q. p = Releasing u q) else holds w op u)"
  by (auto simp: holds_def)

lemma holds_frame [simp]:
  "holds (set_file a f w) op u = holds w op u" "holds (send a s q w) op u = holds w op u"
  "holds (answered rq w) op u = holds w op u" "holds (write_record r w) op u = holds w op u"
  by (simp_all add: holds_def)

lemma holds_phase: "holds w op u \<Longrightarrow> w_phase w op \<noteq> Unborn \<and> w_phase w op \<noteq> Ended"
  by (auto simp: holds_def)

lemma lives_ok_move:
  assumes "lives_ok h w" and "w_phase w op \<noteq> Unborn" "w_phase w op \<noteq> Ended" and "p \<noteq> Unborn" "p \<noteq> Ended"
    and "\<And>x owner q. p = Recovering x owner q \<Longrightarrow> w_phase w owner = Ended \<and> owner \<noteq> op"
  shows "lives_ok h (set_phase op p w)"
  using assms unfolding lives_ok_def by (auto simp: fun_upd_def; blast)

lemma lives_ok_end: "lives_ok h w \<Longrightarrow> w_phase w op \<noteq> Unborn \<Longrightarrow> lives_ok h (set_phase op Ended w)"
  unfolding lives_ok_def by (auto simp: fun_upd_def)

lemma lives_ok_file: "lives_ok h w \<Longrightarrow> w_phase w op = Ended \<Longrightarrow> lives_ok h (set_file op f w)"
  unfolding lives_ok_def by (auto simp: fun_upd_def)

lemma lives_ok_frame [simp]:
  "lives_ok h (send a s q w) = lives_ok h w" "lives_ok h (answered rq w) = lives_ok h w" "lives_ok h (write_record r w) = lives_ok h w"
  by (simp_all add: lives_ok_def)

lemma holders_okD:
  assumes "holders_ok w"
  shows "holds w op u \<Longrightarrow> u \<in> set (w_uids w)" "holds w a u \<Longrightarrow> holds w b u \<Longrightarrow> a = b"
    "w_server w = Some r \<Longrightarrow> ob_uid r \<in> set (w_uids w)" "w_server w = Some r \<Longrightarrow> ob_version r < w_versions w"
    "w_server w = Some r \<Longrightarrow> holds w op (ob_uid r) \<Longrightarrow> ob_holder r = op"
    "w_server w = Some r \<Longrightarrow> ob_holder r \<noteq> [] \<Longrightarrow> w_phase w (ob_holder r) \<noteq> Unborn"
  using assms unfolding holders_ok_def by (blast dest: Uniq_D)+

lemma holders_ok_mono:
  assumes "holders_ok w" and "\<And>op u. holds w' op u \<Longrightarrow> holds w op u" and "w_server w' = w_server w"
    and "w_uids w' = w_uids w" and "w_versions w' = w_versions w"
    and "\<And>op. w_phase w op \<noteq> Unborn \<Longrightarrow> w_phase w' op \<noteq> Unborn"
  shows "holders_ok w'"
proof -
  have "u \<in> set (w_uids w')" if "holds w' op u" for op u
    using assms(1,4) assms(2) [OF that] unfolding holders_ok_def by simp
  moreover have "a = b" if "holds w' a u" "holds w' b u" for a b u
    using holders_okD(2) [OF assms(1)] assms(2) that by blast
  moreover have "ob_uid r \<in> set (w_uids w') \<and> ob_version r < w_versions w' \<and>
       (\<forall>op. holds w' op (ob_uid r) \<longrightarrow> ob_holder r = op) \<and> (ob_holder r \<noteq> [] \<longrightarrow> w_phase w' (ob_holder r) \<noteq> Unborn)"
    if "w_server w' = Some r" for r
    using assms(1) that assms(2,6) unfolding holders_ok_def assms(3-5) by simp
  ultimately show ?thesis unfolding holders_ok_def by (intro conjI allI impI Uniq_I) blast+
qed

lemma holders_ok_frame [simp]:
  "holders_ok (set_file a f w) = holders_ok w" "holders_ok (send a s q w) = holders_ok w" "holders_ok (answered rq w) = holders_ok w"
  by (simp_all only: holders_ok_def phase_simps holds_frame)

lemma holders_ok_move:
  assumes "holders_ok w" and "\<And>u. holds (set_phase op p w) op u \<Longrightarrow> holds w op u" and "p \<noteq> Unborn"
  shows "holders_ok (set_phase op p w)"
proof (rule holders_ok_mono [OF assms(1)])
  show "holds w a u" if "holds (set_phase op p w) a u" for a u
    using that assms(2) [of u] by (cases "a = op") (simp_all add: holds_set_phase)
qed (use assms(3) in auto)

lemma holders_ok_store:
  assumes "holders_ok w" and "ob_uid r \<in> set (w_uids w)" and "\<And>op. holds w op (ob_uid r) \<Longrightarrow> ob_holder r = op"
    and "ob_holder r \<noteq> [] \<Longrightarrow> w_phase w (ob_holder r) \<noteq> Unborn"
  shows "holders_ok (write_record r w)"
  using assms unfolding holders_ok_def by auto

lemma fence_ok_frame [simp]: "fence_ok (set_phase op p w) = fence_ok w" "fence_ok (set_file op f w) = fence_ok w"
  by (simp_all add: fence_ok_def)

lemma fence_ok_answered: "fence_ok w \<Longrightarrow> fence_ok (answered rq w)"
  by (auto simp: fence_ok_def)

lemma fence_ok_store: "fence_ok w \<Longrightarrow> fence_ok (write_record r w)"
  by (auto simp: fence_ok_def fits_record_def)

lemma fence_ok_send:
  assumes "fence_ok w" and "w_server w = Some r" and "holders_ok w" and "pt_uid p = ob_uid r" and "pt_version p = ob_version r"
  shows "fence_ok (send op (ob_holder r) p w)"
  using assms unfolding fence_ok_def holders_ok_def by auto

lemma requests_okI:
  assumes "\<And>rq. rq \<in> set (w_pending w) \<Longrightarrow> request_ok w rq"
    and "\<And>a rq rq'. w_phase w a \<noteq> Ended \<Longrightarrow> rq \<in> set (w_pending w) \<Longrightarrow> rq' \<in> set (w_pending w) \<Longrightarrow>
      rq_author rq = a \<Longrightarrow> rq_author rq' = a \<Longrightarrow> rq = rq'"
  shows "requests_ok w"
  unfolding requests_ok_def using assms by (blast intro: Uniq_I)

lemma requests_okD:
  assumes "requests_ok w"
  shows "rq \<in> set (w_pending w) \<Longrightarrow> request_ok w rq"
    "w_phase w a \<noteq> Ended \<Longrightarrow> rq \<in> set (w_pending w) \<Longrightarrow> rq' \<in> set (w_pending w) \<Longrightarrow>
      rq_author rq = a \<Longrightarrow> rq_author rq' = a \<Longrightarrow> rq = rq'"
  using assms unfolding requests_ok_def by (blast dest: Uniq_D)+

lemma request_ok_frame [simp]:
  "request_ok (set_file op f w) = request_ok w" "request_ok (write_record r w) = request_ok w" "request_ok (answered x w) = request_ok w"
  "request_ok (send op s q w) = request_ok w"
  by (simp_all add: request_ok_def fun_eq_iff)

lemma requests_ok_frame [simp]: "requests_ok (set_file op f w) = requests_ok w" "requests_ok (write_record r w) = requests_ok w"
  by (simp_all only: requests_ok_def request_ok_frame phase_simps)

lemma requests_ok_answered: "requests_ok w \<Longrightarrow> requests_ok (answered rq w)"
proof (rule requests_okI)
  fix a x y
  assume "requests_ok w" "w_phase (answered rq w) a \<noteq> Ended" "x \<in> set (w_pending (answered rq w))"
    "y \<in> set (w_pending (answered rq w))" "rq_author x = a" "rq_author y = a"
  then show "x = y" using requests_okD(2) [of w a x y] by simp
qed (simp add: requests_okD(1))

lemma requests_ok_move:
  assumes "requests_ok w" and "w_phase w op \<noteq> Ended" and "\<And>rq. rq \<in> set (w_pending w) \<Longrightarrow> rq_author rq \<noteq> op"
  shows "requests_ok (set_phase op p w)"
proof (rule requests_okI)
  fix rq assume rq: "rq \<in> set (w_pending (set_phase op p w))"
  have "request_ok w rq" "rq_author rq \<noteq> op" using rq assms requests_okD(1) by auto
  then show "request_ok (set_phase op p w) rq" using assms(2) unfolding request_ok_def by auto
next
  fix a rq rq'
  assume "w_phase (set_phase op p w) a \<noteq> Ended" "rq \<in> set (w_pending (set_phase op p w))"
    "rq' \<in> set (w_pending (set_phase op p w))" "rq_author rq = a" "rq_author rq' = a"
  then show "rq = rq'" using assms(3) [of rq] requests_okD(2) [OF assms(1), of a rq rq'] by (auto split: if_splits)
qed

lemma requests_ok_end:
  assumes "requests_ok w"
  shows "requests_ok (set_phase op Ended w)"
proof (rule requests_okI)
  fix rq assume "rq \<in> set (w_pending (set_phase op Ended w))"
  then have "request_ok w rq" using assms requests_okD(1) by simp
  then show "request_ok (set_phase op Ended w) rq" unfolding request_ok_def by (auto simp: waits_for_def)
next
  fix a rq rq'
  assume "w_phase (set_phase op Ended w) a \<noteq> Ended" "rq \<in> set (w_pending (set_phase op Ended w))"
    "rq' \<in> set (w_pending (set_phase op Ended w))" "rq_author rq = a" "rq_author rq' = a"
  then show "rq = rq'" using requests_okD(2) [OF assms, of a rq rq'] by (auto split: if_splits)
qed

lemma requests_ok_send:
  assumes "requests_ok w" and "\<And>rq. rq \<in> set (w_pending w) \<Longrightarrow> rq_author rq \<noteq> op"
    and "request_ok w \<lparr>rq_author = op, rq_seen = seen, rq_patch = p\<rparr>"
  shows "requests_ok (send op seen p w)"
proof (rule requests_okI)
  fix a rq rq'
  assume "w_phase (send op seen p w) a \<noteq> Ended" "rq \<in> set (w_pending (send op seen p w))"
    "rq' \<in> set (w_pending (send op seen p w))" "rq_author rq = a" "rq_author rq' = a"
  then show "rq = rq'" using assms(2) [of rq] assms(2) [of rq'] requests_okD(2) [OF assms(1), of a rq rq'] by auto
next
  fix rq assume "rq \<in> set (w_pending (send op seen p w))"
  then consider "rq = \<lparr>rq_author = op, rq_seen = seen, rq_patch = p\<rparr>" | "rq \<in> set (w_pending w)" by auto
  then show "request_ok (send op seen p w) rq" by cases (simp_all add: assms(3) requests_okD(1) [OF assms(1)])
qed

fun free_phase :: "phase \<Rightarrow> bool" where
  "free_phase Unborn = True"
| "free_phase (Trying _) = True"
| "free_phase (Holding _) = True"
| "free_phase (Leaving _) = True"
| "free_phase _ = False"

lemma free_waits: "free_phase ph \<Longrightarrow> \<not> waits_for ph rq"
  by (cases ph) (auto simp: waits_for_def)

lemma no_request:
  assumes "requests_ok w" and "free_phase (w_phase w op)" and "rq \<in> set (w_pending w)"
  shows "rq_author rq \<noteq> op"
  using requests_okD(1) [OF assms(1,3)] free_waits [OF assms(2)] unfolding request_ok_def by blast

lemma answered_alone:
  assumes "requests_ok w" and "rq \<in> set (w_pending w)" and "w_phase w (rq_author rq) \<noteq> Ended" and "rq' \<in> set (w_pending (answered rq w))"
  shows "rq_author rq' \<noteq> rq_author rq"
proof
  assume "rq_author rq' = rq_author rq"
  then have "rq = rq'" using requests_okD(2) [OF assms(1,3,2), of rq'] assms(4) by simp
  then show False using assms(4) by simp
qed

section \<open>Every step keeps the invariant\<close>

lemma mutation_invD:
  assumes "mutation_inv h w"
  shows "lives_ok h w" "holders_ok w" "fence_ok w" "requests_ok w"
  using assms unfolding mutation_inv_def by blast+

lemma inv_move_alone:
  assumes inv: "mutation_inv h w" and ph: "w_phase w op \<noteq> Unborn" "w_phase w op \<noteq> Ended"
    and alone: "\<And>rq. rq \<in> set (w_pending w) \<Longrightarrow> rq_author rq \<noteq> op"
    and p: "p \<noteq> Unborn" "p \<noteq> Ended" "\<And>x owner q. p = Recovering x owner q \<Longrightarrow> w_phase w owner = Ended \<and> owner \<noteq> op"
    and hold: "\<And>u. holds (set_phase op p w) op u \<Longrightarrow> holds w op u"
  shows "mutation_inv h (set_phase op p w)"
  unfolding mutation_inv_def
  using lives_ok_move [OF mutation_invD(1) [OF inv] ph p] holders_ok_move [OF mutation_invD(2) [OF inv] hold p(1)]
    mutation_invD(3) [OF inv] requests_ok_move [OF mutation_invD(4) [OF inv] ph(2) alone]
  by simp

lemma inv_move:
  assumes inv: "mutation_inv h w" and ph: "w_phase w op \<noteq> Unborn" "free_phase (w_phase w op)"
    and p: "p \<noteq> Unborn" "p \<noteq> Ended" "\<And>x owner q. p = Recovering x owner q \<Longrightarrow> w_phase w owner = Ended \<and> owner \<noteq> op"
    and hold: "\<And>u. holds (set_phase op p w) op u \<Longrightarrow> holds w op u"
  shows "mutation_inv h (set_phase op p w)"
  using inv ph(1) _ no_request [OF mutation_invD(4) [OF inv] ph(2)] p hold
  by (rule inv_move_alone) (use ph(2) in auto)

lemma inv_end:
  assumes inv: "mutation_inv h w" and "w_phase w op \<noteq> Unborn"
  shows "mutation_inv h (set_phase op Ended w)"
  unfolding mutation_inv_def
  using lives_ok_end [OF mutation_invD(1) [OF inv] assms(2)] mutation_invD(3) [OF inv] requests_ok_end [OF mutation_invD(4) [OF inv]]
    holders_ok_move [OF mutation_invD(2) [OF inv], of op Ended]
  by (simp add: holds_set_phase)

lemma inv_file: "mutation_inv h w \<Longrightarrow> w_phase w op = Ended \<Longrightarrow> mutation_inv h (set_file op f w)"
  unfolding mutation_inv_def by (simp add: lives_ok_file)

lemma inv_answered: "mutation_inv h w \<Longrightarrow> mutation_inv h (answered rq w)"
  unfolding mutation_inv_def by (simp add: fence_ok_answered requests_ok_answered)

lemma recovering_ended:
  assumes "mutation_inv h w" and "w_phase w op = Recovering x owner q"
  shows "w_phase w owner = Ended" "owner \<noteq> op"
proof -
  show "w_phase w owner = Ended" using mutation_invD(1) [OF assms(1)] assms(2) unfolding lives_ok_def by blast
  then show "owner \<noteq> op" using assms(2) by auto
qed

lemma inv_stop:
  assumes inv: "mutation_inv h w" and "w_phase w op \<noteq> Unborn"
  shows "mutation_inv h (stop op f w)"
proof -
  define w1 where "w1 = (case w_phase w op of Recovering _ owner _ \<Rightarrow> set_file owner (Some False) w | _ \<Rightarrow> w)"
  have "mutation_inv h w1" "w_phase w1 = w_phase w"
    using inv recovering_ended(1) [OF inv] by (auto simp: w1_def inv_file split: phase.splits)
  then have "mutation_inv h (set_phase op Ended w1)" using assms(2) inv_end [of h w1 op] by metis
  then show ?thesis by (simp add: stop_def w1_def [symmetric] inv_file)
qed

lemma inv_send:
  assumes inv: "mutation_inv h w" and server: "w_server w = Some r" and op: "\<And>rq. rq \<in> set (w_pending w) \<Longrightarrow> rq_author rq \<noteq> op"
    and p: "p = set_holder r v" and ok: "request_ok w \<lparr>rq_author = op, rq_seen = ob_holder r, rq_patch = p\<rparr>"
  shows "mutation_inv h (send op (ob_holder r) p w)"
proof -
  have "pt_uid p = ob_uid r" "pt_version p = ob_version r" using p by (simp_all add: set_holder_def fenced_patch_def)
  then show ?thesis
    using fence_ok_send [OF mutation_invD(3) [OF inv] server mutation_invD(2) [OF inv]]
      requests_ok_send [OF mutation_invD(4) [OF inv] op ok] mutation_invD(1,2) [OF inv]
    unfolding mutation_inv_def by simp
qed

lemma hold_round_Acquire:
  assumes "hold_round name pinned op remaining r = Acquire p"
  shows "p = set_holder r op" "ob_holder r = []"
  using assms unfolding hold_round_def by (auto split: if_splits sum.splits)

lemma hold_round_Occupied: "hold_round name pinned op remaining r = Occupied uid \<Longrightarrow> ob_holder r \<noteq> []"
  unfolding hold_round_def by (auto split: if_splits sum.splits)

lemma recover_local_Some:
  assumes "recover_local h files r = Inr (Some (owner, p))"
  shows "h (ob_holder r) = Some owner" "files owner = Some False" "p = set_holder r []"
  using assms unfolding recover_local_def by (auto split: option.splits bool.splits)

lemma release_round_Clear:
  assumes "release_round name u op server = Clear p"
  obtains r where "server = Some r" "ob_uid r = u" "ob_holder r = op" "p = set_holder r []"
  using assms unfolding release_round_def by (auto split: option.splits if_splits)

lemma set_holder_value [simp]: "pt_value (set_holder r v) = v" "pt_uid (set_holder r v) = ob_uid r"
  by (simp_all add: set_holder_def fenced_patch_def)

lemma inv_begin:
  assumes inv: "mutation_inv h w" and ph: "w_phase w op = Unborn" and op: "op \<noteq> []" "h op = Some op"
  shows "mutation_inv h (set_file op (Some True) (set_phase op (Trying pinned) w))"
proof -
  have "w_phase w op \<noteq> Recovering x op q" for x q using ph by simp
  moreover have "w_phase w a \<noteq> Recovering x op q" for a x q
    using mutation_invD(1) [OF inv] ph unfolding lives_ok_def by (metis phase.distinct(13))
  ultimately have "lives_ok h (set_file op (Some True) (set_phase op (Trying pinned) w))"
    using mutation_invD(1) [OF inv] op unfolding lives_ok_def by (auto simp: fun_upd_def)
  moreover have "holders_ok (set_phase op (Trying pinned) w)"
    using mutation_invD(2) [OF inv] by (rule holders_ok_move) (auto simp: holds_set_phase)
  moreover have "requests_ok (set_phase op (Trying pinned) w)"
    using requests_ok_move [OF mutation_invD(4) [OF inv] _ no_request [OF mutation_invD(4) [OF inv]], of op] ph by simp
  ultimately show ?thesis using mutation_invD(3) [OF inv] unfolding mutation_inv_def by simp
qed

lemma inv_take:
  assumes inv: "mutation_inv h w" and ph: "w_phase w op = Trying pinned" and server: "w_server w = Some r"
    and acq: "hold_round name pinned op remaining r = Acquire p"
  shows "mutation_inv h (send op (ob_holder r) p (set_phase op (Acquiring p) w))"
proof (rule inv_send)
  show "mutation_inv h (set_phase op (Acquiring p) w)"
    using inv by (rule inv_move) (use ph in \<open>auto simp: holds_set_phase\<close>)
  have "op \<noteq> []" using mutation_invD(1) [OF inv] ph unfolding lives_ok_def by auto
  then show "request_ok (set_phase op (Acquiring p) w) \<lparr>rq_author = op, rq_seen = ob_holder r, rq_patch = p\<rparr>"
    using hold_round_Acquire [OF acq] by (simp add: request_ok_def waits_for_def)
  show "p = set_holder r op" using hold_round_Acquire [OF acq] by simp
  show "w_server (set_phase op (Acquiring p) w) = Some r" using server by simp
  show "rq_author rq \<noteq> op" if "rq \<in> set (w_pending (set_phase op (Acquiring p) w))" for rq
    using that no_request [OF mutation_invD(4) [OF inv], of op rq] ph by simp
qed

lemma inv_recover:
  assumes inv: "mutation_inv h w" and ph: "w_phase w op = Trying pinned" and server: "w_server w = Some r"
    and occ: "hold_round name pinned op remaining r = Occupied uid" and rec: "recover_local h (w_files w) r = Inr (Some (owner, p))"
  shows "mutation_inv h (send op (ob_holder r) p (set_file owner (Some True) (set_phase op (Recovering uid owner p) w)))"
proof (rule inv_send)
  have lives: "lives_ok h w" using mutation_invD(1) [OF inv] .
  have known: "w_phase w (ob_holder r) \<noteq> Unborn"
    using holders_okD(6) [OF mutation_invD(2) [OF inv] server] hold_round_Occupied [OF occ] .
  then have owner: "owner = ob_holder r" using recover_local_Some(1) [OF rec] lives unfolding lives_ok_def by simp
  have ended: "w_phase w owner = Ended"
    using known owner recover_local_Some(2) [OF rec] lives unfolding lives_ok_def by fastforce
  then have other: "owner \<noteq> op" using ph by auto
  have moved: "mutation_inv h (set_phase op (Recovering uid owner p) w)"
    using inv by (rule inv_move) (use ph ended other in \<open>auto simp: holds_set_phase\<close>)
  then show "mutation_inv h (set_file owner (Some True) (set_phase op (Recovering uid owner p) w))"
    using ended other by (intro inv_file) simp_all
  show "request_ok (set_file owner (Some True) (set_phase op (Recovering uid owner p) w))
      \<lparr>rq_author = op, rq_seen = ob_holder r, rq_patch = p\<rparr>"
    using recover_local_Some(3) [OF rec] ended owner other by (simp add: request_ok_def waits_for_def)
  show "p = set_holder r []" using recover_local_Some(3) [OF rec] .
  show "w_server (set_file owner (Some True) (set_phase op (Recovering uid owner p) w)) = Some r" using server by simp
  show "rq_author rq \<noteq> op" if "rq \<in> set (w_pending (set_file owner (Some True) (set_phase op (Recovering uid owner p) w)))" for rq
    using that no_request [OF mutation_invD(4) [OF inv], of op rq] ph by simp
qed

lemma inv_clear:
  assumes inv: "mutation_inv h w" and ph: "w_phase w op = Leaving u" and clear: "release_round name u op (w_server w) = Clear p"
  shows "mutation_inv h (send op op p (set_phase op (Releasing u p) w))"
proof -
  obtain r where r: "w_server w = Some r" "ob_uid r = u" "ob_holder r = op" "p = set_holder r []"
    using clear by (rule release_round_Clear)
  have "mutation_inv h (send op (ob_holder r) p (set_phase op (Releasing u p) w))"
  proof (rule inv_send)
    show "mutation_inv h (set_phase op (Releasing u p) w)"
      using inv by (rule inv_move) (use ph in \<open>auto simp: holds_def\<close>)
    show "request_ok (set_phase op (Releasing u p) w) \<lparr>rq_author = op, rq_seen = ob_holder r, rq_patch = p\<rparr>"
      using r(3,4) by (simp add: request_ok_def waits_for_def)
    show "p = set_holder r []" using r(4) .
    show "w_server (set_phase op (Releasing u p) w) = Some r" using r(1) by simp
    show "rq_author rq \<noteq> op" if "rq \<in> set (w_pending (set_phase op (Releasing u p) w))" for rq
      using that no_request [OF mutation_invD(4) [OF inv], of op rq] ph by simp
  qed
  then show ?thesis using r(3) by simp
qed

lemma inv_store:
  assumes inv: "mutation_inv h w" and "ob_uid r \<in> set (w_uids w)" and "\<And>op. holds w op (ob_uid r) \<Longrightarrow> ob_holder r = op"
    and "ob_holder r \<noteq> [] \<Longrightarrow> w_phase w (ob_holder r) \<noteq> Unborn"
  shows "mutation_inv h (write_record r w)"
  using holders_ok_store [OF mutation_invD(2) [OF inv] assms(2-4)] fence_ok_store [OF mutation_invD(3) [OF inv]]
    mutation_invD(1,4) [OF inv] unfolding mutation_inv_def by simp

lemma inv_answer_move:
  assumes reqs: "requests_ok w" and rq: "rq \<in> set (w_pending w)" and inv: "mutation_inv h w'"
    and same: "w_pending w' = w_pending (answered rq w)" "w_phase w' = w_phase w"
    and ph: "w_phase w (rq_author rq) \<noteq> Unborn" "w_phase w (rq_author rq) \<noteq> Ended"
    and p: "p \<noteq> Unborn" "p \<noteq> Ended" "\<And>x owner q. p \<noteq> Recovering x owner q"
    and hold: "\<And>u. holds (set_phase (rq_author rq) p w') (rq_author rq) u \<Longrightarrow> holds w' (rq_author rq) u"
  shows "mutation_inv h (set_phase (rq_author rq) p w')"
proof (rule inv_move_alone [OF inv _ _ _ p(1,2) _ hold])
  show "w_phase w' (rq_author rq) \<noteq> Unborn" "w_phase w' (rq_author rq) \<noteq> Ended" unfolding same(2) using ph by blast+
  show "rq_author x \<noteq> rq_author rq" if "x \<in> set (w_pending w')" for x
    using answered_alone [OF reqs rq ph(2)] that unfolding same(1) .
qed (use p(3) in blast)+

lemma inv_conflict:
  assumes inv: "mutation_inv h w" and rq: "rq \<in> set (w_pending w)"
  shows "mutation_inv h (on_conflict rq (answered rq w))"
proof -
  let ?op = "rq_author rq" and ?w = "answered rq w"
  have inv': "mutation_inv h ?w" using inv by (rule inv_answered)
  note reqs = mutation_invD(4) [OF inv]
  show ?thesis
  proof (cases "w_phase w ?op")
    case (Acquiring q)
    have "mutation_inv h (set_phase ?op (Trying (pt_uid (rq_patch rq))) ?w)"
      by (rule inv_answer_move [OF reqs rq inv']) (use Acquiring in \<open>auto simp: holds_set_phase\<close>)
    then show ?thesis using Acquiring inv' by (simp add: on_conflict_def Let_def)
  next
    case (Releasing u q)
    have "mutation_inv h (set_phase ?op (Leaving u) ?w)"
      by (rule inv_answer_move [OF reqs rq inv']) (use Releasing in \<open>auto simp: holds_def\<close>)
    then show ?thesis using Releasing inv' by (simp add: on_conflict_def Let_def)
  next
    case (Recovering x owner q)
    have "mutation_inv h (set_phase ?op (Trying x) ?w)"
      by (rule inv_answer_move [OF reqs rq inv']) (use Recovering in \<open>auto simp: holds_set_phase\<close>)
    then have "mutation_inv h (set_file owner (Some False) (set_phase ?op (Trying x) ?w))"
      using recovering_ended [OF inv Recovering] by (intro inv_file) simp_all
    then show ?thesis using Recovering inv' by (simp add: on_conflict_def Let_def)
  qed (use inv' in \<open>simp_all add: on_conflict_def Let_def\<close>)
qed

lemma no_holder:
  assumes "mutation_inv h w" and "w_server w = Some r" and "w_phase w (ob_holder r) \<in> {Unborn, Ended}"
  shows "\<not> holds w op (ob_uid r)"
  using holders_okD(5) [OF mutation_invD(2) [OF assms(1)] assms(2), of op] holds_phase [of w op "ob_uid r"] assms(3) by auto

lemma holders_ok_take:
  assumes ok: "holders_ok w" and server: "w_server w = Some r" "ob_holder r = op" and none: "\<And>a. \<not> holds w a (ob_uid r)"
  shows "holders_ok (set_phase op (Holding (ob_uid r)) w)"
proof -
  let ?w = "set_phase op (Holding (ob_uid r)) w"
  have new: "a = op" if "holds ?w a (ob_uid r)" for a using that none [of a] by (cases "a = op") (simp_all add: holds_set_phase)
  have old: "holds w a u" if "holds ?w a u" "u \<noteq> ob_uid r" for a u
    using that by (cases "a = op") (simp_all add: holds_set_phase)
  have "u \<in> set (w_uids ?w)" if "holds ?w a u" for a u
    using holders_okD(1) [OF ok old [OF that]] holders_okD(3) [OF ok server(1)] by (cases "u = ob_uid r") auto
  moreover have "a = b" if "holds ?w a u" "holds ?w b u" for a b u
    using new [of a] new [of b] holders_okD(2) [OF ok old old, of a u b] that by (cases "u = ob_uid r") auto
  moreover have "ob_holder r = a" if "holds ?w a (ob_uid r)" for a using new [OF that] server(2) by simp
  ultimately show ?thesis
    using holders_okD(3,4,6) [OF ok server(1)] server unfolding holders_ok_def by (intro conjI allI impI Uniq_I) auto
qed

lemma inv_apply:
  assumes inv: "mutation_inv h w" and rq: "rq \<in> set (w_pending w)" and server: "w_server w = Some r"
    and match: "fits_record (rq_patch rq) r"
  shows "mutation_inv h (on_applied rq (answered rq (write_record (r\<lparr>ob_holder := pt_value (rq_patch rq)\<rparr>) w)))"
proof -
  let ?op = "rq_author rq" and ?v = "pt_value (rq_patch rq)"
  let ?r = "r\<lparr>ob_holder := ?v\<rparr>"
  let ?w = "answered rq (write_record ?r w)"
  note lives = mutation_invD(1) [OF inv] and reqs = mutation_invD(4) [OF inv]
  have seen: "ob_holder r = rq_seen rq" using mutation_invD(3) [OF inv] rq server match unfolding fence_ok_def by blast
  have uid: "ob_uid r \<in> set (w_uids w)" "ob_uid r = pt_uid (rq_patch rq)"
    using holders_okD(3) [OF mutation_invD(2) [OF inv] server] match by (simp_all add: fits_record_def)
  have ok: "request_ok w rq" using requests_okD(1) [OF reqs rq] .
  have waits: "waits_for (w_phase w ?op) rq" using ok unfolding request_ok_def by blast
  then have author: "w_phase w ?op \<noteq> Unborn" using free_waits [of Unborn rq] by force
  have alone: "rq_author x \<noteq> ?op" if "w_phase w ?op \<noteq> Ended" "x \<in> set (w_pending ?w)" for x
    using answered_alone [OF reqs rq that(1)] that(2) unfolding phase_simps .
  have stored: "mutation_inv h ?w" if "\<And>a. \<not> holds w a (ob_uid r)"
    using that uid author ok by (intro inv_answered inv_store [OF inv]) (auto simp: request_ok_def)
  show ?thesis
  proof (cases "?v = []")
    case False
    then have val: "?v = ?op" "rq_seen rq = []" using ok unfolding request_ok_def by blast+
    have none: "\<not> holds w a (ob_uid r)" for a
      using no_holder [OF inv server] seen val(2) lives unfolding lives_ok_def by simp
    show ?thesis
    proof (cases "w_phase w ?op")
      case (Acquiring q)
      then have q: "q = rq_patch rq" using ok False unfolding request_ok_def waits_for_def by auto
      have inv': "mutation_inv h ?w" using none by (rule stored)
      have "holders_ok (set_phase ?op (Holding (ob_uid r)) ?w)"
        using holders_ok_take [OF mutation_invD(2) [OF inv'], of "?r\<lparr>ob_version := w_versions w\<rparr>" ?op] none val(1) by simp
      moreover have "lives_ok h (set_phase ?op (Holding (ob_uid r)) ?w)"
        using mutation_invD(1) [OF inv'] Acquiring by (intro lives_ok_move) simp_all
      moreover have "requests_ok (set_phase ?op (Holding (ob_uid r)) ?w)"
        by (rule requests_ok_move [OF mutation_invD(4) [OF inv'] _ alone]) (use Acquiring in simp_all)
      ultimately have "mutation_inv h (set_phase ?op (Holding (ob_uid r)) ?w)"
        using mutation_invD(3) [OF inv'] unfolding mutation_inv_def by simp
      then show ?thesis using Acquiring q uid(2) by (simp add: on_applied_def Let_def)
    qed (use stored [OF none] ok False in \<open>auto simp: on_applied_def Let_def request_ok_def waits_for_def\<close>)
  next
    case True
    have cleared: "w_phase w (rq_seen rq) = Ended \<or> ?op = rq_seen rq \<and> (\<exists>u. w_phase w ?op = Releasing u (rq_patch rq))"
      using ok True unfolding request_ok_def by blast
    show ?thesis
    proof (cases "w_phase w (rq_seen rq) = Ended")
      case ended: True
      have none: "\<not> holds w a (ob_uid r)" for a using no_holder [OF inv server] seen ended by simp
      have inv': "mutation_inv h ?w" using none by (rule stored)
      show ?thesis
      proof (cases "w_phase w ?op")
        case (Recovering x owner q)
        have "mutation_inv h (set_phase ?op (Trying x) ?w)"
          by (rule inv_answer_move [OF reqs rq inv']) (use Recovering in \<open>auto simp: holds_set_phase\<close>)
        then have "mutation_inv h (set_file owner None (set_phase ?op (Trying x) ?w))"
          using recovering_ended [OF inv Recovering] by (intro inv_file) simp_all
        then show ?thesis using Recovering inv' by (simp add: on_applied_def Let_def)
      next
        case (Releasing u q)
        then have "rq_seen rq = ?op" using ok unfolding request_ok_def waits_for_def by auto
        then show ?thesis using ended Releasing by simp
      qed (use inv' ok True in \<open>auto simp: on_applied_def Let_def request_ok_def waits_for_def\<close>)
    next
      case False
      then obtain u where own: "?op = rq_seen rq" "w_phase w ?op = Releasing u (rq_patch rq)" using cleared by blast
      have inv1: "mutation_inv h (set_phase ?op Ended w)" using inv author by (rule inv_end)
      have none: "\<not> holds (set_phase ?op Ended w) a (ob_uid r)" for a
        using no_holder [OF inv1, of r a] server seen own(1) by simp
      have "mutation_inv h (write_record ?r (set_phase ?op Ended w))"
        by (rule inv_store [OF inv1]) (use none uid True in auto)
      then have "mutation_inv h (set_file ?op None (answered rq (write_record ?r (set_phase ?op Ended w))))"
        by (intro inv_file inv_answered) simp_all
      moreover have swap: "set_phase ?op Ended ?w = answered rq (write_record ?r (set_phase ?op Ended w))"
        by (simp add: set_phase_def answered_def write_record_def)
      moreover have "on_applied rq ?w = set_file ?op None (set_phase ?op Ended ?w)" using own(2) by (simp add: on_applied_def Let_def)
      ultimately show ?thesis by metis
    qed
  qed
qed

lemma inv_other_write:
  assumes inv: "mutation_inv h w" and server: "w_server w = Some r"
  shows "mutation_inv h (write_record (r\<lparr>ob_deleting := b\<rparr>) w)"
  using holders_okD(3,5,6) [OF mutation_invD(2) [OF inv] server] by (intro inv_store [OF inv]) auto

lemma inv_delete: "mutation_inv h w \<Longrightarrow> mutation_inv h (w\<lparr>w_server := None\<rparr>)"
  unfolding mutation_inv_def lives_ok_def holders_ok_def fence_ok_def requests_ok_def request_ok_def holds_def by simp

lemma inv_create:
  assumes inv: "mutation_inv h w" and "w_server w = None" and fresh: "uid \<notin> set (w_uids w)"
  shows "mutation_inv h (write_record \<lparr>ob_uid = uid, ob_version = 0, ob_deleting = False, ob_holder = []\<rparr> (w\<lparr>w_uids := uid # w_uids w\<rparr>))"
proof -
  let ?w = "w\<lparr>w_uids := uid # w_uids w\<rparr>"
  have same: "holds ?w a u = holds w a u" for a u by (simp add: holds_def)
  have "holders_ok ?w"
    unfolding holders_ok_def same using mutation_invD(2) [OF inv] assms(2) unfolding holders_ok_def by auto
  moreover have "lives_ok h ?w" using mutation_invD(1) [OF inv] by (simp add: lives_ok_def)
  moreover have "fence_ok ?w" using mutation_invD(3) [OF inv] by (auto simp: fence_ok_def)
  moreover have "requests_ok ?w" using mutation_invD(4) [OF inv] by (simp add: requests_ok_def request_ok_def)
  ultimately have "mutation_inv h ?w" unfolding mutation_inv_def by simp
  then show ?thesis
    by (rule inv_store) (use holders_okD(1) [OF mutation_invD(2) [OF inv]] fresh same in auto)
qed

lemma mutation_inv_step:
  assumes step: "mutation_step h name w w'" and inv: "mutation_inv h w"
  shows "mutation_inv h w'"
  using step
proof cases
  case (begin_operation op pinned)
  then show ?thesis using inv_begin [OF inv] by simp
next
  case (take op pinned r remaining p)
  then show ?thesis using inv_take [OF inv] by simp
next
  case (wait op pinned r remaining uid)
  have "mutation_inv h (set_phase op (Trying uid) w)"
    using inv by (rule inv_move) (use wait in \<open>auto simp: holds_set_phase\<close>)
  then show ?thesis using wait by simp
next
  case (recover op pinned r remaining uid owner p)
  then show ?thesis using inv_recover [OF inv] by simp
next
  case (apply_patch rq r)
  then show ?thesis using inv_apply [OF inv] by simp
next
  case (conflict rq)
  then show ?thesis using inv_conflict [OF inv] by simp
next
  case (give_up op pinned owner p)
  then show ?thesis using inv_stop [OF inv, of op] by auto
next
  case (uncertain op p)
  then show ?thesis using inv_stop [OF inv, of op] by auto
next
  case (finish_body op u)
  have "mutation_inv h (set_phase op (Leaving u) w)"
    using inv by (rule inv_move) (use finish_body in \<open>auto simp: holds_def\<close>)
  then show ?thesis using finish_body by simp
next
  case (released op u)
  then show ?thesis using inv_stop [OF inv, of op] by auto
next
  case (clear_holder op u p)
  then show ?thesis using inv_clear [OF inv] by simp
next
  case (exit op)
  then show ?thesis using inv_stop [OF inv, of op] by auto
next
  case (other_write r b)
  then show ?thesis using inv_other_write [OF inv] by simp
next
  case delete
  then show ?thesis using inv_delete [OF inv] by simp
next
  case (create uid)
  then show ?thesis using inv_create [OF inv] by simp
qed

lemma mutation_inv_initial: "initial_world w \<Longrightarrow> mutation_inv h w"
  unfolding initial_world_def mutation_inv_def lives_ok_def holders_ok_def fence_ok_def requests_ok_def holds_def
  by (simp add: Uniq_def)

interpretation locks: inductive_invariant initial_world "mutation_step h name" "mutation_inv h" for h name
  by unfold_locales (auto intro: mutation_inv_initial mutation_inv_step)

section \<open>Properties of the lock\<close>

text \<open>C2: Whatever operations, subprocesses, recoveries, lost answers and other writers do, at most one operation holds an
  instance identity, and as long as the instance exists its record names that operation as the holder.\<close>

theorem mutation_exclusive:
  assumes "reachable initial_world (mutation_step uuid_hex name) w" and "holds w op u"
  shows "(\<forall>other. holds w other u \<longrightarrow> other = op) \<and>
    (\<forall>r. w_server w = Some r \<longrightarrow> ob_uid r = u \<longrightarrow> ob_holder r = op)"
proof -
  have ok: "holders_ok w" using locks.reachable_inv [OF assms(1)] by (rule mutation_invD(2))
  then show ?thesis using holders_okD(2,5) [OF ok] assms(2) by blast
qed

definition demo_start :: world where
  "demo_start = \<lparr>w_server = None, w_pending = [], w_files = (\<lambda>_. None), w_phase = (\<lambda>_. Unborn), w_versions = 0, w_uids = []\<rparr>"

definition demo_record :: observed where
  "demo_record = \<lparr>ob_uid = ''u'', ob_version = 0, ob_deleting = False, ob_holder = []\<rparr>"

definition demo_waiting :: world where
  "demo_waiting = send ''a'' [] (set_holder demo_record ''a'') (set_phase ''a'' (Acquiring (set_holder demo_record ''a''))
     (set_file ''a'' (Some True) (set_phase ''a'' (Trying []) (write_record demo_record (demo_start\<lparr>w_uids := [''u'']\<rparr>)))))"

lemma demo_waiting_reachable: "reachable initial_world (mutation_step Some ''web'') demo_waiting"
proof -
  let ?w1 = "write_record demo_record (demo_start\<lparr>w_uids := [''u'']\<rparr>)"
  let ?w2 = "set_file ''a'' (Some True) (set_phase ''a'' (Trying []) ?w1)"
  have "reachable initial_world (mutation_step Some ''web'') demo_start"
    by (rule reach_start) (simp add: demo_start_def initial_world_def)
  moreover have "mutation_step Some ''web'' demo_start ?w1"
    using mutation_step.create [of demo_start "''u''" Some "''web''"] by (simp add: demo_start_def demo_record_def)
  moreover have "mutation_step Some ''web'' ?w1 ?w2"
    by (rule mutation_step.begin_operation) (simp_all add: demo_start_def)
  moreover have "w_server ?w2 = Some demo_record" by (simp add: demo_start_def demo_record_def)
  then have "mutation_step Some ''web'' ?w2 demo_waiting"
    using mutation_step.take [of ?w2 "''a''" "[]" demo_record "''web''" 1 "set_holder demo_record ''a''" Some]
    by (simp add: demo_waiting_def hold_round_def read_instance_def demo_record_def)
  ultimately show ?thesis by (meson reach_step)
qed

definition demo_take :: holder_request where
  "demo_take = \<lparr>rq_author = ''a'', rq_seen = [], rq_patch = set_holder demo_record ''a''\<rparr>"

definition demo_held :: world where
  "demo_held = on_applied demo_take (answered demo_take (write_record (demo_record\<lparr>ob_holder := ''a''\<rparr>) demo_waiting))"

theorem mutation_exclusive_witness:
  "{op. holds demo_held op ''u''} = {''a''}"
proof -
  have "mutation_step Some ''web'' demo_waiting demo_held"
    using mutation_step.apply_patch [of demo_take demo_waiting demo_record Some "''web''"]
    by (simp add: demo_held_def demo_take_def demo_waiting_def demo_start_def fits_record_def set_holder_def fenced_patch_def demo_record_def)
  then have reach: "reachable initial_world (mutation_step Some ''web'') demo_held"
    using demo_waiting_reachable by (rule reach_step [rotated])
  have held: "holds demo_held ''a'' ''u''"
    by (simp add: holds_def demo_held_def on_applied_def demo_take_def demo_waiting_def demo_record_def Let_def)
  show ?thesis using mutation_exclusive [OF reach held] held by blast
qed

end
