(* ===== verification/Instances.thy ===== *)
theory Instances
  imports Manifest Deployment_Mutation
begin

text \<open>
  Deployment instances (\<open>deployment/instances.py\<close>): reading the record of an instance under a pinned uid, creating it,
  requesting an update, waiting for its controller, deleting it, binding a deployment's objects to it, and
  recovering the deployment from the members it records. A loop before a deadline takes the list of its iterations,
  each with what the API server answered; the end of the list is the deadline.
\<close>

record inst =
  in_ns :: string
  in_name :: string
  in_uid :: string
  in_resource :: "json option"

definition deployment_api_version :: string where
  "deployment_api_version = ''inference.foretoken.io/v1alpha1''"

definition deployment_uid_label :: string where
  "deployment_uid_label = ''inference.foretoken.io/deployment-uid''"

definition instance_error :: "string \<Rightarrow> inst \<Rightarrow> string \<Rightarrow> cli_error + 'a" where
  "instance_error before i after = deploy_fail (before @ ''deployment instance '' @ quoted (in_name i) @ after)"

text \<open>\<open>storage_only_instance\<close>.\<close>

definition storage_reference :: "json \<Rightarrow> py_error + bool" where
  "storage_reference reference =
     rbind (jitem reference ''apiVersion'') (\<lambda>version. rbind (jitem reference ''kind'') (\<lambda>kind.
       Inr ((version, kind) \<in> {(JStr deployment_api_version, JStr ''RuntimeCache''), (JStr ''v1'', JStr ''PersistentVolumeClaim'')})))"

fun all_list :: "('a \<Rightarrow> 'e + bool) \<Rightarrow> 'a list \<Rightarrow> 'e + bool" where
  "all_list f [] = Inr True"
| "all_list f (x # xs) = rbind (f x) (\<lambda>b. if b then all_list f xs else Inr False)"

definition storage_only_instance :: "json \<Rightarrow> py_error + bool" where
  "storage_only_instance resource =
     rbind (jget resource ''spec'' (JObj [])) (\<lambda>spec.
     rbind (jget spec ''resources'' (JList [])) (\<lambda>references.
     rbind (jget spec ''updateID'' JNull) (\<lambda>update.
     if \<not> jtrue update then Inr False
     else rbind (jiter references) (all_list storage_reference))))"

definition controller_name :: "inst \<Rightarrow> string" where
  "controller_name i = ''foretoken-'' @ in_uid i"

text \<open>\<open>read\<close>; \<open>current\<close> is the answer of the API server.\<close>

definition read_deployment :: "inst \<Rightarrow> bool \<Rightarrow> json option \<Rightarrow> cli_error + json option \<times> inst" where
  "read_deployment i required current =
     (case current of
        None \<Rightarrow> if required then instance_error [] i '' was not found'' else Inr (None, i)
      | Some v \<Rightarrow>
          rbind (raising (jitem v ''metadata'')) (\<lambda>metadata.
          rbind (raising (text_item metadata ''uid'')) (\<lambda>uid.
          if in_uid i \<noteq> [] \<and> uid \<noteq> in_uid i then instance_error ''DeploymentSuperseded: '' i '' was replaced''
          else Inr (Some v, i\<lparr>in_uid := uid, in_resource := Some v\<rparr>))))"

definition read_required :: "inst \<Rightarrow> json option \<Rightarrow> cli_error + json \<times> inst" where
  "read_required i current = rbind (read_deployment i True current) (\<lambda>(v, i'). Inr (the v, i'))"

definition being_deleted :: "json \<Rightarrow> py_error + bool" where
  "being_deleted v = rbind (jitem v ''metadata'') (\<lambda>m. rbind (jget m ''deletionTimestamp'' JNull) (\<lambda>t. Inr (jtrue t)))"

text \<open>\<open>ensure\<close>: the document it creates, and what it does with the answer. The result says whether it created the record.\<close>

definition instance_document :: "inst \<Rightarrow> json list \<Rightarrow> json" where
  "instance_document i references =
     JObj [(''apiVersion'', JStr deployment_api_version), (''kind'', JStr deployment_kind),
       (''metadata'', JObj [(''name'', JStr (in_name i)), (''namespace'', JStr (in_ns i))]),
       (''spec'', JObj [(''resources'', JList references)])]"

definition ensure ::
  "inst \<Rightarrow> foretoken_deployment \<Rightarrow> json option \<Rightarrow> (json \<Rightarrow> deploy_error + json) \<Rightarrow> json option \<Rightarrow> cli_error + bool \<times> inst" where
  "ensure i d current create later =
     rbind (read_deployment i False current) (\<lambda>(v, i1).
     case v of
       Some r \<Rightarrow>
         rbind (raising (being_deleted r)) (\<lambda>gone.
         if gone then instance_error [] i '' is being deleted'' else Inr (False, i1))
     | None \<Rightarrow>
         if in_uid i1 \<noteq> [] then instance_error ''DeploymentSuperseded: '' i '' was deleted''
         else
           rbind (raising (resource_references d)) (\<lambda>references.
           case create (instance_document i1 references) of
             Inl e \<Rightarrow>
               if \<not> contains ''(AlreadyExists)'' (error_text e) then Inl (Deploy e)
               else rbind (read_required i1 later) (\<lambda>(_, i2). Inr (False, i2))
           | Inr r \<Rightarrow>
               rbind (raising (jitem r ''metadata'')) (\<lambda>m. rbind (raising (text_item m ''uid'')) (\<lambda>uid.
                 Inr (True, i1\<lparr>in_uid := uid, in_resource := Some r\<rparr>)))))"

text \<open>\<open>request\<close>: one fenced patch per iteration.\<close>

definition request_document :: "inst \<Rightarrow> json list \<Rightarrow> string \<Rightarrow> string \<Rightarrow> json \<Rightarrow> py_error + json" where
  "request_document i references update_id revision current =
     rbind (jitem current ''metadata'') (\<lambda>m. rbind (jitem m ''resourceVersion'') (\<lambda>rv.
       Inr (JObj [(''metadata'', JObj [(''uid'', JStr (in_uid i)), (''resourceVersion'', rv)]),
         (''spec'', JObj [(''updateID'', JStr update_id), (''controllerSourceRevision'', JStr revision), (''resources'', JList references)])])))"

fun request_update ::
  "inst \<Rightarrow> foretoken_deployment \<Rightarrow> string \<Rightarrow> string \<Rightarrow> (json option \<times> (json \<Rightarrow> deploy_error + json)) list \<Rightarrow> cli_error + inst" where
  "request_update i d update_id revision [] =
     deploy_fail (''timed out updating deployment instance '' @ quoted (in_name i))"
| "request_update i d update_id revision ((current, patch) # rounds) =
     rbind (read_required i current) (\<lambda>(v, i1).
     rbind (raising (being_deleted v)) (\<lambda>gone.
     if gone then instance_error [] i '' is being deleted''
     else
       rbind (raising (resource_references d)) (\<lambda>references.
       rbind (raising (request_document i1 references update_id revision v)) (\<lambda>payload.
       case patch payload of
         Inr r \<Rightarrow> Inr (i1\<lparr>in_resource := Some r\<rparr>)
       | Inl (VersionConflict m) \<Rightarrow> request_update i1 d update_id revision rounds
       | Inl e \<Rightarrow> Inl (Deploy e)))))"

text \<open>\<open>wait_ready\<close>.\<close>

definition request_identity :: "json \<Rightarrow> py_error + json \<times> json \<times> json" where
  "request_identity v =
     rbind (jitem v ''metadata'') (\<lambda>m. rbind (jitem m ''uid'') (\<lambda>uid. rbind (jitem m ''generation'') (\<lambda>generation.
     rbind (jget v ''spec'' (JObj [])) (\<lambda>spec. rbind (jget spec ''updateID'' (JStr [])) (\<lambda>update.
       Inr (uid, generation, update))))))"

fun ready_condition :: "json list \<Rightarrow> py_error + json option" where
  "ready_condition [] = Inr None"
| "ready_condition (c # cs) = rbind (jitem c ''type'') (\<lambda>t. if t = JStr ''Ready'' then Inr (Some c) else ready_condition cs)"

definition ready_message :: "json \<Rightarrow> json option \<Rightarrow> py_error + json" where
  "ready_message message ready =
     (case ready of
        None \<Rightarrow> Inr message
      | Some c \<Rightarrow> rbind (jget c ''message'' JNull) (\<lambda>a. rbind (jget c ''reason'' JNull) (\<lambda>b. Inr (jor a (jor b message)))))"

text \<open>What one observation means: a rejected configuration, the controller revision, or nothing yet.\<close>

datatype verdict = Rejected | Revision json | Waiting

definition judge :: "json \<Rightarrow> json \<Rightarrow> json option \<Rightarrow> py_error + verdict" where
  "judge generation status ready =
     rbind (jget status ''observedGeneration'' JNull) (\<lambda>seen.
     case ready of
       None \<Rightarrow> Inr Waiting
     | Some c \<Rightarrow>
         if seen \<noteq> generation then Inr Waiting
         else
           rbind (jget c ''observedGeneration'' JNull) (\<lambda>condition_seen.
           if condition_seen \<noteq> generation then Inr Waiting
           else
             rbind (jitem c ''status'') (\<lambda>s.
             if s = JStr ''False'' then Inr Rejected
             else if s = JStr ''True'' then
               rbind (jget status ''controllerRevision'' JNull) (\<lambda>revision.
                 Inr (if jtrue revision then Revision revision else Waiting))
             else Inr Waiting)))"

definition observe_ready :: "json \<times> json \<times> json \<Rightarrow> inst \<Rightarrow> json \<Rightarrow> json \<Rightarrow> cli_error + json \<times> verdict" where
  "observe_ready expected i message current =
     rbind (raising (request_identity current)) (\<lambda>observed.
     if observed \<noteq> expected then instance_error ''DeploymentSuperseded: '' i '' has a newer request''
     else
       rbind (raising (being_deleted current)) (\<lambda>gone.
       if gone then instance_error [] i '' is being deleted''
       else
         rbind (raising (jget current ''status'' JNull)) (\<lambda>status.
         rbind (raising (rbind (jget (jor status (JObj [])) ''conditions'' (JList [])) jiter)) (\<lambda>conditions.
         rbind (raising (ready_condition conditions)) (\<lambda>ready.
         rbind (raising (ready_message message ready)) (\<lambda>message'.
         rbind (raising (judge (fst (snd expected)) (jor status (JObj [])) ready)) (\<lambda>verdict.
           Inr (message', verdict))))))))"

fun wait_rounds ::
  "(json \<Rightarrow> string) \<Rightarrow> json \<times> json \<times> json \<Rightarrow> inst \<Rightarrow> json \<Rightarrow> (json option \<times> (cli_error + unit)) list \<Rightarrow> cli_error + json" where
  "wait_rounds str expected i message [] =
     deploy_fail (''timed out waiting for deployment instance '' @ quoted (in_name i) @ '': '' @ str message)"
| "wait_rounds str expected i message ((current, observe) # rounds) =
     rbind (read_required i current) (\<lambda>(v, i1).
     rbind observe (\<lambda>_.
     rbind (observe_ready expected i1 message v) (\<lambda>(message', verdict).
     case verdict of
       Rejected \<Rightarrow> instance_error [] i ('' rejected its configuration: '' @ str message')
     | Revision revision \<Rightarrow> Inr revision
     | Waiting \<Rightarrow> wait_rounds str expected i1 message' rounds)))"

definition wait_ready :: "(json \<Rightarrow> string) \<Rightarrow> inst \<Rightarrow> (json option \<times> (cli_error + unit)) list \<Rightarrow> cli_error + json" where
  "wait_ready str i rounds =
     (case in_resource i of
        None \<Rightarrow> Inl (Raised (ValueError ''deployment request must be read or submitted before waiting''))
      | Some r \<Rightarrow> rbind (raising (request_identity r)) (\<lambda>expected.
          wait_rounds str expected i (JStr ''Waiting for the deployment controller'') rounds))"

text \<open>\<open>delete\<close>: what an iteration decides. The last component of a round is the read after a failed deletion.\<close>

datatype deletion_end = Gone | Deleting

fun delete_rounds ::
  "inst \<Rightarrow> (json option \<times> (json \<Rightarrow> cli_error + unit) \<times> (cli_error + json option)) list \<Rightarrow> cli_error + deletion_end \<times> inst" where
  "delete_rounds i [] = deploy_fail (''timed out deleting deployment instance '' @ quoted (in_name i))"
| "delete_rounds i ((current, delete, later) # rounds) =
     rbind (read_deployment i False current) (\<lambda>(v, i1).
     case v of
       None \<Rightarrow> Inr (Gone, i1)
     | Some r \<Rightarrow>
         rbind (raising (being_deleted r)) (\<lambda>gone.
         if gone then Inr (Deleting, i1)
         else case delete r of
           Inr _ \<Rightarrow> Inr (Deleting, i1)
         | Inl (Deploy (VersionConflict _)) \<Rightarrow> delete_rounds i1 rounds
         | Inl (Deploy e) \<Rightarrow>
             rbind later (\<lambda>remaining.
             case remaining of
               None \<Rightarrow> Inr (Gone, i1)
             | Some r' \<Rightarrow>
                 rbind (raising (jitem r' ''metadata'')) (\<lambda>m. rbind (raising (jitem m ''uid'')) (\<lambda>uid.
                   if uid = JStr (in_uid i1) then Inl (Deploy e) else Inr (Gone, i1))))
         | Inl e \<Rightarrow> Inl e))"

definition delete_instance ::
  "inst \<Rightarrow> bool \<Rightarrow> (json option \<times> (json \<Rightarrow> cli_error + unit) \<times> (cli_error + json option)) list \<Rightarrow> (inst \<Rightarrow> cli_error + unit) \<Rightarrow> cli_error + unit" where
  "delete_instance i wait rounds waiting =
     rbind (delete_rounds i rounds) (\<lambda>(answer, i1). if answer = Deleting \<and> wait then waiting i1 else Inr ())"

definition wait_instance_deleted :: "inst \<Rightarrow> json option \<Rightarrow> (json \<Rightarrow> cli_error + unit) \<Rightarrow> cli_error + unit" where
  "wait_instance_deleted i current wait =
     rbind (if in_uid i = [] then read_deployment i False current else Inr (Some JNull, i)) (\<lambda>(v, i1).
     if v = None then Inr ()
     else wait (JObj [(''name'', JStr (in_name i1)), (''namespace'', JStr (in_ns i1)), (''uid'', JStr (in_uid i1))]))"

text \<open>\<open>access\<close>.\<close>

definition access :: "(string \<Rightarrow> cli_error + json) \<Rightarrow> inst \<Rightarrow> json option \<Rightarrow> (string \<Rightarrow> cli_error + json option) \<Rightarrow> cli_error + json" where
  "access loads i current configmap =
     rbind (read_required i current) (\<lambda>(_, i1).
     rbind (configmap (controller_name i1)) (\<lambda>configuration.
     rbind (raising (rbind (jget (jor (case configuration of None \<Rightarrow> JNull | Some c \<Rightarrow> c) (JObj [])) ''data'' (JObj []))
       (\<lambda>entries. jget entries ''deployment-access.json'' JNull))) (\<lambda>payload.
     case payload of
       JStr s \<Rightarrow> if s = [] then deploy_fail (''deployment access for '' @ quoted (in_name i) @ '' is not published'') else loads s
     | _ \<Rightarrow> if jtrue payload then Inl (Raised TypeError)
            else deploy_fail (''deployment access for '' @ quoted (in_name i) @ '' is not published''))))"

section \<open>Binding\<close>

definition owner_reference :: "json \<Rightarrow> py_error + (string \<times> json) list" where
  "owner_reference resource =
     rbind (jitem resource ''apiVersion'') (\<lambda>version. rbind (jitem resource ''kind'') (\<lambda>kind.
     rbind (jitem resource ''metadata'') (\<lambda>m. rbind (jitem m ''name'') (\<lambda>name. rbind (jitem m ''uid'') (\<lambda>uid.
       Inr [(''apiVersion'', version), (''kind'', kind), (''name'', name), (''uid'', uid),
            (''controller'', JBool True), (''blockOwnerDeletion'', JBool True)])))))"

definition owner_keys :: "string list" where
  "owner_keys = [''apiVersion'', ''kind'', ''name'', ''uid'']"

definition foreign_controller :: "(string \<times> json) list \<Rightarrow> json \<Rightarrow> py_error + bool" where
  "foreign_controller owner reference =
     rbind (jget reference ''controller'' JNull) (\<lambda>c.
     Inr (jtrue c \<and> (\<exists>k \<in> set owner_keys. Some (field k reference) \<noteq> map_of owner k)))"

definition bind_object :: "(string \<times> json) list \<Rightarrow> string \<Rightarrow> json \<Rightarrow> cli_error + json" where
  "bind_object owner uid document =
     rbind (raising (jitem document ''metadata'')) (\<lambda>metadata.
     rbind (raising (jget metadata ''ownerReferences'' JNull)) (\<lambda>own.
     rbind (raising (jiter (jor own (JList [])))) (\<lambda>references.
     rbind (raising (any_list (foreign_controller owner) references)) (\<lambda>foreign.
     if foreign then
       rbind (raising (text_item document ''kind'')) (\<lambda>kind. rbind (raising (text_item metadata ''name'')) (\<lambda>name.
         deploy_fail (kind @ ''/'' @ name @ '' already has another controller owner'')))
     else
       rbind (raising (filter_list (\<lambda>r. rbind (jget r ''uid'' JNull) (\<lambda>u. Inr (u \<noteq> JStr uid))) references)) (\<lambda>others.
       rbind (raising (set_field ''ownerReferences'' (JList (others @ [JObj owner])) metadata)) (\<lambda>metadata'.
         raising (set_field ''metadata'' metadata' document)))))))"

definition bind_deployment ::
  "yaml_lib \<Rightarrow> (foretoken_deployment \<Rightarrow> string \<Rightarrow> cli_error + foretoken_deployment) \<Rightarrow> inst \<Rightarrow> json option \<Rightarrow> foretoken_deployment \<Rightarrow>
   cli_error + foretoken_deployment \<times> inst" where
  "bind_deployment Y project i current d =
     (if (fd_namespace d, fd_name d) \<noteq> (in_ns i, in_name i)
      then deploy_fail ''deployment membership does not match the selected instance''
      else
        rbind (read_required i current) (\<lambda>(resource, i1).
        if fd_uid d \<noteq> [] \<and> fd_uid d \<noteq> in_uid i1 then deploy_fail ''deployment instance identity changed before submission''
        else
          rbind (if fd_uid d \<noteq> [] then Inr d else project d (in_uid i1)) (\<lambda>bound.
          rbind (raising (owner_reference resource)) (\<lambda>owner.
          rbind (map_list (bind_object owner (in_uid i1)) (fd_objects bound)) (\<lambda>objects.
            Inr (bound\<lparr>fd_objects := objects, fd_rendered := encode_resources Y objects\<rparr>, i1))))))"

section \<open>Recovering a deployment\<close>

record recovered =
  rv_objects :: "json list"
  rv_models :: "(string \<times> string) list"
  rv_caches :: "runtime_cache list"
  rv_frontend :: string
  rv_hostname :: string

definition managed_kinds_of :: "string list" where
  "managed_kinds_of = [''FrontendService'', ''ModelService'', ''RuntimeCache'']"

text \<open>The object of a reference: fetched for the kinds of Foretoken, none for the rest.\<close>

definition fetch_member ::
  "(string \<Rightarrow> string \<Rightarrow> cli_error + json option) \<Rightarrow> inst \<Rightarrow> bool \<Rightarrow> string \<Rightarrow> string \<Rightarrow> string \<Rightarrow> cli_error + json option" where
  "fetch_member fetch i allow_missing version kind name =
     (if \<not> starts_with api_group version \<or> kind \<notin> set managed_kinds_of then Inr None
      else
        rbind (fetch (kind @ ''.inference.foretoken.io'') name) (\<lambda>document.
        case document of
          None \<Rightarrow> if allow_missing then Inr None else instance_error [] i ('' has no '' @ kind @ ''/'' @ name @ '' yet'')
        | Some v \<Rightarrow>
            rbind (raising (jitem v ''metadata'')) (\<lambda>m.
            rbind (raising (rbind (jget m ''labels'' (JObj [])) (\<lambda>labels. jget labels deployment_uid_label JNull))) (\<lambda>uid.
            if uid \<noteq> JStr (in_uid i)
            then deploy_fail (kind @ ''/'' @ name @ '' does not belong to deployment instance '' @ quoted (in_name i))
            else Inr (Some v)))))"

text \<open>
  A text of a specification with its default. The code takes the value as it is; the schema of these resources admits
  only strings, and the model raises on anything else because the fields of a recovered deployment are strings.
\<close>

definition spec_text :: "json \<Rightarrow> string \<Rightarrow> string \<Rightarrow> py_error + string" where
  "spec_text spec k dflt = rbind (jget spec k (JStr dflt)) (\<lambda>v. case v of JStr s \<Rightarrow> Inr s | _ \<Rightarrow> Inl TypeError)"

definition note_member ::
  "inst \<Rightarrow> string \<Rightarrow> string \<Rightarrow> string \<Rightarrow> json option \<Rightarrow> recovered \<Rightarrow> cli_error + recovered" where
  "note_member i version kind name document st =
     (if kind = ''FrontendService'' \<and> starts_with api_group version then
        if rv_frontend st \<noteq> [] then instance_error [] i '' declares multiple frontends''
        else (case document of
                None \<Rightarrow> Inr (st\<lparr>rv_frontend := name\<rparr>)
              | Some v \<Rightarrow> rbind (raising (rbind (jitem v ''spec'') (\<lambda>spec. spec_text spec ''hostname'' []))) (\<lambda>hostname.
                  Inr (st\<lparr>rv_frontend := name, rv_hostname := hostname\<rparr>)))
      else case document of
        None \<Rightarrow> Inr st
      | Some v \<Rightarrow>
          if kind = ''ModelService'' then
            rbind (raising (rbind (jitem v ''spec'') (\<lambda>spec. text_item spec ''model''))) (\<lambda>model.
              Inr (st\<lparr>rv_models := dict_set name model (rv_models st)\<rparr>))
          else if kind = ''RuntimeCache'' then
            rbind (raising (jitem v ''spec'')) (\<lambda>spec.
            rbind (raising (spec_text spec ''directory'' [])) (\<lambda>directory.
            rbind (raising (spec_text spec ''accessMode'' ''ReadWriteMany'')) (\<lambda>mode.
            rbind (raising (spec_text spec ''retentionPolicy'' ''Retain'')) (\<lambda>retention.
              Inr (st\<lparr>rv_caches := rv_caches st @
                [\<lparr>rc_name = name, rc_namespace = in_ns i, rc_directory = directory, rc_access_mode = mode, rc_retention = retention\<rparr>]\<rparr>)))))
          else Inr st)"

definition placeholder :: "inst \<Rightarrow> string \<Rightarrow> string \<Rightarrow> string \<Rightarrow> json" where
  "placeholder i version kind name =
     JObj [(''apiVersion'', JStr version), (''kind'', JStr kind),
       (''metadata'', JObj [(''name'', JStr name), (''namespace'', JStr (in_ns i))])]"

definition recover_member ::
  "(string \<Rightarrow> string \<Rightarrow> cli_error + json option) \<Rightarrow> inst \<Rightarrow> bool \<Rightarrow> json \<Rightarrow> recovered \<Rightarrow> cli_error + recovered" where
  "recover_member fetch i allow_missing reference st =
     rbind (raising (text_item reference ''kind'')) (\<lambda>kind.
     rbind (raising (text_item reference ''apiVersion'')) (\<lambda>version.
     rbind (raising (text_item reference ''name'')) (\<lambda>name.
     if kind = ''Namespace'' \<or> kind = deployment_kind then deploy_fail (''invalid deployment instance member '' @ kind @ ''/'' @ name)
     else
       rbind (fetch_member fetch i allow_missing version kind name) (\<lambda>document.
       rbind (note_member i version kind name document st) (\<lambda>st'.
         Inr (st'\<lparr>rv_objects := rv_objects st' @ [case document of None \<Rightarrow> placeholder i version kind name | Some v \<Rightarrow> v]\<rparr>))))))"

fun recover_members ::
  "(string \<Rightarrow> string \<Rightarrow> cli_error + json option) \<Rightarrow> inst \<Rightarrow> bool \<Rightarrow> json list \<Rightarrow> recovered \<Rightarrow> cli_error + recovered" where
  "recover_members fetch i allow_missing [] st = Inr st"
| "recover_members fetch i allow_missing (x # xs) st =
     rbind (recover_member fetch i allow_missing x st) (recover_members fetch i allow_missing xs)"

definition declared_members :: "json \<Rightarrow> py_error + json list" where
  "declared_members v =
     rbind (jget v ''spec'' (JObj [])) (\<lambda>spec. rbind (jget spec ''resources'' (JList [])) jiter)"

definition recover_deployment ::
  "yaml_lib \<Rightarrow> (string \<Rightarrow> string \<Rightarrow> cli_error + json option) \<Rightarrow> inst \<Rightarrow> bool \<Rightarrow> bool \<Rightarrow> json option \<Rightarrow> cli_error + foretoken_deployment" where
  "recover_deployment Y fetch i allow_missing missing_instance_ok current =
     rbind (read_deployment i (\<not> missing_instance_ok) current) (\<lambda>(v, i1).
     case v of
       None \<Rightarrow>
         Inr \<lparr>fd_path = None, fd_rendered = [], fd_namespace = in_ns i, fd_frontend = [], fd_hostname = [],
              fd_models = [], fd_caches = [], fd_objects = [], fd_name = in_name i, fd_uid = []\<rparr>
     | Some r \<Rightarrow>
         rbind (raising (declared_members r)) (\<lambda>references.
         rbind (recover_members fetch i1 allow_missing references
                  \<lparr>rv_objects = [], rv_models = [], rv_caches = [], rv_frontend = [], rv_hostname = []\<rparr>) (\<lambda>st.
         if rv_frontend st = [] \<and> \<not> allow_missing then instance_error [] i '' has no declared frontend''
         else
           Inr \<lparr>fd_path = None, fd_rendered = encode_resources Y (rv_objects st), fd_namespace = in_ns i,
                fd_frontend = rv_frontend st, fd_hostname = rv_hostname st, fd_models = rv_models st, fd_caches = rv_caches st,
                fd_objects = rv_objects st, fd_name = in_name i, fd_uid = in_uid i1\<rparr>)))"

text \<open>\<open>resolve_deployment_target\<close>: a path is loaded for its identity, a name is used as it is.\<close>

definition names_path :: "bool \<Rightarrow> string \<Rightarrow> bool" where
  "names_path path_exists target \<longleftrightarrow> path_exists \<or> CHR ''/'' \<in> set target \<or> starts_with ''.'' target \<or> starts_with ''~'' target"

definition resolve_deployment_target ::
  "bool \<Rightarrow> (string \<Rightarrow> string option \<Rightarrow> cli_error + foretoken_deployment) \<Rightarrow> (inst \<Rightarrow> cli_error + foretoken_deployment) \<Rightarrow> string \<Rightarrow>
   string \<Rightarrow> string option \<Rightarrow> cli_error + foretoken_deployment" where
  "resolve_deployment_target path_exists load recover current_namespace target name =
     (let select = (\<lambda>ns n. \<lparr>in_ns = ns, in_name = n, in_uid = [], in_resource = None\<rparr>) in
      if names_path path_exists target
      then rbind (load target name) (\<lambda>desired.
        rbind (recover (select (fd_namespace desired) (fd_name desired))) (\<lambda>current. Inr (current\<lparr>fd_path := fd_path desired\<rparr>)))
      else if name \<noteq> None
      then deploy_fail ''--name selects an instance for a Kustomize path; otherwise pass the instance name directly''
      else recover (select current_namespace target))"

section \<open>Properties\<close>

lemma raising_InrE: "raising m = Inr x \<Longrightarrow> m = Inr x"
  by (auto simp: raising_def split: sum.splits)

lemma instance_error_Inl [simp]: "instance_error a i b \<noteq> Inr x"
  by (simp add: instance_error_def)

lemma any_list_none: "any_list f xs = Inr False \<Longrightarrow> x \<in> set xs \<Longrightarrow> f x = Inr False"
  by (induction xs) (auto elim!: rbind_InrE split: if_splits)

lemma filter_list_set: "filter_list f xs = Inr ys \<Longrightarrow> set ys = {x \<in> set xs. f x = Inr True}"
  by (induction xs arbitrary: ys) (auto elim!: rbind_InrE split: if_splits)

lemma jget_null_field: "jget d k JNull = Inr v \<Longrightarrow> v = field k d"
  by (cases d) (auto simp: field_def split: option.splits)

text \<open>The controller references of an object.\<close>

definition controllers :: "json \<Rightarrow> json list" where
  "controllers document =
     filter (\<lambda>r. jtrue (field ''controller'' r)) (jlist (field ''ownerReferences'' (field ''metadata'' document)))"

lemma foreign_controller_False:
  assumes "foreign_controller owner reference = Inr False" and "map_of owner ''uid'' = Some uid" and "field ''uid'' reference \<noteq> uid"
  shows "\<not> jtrue (field ''controller'' reference)"
proof -
  obtain c where "jget reference ''controller'' JNull = Inr c" and "\<not> (jtrue c \<and> (\<exists>k \<in> set owner_keys. Some (field k reference) \<noteq> map_of owner k))"
    using assms(1) by (auto simp: foreign_controller_def elim!: rbind_InrE)
  moreover have "''uid'' \<in> set owner_keys" and "Some (field ''uid'' reference) \<noteq> map_of owner ''uid''"
    using assms(2,3) by (simp_all add: owner_keys_def)
  ultimately show ?thesis
    using jget_null_field by blast
qed

lemma bind_object_controllers:
  assumes "bind_object owner uid document = Inr bound" and "map_of owner ''uid'' = Some (JStr uid)"
    and "map_of owner ''controller'' = Some (JBool True)"
  shows "controllers bound = [JObj owner]"
proof -
  obtain metadata references others metadata' where
    clean: "any_list (foreign_controller owner) references = Inr False"
    and others: "filter_list (\<lambda>r. rbind (jget r ''uid'' JNull) (\<lambda>u. Inr (u \<noteq> JStr uid))) references = Inr others"
    and meta: "set_field ''ownerReferences'' (JList (others @ [JObj owner])) metadata = Inr metadata'"
    and doc: "set_field ''metadata'' metadata' document = Inr bound"
    using assms(1) by (auto simp: bind_object_def split: if_splits elim!: rbind_InrE dest!: raising_InrE)
  have "\<not> jtrue (field ''controller'' r)" if "r \<in> set others" for r
  proof -
    have member: "r \<in> set references" and "rbind (jget r ''uid'' JNull) (\<lambda>u. Inr (u \<noteq> JStr uid)) = Inr True"
      using filter_list_set [OF others] that by auto
    then have "field ''uid'' r \<noteq> JStr uid"
      by (auto elim!: rbind_InrE dest: jget_null_field)
    then show ?thesis
      using foreign_controller_False [OF any_list_none [OF clean member] assms(2)] by blast
  qed
  then have "filter (\<lambda>r. jtrue (field ''controller'' r)) (others @ [JObj owner]) = [JObj owner]"
    using assms(3) by (simp add: field_def)
  moreover have "field ''ownerReferences'' metadata' = JList (others @ [JObj owner])" "field ''metadata'' bound = metadata'"
    using meta doc by (cases metadata; cases document; auto simp: field_def)+
  ultimately show ?thesis
    by (simp add: controllers_def)
qed

lemma read_required_uid:
  assumes "read_required i current = Inr (v, i1)"
  shows "current = Some v \<and> (\<exists>m. jitem v ''metadata'' = Inr m \<and> jitem m ''uid'' = Inr (JStr (in_uid i1)))"
  using assms
  by (auto simp: read_required_def read_deployment_def text_item_def split: option.splits if_splits json.splits
      elim!: rbind_InrE dest!: raising_InrE)

lemma owner_reference_of:
  assumes "owner_reference v = Inr owner" and "jitem v ''metadata'' = Inr m" and "jitem m ''uid'' = Inr uid"
  shows "map_of owner ''uid'' = Some uid" and "map_of owner ''controller'' = Some (JBool True)"
  using assms by (auto simp: owner_reference_def elim!: rbind_InrE)

text \<open>C20: Every object of a bound deployment has exactly one controller, the instance it is bound to: binding fails on an
  object that another controller owns, and replaces whatever reference to the instance the object had.\<close>

theorem bound_objects_have_one_controller:
  assumes "bind_deployment Y project i current d = Inr (bound, i1)" and "document \<in> set (fd_objects bound)"
  shows "\<exists>resource owner. current = Some resource \<and> owner_reference resource = Inr owner \<and>
    map_of owner ''uid'' = Some (JStr (in_uid i1)) \<and> controllers document = [JObj owner]"
proof -
  obtain resource owner objects sources where "read_required i current = Inr (resource, i1)" and owner: "owner_reference resource = Inr owner"
    and objects: "map_list (bind_object owner (in_uid i1)) sources = Inr objects"
    and bound: "fd_objects bound = objects"
    using assms(1) by (auto simp: bind_deployment_def split: if_splits elim!: rbind_InrE dest!: raising_InrE)
  then have read: "current = Some resource" and uid: "map_of owner ''uid'' = Some (JStr (in_uid i1))"
    and controller: "map_of owner ''controller'' = Some (JBool True)"
    using read_required_uid owner_reference_of [OF owner] by blast+
  have "Inr document \<in> bind_object owner (in_uid i1) ` set sources"
    unfolding map_list_image [OF objects, symmetric] using assms(2) by (simp add: bound)
  then obtain source where "bind_object owner (in_uid i1) source = Inr document"
    by (metis imageE)
  then show ?thesis
    using bind_object_controllers [OF _ uid controller] read owner uid by blast
qed

definition reference_document :: "string \<times> string \<times> string \<Rightarrow> json" where
  "reference_document x = (case x of (version, kind, name) \<Rightarrow>
     JObj [(''apiVersion'', JStr version), (''kind'', JStr kind), (''name'', JStr name)])"

text \<open>An object that carries the identity of a reference, as the API server returns it.\<close>

definition identifies :: "string \<times> string \<times> string \<Rightarrow> json \<Rightarrow> bool" where
  "identifies x v = (case x of (version, kind, name) \<Rightarrow>
     jitem v ''apiVersion'' = Inr (JStr version) \<and> jitem v ''kind'' = Inr (JStr kind) \<and>
     rbind (jitem v ''metadata'') (\<lambda>m. jitem m ''name'') = Inr (JStr name))"

lemma identifies_placeholder: "identifies (version, kind, name) (placeholder i version kind name)"
  by (simp add: identifies_def placeholder_def)

lemma note_member_objects: "note_member i version kind name document st = Inr st' \<Longrightarrow> rv_objects st' = rv_objects st"
  by (auto simp: note_member_def split: if_splits option.splits elim!: rbind_InrE)

lemma fetch_member_Some:
  "fetch_member fetch i allow_missing version kind name = Inr (Some v) \<Longrightarrow> fetch (kind @ ''.inference.foretoken.io'') name = Inr (Some v)"
  by (auto simp: fetch_member_def split: if_splits option.splits elim!: rbind_InrE)

lemma recover_member_object:
  assumes "recover_member fetch i allow_missing (reference_document (version, kind, name)) st = Inr st'"
    and "\<And>v. fetch (kind @ ''.inference.foretoken.io'') name = Inr (Some v) \<Longrightarrow> identifies (version, kind, name) v"
  obtains v where "rv_objects st' = rv_objects st @ [v]" and "identifies (version, kind, name) v"
    and "kind \<noteq> ''Namespace''" and "kind \<noteq> deployment_kind"
proof -
  obtain document st1 where "fetch_member fetch i allow_missing version kind name = Inr document"
    and "note_member i version kind name document st = Inr st1"
    and "st' = st1\<lparr>rv_objects := rv_objects st1 @ [case document of None \<Rightarrow> placeholder i version kind name | Some v \<Rightarrow> v]\<rparr>"
    and "kind \<noteq> ''Namespace''" "kind \<noteq> deployment_kind"
    using assms(1) by (auto simp: recover_member_def reference_document_def text_item_def raising_def split: if_splits elim!: rbind_InrE)
  then show thesis
    using that identifies_placeholder assms(2) fetch_member_Some note_member_objects by (cases document) fastforce+
qed

lemma recover_members_objects:
  assumes "recover_members fetch i allow_missing (map reference_document xs) st = Inr st'"
    and "\<And>version kind name v. (version, kind, name) \<in> set xs \<Longrightarrow> fetch (kind @ ''.inference.foretoken.io'') name = Inr (Some v) \<Longrightarrow>
      identifies (version, kind, name) v"
  shows "\<exists>vs. rv_objects st' = rv_objects st @ vs \<and> list_all2 identifies xs vs \<and>
    list_all (\<lambda>(_, kind, _). kind \<noteq> ''Namespace'' \<and> kind \<noteq> deployment_kind) xs"
  using assms
proof (induction xs arbitrary: st)
  case (Cons x xs)
  obtain version kind name where x: "x = (version, kind, name)"
    by (cases x)
  obtain st1 where first: "recover_member fetch i allow_missing (reference_document (version, kind, name)) st = Inr st1"
    and rest: "recover_members fetch i allow_missing (map reference_document xs) st1 = Inr st'"
    using Cons.prems(1) by (auto simp: x elim!: rbind_InrE)
  have known: "identifies (version, kind, name) v" if "fetch (kind @ ''.inference.foretoken.io'') name = Inr (Some v)" for v
    using Cons.prems(2) that by (simp add: x)
  obtain v where v: "rv_objects st1 = rv_objects st @ [v]" "identifies x v" "kind \<noteq> ''Namespace''" "kind \<noteq> deployment_kind"
    using recover_member_object [OF first known] unfolding x by blast
  obtain vs where "rv_objects st' = rv_objects st1 @ vs" "list_all2 identifies xs vs"
    "list_all (\<lambda>(_, kind, _). kind \<noteq> ''Namespace'' \<and> kind \<noteq> deployment_kind) xs"
    using Cons.IH [OF rest] Cons.prems(2) by auto
  with v show ?case
    by (intro exI [of _ "v # vs"]) (simp add: x)
qed simp

lemma references_of_identified:
  assumes "list_all2 identifies xs vs" and "list_all (\<lambda>(_, kind, _). kind \<noteq> ''Namespace'' \<and> kind \<noteq> deployment_kind) xs"
  shows "filter_list (\<lambda>doc. rbind (jitem doc ''kind'') (\<lambda>k. Inr (k \<notin> {JStr ''Namespace'', JStr deployment_kind}))) vs = Inr vs"
    and "map_list (\<lambda>doc. rbind (jitem doc ''apiVersion'') (\<lambda>v. rbind (jitem doc ''kind'') (\<lambda>k.
          rbind (jitem doc ''metadata'') (\<lambda>m. rbind (jitem m ''name'') (\<lambda>n.
            Inr (JObj [(''apiVersion'', v), (''kind'', k), (''name'', n)])))))) vs = Inr (map reference_document xs)"
  using assms
  by (induction rule: list_all2_induct) (auto simp: identifies_def reference_document_def rbind_eq_Inr_iff)

text \<open>C19: Recovering a deployment from its instance loses no member: recording the recovered deployment again gives
  exactly the references the instance declared, in their order, whether a member was fetched or is missing. An object
  that is fetched for a reference carries its identity.\<close>

theorem recovered_membership_roundtrip:
  assumes "recover_deployment Y fetch i allow_missing missing_instance_ok (Some resource) = Inr d"
    and "declared_members resource = Inr (map reference_document members)"
    and "\<And>version kind name v. (version, kind, name) \<in> set members \<Longrightarrow> fetch (kind @ ''.inference.foretoken.io'') name = Inr (Some v) \<Longrightarrow>
      identifies (version, kind, name) v"
  shows "resource_references d = Inr (map reference_document members)"
proof -
  obtain i1 st where "recover_members fetch i1 allow_missing (map reference_document members)
      \<lparr>rv_objects = [], rv_models = [], rv_caches = [], rv_frontend = [], rv_hostname = []\<rparr> = Inr st" and objects: "fd_objects d = rv_objects st"
    using assms(1,2)
    by (auto simp: recover_deployment_def read_deployment_def raising_def split: if_splits sum.splits elim!: rbind_InrE)
  from recover_members_objects [OF this(1)] assms(3) obtain vs where "fd_objects d = vs" "list_all2 identifies members vs"
    "list_all (\<lambda>(_, kind, _). kind \<noteq> ''Namespace'' \<and> kind \<noteq> deployment_kind) members"
    unfolding objects by auto
  then show ?thesis
    using references_of_identified unfolding resource_references_def by fastforce
qed

section \<open>An instance\<close>

definition demo_instance_resource :: json where
  "demo_instance_resource =
     JObj [(''apiVersion'', JStr ''v1''), (''kind'', JStr ''I''), (''metadata'', JObj [(''name'', JStr ''a''), (''uid'', JStr ''u'')]),
       (''spec'', JObj [(''resources'', JList (map reference_document
          [(''inference.foretoken.io/v1'', ''FrontendService'', ''f''), (''v1'', ''Secret'', ''s'')]))])]"

definition demo_unread :: inst where
  "demo_unread = \<lparr>in_ns = ''n'', in_name = ''a'', in_uid = [], in_resource = None\<rparr>"

definition demo_frontend :: json where
  "demo_frontend =
     JObj [(''apiVersion'', JStr ''inference.foretoken.io/v1''), (''kind'', JStr ''FrontendService''),
       (''metadata'', JObj [(''name'', JStr ''f''), (''labels'', JObj [(deployment_uid_label, JStr ''u'')]),
          (''ownerReferences'', JList [JObj [(''uid'', JStr ''x'')], JObj [(''uid'', JStr ''u'')]])]),
       (''spec'', JObj [])]"

definition demo_fetch :: "string \<Rightarrow> string \<Rightarrow> cli_error + json option" where
  "demo_fetch kind name = Inr (if name = ''f'' then Some demo_frontend else None)"

definition demo_recovered :: foretoken_deployment where
  "demo_recovered = projr (recover_deployment demo_yaml demo_fetch demo_unread False False (Some demo_instance_resource))"

lemmas demo_instance_defs = demo_instance_resource_def demo_unread_def demo_frontend_def demo_fetch_def reference_document_def

lemma demo_recovers:
  "recover_deployment demo_yaml demo_fetch demo_unread False False (Some demo_instance_resource) =
     Inr \<lparr>fd_path = None, fd_rendered = encode_resources demo_yaml [demo_frontend, placeholder demo_unread ''v1'' ''Secret'' ''s''],
          fd_namespace = ''n'', fd_frontend = ''f'', fd_hostname = [], fd_models = [], fd_caches = [],
          fd_objects = [demo_frontend, placeholder demo_unread ''v1'' ''Secret'' ''s''], fd_name = ''a'', fd_uid = ''u''\<rparr>"
  by (simp add: recover_deployment_def read_deployment_def declared_members_def recover_member_def fetch_member_def note_member_def
      text_item_def spec_text_def placeholder_def raising_def managed_kinds_of_def api_group_def deployment_kind_def deployment_uid_label_def
      starts_with_def demo_instance_defs)

theorem recovered_membership_roundtrip_witness:
  "resource_references demo_recovered =
     Inr (map reference_document [(''inference.foretoken.io/v1'', ''FrontendService'', ''f''), (''v1'', ''Secret'', ''s'')])"
proof (rule recovered_membership_roundtrip [of demo_yaml demo_fetch demo_unread False False demo_instance_resource])
  show "recover_deployment demo_yaml demo_fetch demo_unread False False (Some demo_instance_resource) = Inr demo_recovered"
    by (simp add: demo_recovered_def demo_recovers)
  show "declared_members demo_instance_resource =
      Inr (map reference_document [(''inference.foretoken.io/v1'', ''FrontendService'', ''f''), (''v1'', ''Secret'', ''s'')])"
    by (simp add: declared_members_def demo_instance_resource_def)
qed (auto simp: demo_fetch_def demo_frontend_def identifies_def split: if_splits)

definition demo_bound :: "foretoken_deployment \<times> inst" where
  "demo_bound = projr (bind_deployment demo_yaml (\<lambda>d uid. Inr d) demo_unread (Some demo_instance_resource) demo_recovered)"

definition demo_owner :: "(string \<times> json) list" where
  "demo_owner =
     [(''apiVersion'', JStr ''v1''), (''kind'', JStr ''I''), (''name'', JStr ''a''), (''uid'', JStr ''u''), (''controller'', JBool True),
      (''blockOwnerDeletion'', JBool True)]"

theorem bound_objects_have_one_controller_witness:
  "length (fd_objects (fst demo_bound)) = 2 \<and> controllers (fd_objects (fst demo_bound) ! 0) = [JObj demo_owner]"
proof -
  have run: "bind_deployment demo_yaml (\<lambda>d uid. Inr d) demo_unread (Some demo_instance_resource) demo_recovered = Inr (fst demo_bound, snd demo_bound)"
    by code_simp
  have two: "length (fd_objects (fst demo_bound)) = 2"
    by code_simp
  then have "fd_objects (fst demo_bound) ! 0 \<in> set (fd_objects (fst demo_bound))"
    by simp
  from bound_objects_have_one_controller [OF run this] show ?thesis
    using two by (auto simp: owner_reference_def demo_instance_resource_def demo_owner_def)
qed

end
