(* ===== verification/Submission.thy ===== *)
theory Submission
  imports Helm_Client Deployment_Mutation
begin

text \<open>
  Submission of service intent (\<open>deployment/submission.py\<close>): what a submission remembers, the preconditions it checks
  before every write, the documents it writes, and its retry loops. A loop takes the rounds it goes through as a
  list, one entry per iteration with what the API server answered; it gives \<open>None\<close> while the list does not reach its
  end. \<open>service_step\<close> interleaves the stages of a service with any other writer of the same object.
\<close>

section \<open>Declared fields\<close>

text \<open>Equality of Python values: booleans and numbers compare as numbers, dictionaries without order.\<close>

fun numeric_value :: "json \<Rightarrow> rat option" where
  "numeric_value (JBool b) = Some (of_bool b)"
| "numeric_value (JInt n) = Some (of_int n)"
| "numeric_value (JFloat q) = Some q"
| "numeric_value _ = None"

fun py_equal :: "json \<Rightarrow> json \<Rightarrow> bool" where
  "py_equal (JObj a) y =
     (case y of
        JObj b \<Rightarrow> length a = length b \<and> (\<forall>p \<in> set a. case map_of b (fst p) of None \<Rightarrow> False | Some w \<Rightarrow> py_equal (snd p) w)
      | _ \<Rightarrow> False)"
| "py_equal (JList xs) y = (case y of JList ys \<Rightarrow> list_all2 py_equal xs ys | _ \<Rightarrow> False)"
| "py_equal (JStr s) y = (y = JStr s)"
| "py_equal JNull y = (y = JNull)"
| "py_equal (JBool b) y = (numeric_value y = Some (of_bool b))"
| "py_equal (JInt n) y = (numeric_value y = Some (of_int n))"
| "py_equal (JFloat q) y = (numeric_value y = Some q)"

text \<open>\<open>_matches_declared_fields\<close>.\<close>

fun matches_declared_fields :: "json \<Rightarrow> json \<Rightarrow> bool" where
  "matches_declared_fields actual (JObj d) =
     (is_object actual \<and>
       (\<forall>p \<in> set d. case map_of (jobj actual) (fst p) of None \<Rightarrow> False | Some w \<Rightarrow> matches_declared_fields w (snd p)))"
| "matches_declared_fields actual desired = py_equal actual desired"

text \<open>A document as \<open>json.loads\<close> gives it: no key of an object occurs twice.\<close>

fun loaded :: "json \<Rightarrow> bool" where
  "loaded (JObj ps) = (distinct (map fst ps) \<and> (\<forall>p \<in> set ps. loaded (snd p)))"
| "loaded (JList xs) = (\<forall>x \<in> set xs. loaded x)"
| "loaded _ = True"

lemma loaded_unique: "loaded x \<Longrightarrow> unique_keys x"
  by (induction x rule: unique_keys.induct) auto

lemma loaded_at: "loaded (JObj ps) \<Longrightarrow> map_of ps k = Some v \<Longrightarrow> loaded v"
  by (fastforce dest: map_of_SomeD)

lemma py_equal_refl: "loaded x \<Longrightarrow> py_equal x x"
proof (induction x rule: loaded.induct)
  case (1 ps)
  have "\<exists>w. map_of ps (fst p) = Some w \<and> py_equal (snd p) w" if member: "p \<in> set ps" for p
    using 1 member by (intro exI [of _ "snd p"]) simp
  then show ?case
    by fastforce
next
  case (2 xs)
  then show ?case
    by (simp add: list_all2_same)
qed simp_all

lemma py_equal_object: "py_equal x (JObj b) \<Longrightarrow> is_object x"
  by (cases x) auto

lemma keys_merge_pairs: "set (map fst (merge_pairs a d)) = set (map fst a) \<union> set (map fst d)"
  by (induction a d rule: merge_pairs.induct) auto

lemma distinct_merge_pairs: "distinct (map fst a) \<Longrightarrow> distinct (map fst (merge_pairs a d))"
proof (induction d arbitrary: a)
  case (Cons p d)
  then show ?case
    by (cases p) (simp only: merge_pairs.simps distinct_dict_set)
qed simp

lemma length_merge_pairs:
  assumes "distinct (map fst a)"
  shows "length a = length (merge_pairs a d) \<longleftrightarrow> set (map fst d) \<subseteq> set (map fst a)"
proof -
  have "length a = card (set (map fst a))" "length (merge_pairs a d) = card (set (map fst a) \<union> set (map fst d))"
    using distinct_card [OF assms] distinct_card [OF distinct_merge_pairs [OF assms, of d]] unfolding keys_merge_pairs by simp_all
  moreover have "card (set (map fst a)) = card (set (map fst a) \<union> set (map fst d)) \<longleftrightarrow> set (map fst d) \<subseteq> set (map fst a)"
    by (metis List.finite_set Un_upper1 card_subset_eq finite_Un sup.orderI sup.absorb_iff1)
  ultimately show ?thesis
    by simp
qed

lemma ball_pairs: "distinct (map fst ps) \<Longrightarrow> (\<forall>p \<in> set ps. P (fst p) (snd p)) \<longleftrightarrow> (\<forall>k v. map_of ps k = Some v \<longrightarrow> P k v)"
  by (metis map_of_eq_Some_iff prod.collapse fst_conv snd_conv)

lemma option_case_ex: "(case m of None \<Rightarrow> False | Some w \<Rightarrow> P w) \<longleftrightarrow> (\<exists>w. m = Some w \<and> P w)"
  by (cases m) simp_all

lemma map_of_key: "k \<in> set (map fst ps) \<longleftrightarrow> (\<exists>v. map_of ps k = Some v)"
  by (metis map_of_eq_None_iff not_None_eq list.set_map)

text \<open>One level of the comparison: the merge keeps the keys, and every declared field agrees.\<close>

lemma py_equal_merge:
  assumes a: "loaded (JObj a)" and d: "distinct (map fst d)"
  shows "py_equal (JObj a) (JObj (merge_pairs a d)) \<longleftrightarrow>
    (\<forall>k v. map_of d k = Some v \<longrightarrow> (\<exists>w. map_of a k = Some w \<and> py_equal w (overlay (Some w) v)))" (is "?l \<longleftrightarrow> ?r")
proof -
  have keys: "length a = length (merge_pairs a d) \<longleftrightarrow> (\<forall>k v. map_of d k = Some v \<longrightarrow> (\<exists>w. map_of a k = Some w))"
    unfolding length_merge_pairs [OF a [unfolded loaded.simps, THEN conjunct1]] subset_iff map_of_key by blast
  have vals: "(\<forall>p \<in> set a. case map_of (merge_pairs a d) (fst p) of None \<Rightarrow> False | Some x \<Rightarrow> py_equal (snd p) x) \<longleftrightarrow>
      (\<forall>k w. map_of a k = Some w \<longrightarrow> (case map_of d k of None \<Rightarrow> True | Some v \<Rightarrow> py_equal w (overlay (Some w) v)))"
    (is "?vl \<longleftrightarrow> ?vr")
  proof -
    have "?vl \<longleftrightarrow> (\<forall>k w. map_of a k = Some w \<longrightarrow> (case map_of (merge_pairs a d) k of None \<Rightarrow> False | Some x \<Rightarrow> py_equal w x))"
      by (rule ball_pairs) (use a in simp)
    also have "\<dots> \<longleftrightarrow> ?vr"
      using loaded_at [OF a] by (intro iff_allI imp_cong refl) (auto simp: map_of_merge_pairs [OF d] py_equal_refl split: option.splits)
    finally show ?thesis .
  qed
  show ?thesis
    unfolding py_equal.simps json.case keys vals by (auto split: option.splits) (metis option.distinct(1) option.inject)+
qed

lemma matches_object:
  assumes "distinct (map fst d)"
  shows "matches_declared_fields (JObj a) (JObj d) \<longleftrightarrow>
    (\<forall>k v. map_of d k = Some v \<longrightarrow> (\<exists>w. map_of a k = Some w \<and> matches_declared_fields w v))"
  unfolding matches_declared_fields.simps is_object.simps jobj.simps
    ball_pairs [OF assms, of "\<lambda>k v. case map_of a k of None \<Rightarrow> False | Some w \<Rightarrow> matches_declared_fields w v"]
  by (simp add: option_case_ex)

lemma matches_overlay: "loaded actual \<Longrightarrow> loaded desired \<Longrightarrow> matches_declared_fields actual desired \<longleftrightarrow> py_equal actual (overlay (Some actual) desired)"
proof (induction actual desired rule: matches_declared_fields.induct)
  case (1 actual d)
  show ?case
  proof (cases actual)
    case (JObj a)
    have "matches_declared_fields w v \<longleftrightarrow> py_equal w (overlay (Some w) v)" if "map_of d k = Some v" "map_of a k = Some w" for k v w
      using "1.IH" [of "(k, v)" w] "1.prems" that loaded_at by (auto simp: JObj dest: map_of_SomeD)
    then show ?thesis
      using "1.prems" py_equal_merge [of a d] matches_object [of d a] by (simp add: JObj overlay_def) metis
  qed (auto simp: overlay_def)
qed (simp_all add: overlay_def)

text \<open>C17: Comparing a retained object with the fields a submission declares is the same as merging the declared fields
  into the object and finding that nothing changed, where values are equal in the sense of Python.\<close>

theorem matching_is_unchanged_merge:
  assumes "loaded (JObj actual)" and "loaded (JObj desired)"
  shows "matches_declared_fields (JObj actual) (JObj desired) \<longleftrightarrow>
    (\<exists>merged. merge_values (JObj actual) (JObj desired) = Inr merged \<and> py_equal (JObj actual) merged)"
  using matches_overlay [OF assms] by (simp add: merge_values_def overlay_def)

section \<open>State of a submission\<close>

text \<open>What a submission reads of an object of the API server.\<close>

record member =
  mb_ref :: resource_ref
  mb_uid :: string
  mb_version :: string
  mb_generation :: int
  mb_deleting :: bool
  mb_source :: "string option"
  mb_operation :: "string option"
  mb_deployment :: "string option"
  mb_api :: string
  mb_spec :: "(string \<times> json) list"

type_synonym intent = "string \<times> int \<times> string \<times> string"

definition or_empty :: "string option \<Rightarrow> string" where
  "or_empty s = (case s of None \<Rightarrow> [] | Some t \<Rightarrow> t)"

definition intent_version :: "member option \<Rightarrow> deploy_error + intent option" where
  "intent_version m =
     (case m of
        None \<Rightarrow> Inr None
      | Some v \<Rightarrow>
          if mb_deleting v
          then Inl (DeploymentError (''DeploymentSuperseded: '' @ rr_kind (mb_ref v) @ ''/'' @ rr_name (mb_ref v) @ '' is being deleted''))
          else Inr (Some (mb_uid v, mb_generation v, or_empty (mb_source v), or_empty (mb_operation v))))"

record submission =
  sb_operation :: string
  sb_name :: string
  sb_namespace :: string
  sb_uid :: string
  sb_create_only :: bool
  sb_expected :: "(resource_ref \<times> intent option) list"
  sb_committed :: "(resource_ref \<times> intent option) list"
  sb_created :: "(resource_ref \<times> member) list"
  sb_scope :: "string option"

text \<open>The constructor: the intent of every service at the start.\<close>

fun expected_versions :: "(resource_ref \<times> member) list \<Rightarrow> resource_ref list \<Rightarrow> deploy_error + (resource_ref \<times> intent option) list" where
  "expected_versions observed [] = Inr []"
| "expected_versions observed (r # rs) =
     rbind (intent_version (map_of observed r)) (\<lambda>v. rbind (expected_versions observed rs) (\<lambda>vs. Inr ((r, v) # vs)))"

definition new_submission ::
  "string \<Rightarrow> string \<Rightarrow> string \<Rightarrow> string \<Rightarrow> bool \<Rightarrow> resource_ref list \<Rightarrow> (resource_ref \<times> member) list \<Rightarrow> deploy_error + submission" where
  "new_submission operation name ns uid create_only services observed =
     rbind (expected_versions observed services) (\<lambda>expected.
     if create_only \<and> (\<exists>e \<in> set expected. snd e \<noteq> None)
     then Inl (DeploymentError ''Temporary deployment requires services that do not already exist'')
     else Inr \<lparr>sb_operation = operation, sb_name = name, sb_namespace = ns, sb_uid = uid, sb_create_only = create_only,
               sb_expected = expected, sb_committed = [], sb_created = [], sb_scope = None\<rparr>)"

section \<open>Preconditions\<close>

definition owns_scope :: "submission \<Rightarrow> member option \<Rightarrow> bool" where
  "owns_scope sb current =
     (case (sb_scope sb, current) of
        (Some uid, Some m) \<Rightarrow> \<not> mb_deleting m \<and> mb_uid m = uid \<and> mb_operation m = Some (sb_operation sb)
      | _ \<Rightarrow> False)"

text \<open>The intent the submission expects of a service: what it committed last, or what it saw at the start.\<close>

definition precondition :: "submission \<Rightarrow> resource_ref \<Rightarrow> intent option option" where
  "precondition sb r = (case map_of (sb_committed sb) r of Some v \<Rightarrow> Some v | None \<Rightarrow> map_of (sb_expected sb) r)"

definition validate_member :: "submission \<Rightarrow> resource_ref \<Rightarrow> member option \<Rightarrow> deploy_error + member option" where
  "validate_member sb r current =
     (if (case current of None \<Rightarrow> False | Some m \<Rightarrow> mb_deployment m \<noteq> Some (sb_uid sb))
      then Inl (DeploymentError (display_name r @ '' belongs to another deployment instance''))
      else if map_of (sb_expected sb) r = None then Inr current
      else rbind (intent_version current) (\<lambda>v.
        if Some v \<noteq> precondition sb r
        then Inl (DeploymentError (''DeploymentSuperseded: '' @ display_name r @ '' was changed by another operation''))
        else Inr current))"

fun validate_members ::
  "submission \<Rightarrow> (resource_ref \<times> member) list \<Rightarrow> resource_ref list \<Rightarrow> deploy_error + (resource_ref \<times> member option) list" where
  "validate_members sb observed [] = Inr []"
| "validate_members sb observed (r # rs) =
     rbind (validate_member sb r (map_of observed r)) (\<lambda>m. rbind (validate_members sb observed rs) (\<lambda>ms. Inr ((r, m) # ms)))"

definition superseded_instance :: "submission \<Rightarrow> deploy_error" where
  "superseded_instance sb = DeploymentError (''DeploymentSuperseded: instance '' @ quoted (sb_name sb) @ '' was changed by another operation'')"

text \<open>\<open>_current_services\<close>; \<open>check\<close> is the same without the result.\<close>

definition current_services ::
  "submission \<Rightarrow> member option \<Rightarrow> (resource_ref \<times> member) list \<Rightarrow> deploy_error + (resource_ref \<times> member option) list" where
  "current_services sb inst observed =
     (if \<not> owns_scope sb (if sb_scope sb = None then None else inst) then Inl (superseded_instance sb)
      else validate_members sb observed (map fst (sb_expected sb)))"

definition owns_created :: "submission \<Rightarrow> resource_ref \<Rightarrow> member option \<Rightarrow> deploy_error + bool" where
  "owns_created sb r current =
     (case (map_of (sb_created sb) r, current) of
        (Some receipt, Some m) \<Rightarrow>
          if mb_deleting m \<or> mb_deployment m \<noteq> Some (sb_uid sb) then Inr False
          else if map_of (sb_expected sb) r \<noteq> None
          then rbind (intent_version current) (\<lambda>v.
            Inr (v = (case map_of (sb_committed sb) r of None \<Rightarrow> None | Some c \<Rightarrow> c)))
          else Inr (mb_uid m = mb_uid receipt \<and> mb_operation m = Some (sb_operation sb))
      | _ \<Rightarrow> Inr False)"

section \<open>Claiming the instance\<close>

definition claim_document :: "submission \<Rightarrow> json list \<Rightarrow> resource_ref \<Rightarrow> member \<Rightarrow> json" where
  "claim_document sb references r current =
     JObj ([(''metadata'', JObj [(''uid'', JStr (mb_uid current)), (''resourceVersion'', JStr (mb_version current)),
             (''annotations'', JObj [(operation_annotation, JStr (sb_operation sb))])])] @
           (if sb_create_only sb \<and> rr_kind r = ''InferenceDeployment''
            then [(''spec'', JObj [(''resources'', JList references)])] else []))"

definition claim_args :: "(json \<Rightarrow> string) \<Rightarrow> resource_ref \<Rightarrow> json \<Rightarrow> string list" where
  "claim_args dumps r payload =
     [''patch'', rr_kind r, rr_name r] @ namespace_args (rr_namespace r) @
     [''--type=merge'', ''--field-manager=kubectl'', ''--output=json'', ''--patch'', dumps payload]"

text \<open>\<open>DeploymentInstance.read\<close> of an instance whose uid is known.\<close>

definition replaced :: "submission \<Rightarrow> deploy_error" where
  "replaced sb = DeploymentError (''DeploymentSuperseded: deployment instance '' @ quoted (sb_name sb) @ '' was replaced'')"

definition read_pinned :: "submission \<Rightarrow> member option \<Rightarrow> deploy_error + member" where
  "read_pinned sb current =
     (case current of
        None \<Rightarrow> Inl (DeploymentError (''deployment instance '' @ quoted (sb_name sb) @ '' was not found''))
      | Some m \<Rightarrow> if sb_uid sb \<noteq> [] \<and> mb_uid m \<noteq> sb_uid sb then Inl (replaced sb) else Inr m)"

datatype write_answer = Applied member | Conflict deploy_error "member option" | Refused deploy_error

record claim_round =
  cl_remaining :: time
  cl_answer :: write_answer

fun claim_rounds :: "submission \<Rightarrow> resource_ref \<Rightarrow> string \<times> string \<Rightarrow> member \<Rightarrow> claim_round list \<Rightarrow> (deploy_error + submission) option" where
  "claim_rounds sb r identity current [] = None"
| "claim_rounds sb r identity current (c # cs) =
     (if mb_deleting current \<or> identity \<noteq> (mb_uid current, or_empty (mb_operation current)) then Some (Inl (superseded_instance sb))
      else if cl_remaining c \<le> 0 then Some (Inl (DeploymentError (''Timed out claiming '' @ display_name r)))
      else case cl_answer c of
        Applied m \<Rightarrow> Some (Inr (sb\<lparr>sb_scope := Some (mb_uid m)\<rparr>))
      | Refused e \<Rightarrow> Some (Inl e)
      | Conflict e latest \<Rightarrow>
          (case latest of
             None \<Rightarrow> Some (Inl e)
           | Some m \<Rightarrow>
               if mb_uid m \<noteq> fst identity then Some (Inl (replaced sb))
               else if mb_version m = mb_version current then Some (Inl e) else claim_rounds sb r identity m cs))"

text \<open>\<open>_begin\<close>, given the reads of its members and instance, and the final check.\<close>

fun check_members :: "submission \<Rightarrow> (resource_ref \<times> member) list \<Rightarrow> resource_ref list \<Rightarrow> deploy_error + unit" where
  "check_members sb observed [] = Inr ()"
| "check_members sb observed (r # rs) = rbind (validate_member sb r (map_of observed r)) (\<lambda>_. check_members sb observed rs)"

record begin_reads =
  bg_members :: "(resource_ref \<times> member) list"
  bg_instance :: "member option"
  bg_storage_only :: bool
  bg_claims :: "claim_round list"
  bg_check_instance :: "member option"
  bg_check_members :: "(resource_ref \<times> member) list"

definition instance_ref :: "submission \<Rightarrow> resource_ref" where
  "instance_ref sb = \<lparr>rr_kind = ''InferenceDeployment'', rr_name = sb_name sb, rr_namespace = sb_namespace sb\<rparr>"

definition checked :: "submission \<Rightarrow> member option \<Rightarrow> (resource_ref \<times> member) list \<Rightarrow> deploy_error + submission" where
  "checked sb inst observed = rbind (current_services sb inst observed) (\<lambda>_. Inr sb)"

definition begin_submission :: "submission \<Rightarrow> begin_reads \<Rightarrow> (deploy_error + submission) option" where
  "begin_submission sb b =
     (if sb_scope sb \<noteq> None then Some (checked sb (bg_check_instance b) (bg_check_members b))
      else case check_members sb (bg_members b) (map fst (sb_expected sb)) of
        Inl e \<Rightarrow> Some (Inl e)
      | Inr _ \<Rightarrow>
          (case read_pinned sb (bg_instance b) of
             Inl e \<Rightarrow> Some (Inl e)
           | Inr current \<Rightarrow>
               if sb_create_only sb \<and> map_of (sb_created sb) (instance_ref sb) = None \<and> \<not> bg_storage_only b
               then Some (Inl (DeploymentError (''Temporary deployment instance '' @ quoted (sb_name sb) @ '' already belongs to another submission'')))
               else case claim_rounds sb (instance_ref sb) (mb_uid current, or_empty (mb_operation current)) current (bg_claims b) of
                 None \<Rightarrow> None
               | Some (Inl e) \<Rightarrow> Some (Inl e)
               | Some (Inr sb') \<Rightarrow> Some (checked sb' (bg_check_instance b) (bg_check_members b))))"

section \<open>Writing a service\<close>

definition without_key :: "string \<Rightarrow> (string \<times> json) list \<Rightarrow> (string \<times> json) list" where
  "without_key k ps = filter (\<lambda>p. fst p \<noteq> k) ps"

text \<open>\<open>payload["metadata"].get("annotations", {}).pop(..., None)\<close>.\<close>

definition drop_operation :: "(string \<times> json) list \<Rightarrow> py_error + (string \<times> json) list" where
  "drop_operation metadata =
     (case map_of metadata ''annotations'' of
        None \<Rightarrow> Inr metadata
      | Some (JObj as) \<Rightarrow> Inr (dict_set ''annotations'' (JObj (without_key operation_annotation as)) metadata)
      | Some (JList _) \<Rightarrow> Inl TypeError
      | Some _ \<Rightarrow> Inl AttributeError)"

fun object_of :: "json \<Rightarrow> py_error + (string \<times> json) list" where
  "object_of (JObj ps) = Inr ps"
| "object_of _ = Inl AttributeError"

definition suspended_of :: "json \<Rightarrow> py_error + json" where
  "suspended_of v = rbind (jitem v ''spec'') (\<lambda>spec. jget spec ''suspend'' (JBool False))"

definition fenced :: "member option \<Rightarrow> (string \<times> json) list \<Rightarrow> (string \<times> json) list" where
  "fenced current metadata =
     (case current of
        None \<Rightarrow> dict_set ''resourceVersion'' (JStr ''0'') metadata
      | Some m \<Rightarrow> dict_set ''resourceVersion'' (JStr (mb_version m)) (dict_set ''uid'' (JStr (mb_uid m)) metadata))"

definition patch_payload :: "submission \<Rightarrow> resource_ref \<Rightarrow> json \<Rightarrow> member \<Rightarrow> json" where
  "patch_payload sb r suspended m =
     JObj [(''apiVersion'', JStr (mb_api m)), (''kind'', JStr (rr_kind r)),
       (''metadata'', JObj (fenced (Some m) [(''name'', JStr (rr_name r)), (''namespace'', JStr (rr_namespace r)),
          (''annotations'', JObj [(operation_annotation, JStr (sb_operation sb))])])),
       (''spec'', JObj [(''suspend'', suspended)])]"

definition apply_payload :: "json \<Rightarrow> json \<Rightarrow> member option \<Rightarrow> py_error + json" where
  "apply_payload v suspended current =
     rbind (object_of v) (\<lambda>ps.
     rbind (jitem v ''metadata'') (\<lambda>md. rbind (object_of md) (\<lambda>ms.
     rbind (drop_operation ms) (\<lambda>ms'.
     rbind (jitem v ''spec'') (\<lambda>spec.
     let ps' = (if current \<noteq> None \<and> \<not> jtrue suspended then dict_set ''spec'' (JObj (without_key ''suspend'' (jobj spec))) ps else ps) in
     Inr (JObj (dict_set ''metadata'' (JObj (fenced current ms')) ps')))))))"

definition service_payload :: "submission \<Rightarrow> resource_ref \<Rightarrow> json \<Rightarrow> json \<Rightarrow> bool \<Rightarrow> member option \<Rightarrow> py_error + json" where
  "service_payload sb r v suspended patch current =
     (case current of
        Some m \<Rightarrow> if patch then Inr (patch_payload sb r suspended m) else apply_payload v suspended current
      | None \<Rightarrow> apply_payload v suspended current)"

text \<open>\<open>is not\<close> on decoded values: the constants are the same object, other values are not.\<close>

definition same_constant :: "json \<Rightarrow> json \<Rightarrow> bool" where
  "same_constant a b \<longleftrightarrow> a = b \<and> (a = JNull \<or> a = JBool True \<or> a = JBool False)"

definition suspend_field :: "member \<Rightarrow> json" where
  "suspend_field m = (case map_of (mb_spec m) ''suspend'' of None \<Rightarrow> JNull | Some v \<Rightarrow> v)"

text \<open>What an accepted write leaves: another round, or the end of the stage.\<close>

datatype write_outcome = Again submission | Ends "cli_error + unit" submission

definition record_receipt :: "resource_ref \<Rightarrow> member option \<Rightarrow> member \<Rightarrow> submission \<Rightarrow> submission" where
  "record_receipt r current result sb =
     (if current = None \<or> map_of (sb_created sb) r \<noteq> None then sb\<lparr>sb_created := dict_set r result (sb_created sb)\<rparr> else sb)"

definition after_write :: "resource_ref \<Rightarrow> json \<Rightarrow> bool \<Rightarrow> member option \<Rightarrow> member \<Rightarrow> submission \<Rightarrow> write_outcome" where
  "after_write r suspended patch current result sb =
     (let sb1 = record_receipt r current result sb in
      case intent_version (Some result) of
        Inl e \<Rightarrow> Ends (Inl (Deploy e)) sb1
      | Inr v \<Rightarrow>
          let sb2 = sb1\<lparr>sb_committed := dict_set r v (sb_committed sb1)\<rparr> in
          if patch \<and> current = None then Again sb2
          else if patch \<and> \<not> same_constant (suspend_field result) suspended
          then Ends (Inl (Deploy (DeploymentError ''The platform does not support service suspension; update the platform first''))) sb2
          else Ends (Inr ()) sb2)"

definition after_conflict :: "resource_ref \<Rightarrow> member option \<Rightarrow> deploy_error \<Rightarrow> member option \<Rightarrow> submission \<Rightarrow> write_outcome" where
  "after_conflict r current e latest sb =
     (case validate_member sb r latest of
        Inl e' \<Rightarrow> Ends (Inl (Deploy e')) sb
      | Inr found \<Rightarrow>
          (case (current, found) of
             (None, _) \<Rightarrow> Ends (Inl (Deploy e)) sb
           | (Some m, None) \<Rightarrow> Ends (Inl (Raised TypeError)) sb
           | (Some m, Some n) \<Rightarrow> if mb_version n = mb_version m then Ends (Inl (Deploy e)) sb else Again sb))"

record service_round =
  sr_instance :: "member option"
  sr_members :: "(resource_ref \<times> member) list"
  sr_remaining :: time
  sr_answer :: write_answer

text \<open>What the stage does before it writes: the observed object and the payload.\<close>

definition prepare_write ::
  "submission \<Rightarrow> resource_ref \<Rightarrow> json \<Rightarrow> json \<Rightarrow> bool \<Rightarrow> member option \<Rightarrow> (resource_ref \<times> member) list \<Rightarrow> time \<Rightarrow>
   cli_error + member option \<times> json" where
  "prepare_write sb r v suspended patch inst observed remaining =
     rbind (deploying (current_services sb inst observed)) (\<lambda>services.
     case map_of services r of
       None \<Rightarrow> Inl (Raised (KeyError (rr_name r)))
     | Some current \<Rightarrow>
         rbind (raising (service_payload sb r v suspended patch current)) (\<lambda>payload.
         if remaining \<le> 0 then Inl (Deploy (DeploymentError (''Timed out submitting '' @ display_name r)))
         else Inr (current, payload)))"

fun apply_rounds ::
  "resource_ref \<Rightarrow> json \<Rightarrow> json \<Rightarrow> bool \<Rightarrow> service_round list \<Rightarrow> submission \<Rightarrow> ((cli_error + unit) \<times> submission) option" where
  "apply_rounds r v suspended patch [] sb = None"
| "apply_rounds r v suspended patch (x # xs) sb =
     (case prepare_write sb r v suspended patch (sr_instance x) (sr_members x) (sr_remaining x) of
        Inl e \<Rightarrow> Some (Inl e, sb)
      | Inr (current, _) \<Rightarrow>
          (case (case sr_answer x of
                   Applied m \<Rightarrow> after_write r suspended patch current m sb
                 | Conflict e latest \<Rightarrow> after_conflict r current e latest sb
                 | Refused e \<Rightarrow> Ends (Inl (Deploy e)) sb) of
             Again sb' \<Rightarrow> apply_rounds r v suspended patch xs sb'
           | Ends res sb' \<Rightarrow> Some (res, sb')))"

definition apply_service :: "resource_ref \<Rightarrow> json \<Rightarrow> bool \<Rightarrow> service_round list \<Rightarrow> submission \<Rightarrow> ((cli_error + unit) \<times> submission) option" where
  "apply_service r v patch xs sb =
     (case raising (suspended_of v) of Inl e \<Rightarrow> Some (Inl e, sb) | Inr suspended \<Rightarrow> apply_rounds r v suspended patch xs sb)"

text \<open>The stages of one service in \<open>_submit\<close>: whether each one is a patch.\<close>

definition service_stages :: "submission \<Rightarrow> resource_ref \<Rightarrow> bool \<Rightarrow> json \<Rightarrow> bool list" where
  "service_stages sb r patch_services suspended =
     (if map_of (sb_committed sb) r \<noteq> None then []
      else if patch_services then [True]
      else (if jtrue suspended \<and> map_of (sb_expected sb) r \<noteq> Some None then [True] else []) @ [False] @
           (if jtrue suspended then [] else [True]))"

fun run_stages ::
  "resource_ref \<Rightarrow> json \<Rightarrow> (bool \<times> service_round list) list \<Rightarrow> submission \<Rightarrow> ((cli_error + unit) \<times> submission) option" where
  "run_stages r v [] sb = Some (Inr (), sb)"
| "run_stages r v ((patch, xs) # stages) sb =
     (case apply_service r v patch xs sb of
        Some (Inr _, sb') \<Rightarrow> run_stages r v stages sb'
      | other \<Rightarrow> other)"

section \<open>Writing dependencies\<close>

definition document_ref :: "string \<Rightarrow> json \<Rightarrow> json \<Rightarrow> py_error + resource_ref" where
  "document_ref ns v metadata =
     rbind (text_item v ''kind'') (\<lambda>kind. rbind (text_item metadata ''name'') (\<lambda>name.
     rbind (jget metadata ''namespace'' JNull) (\<lambda>own.
     case jor own (JStr ns) of
       JStr namespace \<Rightarrow> Inr \<lparr>rr_kind = kind, rr_name = name, rr_namespace = namespace\<rparr>
     | _ \<Rightarrow> Inl TypeError)))"

definition service_api :: "json \<Rightarrow> bool" where
  "service_api v = (case field ''apiVersion'' v of JStr s \<Rightarrow> starts_with ''inference.foretoken.io/'' s | _ \<Rightarrow> False)"

text \<open>The documents of a rendering: services with their references, and the rest.\<close>

fun split_rendered :: "submission \<Rightarrow> json list \<Rightarrow> py_error + (resource_ref \<times> json) list \<times> json list" where
  "split_rendered sb [] = Inr ([], [])"
| "split_rendered sb (v # vs) =
     rbind (jget v ''metadata'' JNull) (\<lambda>metadata.
     rbind (document_ref (sb_namespace sb) v (jor metadata (JObj []))) (\<lambda>r.
     rbind (split_rendered sb vs) (\<lambda>(services, rest).
     Inr (if map_of (sb_expected sb) r \<noteq> None \<and> service_api v then ((r, v) # services, rest) else (services, v # rest)))))"

definition stop_dependencies :: "submission \<Rightarrow> json list \<Rightarrow> py_error + json list" where
  "stop_dependencies sb objects =
     filter_list (\<lambda>v. rbind (text_item v ''kind'') (\<lambda>kind.
       if kind = ''Namespace'' then Inr False
       else rbind (jitem v ''metadata'') (\<lambda>metadata. rbind (document_ref (sb_namespace sb) v metadata) (\<lambda>r.
         Inr (map_of (sb_expected sb) r = None))))) objects"

definition dependency_payload :: "submission \<Rightarrow> json \<Rightarrow> py_error + json" where
  "dependency_payload sb v =
     rbind (object_of v) (\<lambda>ps.
     rbind (jitem v ''metadata'') (\<lambda>md. rbind (object_of md) (\<lambda>ms.
     case map_of ms ''annotations'' of
       Some (JObj as) \<Rightarrow>
         Inr (JObj (dict_set ''metadata'' (JObj (dict_set ''annotations'' (JObj (dict_set operation_annotation (JStr (sb_operation sb)) as)) ms)) ps))
     | None \<Rightarrow>
         Inr (JObj (dict_set ''metadata'' (JObj (dict_set ''annotations'' (JObj [(operation_annotation, JStr (sb_operation sb))]) ms)) ps))
     | Some _ \<Rightarrow> Inl TypeError)))"

definition create_payload :: "json \<Rightarrow> json" where
  "create_payload payload =
     JObj (dict_set ''metadata'' (JObj (without_key ''resourceVersion'' (jobj (field ''metadata'' payload)))) (jobj payload))"

text \<open>A runtime cache that selects no storage keeps the storage it has.\<close>

definition storage_selection :: "string list" where
  "storage_selection = [''directory'', ''initialSize'', ''storageClassName'']"

definition storage_fields :: "string list" where
  "storage_fields = [''directory'', ''initialSize'', ''storageClassName'', ''accessMode'', ''retentionPolicy'', ''maxSize'']"

definition keep_field :: "(string \<times> json) list \<Rightarrow> string \<Rightarrow> (string \<times> json) list \<Rightarrow> (string \<times> json) list" where
  "keep_field committed k spec =
     (case (map_of committed k, map_of spec k) of (Some v, None) \<Rightarrow> dict_set k v spec | _ \<Rightarrow> spec)"

definition keep_storage :: "json \<Rightarrow> member \<Rightarrow> json \<Rightarrow> json" where
  "keep_storage v current payload =
     (let spec = jobj (field ''spec'' payload) in
      if field ''kind'' v = JStr ''RuntimeCache'' \<and> service_api v \<and> (\<forall>k \<in> set storage_selection. map_of spec k = None)
      then JObj (dict_set ''spec'' (JObj (fold (keep_field (mb_spec current)) storage_fields spec)) (jobj payload))
      else payload)"

definition update_payload :: "json \<Rightarrow> member \<Rightarrow> json \<Rightarrow> json" where
  "update_payload v current payload =
     (let kept = keep_storage v current payload in
      JObj (dict_set ''metadata'' (JObj (fenced (Some current) (jobj (field ''metadata'' kept)))) (jobj kept)))"

record dependency_round =
  dp_instance :: "member option"
  dp_members :: "(resource_ref \<times> member) list"
  dp_current :: "member option"
  dp_remaining :: time
  dp_create :: write_answer
  dp_claim_remaining :: time
  dp_claim :: write_answer
  dp_apply_remaining :: time
  dp_apply :: write_answer

text \<open>\<open>except KubernetesVersionConflictError\<close>.\<close>

definition dependency_conflict :: "member option \<Rightarrow> deploy_error \<Rightarrow> member option \<Rightarrow> submission \<Rightarrow> write_outcome" where
  "dependency_conflict current e latest sb =
     (case (current, latest) of
        (Some m, Some n) \<Rightarrow> if mb_version n = mb_version m then Ends (Inl (Deploy e)) sb else Again sb
      | _ \<Rightarrow> Ends (Inl (Deploy e)) sb)"

definition timed_out :: "string \<Rightarrow> resource_ref \<Rightarrow> submission \<Rightarrow> write_outcome" where
  "timed_out verb r sb = Ends (Inl (Deploy (DeploymentError (''Timed out '' @ verb @ '' '' @ display_name r)))) sb"

definition update_receipt :: "resource_ref \<Rightarrow> member \<Rightarrow> submission \<Rightarrow> submission" where
  "update_receipt r m sb =
     (case map_of (sb_created sb) r of
        Some receipt \<Rightarrow> if mb_uid receipt = mb_uid m then sb\<lparr>sb_created := dict_set r m (sb_created sb)\<rparr> else sb
      | None \<Rightarrow> sb)"

definition write_update :: "resource_ref \<Rightarrow> bool \<Rightarrow> member \<Rightarrow> dependency_round \<Rightarrow> submission \<Rightarrow> write_outcome" where
  "write_update r skip m x sb =
     (if skip then Ends (Inr ()) sb
      else if dp_apply_remaining x \<le> 0 then timed_out ''submitting'' r sb
      else case dp_apply x of
        Applied _ \<Rightarrow> Ends (Inr ()) sb
      | Refused e \<Rightarrow> Ends (Inl (Deploy e)) sb
      | Conflict e latest \<Rightarrow> dependency_conflict (Some m) e latest sb)"

definition claim_member :: "resource_ref \<Rightarrow> bool \<Rightarrow> member \<Rightarrow> dependency_round \<Rightarrow> submission \<Rightarrow> write_outcome" where
  "claim_member r skip m x sb =
     (if dp_claim_remaining x \<le> 0 then timed_out ''claiming'' r sb
      else case dp_claim x of
        Applied m' \<Rightarrow> write_update r skip m' x (update_receipt (mb_ref m) m' sb)
      | Refused e \<Rightarrow> Ends (Inl (Deploy e)) sb
      | Conflict e latest \<Rightarrow> dependency_conflict (Some m) e latest sb)"

definition create_member :: "resource_ref \<Rightarrow> dependency_round \<Rightarrow> submission \<Rightarrow> write_outcome" where
  "create_member r x sb =
     (case dp_create x of
        Applied m \<Rightarrow> claim_member r True m x (sb\<lparr>sb_created := dict_set (mb_ref m) m (sb_created sb)\<rparr>)
      | Refused e \<Rightarrow> Ends (Inl (Deploy e)) sb
      | Conflict e latest \<Rightarrow> dependency_conflict None e latest sb)"

text \<open>An object that was there before a temporary submission: neither created nor changed by it.\<close>

definition retained_object :: "submission \<Rightarrow> member \<Rightarrow> bool" where
  "retained_object sb m \<longleftrightarrow>
     sb_create_only sb \<and> (case map_of (sb_created sb) (mb_ref m) of None \<Rightarrow> True | Some receipt \<Rightarrow> mb_uid receipt \<noteq> mb_uid m)"

definition dependency_iteration :: "resource_ref \<Rightarrow> json \<Rightarrow> bool \<Rightarrow> dependency_round \<Rightarrow> submission \<Rightarrow> write_outcome" where
  "dependency_iteration r v claim_only x sb =
     (case rbind (current_services sb (dp_instance x) (dp_members x)) (\<lambda>_. validate_member sb r (dp_current x)) of
        Inl e \<Rightarrow> Ends (Inl (Deploy e)) sb
      | Inr current \<Rightarrow>
          if claim_only \<and> current = None then Ends (Inr ()) sb
          else if (case current of None \<Rightarrow> False | Some m \<Rightarrow> retained_object sb m)
          then if matches_declared_fields (JObj (mb_spec (the current)))
                    (case map_of (jobj v) ''spec'' of None \<Rightarrow> JObj [] | Some spec \<Rightarrow> spec)
               then Ends (Inr ()) sb
               else Ends (Inl (Deploy (DeploymentError (''Retained '' @ display_name r @
                 '' differs from the submitted storage configuration; deploy the instance to apply storage changes before benchmarking'')))) sb
          else if dp_remaining x \<le> 0 then timed_out ''submitting'' r sb
          else case dependency_payload sb v of
            Inl e \<Rightarrow> Ends (Inl (Raised e)) sb
          | Inr payload \<Rightarrow> (case current of None \<Rightarrow> create_member r x sb | Some m \<Rightarrow> claim_member r claim_only m x sb))"

fun apply_dependency :: "resource_ref \<Rightarrow> json \<Rightarrow> bool \<Rightarrow> dependency_round list \<Rightarrow> submission \<Rightarrow> ((cli_error + unit) \<times> submission) option" where
  "apply_dependency r v claim_only [] sb = None"
| "apply_dependency r v claim_only (x # xs) sb =
     (case dependency_iteration r v claim_only x sb of
        Again sb' \<Rightarrow> apply_dependency r v claim_only xs sb'
      | Ends res sb' \<Rightarrow> Some (res, sb'))"

fun apply_dependencies ::
  "bool \<Rightarrow> (json \<times> dependency_round list) list \<Rightarrow> submission \<Rightarrow> ((cli_error + unit) \<times> submission) option" where
  "apply_dependencies claim_only [] sb = Some (Inr (), sb)"
| "apply_dependencies claim_only ((v, xs) # rest) sb =
     (case raising (rbind (jitem v ''metadata'') (document_ref (sb_namespace sb) v)) of
        Inl e \<Rightarrow> Some (Inl e, sb)
      | Inr r \<Rightarrow>
          (case apply_dependency r v claim_only xs sb of
             Some (Inr _, sb') \<Rightarrow> apply_dependencies claim_only rest sb'
           | other \<Rightarrow> other))"

text \<open>\<open>_submit\<close>: dependencies before services; \<open>answers\<close> gives the rounds of a document and of a stage.\<close>

fun apply_services ::
  "bool \<Rightarrow> (resource_ref \<Rightarrow> nat \<Rightarrow> service_round list) \<Rightarrow> (resource_ref \<times> json) list \<Rightarrow> submission \<Rightarrow> ((cli_error + unit) \<times> submission) option" where
  "apply_services patch_services answers [] sb = Some (Inr (), sb)"
| "apply_services patch_services answers ((r, v) # rest) sb =
     (case raising (suspended_of v) of
        Inl e \<Rightarrow> if map_of (sb_committed sb) r \<noteq> None then apply_services patch_services answers rest sb else Some (Inl e, sb)
      | Inr suspended \<Rightarrow>
          (let stages = service_stages sb r patch_services suspended in
           case run_stages r v (zip stages (map (answers r) [0..<length stages])) sb of
             Some (Inr _, sb') \<Rightarrow> apply_services patch_services answers rest sb'
           | other \<Rightarrow> other))"

definition submit_rendered ::
  "bool \<Rightarrow> member option \<Rightarrow> (resource_ref \<times> member) list \<Rightarrow> json list \<Rightarrow> (json \<Rightarrow> dependency_round list) \<Rightarrow>
   (resource_ref \<Rightarrow> nat \<Rightarrow> service_round list) \<Rightarrow> json list \<Rightarrow> submission \<Rightarrow> ((cli_error + unit) \<times> submission) option" where
  "submit_rendered patch_services inst observed objects dependency_answers answers rendered sb =
     (case rbind (raising (split_rendered sb rendered)) (\<lambda>(services, rest).
            rbind (deploying (current_services sb inst observed)) (\<lambda>_.
            rbind (if patch_services then raising (stop_dependencies sb objects) else Inr rest) (\<lambda>deps. Inr (services, deps)))) of
        Inl e \<Rightarrow> Some (Inl e, sb)
      | Inr (services, deps) \<Rightarrow>
          (case apply_dependencies patch_services (map (\<lambda>v. (v, dependency_answers v)) deps) sb of
             Some (Inr _, sb') \<Rightarrow> apply_services patch_services answers services sb'
           | other \<Rightarrow> other))"

section \<open>A service among other writers\<close>

text \<open>
  The object of one service, the versions it has had, the submission, its write on the way, and the writes that the
  API server accepted from it, each with the object it replaced. A pending write holds the object it observed, whether it
  is a patch, and the payload it sends.
\<close>

record service_world =
  sv_object :: "member option"
  sv_used :: "string list"
  sv_submission :: submission
  sv_active :: bool
  sv_pending :: "(member option \<times> bool \<times> json) option"
  sv_log :: "(member option \<times> member) list"

text \<open>
  Whether the API server accepts a payload, which it decides on the metadata of the payload alone. Over an existing object
  a uid and a resource version are preconditions when they are given. Where nothing is, an object is created
  unless the payload names a uid or a version; the version \<open>0\<close> asks for a creation.
\<close>

definition server_accepts :: "json \<Rightarrow> member option \<Rightarrow> bool" where
  "server_accepts payload object =
     (let metadata = map_of (jobj (field ''metadata'' payload)) in
      case object of
        None \<Rightarrow> metadata ''uid'' = None \<and> metadata ''resourceVersion'' \<in> {None, Some (JStr ''0'')}
      | Some n \<Rightarrow> metadata ''uid'' \<in> {None, Some (JStr (mb_uid n))} \<and>
          metadata ''resourceVersion'' \<in> {None, Some (JStr (mb_version n))})"

definition store_object :: "member \<Rightarrow> service_world \<Rightarrow> service_world" where
  "store_object m w = w\<lparr>sv_object := Some m, sv_used := mb_version m # sv_used w\<rparr>"

definition log_write :: "member \<Rightarrow> service_world \<Rightarrow> service_world" where
  "log_write m w = w\<lparr>sv_pending := None, sv_log := sv_log w @ [(sv_object w, m)]\<rparr>"

fun proceed :: "write_outcome \<Rightarrow> service_world \<Rightarrow> service_world" where
  "proceed (Again sb) w = w\<lparr>sv_submission := sb\<rparr>"
| "proceed (Ends (Inr _) sb) w = w\<lparr>sv_submission := sb\<rparr>"
| "proceed (Ends (Inl _) sb) w = w\<lparr>sv_submission := sb, sv_active := False\<rparr>"

inductive service_step :: "resource_ref \<Rightarrow> json \<Rightarrow> json \<Rightarrow> service_world \<Rightarrow> service_world \<Rightarrow> bool" for r v suspended where
  other_write: "mb_version m \<notin> set (sv_used w) \<Longrightarrow> service_step r v suspended w (store_object m w)"
| other_delete: "service_step r v suspended w (w\<lparr>sv_object := None\<rparr>)"
| prepare: "sv_active w \<Longrightarrow> sv_pending w = None \<Longrightarrow> map_of observed r = sv_object w \<Longrightarrow>
    prepare_write (sv_submission w) r v suspended patch inst observed remaining = Inr (current, payload) \<Longrightarrow>
    service_step r v suspended w (w\<lparr>sv_pending := Some (current, patch, payload)\<rparr>)"
| accepted: "sv_active w \<Longrightarrow> sv_pending w = Some (current, patch, payload) \<Longrightarrow> server_accepts payload (sv_object w) \<Longrightarrow>
    mb_version m \<notin> set (sv_used w) \<Longrightarrow>
    service_step r v suspended w
      (proceed (after_write r suspended patch current m (sv_submission w)) (store_object m (log_write m w)))"
| answer_lost: "sv_pending w = Some (current, patch, payload) \<Longrightarrow> server_accepts payload (sv_object w) \<Longrightarrow>
    mb_version m \<notin> set (sv_used w) \<Longrightarrow>
    service_step r v suspended w (store_object m (log_write m w)\<lparr>sv_active := False\<rparr>)"
| conflict: "sv_active w \<Longrightarrow> sv_pending w = Some (current, patch, payload) \<Longrightarrow>
    service_step r v suspended w
      (proceed (after_conflict r current e latest (sv_submission w)) (w\<lparr>sv_pending := None\<rparr>))"
| gives_up: "service_step r v suspended w (w\<lparr>sv_active := False\<rparr>)"

text \<open>The version \<open>0\<close> counts as used: no object ever has it.\<close>

definition service_start :: "resource_ref \<Rightarrow> intent option \<Rightarrow> service_world \<Rightarrow> bool" where
  "service_start r first w \<longleftrightarrow>
     map_of (sb_committed (sv_submission w)) r = None \<and> map_of (sb_expected (sv_submission w)) r = Some first \<and>
     sv_pending w = None \<and> sv_log w = [] \<and> ''0'' \<in> set (sv_used w) \<and>
     (case sv_object w of None \<Rightarrow> True | Some m \<Rightarrow> mb_version m \<in> set (sv_used w) \<and> mb_version m \<noteq> ''0'')"

text \<open>Every accepted write replaces an object with the intent of the write before it.\<close>

fun own_history :: "intent option \<Rightarrow> (member option \<times> member) list \<Rightarrow> bool" where
  "own_history before [] = True"
| "own_history before ((replaced_object, written) # writes) \<longleftrightarrow>
     intent_version replaced_object = Inr before \<and>
     (writes = [] \<or> (\<exists>after. intent_version (Some written) = Inr after \<and> own_history after writes))"

definition last_intent :: "intent option \<Rightarrow> (member option \<times> member) list \<Rightarrow> deploy_error + intent option" where
  "last_intent before writes = (if writes = [] then Inr before else intent_version (Some (snd (last writes))))"

lemma last_intent_snoc [simp]: "last_intent before (writes @ [(x, written)]) = intent_version (Some written)"
  by (simp add: last_intent_def)

lemma own_history_snoc:
  "own_history before writes \<Longrightarrow> last_intent before writes = Inr i \<Longrightarrow> intent_version x = Inr i \<Longrightarrow> own_history before (writes @ [(x, written)])"
proof (induction before writes rule: own_history.induct)
  case (2 before y z writes)
  then show ?case
    by (cases writes) (auto simp: last_intent_def)
qed (simp add: last_intent_def)

definition service_inv :: "resource_ref \<Rightarrow> intent option \<Rightarrow> service_world \<Rightarrow> bool" where
  "service_inv r first w \<longleftrightarrow>
     own_history first (sv_log w) \<and>
     (sv_active w \<longrightarrow> map_of (sb_expected (sv_submission w)) r \<noteq> None \<and>
        (\<exists>i. precondition (sv_submission w) r = Some i \<and> last_intent first (sv_log w) = Inr i)) \<and>
     ''0'' \<in> set (sv_used w) \<and>
     (case sv_object w of None \<Rightarrow> True | Some m \<Rightarrow> mb_version m \<in> set (sv_used w) \<and> mb_version m \<noteq> ''0'') \<and>
     (case sv_pending w of
        None \<Rightarrow> True
      | Some (current, _, payload) \<Rightarrow>
          (\<exists>metadata. field ''metadata'' payload = JObj (fenced current metadata)) \<and>
          (\<exists>i. intent_version current = Inr i \<and> last_intent first (sv_log w) = Inr i) \<and>
          (case current of None \<Rightarrow> True | Some m \<Rightarrow> mb_version m \<in> set (sv_used w) \<and>
             (case sv_object w of None \<Rightarrow> True | Some n \<Rightarrow> mb_version n = mb_version m \<longrightarrow> n = m)))"

lemma validate_members_at:
  "validate_members sb observed rs = Inr ms \<Longrightarrow> map_of ms r = Some m \<Longrightarrow> validate_member sb r (map_of observed r) = Inr m"
  by (induction rs arbitrary: ms) (auto elim!: rbind_InrE split: if_splits)

lemma validate_member_intent:
  assumes "validate_member sb r current = Inr m" and "map_of (sb_expected sb) r \<noteq> None"
  shows "m = current" and "\<exists>i. intent_version current = Inr i \<and> precondition sb r = Some i"
  using assms by (auto simp: validate_member_def split: if_splits elim!: rbind_InrE)

lemma prepare_write_intent:
  assumes "prepare_write sb r v suspended patch inst observed remaining = Inr (current, payload)" and "map_of (sb_expected sb) r \<noteq> None"
  shows "current = map_of observed r" and "\<exists>i. intent_version current = Inr i \<and> precondition sb r = Some i"
proof -
  obtain services where "current_services sb inst observed = Inr services" and "map_of services r = Some current"
    using assms(1) by (auto simp: prepare_write_def deploying_def split: option.splits sum.splits if_splits elim!: rbind_InrE)
  then have "validate_member sb r (map_of observed r) = Inr current"
    by (auto simp: current_services_def split: if_splits dest: validate_members_at)
  from validate_member_intent [OF this assms(2)] show "current = map_of observed r"
    "\<exists>i. intent_version current = Inr i \<and> precondition sb r = Some i"
    by simp_all
qed

text \<open>Every payload carries the fence of the object it was made for.\<close>

lemma service_payload_fenced:
  "service_payload sb r v suspended patch current = Inr payload \<Longrightarrow> \<exists>metadata. field ''metadata'' payload = JObj (fenced current metadata)"
  unfolding service_payload_def apply_payload_def
  by (auto simp: patch_payload_def field_def Let_def split: option.splits if_splits elim!: rbind_InrE)

lemma prepare_write_fenced:
  "prepare_write sb r v suspended patch inst observed remaining = Inr (current, payload) \<Longrightarrow>
   \<exists>metadata. field ''metadata'' payload = JObj (fenced current metadata)"
  by (auto simp: prepare_write_def raising_def split: option.splits sum.splits if_splits elim!: rbind_InrE
      dest: service_payload_fenced)

text \<open>The server accepts a fenced payload only over the version it was made for.\<close>

lemma fence_holds:
  assumes "field ''metadata'' payload = JObj (fenced current metadata)" and "server_accepts payload object"
    and "\<And>n. object = Some n \<Longrightarrow> mb_version n \<noteq> ''0''"
  shows "(current = None \<and> object = None) \<or> (\<exists>m n. current = Some m \<and> object = Some n \<and> mb_uid m = mb_uid n \<and> mb_version m = mb_version n)"
proof (cases object)
  case None
  then show ?thesis using assms(1,2) by (auto simp: server_accepts_def fenced_def split: option.splits)
next
  case (Some n)
  then show ?thesis using assms(1,2) assms(3) [OF Some] by (cases current) (auto simp: server_accepts_def fenced_def)
qed

lemma record_receipt_sel [simp]:
  "sb_expected (record_receipt r c m sb) = sb_expected sb" "sb_committed (record_receipt r c m sb) = sb_committed sb"
  by (simp_all add: record_receipt_def)

lemma follow_sel [simp]:
  "sv_log (proceed x w) = sv_log w" "sv_object (proceed x w) = sv_object w" "sv_used (proceed x w) = sv_used w"
  "sv_pending (proceed x w) = sv_pending w"
  by (cases "(x, w)" rule: proceed.cases; simp)+

lemma follow_write_active:
  assumes "sv_active (proceed (after_write r suspended patch current m sb) w)"
  shows "sb_expected (sv_submission (proceed (after_write r suspended patch current m sb) w)) = sb_expected sb \<and>
    (\<exists>i. intent_version (Some m) = Inr i \<and> precondition (sv_submission (proceed (after_write r suspended patch current m sb) w)) r = Some i)"
  using assms by (auto simp: after_write_def Let_def precondition_def split: sum.splits if_splits)

lemma after_conflict_same: "after_conflict r current e latest sb = Again sb' \<or> after_conflict r current e latest sb = Ends x sb' \<Longrightarrow> sb' = sb"
  by (auto simp: after_conflict_def split: sum.splits option.splits if_splits)

lemma follow_conflict:
  "sv_submission (proceed (after_conflict r current e latest (sv_submission w)) (w\<lparr>sv_pending := None\<rparr>)) = sv_submission w"
  "sv_active (proceed (after_conflict r current e latest (sv_submission w)) (w\<lparr>sv_pending := None\<rparr>)) \<Longrightarrow> sv_active w"
  using after_conflict_same [of r current e latest "sv_submission w"]
  by (cases "(after_conflict r current e latest (sv_submission w), w\<lparr>sv_pending := None\<rparr>)" rule: proceed.cases; simp)+

text \<open>A write that fits replaces the object it observed.\<close>

lemma fitting_write_replaces:
  assumes "service_inv r first w" and "sv_pending w = Some (current, patch, payload)" and "server_accepts payload (sv_object w)"
  shows "sv_object w = current" and "own_history first (sv_log w @ [(sv_object w, m)])"
proof -
  obtain metadata where fence: "field ''metadata'' payload = JObj (fenced current metadata)"
    using assms(1,2) by (auto simp: service_inv_def)
  have version: "mb_version n \<noteq> ''0''" if "sv_object w = Some n" for n
    using assms(1) that by (simp add: service_inv_def)
  from fence_holds [OF fence assms(3) version] show same: "sv_object w = current"
  proof
    assume "\<exists>m n. current = Some m \<and> sv_object w = Some n \<and> mb_uid m = mb_uid n \<and> mb_version m = mb_version n"
    then obtain m n where mn: "current = Some m" "sv_object w = Some n" "mb_version m = mb_version n" by blast
    then have "n = m" using assms(1,2) by (simp add: service_inv_def)
    then show ?thesis using mn by simp
  next
    assume "current = None \<and> sv_object w = None"
    then show ?thesis by simp
  qed
  show "own_history first (sv_log w @ [(sv_object w, m)])"
    unfolding same using assms(1,2) by (auto simp: service_inv_def intro: own_history_snoc)
qed

lemma stored_inv:
  assumes "service_inv r first w" and "mb_version m \<notin> set (sv_used w)"
  shows "service_inv r first (store_object m w)"
  using assms by (auto simp: service_inv_def store_object_def split: option.splits)

lemma service_step_inv:
  assumes "service_inv r first w" and "service_step r v suspended w w'"
  shows "service_inv r first w'"
  using assms(2)
proof cases
  case (other_write m)
  then show ?thesis
    using stored_inv [OF assms(1)] by simp
next
  case (prepare observed patch inst remaining current payload)
  have known: "map_of (sb_expected (sv_submission w)) r \<noteq> None"
    using assms(1) prepare(2) by (auto simp: service_inv_def)
  note facts = prepare_write_intent [OF prepare(5) known] prepare_write_fenced [OF prepare(5)]
  have current: "current = sv_object w" using facts(1) prepare(4) by simp
  obtain i where i: "intent_version current = Inr i" "precondition (sv_submission w) r = Some i" using facts(2) by blast
  have "last_intent first (sv_log w) = Inr i" using assms(1) prepare(2) i(2) by (auto simp: service_inv_def)
  then show ?thesis
    using assms(1) facts(3) i(1) unfolding prepare(1) current by (cases "sv_object w") (simp_all add: service_inv_def)
next
  case (accepted current patch payload m)
  note new = fitting_write_replaces(2) [OF assms(1) accepted(3,4), of m]
  have stored: "''0'' \<in> set (sv_used w)" "mb_version m \<noteq> ''0''" using assms(1) accepted(5) by (auto simp: service_inv_def)
  have "map_of (sb_expected (sv_submission w)) r \<noteq> None"
    using assms(1) accepted(2) by (auto simp: service_inv_def)
  then show ?thesis
    unfolding accepted(1) service_inv_def using new follow_write_active
      stored
    by (auto simp: store_object_def log_write_def) (metis)+
next
  case (answer_lost current patch payload m)
  note new = fitting_write_replaces(2) [OF assms(1) answer_lost(2,3), of m]
  moreover have "''0'' \<in> set (sv_used w)" "mb_version m \<noteq> ''0''" using assms(1) answer_lost(4) by (auto simp: service_inv_def)
  ultimately show ?thesis
    unfolding answer_lost(1) service_inv_def by (simp add: store_object_def log_write_def)
next
  case (conflict current patch payload e latest)
  show ?thesis
    unfolding conflict(1) service_inv_def using assms(1) follow_conflict [of r current e latest w]
    by (auto simp: service_inv_def split: option.splits)
qed (use assms(1) in \<open>auto simp: service_inv_def split: option.splits\<close>)

interpretation service_writes: inductive_invariant "service_start r first" "service_step r v suspended" "service_inv r first"
  for r first v suspended
proof
  show "service_inv r first w" if "service_start r first w" for w
    using that by (auto simp: service_start_def service_inv_def precondition_def last_intent_def split: option.splits)
  show "service_inv r first w'" if "service_inv r first w" "service_step r v suspended w w'" for w w'
    using that by (rule service_step_inv)
qed

text \<open>C8: A submission never overwrites the intent of another operation. Whatever other writers do to the service between
  its reads and its writes, and whether or not an answer is lost, every write the API server accepts from it, deciding on the uid and
  the resource version in the payload, replaces an object with exactly the intent the submission started from, or that its own previous write left: a stop issued
  between the configuration stage and the resume stage is not undone.\<close>

theorem submission_keeps_newer_intent:
  assumes "reachable (service_start r first) (service_step r v suspended) w"
  shows "own_history first (sv_log w)"
  using service_writes.reachable_inv [OF assms] by (simp add: service_inv_def)

text \<open>A service that the submission configures once; then another operation stops it.\<close>

definition demo_target :: resource_ref where
  "demo_target = \<lparr>rr_kind = ''ModelService'', rr_name = ''m'', rr_namespace = ''n''\<rparr>"

definition demo_member :: "string \<Rightarrow> int \<Rightarrow> string option \<Rightarrow> member" where
  "demo_member version generation operation =
     \<lparr>mb_ref = demo_target, mb_uid = ''u'', mb_version = version, mb_generation = generation, mb_deleting = False, mb_source = None,
      mb_operation = operation, mb_deployment = Some ''d'', mb_api = ''v1'', mb_spec = []\<rparr>"

definition demo_submission :: submission where
  "demo_submission =
     \<lparr>sb_operation = ''a'', sb_name = ''i'', sb_namespace = ''n'', sb_uid = ''d'', sb_create_only = False,
      sb_expected = [(demo_target, Some (''u'', 1, [], []))], sb_committed = [], sb_created = [], sb_scope = Some ''d''\<rparr>"

definition demo_instance :: member where
  "demo_instance = (demo_member ''9'' 1 (Some ''a''))\<lparr>mb_uid := ''d''\<rparr>"

definition demo_document :: json where
  "demo_document = JObj [(''metadata'', JObj [(''name'', JStr ''m'')]), (''spec'', JObj [])]"

definition demo_before :: service_world where
  "demo_before =
     \<lparr>sv_object = Some (demo_member ''1'' 1 None), sv_used = [''1'', ''0''], sv_submission = demo_submission, sv_active = True,
      sv_pending = None, sv_log = []\<rparr>"

definition demo_fenced :: json where
  "demo_fenced =
     JObj [(''metadata'', JObj [(''name'', JStr ''m''), (''uid'', JStr ''u''), (''resourceVersion'', JStr ''1'')]), (''spec'', JObj [])]"

definition demo_prepared :: service_world where
  "demo_prepared = demo_before\<lparr>sv_pending := Some (Some (demo_member ''1'' 1 None), False, demo_fenced)\<rparr>"

definition demo_configured :: service_world where
  "demo_configured =
     proceed (after_write demo_target (JBool False) False (Some (demo_member ''1'' 1 None)) (demo_member ''2'' 2 None) demo_submission)
       (store_object (demo_member ''2'' 2 None) (log_write (demo_member ''2'' 2 None) demo_prepared))"

definition demo_stopped :: service_world where
  "demo_stopped = store_object (demo_member ''3'' 3 (Some ''b'')) demo_configured"

lemma demo_stopped_reachable:
  "reachable (service_start demo_target (Some (''u'', 1, [], []))) (service_step demo_target demo_document (JBool False)) demo_stopped"
proof -
  let ?step = "service_step demo_target demo_document (JBool False)"
  have start: "service_start demo_target (Some (''u'', 1, [], [])) demo_before"
    by (simp add: service_start_def demo_before_def demo_submission_def demo_member_def)
  have "prepare_write (sv_submission demo_before) demo_target demo_document (JBool False) False (Some demo_instance)
      [(demo_target, demo_member ''1'' 1 None)] 1 =
    Inr (Some (demo_member ''1'' 1 None), demo_fenced)"
    by code_simp
  then have "?step demo_before demo_prepared"
    unfolding demo_prepared_def by (rule prepare [rotated 3]) (simp_all add: demo_before_def)
  moreover have "?step demo_prepared demo_configured"
    using accepted [of demo_prepared "Some (demo_member ''1'' 1 None)" False demo_fenced "demo_member ''2'' 2 None"]
    by (simp add: demo_configured_def demo_prepared_def demo_before_def demo_member_def server_accepts_def demo_fenced_def field_def)
  moreover have "?step demo_configured demo_stopped"
    unfolding demo_stopped_def by (rule other_write) (simp add: demo_configured_def demo_prepared_def demo_before_def demo_member_def store_object_def log_write_def)
  ultimately show ?thesis
    using reach_start [of "service_start demo_target (Some (''u'', 1, [], []))" demo_before, OF start]
    by (meson reach_step)
qed

theorem submission_keeps_newer_intent_witness:
  "own_history (Some (''u'', 1, [], [])) (sv_log demo_stopped) \<and> length (sv_log demo_stopped) = 1 \<and>
   prepare_write (sv_submission demo_stopped) demo_target demo_document (JBool False) True (Some demo_instance)
      [(demo_target, demo_member ''3'' 3 (Some ''b''))] 1 =
     Inl (Deploy (DeploymentError ''DeploymentSuperseded: ModelService/m was changed by another operation''))"
proof -
  have "prepare_write (sv_submission demo_stopped) demo_target demo_document (JBool False) True (Some demo_instance)
      [(demo_target, demo_member ''3'' 3 (Some ''b''))] 1 =
     Inl (Deploy (DeploymentError ''DeploymentSuperseded: ModelService/m was changed by another operation''))"
    by code_simp
  moreover have "length (sv_log demo_stopped) = 1"
    by code_simp
  ultimately show ?thesis
    using submission_keeps_newer_intent [OF demo_stopped_reachable] by simp
qed

theorem matching_is_unchanged_merge_witness:
  "matches_declared_fields (JObj [(''size'', JInt 1), (''mode'', JStr ''x'')]) (JObj [(''size'', JFloat 1)]) \<and>
   merge_values (JObj [(''size'', JInt 1), (''mode'', JStr ''x'')]) (JObj [(''size'', JFloat 1)]) =
     Inr (JObj [(''size'', JFloat 1), (''mode'', JStr ''x'')])"
proof -
  have merged: "merge_values (JObj [(''size'', JInt 1), (''mode'', JStr ''x'')]) (JObj [(''size'', JFloat 1)]) =
     Inr (JObj [(''size'', JFloat 1), (''mode'', JStr ''x'')])"
    by code_simp
  have "py_equal (JObj [(''size'', JInt 1), (''mode'', JStr ''x'')]) (JObj [(''size'', JFloat 1), (''mode'', JStr ''x'')])"
    by simp
  then show ?thesis
    using matching_is_unchanged_merge [of "[(''size'', JInt 1), (''mode'', JStr ''x'')]" "[(''size'', JFloat 1)]"] merged by simp
qed

end
