(* ===== verification/Mccl_Calibration.thy ===== *)
theory Mccl_Calibration
  imports Py_Json Py_Text "HOL-Library.Char_ord" "HOL-Library.List_Lexorder" "HOL-Library.Sublist"
begin

text \<open>
  Network calibration of a group of model servers (\<open>mccl/calibration.py\<close>): the leader searches for the ports
  each member uses, and every member follows the commands the leader publishes in a shared store. The probe
  processes, the clock, the mean of logarithms and the contents of the device directories are parameters.
\<close>

section \<open>Visible ports\<close>

record verbs_device =
  vb_ibdev :: string
  vb_allocated :: bool

text \<open>\<open>ports\<close> gives the port names and states of a device.\<close>

definition removeprefix :: "string \<Rightarrow> string \<Rightarrow> string" where
  "removeprefix p s = (if starts_with p s then drop (length p) s else s)"

definition active_port :: "string \<Rightarrow> bool" where
  "active_port state \<longleftrightarrow> strip (fst (split_first (CHR '':'') state)) = ''4''"

definition visible_ports :: "string \<Rightarrow> verbs_device list \<Rightarrow> (string \<Rightarrow> (string \<times> string) list) \<Rightarrow> string list" where
  "visible_ports hca devices ports =
     (let excluded = split_on (CHR '','') (removeprefix ''^='' hca);
          names = sort (remdups (map (\<lambda>d. strip (vb_ibdev d)) (filter vb_allocated devices))) in
      concat (map (\<lambda>device.
        map (\<lambda>(port, _). device @ '':'' @ port)
          (filter (\<lambda>(port, state). device @ '':'' @ port \<notin> set excluded \<and> active_port state) (sort_key fst (ports device)))) names))"

section \<open>Members and trials\<close>

record mccl_member =
  mb_skip :: bool
  mb_ports :: "string list"
  mb_gpus :: nat

definition join_member :: "bool \<Rightarrow> string list \<Rightarrow> nat \<Rightarrow> mccl_member" where
  "join_member skip ports gpus =
     \<lparr>mb_skip = skip, mb_ports = (if skip then [] else ports), mb_gpus = (if skip then 0 else gpus)\<rparr>"

type_synonym selection = "string list list"

record probe_options =
  po_rank_offset :: nat
  po_world_size :: nat
  po_gpu_count :: nat
  po_timeout :: time
  po_hca :: string

definition hca_value :: "selection \<Rightarrow> nat \<Rightarrow> string" where
  "hca_value sel i = ''='' @ join '','' (sel ! i)"

definition probe_options_of :: "mccl_member list \<Rightarrow> nat \<Rightarrow> selection \<Rightarrow> time \<Rightarrow> probe_options" where
  "probe_options_of members i sel timeout =
     \<lparr>po_rank_offset = sum_list (map mb_gpus (take i members)), po_world_size = sum_list (map mb_gpus members),
      po_gpu_count = mb_gpus (members ! i), po_timeout = timeout, po_hca = hca_value sel i\<rparr>"

text \<open>A probe process fails, answers rows of measurements, or cannot be run or read at all.\<close>

datatype probe_run = Exit_Failure | Rows json | Unusable string

datatype trial_status = Trial_Ok | Trial_Failed | Trial_Error string

fun status_of :: "probe_run \<Rightarrow> trial_status" where
  "status_of Exit_Failure = Trial_Failed"
| "status_of (Rows _) = Trial_Ok"
| "status_of (Unusable e) = Trial_Error e"

datatype calibration_error =
    DeadlineExceeded
  | MemberFailed nat string
  | NoCandidate
  | ScoreFailed py_error
  | LeaderFailed calibration_error

fun first_error :: "nat \<Rightarrow> trial_status list \<Rightarrow> calibration_error option" where
  "first_error i [] = None"
| "first_error i (Trial_Error e # ss) = Some (MemberFailed i e)"
| "first_error i (_ # ss) = first_error (Suc i) ss"

text \<open>What one member of a trial returns from the statuses of all, which every member reads.\<close>

definition trial_answer :: "trial_status list \<Rightarrow> probe_run \<Rightarrow> calibration_error + json option" where
  "trial_answer statuses own =
     (case first_error 0 statuses of
        Some e \<Rightarrow> Inl e
      | None \<Rightarrow>
          Inr (if list_all (\<lambda>s. s = Trial_Ok) statuses then (case own of Rows r \<Rightarrow> Some r | _ \<Rightarrow> None) else None))"

record group =
  gr_members :: "mccl_member list"
  gr_deadline :: time
  gr_clock :: "nat \<Rightarrow> time"
  gr_probe :: "nat \<Rightarrow> nat \<Rightarrow> probe_options \<Rightarrow> probe_run"
  gr_log_mean :: "json list \<Rightarrow> py_error + rat"

text \<open>The probe of member \<open>i\<close> in trial \<open>t\<close>, and \<open>_measure\<close> as that member sees it.\<close>

definition run_of :: "group \<Rightarrow> nat \<Rightarrow> nat \<Rightarrow> selection \<Rightarrow> time \<Rightarrow> probe_run" where
  "run_of G t i sel timeout = gr_probe G t i (probe_options_of (gr_members G) i sel timeout)"

definition measure_trial :: "group \<Rightarrow> nat \<Rightarrow> nat \<Rightarrow> selection \<Rightarrow> time \<Rightarrow> calibration_error + json option" where
  "measure_trial G t i sel timeout =
     trial_answer (map (\<lambda>j. status_of (run_of G t j sel timeout)) [0..<length (gr_members G)]) (run_of G t i sel timeout)"

fun seconds_of :: "json list \<Rightarrow> py_error + json list" where
  "seconds_of [] = Inr []"
| "seconds_of (row # rows) = rbind (jitem row ''seconds'') (\<lambda>s. rbind (seconds_of rows) (\<lambda>ss. Inr (s # ss)))"

definition score_rows :: "group \<Rightarrow> json \<Rightarrow> calibration_error + rat" where
  "score_rows G rows =
     (case rbind (jiter rows) (\<lambda>xs. rbind (seconds_of xs) (gr_log_mean G)) of
        Inl e \<Rightarrow> Inl (ScoreFailed e) | Inr s \<Rightarrow> Inr s)"

section \<open>The leader\<close>

datatype instruction = Try selection time | Selected selection | Abort calibration_error

record search =
  se_seen :: "selection list"
  se_best :: "rat option"
  se_winner :: "selection option"
  se_improved :: bool
  se_log :: "instruction list"

text \<open>The commands published so far are the trials; a failing step leaves its commands behind.\<close>

definition better :: "rat \<Rightarrow> rat option \<Rightarrow> bool" where
  "better score best = (case best of None \<Rightarrow> True | Some b \<Rightarrow> score < b)"

definition note_score :: "selection \<Rightarrow> rat \<Rightarrow> search \<Rightarrow> search" where
  "note_score cand score st =
     (if better score (se_best st) then st\<lparr>se_best := Some score, se_winner := Some cand, se_improved := True\<rparr> else st)"

definition try_candidate :: "group \<Rightarrow> nat \<Rightarrow> selection \<Rightarrow> search \<Rightarrow> (calibration_error \<times> search) + search" where
  "try_candidate G share cand st =
     (if cand \<in> set (se_seen st) then Inr st
      else
        let t = length (se_log st); st1 = st\<lparr>se_seen := cand # se_seen st\<rparr>;
            timeout = (gr_deadline G - gr_clock G t) / of_nat share in
        if timeout \<le> 0 then Inl (DeadlineExceeded, st1)
        else
          let st2 = st1\<lparr>se_log := se_log st1 @ [Try cand timeout]\<rparr> in
          case measure_trial G t 0 cand timeout of
            Inl e \<Rightarrow> Inl (e, st2)
          | Inr None \<Rightarrow> Inr st2
          | Inr (Some rows) \<Rightarrow>
              (case score_rows G rows of
                 Inl e \<Rightarrow> Inl (e, st2)
               | Inr score \<Rightarrow> Inr (note_score cand score st2)))"

text \<open>One round; the candidate with \<open>n\<close> candidates from it to the end gets the remaining time over \<open>n + 1\<close>.\<close>

fun try_candidates :: "group \<Rightarrow> selection list \<Rightarrow> search \<Rightarrow> (calibration_error \<times> search) + search" where
  "try_candidates G [] st = Inr st"
| "try_candidates G (cand # cands) st =
     rbind (try_candidate G (length cands + 2) cand st) (try_candidates G cands)"

definition pop_at :: "nat \<Rightarrow> 'a list \<Rightarrow> 'a list" where
  "pop_at r xs = take r xs @ drop (Suc r) xs"

definition removals :: "selection \<Rightarrow> selection list" where
  "removals parent =
     concat (map (\<lambda>i. if 1 < length (parent ! i) then map (\<lambda>r. parent[i := pop_at r (parent ! i)]) [0..<length (parent ! i)] else [])
       [0..<length parent])"

definition next_candidates :: "selection list \<Rightarrow> selection list \<Rightarrow> selection list" where
  "next_candidates seen parents = fromkeys (filter (\<lambda>c. c \<notin> set seen) (concat (map removals parents)))"

definition parents_of :: "search \<Rightarrow> selection list \<Rightarrow> selection list" where
  "parents_of st cands = (case se_winner st of Some w \<Rightarrow> [w] | None \<Rightarrow> cands)"

definition ports_in :: "selection \<Rightarrow> nat" where
  "ports_in sel = sum_list (map length sel)"

lemma removal_cases:
  assumes "c \<in> set (removals parent)"
  obtains i r where "i < length parent" "1 < length (parent ! i)" "r < length (parent ! i)" "c = parent[i := pop_at r (parent ! i)]"
  using assms by (auto simp: removals_def split: if_splits)

lemma length_pop_at [simp]: "r < length xs \<Longrightarrow> length (pop_at r xs) = length xs - 1"
  by (simp add: pop_at_def)

lemma removal_smaller: "c \<in> set (removals parent) \<Longrightarrow> Suc (ports_in c) = ports_in parent"
proof (elim removal_cases)
  fix i r
  assume i: "i < length parent" "1 < length (parent ! i)" "r < length (parent ! i)" "c = parent[i := pop_at r (parent ! i)]"
  have "sum_list (map length parent) = length (parent ! i) + sum_list (map length (take i parent)) + sum_list (map length (drop (Suc i) parent))"
    using i(1) by (subst id_take_nth_drop [OF i(1)]) simp
  then show ?thesis
    using i by (simp add: ports_in_def upd_conv_take_nth_drop)
qed

lemma next_candidatesD: "c \<in> set (next_candidates seen parents) \<Longrightarrow> c \<notin> set seen \<and> (\<exists>p \<in> set parents. c \<in> set (removals p))"
  by (auto simp: next_candidates_def)

text \<open>The winner of a round that improved is one of its candidates.\<close>

lemma try_candidate_improved:
  assumes "try_candidate G n cand st = Inr st'" and "se_improved st'"
  shows "se_winner st' = Some cand \<or> se_improved st \<and> se_winner st' = se_winner st"
  using assms by (auto simp: try_candidate_def note_score_def Let_def split: if_splits sum.splits option.splits)

lemma try_candidates_improved:
  assumes "try_candidates G cands st = Inr st'" and "se_improved st'"
  shows "(\<exists>c \<in> set cands. se_winner st' = Some c) \<or> se_improved st \<and> se_winner st' = se_winner st"
  using assms
proof (induction cands arbitrary: st)
  case (Cons c cands)
  then obtain s where "try_candidate G (length cands + 2) c st = Inr s" "try_candidates G cands s = Inr st'"
    by (auto elim!: rbind_InrE)
  then show ?case
    using Cons.IH Cons.prems(2) try_candidate_improved by fastforce
qed simp

definition round_size :: "selection list \<Rightarrow> nat" where
  "round_size cands = (if cands = [] then 0 else Suc (Max (ports_in ` set cands)))"

lemma round_size_next:
  assumes "set parents \<subseteq> set cands" and "cands \<noteq> []"
  shows "round_size (next_candidates seen parents) < round_size cands"
proof (cases "next_candidates seen parents = []")
  case False
  have "ports_in c < Max (ports_in ` set cands)" if c: "c \<in> set (next_candidates seen parents)" for c
  proof -
    obtain p where "p \<in> set cands" "Suc (ports_in c) = ports_in p"
      using next_candidatesD [OF c] removal_smaller assms(1) by blast
    then have "Suc (ports_in c) \<le> Max (ports_in ` set cands)"
      by simp
    then show ?thesis
      by simp
  qed
  then show ?thesis
    using False assms(2) by (simp add: round_size_def)
qed (simp add: round_size_def assms(2))

text \<open>The search: every round removes one port from the parents, so the rounds get smaller.\<close>

function search_rounds :: "group \<Rightarrow> selection list \<Rightarrow> search \<Rightarrow> (calibration_error \<times> search) + search" where
  "search_rounds G cands st =
     (if cands = [] then Inr st
      else case try_candidates G cands (st\<lparr>se_improved := False\<rparr>) of
        Inl e \<Rightarrow> Inl e
      | Inr st' \<Rightarrow>
          if se_winner st' \<noteq> None \<and> \<not> se_improved st' then Inr st'
          else search_rounds G (next_candidates (se_seen st') (parents_of st' cands)) st')"
  by pat_completeness auto

termination
proof (relation "measure (\<lambda>(G, cands, st). round_size cands)", goal_cases)
  case (2 G cands st st')
  have "set (parents_of st' cands) \<subseteq> set cands"
    using 2 try_candidates_improved [of G cands "st\<lparr>se_improved := False\<rparr>" st']
    by (auto simp: parents_of_def split: option.splits)
  then show ?case
    using round_size_next 2(1) by simp
qed simp

declare search_rounds.simps [simp del]

definition fresh_search :: search where
  "fresh_search = \<lparr>se_seen = [], se_best = None, se_winner = None, se_improved = False, se_log = []\<rparr>"

text \<open>\<open>_select\<close> and the leader's part of \<open>run\<close>: the result and the complete list of published commands.\<close>

definition select_ports :: "group \<Rightarrow> (calibration_error + selection) \<times> instruction list" where
  "select_ports G =
     (case search_rounds G [map mb_ports (gr_members G)] fresh_search of
        Inl (e, st) \<Rightarrow> (Inl e, se_log st @ [Abort e])
      | Inr st \<Rightarrow>
          (case se_winner st of
             None \<Rightarrow> (Inl NoCandidate, se_log st @ [Abort NoCandidate])
           | Some w \<Rightarrow> (Inr w, se_log st @ [Selected w])))"

section \<open>The other members\<close>

text \<open>A follower reads one command after the other; \<open>None\<close> is a wait for a command that is never published.\<close>

fun follow_commands :: "group \<Rightarrow> nat \<Rightarrow> nat \<Rightarrow> instruction list \<Rightarrow> (calibration_error + selection) option" where
  "follow_commands G i t [] = None"
| "follow_commands G i t (Abort e # cs) = Some (Inl (LeaderFailed e))"
| "follow_commands G i t (Selected w # cs) = Some (Inr w)"
| "follow_commands G i t (Try sel timeout # cs) =
     (case measure_trial G t i sel timeout of
        Inl e \<Rightarrow> Some (Inl e)
      | Inr _ \<Rightarrow> follow_commands G i (Suc t) cs)"

text \<open>\<open>run\<close>: the variable a member installs, \<open>None\<close> when the group leaves its network alone.\<close>

definition calibrates :: "mccl_member list \<Rightarrow> bool" where
  "calibrates members \<longleftrightarrow>
     \<not> (\<exists>m \<in> set members. mb_skip m) \<and> \<not> (\<exists>m \<in> set members. mb_ports m = [] \<or> mb_gpus m = 0) \<and>
     \<not> (\<forall>m \<in> set members. length (mb_ports m) = 1)"

definition run_member :: "group \<Rightarrow> nat \<Rightarrow> (calibration_error + string option) option" where
  "run_member G i =
     (if \<not> calibrates (gr_members G) then Some (Inr None)
      else
        map_option (\<lambda>r. rbind r (\<lambda>sel. Inr (Some (hca_value sel i))))
          (if i = 0 then Some (fst (select_ports G)) else follow_commands G i 0 (snd (select_ports G))))"

section \<open>What the search keeps\<close>

text \<open>Trial \<open>t\<close> of a list of commands measured a selection on every member, with its score.\<close>

definition scored :: "group \<Rightarrow> instruction list \<Rightarrow> nat \<Rightarrow> selection \<Rightarrow> rat \<Rightarrow> bool" where
  "scored G cmds t c s \<longleftrightarrow>
     t < length cmds \<and>
     (\<exists>timeout rows. cmds ! t = Try c timeout \<and> measure_trial G t 0 c timeout = Inr (Some rows) \<and> score_rows G rows = Inr s)"

definition tried :: "instruction list \<Rightarrow> selection set" where
  "tried cmds = {c. \<exists>timeout. Try c timeout \<in> set cmds}"

text \<open>A selection the group can use: every member keeps at least one of its own ports, in their order.\<close>

definition fits :: "group \<Rightarrow> selection \<Rightarrow> bool" where
  "fits G sel \<longleftrightarrow>
     length sel = length (gr_members G) \<and>
     (\<forall>i < length sel. sel ! i \<noteq> [] \<and> subseq (sel ! i) (mb_ports (gr_members G ! i)))"

definition best_measured :: "group \<Rightarrow> search \<Rightarrow> bool" where
  "best_measured G st \<longleftrightarrow>
     (case se_winner st of
        None \<Rightarrow> se_best st = None \<and> (\<forall>t c s. \<not> scored G (se_log st) t c s)
      | Some w \<Rightarrow> \<exists>b t. se_best st = Some b \<and> scored G (se_log st) t w b \<and> (\<forall>t c s. scored G (se_log st) t c s \<longrightarrow> b \<le> s))"

definition answered_log :: "group \<Rightarrow> instruction list \<Rightarrow> bool" where
  "answered_log G cmds \<longleftrightarrow>
     (\<forall>t < length cmds. \<exists>c timeout r. cmds ! t = Try c timeout \<and> measure_trial G t 0 c timeout = Inr r)"

definition search_ok :: "group \<Rightarrow> search \<Rightarrow> bool" where
  "search_ok G st \<longleftrightarrow>
     set (se_seen st) = tried (se_log st) \<and> (\<forall>c \<in> tried (se_log st). fits G c) \<and> best_measured G st \<and> answered_log G (se_log st)"

lemma tried_append [simp]: "tried (cmds @ [Try c timeout]) = insert c (tried cmds)"
  by (auto simp: tried_def)

lemma scored_append:
  "scored G (cmds @ [Try c timeout]) t d s \<longleftrightarrow>
     scored G cmds t d s \<or>
     t = length cmds \<and> d = c \<and> (\<exists>rows. measure_trial G t 0 c timeout = Inr (Some rows) \<and> score_rows G rows = Inr s)"
  by (auto simp: scored_def nth_append less_Suc_eq)

lemma answered_append:
  "answered_log G (cmds @ [Try c timeout]) \<longleftrightarrow> answered_log G cmds \<and> (\<exists>r. measure_trial G (length cmds) 0 c timeout = Inr r)"
  by (auto simp: answered_log_def nth_append less_Suc_eq all_conj_distrib)

lemma best_measured_fail:
  assumes "best_measured G st" and "measure_trial G (length (se_log st)) 0 c timeout = Inr None"
  shows "best_measured G (st\<lparr>se_seen := x, se_log := se_log st @ [Try c timeout]\<rparr>)"
  using assms by (auto simp: best_measured_def scored_append split: option.splits)

lemma best_measured_score:
  assumes ok: "best_measured G st" and m: "measure_trial G (length (se_log st)) 0 c timeout = Inr (Some rows)" "score_rows G rows = Inr s"
  shows "best_measured G (note_score c s (st\<lparr>se_seen := x, se_log := se_log st @ [Try c timeout]\<rparr>))"
proof (cases "se_best st")
  case None
  then have "se_winner st = None" "\<And>t c s. \<not> scored G (se_log st) t c s"
    using ok by (auto simp: best_measured_def split: option.splits)
  then show ?thesis
    using None m by (auto simp: best_measured_def note_score_def better_def scored_append)
next
  case (Some b)
  then obtain w t where w: "se_winner st = Some w" "scored G (se_log st) t w b" "\<And>t c s. scored G (se_log st) t c s \<Longrightarrow> b \<le> s"
    using ok by (auto simp: best_measured_def split: option.splits)
  show ?thesis
  proof (cases "s < b")
    case True
    have "s \<le> r" if "scored G (se_log st) t' d r" for t' d r
      using w(3) [OF that] True by simp
    then show ?thesis
      using True Some m by (auto simp: best_measured_def note_score_def better_def scored_append)
  next
    case False
    then show ?thesis
      using Some w m by (auto simp: best_measured_def note_score_def better_def scored_append)
  qed
qed

lemma try_candidate_ok:
  assumes "search_ok G st" and "fits G cand" and "try_candidate G n cand st = Inr st'"
  shows "search_ok G st' \<and> cand \<in> set (se_seen st') \<and> set (se_seen st) \<subseteq> set (se_seen st') \<and>
    (se_improved st' \<or> se_winner st' = se_winner st)"
proof (cases "cand \<in> set (se_seen st)")
  case True
  then show ?thesis
    using assms by (simp add: try_candidate_def)
next
  case False
  define timeout where "timeout = (gr_deadline G - gr_clock G (length (se_log st))) / of_nat n"
  let ?st = "st\<lparr>se_seen := cand # se_seen st, se_log := se_log st @ [Try cand timeout]\<rparr>"
  consider (fail) "measure_trial G (length (se_log st)) 0 cand timeout = Inr None" "st' = ?st"
    | (good) rows s where "measure_trial G (length (se_log st)) 0 cand timeout = Inr (Some rows)"
        "score_rows G rows = Inr s" "st' = note_score cand s ?st"
    using assms(3) False by (auto simp: try_candidate_def Let_def timeout_def split: if_splits sum.splits option.splits)
  then show ?thesis
  proof cases
    case fail
    then show ?thesis
      using assms best_measured_fail [of G st cand timeout] by (auto simp: search_ok_def answered_append)
  next
    case good
    have "se_seen st' = cand # se_seen st" "se_log st' = se_log st @ [Try cand timeout]"
      "se_improved st' \<or> se_winner st' = se_winner st"
      by (simp_all add: good note_score_def)
    then show ?thesis
      using assms good best_measured_score [of G st cand timeout rows s "cand # se_seen st"]
      by (auto simp: search_ok_def answered_append)
  qed
qed

lemma keeps_improved: "try_candidates G cands st = Inr st' \<Longrightarrow> se_improved st \<Longrightarrow> se_improved st'"
proof (induction cands arbitrary: st)
  case (Cons c cands)
  then obtain s where s: "try_candidate G (length cands + 2) c st = Inr s" "try_candidates G cands s = Inr st'"
    by (auto elim!: rbind_InrE)
  have "se_improved s"
    using s(1) Cons.prems(2) by (auto simp: try_candidate_def note_score_def Let_def split: if_splits sum.splits option.splits)
  then show ?case
    using Cons.IH [OF s(2)] by simp
qed simp

lemma try_candidates_ok:
  assumes "search_ok G st" and "\<forall>c \<in> set cands. fits G c" and "try_candidates G cands st = Inr st'"
  shows "search_ok G st' \<and> set cands \<union> set (se_seen st) \<subseteq> set (se_seen st') \<and>
    (se_improved st' \<or> se_winner st' = se_winner st)"
  using assms
proof (induction cands arbitrary: st)
  case (Cons c cands)
  obtain s where s: "try_candidate G (length cands + 2) c st = Inr s" "try_candidates G cands s = Inr st'"
    using Cons.prems(3) by (auto elim!: rbind_InrE)
  note c = try_candidate_ok [OF Cons.prems(1) _ s(1)]
  have step: "search_ok G s" "c \<in> set (se_seen s)" "set (se_seen st) \<subseteq> set (se_seen s)"
    "se_improved s \<or> se_winner s = se_winner st"
    using c Cons.prems(2) by simp_all
  have rest: "search_ok G st'" "set cands \<union> set (se_seen s) \<subseteq> set (se_seen st')" "se_improved st' \<or> se_winner st' = se_winner s"
    using Cons.IH [OF step(1) _ s(2)] Cons.prems(2) by simp_all
  have "se_improved st' \<or> se_winner st' = se_winner st"
    using rest(3) step(4) keeps_improved [OF s(2)] by auto
  then show ?case
    using rest(1,2) step(2,3) by auto
qed simp

lemma subseq_pop_at: "subseq (pop_at r xs) xs"
proof (induction xs arbitrary: r)
  case (Cons x xs)
  show ?case
    using Cons.IH [of "r - 1"] by (cases r) (auto simp: pop_at_def)
qed (simp add: pop_at_def)

lemma fits_removal:
  assumes "fits G p" and "c \<in> set (removals p)"
  shows "fits G c"
  using assms(2)
proof (rule removal_cases)
  fix i r
  assume i: "i < length p" "1 < length (p ! i)" "r < length (p ! i)" "c = p[i := pop_at r (p ! i)]"
  have "pop_at r (p ! i) \<noteq> []"
    using i(2,3) by (metis length_pop_at length_0_conv zero_less_diff not_less0)
  moreover have "subseq (pop_at r (p ! i)) (mb_ports (gr_members G ! i))"
    using subseq_pop_at assms(1) i(1) unfolding fits_def by (metis subseq_order.trans)
  ultimately show ?thesis
    using assms(1) i by (auto simp: fits_def nth_list_update)
qed

text \<open>A failed search stopped between two trials, or in a trial that failed for every member.\<close>

definition stopped_log :: "group \<Rightarrow> instruction list \<Rightarrow> calibration_error \<Rightarrow> bool" where
  "stopped_log G cmds e \<longleftrightarrow>
     answered_log G cmds \<or>
     (\<exists>l c timeout. cmds = l @ [Try c timeout] \<and> answered_log G l \<and> measure_trial G (length l) 0 c timeout = Inl e)"

lemma try_candidate_error:
  assumes "answered_log G (se_log st)" and "try_candidate G n cand st = Inl (e, st')"
  shows "stopped_log G (se_log st') e"
  using assms by (auto simp: try_candidate_def Let_def stopped_log_def answered_append split: if_splits sum.splits option.splits)

lemma try_candidates_error:
  assumes "search_ok G st" and "\<forall>c \<in> set cands. fits G c" and "try_candidates G cands st = Inl (e, st')"
  shows "stopped_log G (se_log st') e"
  using assms
proof (induction cands arbitrary: st)
  case (Cons c cands)
  show ?case
  proof (cases "try_candidate G (length cands + 2) c st")
    case (Inl x)
    then show ?thesis
      using Cons.prems try_candidate_error by (auto simp: search_ok_def)
  next
    case (Inr s)
    then show ?thesis
      using Cons.prems Cons.IH [of s] try_candidate_ok [OF Cons.prems(1) _ Inr] by simp
  qed
qed simp

definition frontier_ok :: "group \<Rightarrow> selection list \<Rightarrow> search \<Rightarrow> bool" where
  "frontier_ok G cands st \<longleftrightarrow>
     search_ok G st \<and> (\<forall>c \<in> set cands. fits G c) \<and>
     (\<forall>w. se_winner st = Some w \<longrightarrow> set (removals w) \<subseteq> set (se_seen st) \<union> set cands)"

lemma winner_fits: "search_ok G st \<Longrightarrow> se_winner st = Some w \<Longrightarrow> fits G w"
  by (auto simp: search_ok_def best_measured_def scored_def tried_def) (metis nth_mem)

lemma search_ok_restart [simp]: "search_ok G (st\<lparr>se_improved := b\<rparr>) = search_ok G st"
  by (simp add: search_ok_def best_measured_def cong: option.case_cong)

lemma frontier_next:
  assumes "frontier_ok G cands st" and "try_candidates G cands (st\<lparr>se_improved := False\<rparr>) = Inr st'"
  shows "if se_winner st' \<noteq> None \<and> \<not> se_improved st'
    then frontier_ok G [] st' else frontier_ok G (next_candidates (se_seen st') (parents_of st' cands)) st'"
proof -
  have ok: "search_ok G (st\<lparr>se_improved := False\<rparr>)"
    using assms(1) by (simp add: frontier_ok_def)
  have st': "search_ok G st'" "set cands \<union> set (se_seen st) \<subseteq> set (se_seen st')" "se_improved st' \<or> se_winner st' = se_winner st"
    using try_candidates_ok [OF ok _ assms(2)] assms(1) by (simp_all add: frontier_ok_def)
  have "\<forall>p \<in> set (parents_of st' cands). fits G p"
    using assms(1) winner_fits [OF st'(1)] by (auto simp: parents_of_def frontier_ok_def split: option.splits)
  then have "\<forall>c \<in> set (next_candidates (se_seen st') (parents_of st' cands)). fits G c"
    using next_candidatesD fits_removal by metis
  moreover have "set (removals w) \<subseteq> set (se_seen st') \<union> set (next_candidates (se_seen st') (parents_of st' cands))"
    if "se_winner st' = Some w" for w
    using that by (auto simp: next_candidates_def parents_of_def)
  moreover have "set (removals w) \<subseteq> set (se_seen st')" if "se_winner st' = Some w" "\<not> se_improved st'" for w
  proof -
    have "se_winner st = Some w"
      using that st'(3) by simp
    then show ?thesis
      using st'(2) assms(1) unfolding frontier_ok_def by blast
  qed
  ultimately show ?thesis
    using st'(1) by (auto simp: frontier_ok_def)
qed

lemma search_rounds_ok:
  assumes "frontier_ok G cands st"
  shows "case search_rounds G cands st of
      Inr st' \<Rightarrow> frontier_ok G [] st'
    | Inl (e, st') \<Rightarrow> stopped_log G (se_log st') e"
  using assms
proof (induction G cands st rule: search_rounds.induct)
  case (1 G cands st)
  show ?case
  proof (cases "cands = []")
    case True
    then show ?thesis
      using "1.prems" by (simp add: search_rounds.simps [of G "[]" st])
  next
    case False
    show ?thesis
    proof (cases "try_candidates G cands (st\<lparr>se_improved := False\<rparr>)")
      case (Inl x)
      have "search_ok G (st\<lparr>se_improved := False\<rparr>)" "\<forall>c \<in> set cands. fits G c"
        using "1.prems" by (simp_all add: frontier_ok_def)
      then show ?thesis
        using False Inl try_candidates_error [of G "st\<lparr>se_improved := False\<rparr>" cands "fst x" "snd x"]
        by (cases x) (simp add: search_rounds.simps [of G cands st])
    next
      case (Inr st')
      then show ?thesis
        using False "1.IH" [OF False Inr] frontier_next [OF "1.prems" Inr]
        by (auto simp: search_rounds.simps [of G cands st])
    qed
  qed
qed

lemma fresh_frontier:
  assumes "calibrates (gr_members G)"
  shows "frontier_ok G [map mb_ports (gr_members G)] fresh_search"
  using assms
  by (auto simp: frontier_ok_def search_ok_def fresh_search_def tried_def best_measured_def scored_def answered_log_def fits_def calibrates_def)

text \<open>The result of the leader, with the commands it published.\<close>

lemma select_ports_cases:
  assumes "calibrates (gr_members G)"
  obtains (chosen) st w where "select_ports G = (Inr w, se_log st @ [Selected w])" "frontier_ok G [] st" "se_winner st = Some w"
    | (failed) e cmds where "select_ports G = (Inl e, cmds @ [Abort e])" "stopped_log G cmds e"
proof (cases "search_rounds G [map mb_ports (gr_members G)] fresh_search")
  case (Inl x)
  then show thesis
    using search_rounds_ok [OF fresh_frontier [OF assms]] failed by (cases x) (simp add: select_ports_def)
next
  case (Inr st)
  have ok: "frontier_ok G [] st"
    using search_rounds_ok [OF fresh_frontier [OF assms]] Inr by simp
  show thesis
  proof (cases "se_winner st")
    case None
    then show thesis
      using failed [of NoCandidate "se_log st"] Inr ok
      by (simp add: select_ports_def stopped_log_def frontier_ok_def search_ok_def)
  next
    case (Some w)
    then show thesis
      using chosen [of w st] Inr ok by (simp add: select_ports_def)
  qed
qed

text \<open>C10: The port selection of a calibrated group leaves every member at least one of its own ports. It was
  measured on all members; no measured selection was faster; and removing any single further port was tried
  as well, so the selection is a local optimum of what was measured.\<close>

theorem selection_is_local_optimum:
  assumes "calibrates (gr_members G)" and "select_ports G = (Inr w, cmds)"
  shows "fits G w \<and>
    (\<exists>t s. scored G cmds t w s \<and> (\<forall>t' c s'. scored G cmds t' c s' \<longrightarrow> s \<le> s')) \<and>
    set (removals w) \<subseteq> tried cmds"
proof -
  obtain st where st: "cmds = se_log st @ [Selected w]" "frontier_ok G [] st" "se_winner st = Some w"
    using select_ports_cases [OF assms(1)] assms(2) by (metis Inl_Inr_False Inr_inject prod.inject)
  have scored: "scored G cmds t c s \<longleftrightarrow> scored G (se_log st) t c s" for t c s
    by (auto simp: st(1) scored_def nth_append less_Suc_eq)
  have "tried (se_log st) \<subseteq> tried cmds"
    by (auto simp: st(1) tried_def)
  moreover have ok: "search_ok G st" and "set (removals w) \<subseteq> set (se_seen st)"
    using st by (simp_all add: frontier_ok_def)
  moreover have "fits G w"
    using winner_fits ok st(3) by blast
  moreover have "\<exists>t s. scored G (se_log st) t w s \<and> (\<forall>t' c s'. scored G (se_log st) t' c s' \<longrightarrow> s \<le> s')"
    using ok st(3) by (auto simp: search_ok_def best_measured_def)
  ultimately show ?thesis
    unfolding scored search_ok_def by blast
qed

text \<open>Two members, the first with two ports; a probe is as slow as its list of ports is long.\<close>

definition demo_group :: group where
  "demo_group =
     \<lparr>gr_members = [\<lparr>mb_skip = False, mb_ports = [''a'', ''b''], mb_gpus = 1\<rparr>, \<lparr>mb_skip = False, mb_ports = [''c''], mb_gpus = 1\<rparr>],
      gr_deadline = 10, gr_clock = (\<lambda>_. 0),
      gr_probe = (\<lambda>_ _ options. Rows (JList [JObj [(''seconds'', JInt (int (length (po_hca options))))]])),
      gr_log_mean = (\<lambda>ss. case ss of [JInt n] \<Rightarrow> Inr (of_int n) | _ \<Rightarrow> Inl TypeError)\<rparr>"

lemma demo_calibrates: "calibrates (gr_members demo_group)"
  by code_simp

lemma demo_selection:
  "select_ports demo_group =
     (Inr [[''b''], [''c'']],
      [Try [[''a'', ''b''], [''c'']] 5, Try [[''b''], [''c'']] (10 / 3), Try [[''a''], [''c'']] 5, Selected [[''b''], [''c'']]])"
  by code_simp

theorem selection_is_local_optimum_witness:
  "select_ports demo_group =
     (Inr [[''b''], [''c'']],
      [Try [[''a'', ''b''], [''c'']] 5, Try [[''b''], [''c'']] (10 / 3), Try [[''a''], [''c'']] 5, Selected [[''b''], [''c'']]]) \<and>
   fits demo_group [[''b''], [''c'']]"
  using selection_is_local_optimum [OF demo_calibrates demo_selection] demo_selection by simp

section \<open>Agreement\<close>

text \<open>A trial fails for one member exactly when it fails for the leader.\<close>

lemma trial_fails_together: "measure_trial G t i sel timeout = Inl e \<longleftrightarrow> measure_trial G t 0 sel timeout = Inl e"
  by (auto simp: measure_trial_def trial_answer_def split: option.splits)

lemma trial_succeeds_together: "measure_trial G t 0 sel timeout = Inr r \<Longrightarrow> \<exists>r'. measure_trial G t i sel timeout = Inr r'"
  by (auto simp: measure_trial_def trial_answer_def split: option.splits)

lemma answered_suffix:
  assumes "\<forall>k < length cmds. \<exists>c timeout r. cmds ! k = Try c timeout \<and> measure_trial G (t + k) 0 c timeout = Inr r"
  shows "follow_commands G i t (cmds @ rest) = follow_commands G i (t + length cmds) rest"
  using assms
proof (induction cmds arbitrary: t)
  case (Cons x cmds)
  obtain c timeout r where x: "x = Try c timeout" "measure_trial G t 0 c timeout = Inr r"
    using Cons.prems by fastforce
  obtain r' where "measure_trial G t i c timeout = Inr r'"
    using trial_succeeds_together [OF x(2)] by blast
  moreover have "\<exists>c timeout r. cmds ! k = Try c timeout \<and> measure_trial G (Suc t + k) 0 c timeout = Inr r" if "k < length cmds" for k
    using Cons.prems that by (metis Suc_less_eq add_Suc_right add_Suc length_Cons nth_Cons_Suc)
  ultimately show ?case
    using x(1) Cons.IH [of "Suc t"] by simp
qed simp

lemma follow_answered: "answered_log G cmds \<Longrightarrow> follow_commands G i 0 (cmds @ rest) = follow_commands G i (length cmds) rest"
  using answered_suffix [of cmds G 0 i rest] by (simp add: answered_log_def)

lemma follow_stopped:
  assumes "stopped_log G cmds e"
  shows "\<exists>e'. follow_commands G i 0 (cmds @ [Abort e]) = Some (Inl e')"
proof -
  consider (between) "answered_log G cmds"
    | (trial) l c timeout where "cmds = l @ [Try c timeout]" "answered_log G l" "measure_trial G (length l) 0 c timeout = Inl e"
    using assms by (auto simp: stopped_log_def)
  then show ?thesis
  proof cases
    case between
    then show ?thesis
      by (simp add: follow_answered)
  next
    case trial
    then have "measure_trial G (length l) i c timeout = Inl e"
      using trial_fails_together by blast
    then show ?thesis
      using trial by (simp add: follow_answered)
  qed
qed

text \<open>C21: All members of a group end together: no member waits for a command that the leader does not publish.
  When the leader selects ports, every member installs its own part of that one selection; when the leader
  fails, every member fails; and a group that does not calibrate leaves every member's network alone.\<close>

theorem members_agree:
  shows "(\<not> calibrates (gr_members G) \<longrightarrow> run_member G i = Some (Inr None)) \<and>
    (calibrates (gr_members G) \<longrightarrow>
       (case fst (select_ports G) of
          Inr w \<Rightarrow> run_member G i = Some (Inr (Some (hca_value w i)))
        | Inl _ \<Rightarrow> \<exists>e. run_member G i = Some (Inl e)))"
proof (cases "calibrates (gr_members G)")
  case True
  show ?thesis
    using True
  proof (cases rule: select_ports_cases)
    case (chosen st w)
    then have "answered_log G (se_log st)"
      by (simp add: frontier_ok_def search_ok_def)
    then show ?thesis
      using True chosen(1) by (simp add: run_member_def follow_answered)
  next
    case (failed e cmds)
    then show ?thesis
      using True follow_stopped [OF failed(2), of i] by (auto simp: run_member_def)
  qed
qed (simp add: run_member_def)

theorem members_agree_witness:
  "run_member demo_group 0 = Some (Inr (Some ''=b'')) \<and> run_member demo_group 1 = Some (Inr (Some ''=c''))"
  using members_agree [of demo_group 0] members_agree [of demo_group 1] demo_calibrates demo_selection
  by (simp add: hca_value_def)

end
