(* ===== verification/Model_Cache.thy ===== *)
theory Model_Cache
  imports Manifest "HOL-Library.Char_ord" "HOL-Library.List_Lexorder" "HOL-Library.Product_Lexorder" "HOL-Library.Sublist"
begin

text \<open>
  Collection of the shared model cache (\<open>foretoken_cache_gc.py\<close> with \<open>foretoken_model_sources/cache.py\<close>,
  \<open>peer.py\<close>, and the \<open>collect\<close> functions of \<open>huggingface.py\<close> and \<open>modelscope.py\<close>). The cache is a table of paths
  below its root. The scan of the Hub cache and the deletion plan of the Hub library are parameters.
\<close>

section \<open>Paths and entries\<close>

type_synonym path = "string list"

text \<open>A link names the absolute path its text denotes, \<open>None\<close> when that is not below the root.\<close>

datatype node = Dir | File string | Link "path option" | Special

type_synonym fs = "(path \<times> node) list"

abbreviation entry :: "fs \<Rightarrow> path \<Rightarrow> node option" where
  "entry fs p \<equiv> map_of fs p"

datatype cache_error =
    InvalidPath path
  | DirectoryLink path
  | LeavesArea path
  | NotADirectory path
  | UnsupportedEntry path
  | LinkLoop path
  | UnmanagedEntry path
  | StillReferenced path
  | UnmanagedPayload path
  | NotIndexed path
  | LiveRevisions string
  | SharedStore path
  | NotRemoved path
  | RemovalFailed path
  | BadItem py_error
  | RootLink

text \<open>
  \<open>resolve\<close>: the chain of links from a path, bounded by the number of entries, which every chain without a cycle
  stays below. The directories on the way are real ones: \<open>cache_path\<close> and \<open>_hub_links\<close> refuse links among them.
\<close>

datatype resolved = At path | Outside | Loop

fun resolve_steps :: "nat \<Rightarrow> fs \<Rightarrow> path \<Rightarrow> resolved" where
  "resolve_steps n fs p =
     (case entry fs p of
        Some (Link None) \<Rightarrow> Outside
      | Some (Link (Some q)) \<Rightarrow> (case n of 0 \<Rightarrow> Loop | Suc m \<Rightarrow> resolve_steps m fs q)
      | _ \<Rightarrow> At p)"

declare resolve_steps.simps [simp del]

definition resolve_path :: "fs \<Rightarrow> path \<Rightarrow> resolved" where
  "resolve_path fs p = resolve_steps (length fs) fs p"

text \<open>\<open>cache_path\<close>, given the parts of its target; \<open>passed\<close> are the parts already passed.\<close>

definition check_link :: "fs \<Rightarrow> path \<Rightarrow> cache_error + unit" where
  "check_link fs p =
     (case resolve_path fs p of
        At q \<Rightarrow> if entry fs q = Some Dir then Inl (LeavesArea p) else Inr ()
      | Outside \<Rightarrow> Inl (LeavesArea p)
      | Loop \<Rightarrow> Inl (LinkLoop p))"

fun check_parts :: "fs \<Rightarrow> bool \<Rightarrow> path \<Rightarrow> path \<Rightarrow> cache_error + unit" where
  "check_parts fs file_link passed [] = Inr ()"
| "check_parts fs file_link passed (part # rest) =
     (let current = passed @ [part] in
      case entry fs current of
        None \<Rightarrow> Inr ()
      | Some (Link t) \<Rightarrow> if rest \<noteq> [] \<or> \<not> file_link then Inl (DirectoryLink current) else check_link fs current
      | Some Dir \<Rightarrow> check_parts fs file_link current rest
      | Some _ \<Rightarrow> if rest \<noteq> [] then Inl (NotADirectory current) else Inr ())"

definition cache_path :: "fs \<Rightarrow> bool \<Rightarrow> path \<Rightarrow> cache_error + path" where
  "cache_path fs file_link parts =
     (if parts = [] \<or> (\<exists>p \<in> set parts. p = ''.'' \<or> p = ''..'') then Inl (InvalidPath parts)
      else rbind (check_parts fs file_link [] parts) (\<lambda>_. Inr parts))"

text \<open>
  The cache and the paths removed from it. \<open>ca_faults\<close> are the removals at which the operating system fails: such a
  removal raises when the listed entries below its target are already gone.
\<close>

type_synonym faults = "(path \<times> path list) list"

record cache =
  ca_fs :: fs
  ca_removed :: "path list"
  ca_faults :: faults

text \<open>A failure leaves the cache as it is at that moment; a check fails without changing it.\<close>

definition failing :: "cache \<Rightarrow> cache_error + 'a \<Rightarrow> (cache_error \<times> cache) + 'a" where
  "failing c m = (case m of Inl e \<Rightarrow> Inl (e, c) | Inr x \<Rightarrow> Inr x)"

definition delete_tree :: "path \<Rightarrow> fs \<Rightarrow> fs" where
  "delete_tree t fs = filter (\<lambda>(p, _). \<not> prefix t p) fs"

definition delete_file :: "path \<Rightarrow> fs \<Rightarrow> fs" where
  "delete_file t fs = filter (\<lambda>(p, _). p \<noteq> t) fs"

definition add_removed :: "path \<Rightarrow> cache \<Rightarrow> cache" where
  "add_removed t c = c\<lparr>ca_removed := List.insert t (ca_removed c)\<rparr>"

definition interrupted :: "path \<Rightarrow> path list \<Rightarrow> fs \<Rightarrow> fs" where
  "interrupted t gone fs = filter (\<lambda>(p, _). \<not> (prefix t p \<and> p \<in> set gone)) fs"

text \<open>\<open>rmtree\<close> or \<open>unlink\<close>, given what a complete removal leaves.\<close>

definition perform_removal :: "path \<Rightarrow> fs \<Rightarrow> cache \<Rightarrow> (cache_error \<times> cache) + cache" where
  "perform_removal t left c =
     (case map_of (ca_faults c) t of
        Some gone \<Rightarrow> Inl (RemovalFailed t, c\<lparr>ca_fs := interrupted t gone (ca_fs c)\<rparr>)
      | None \<Rightarrow> Inr (add_removed t (c\<lparr>ca_fs := left\<rparr>)))"

definition remove_path :: "bool \<Rightarrow> path \<Rightarrow> cache \<Rightarrow> (cache_error \<times> cache) + cache" where
  "remove_path file_link target c =
     rbind (failing c (cache_path (ca_fs c) file_link target)) (\<lambda>t.
     case entry (ca_fs c) t of
       None \<Rightarrow> Inr c
     | Some Dir \<Rightarrow> perform_removal t (delete_tree t (ca_fs c)) c
     | Some (File _) \<Rightarrow> perform_removal t (delete_file t (ca_fs c)) c
     | Some (Link _) \<Rightarrow> if file_link then perform_removal t (delete_file t (ca_fs c)) c else Inl (UnsupportedEntry t, c)
     | Some Special \<Rightarrow> Inl (UnsupportedEntry t, c))"

fun remove_paths :: "bool \<Rightarrow> path list \<Rightarrow> cache \<Rightarrow> (cache_error \<times> cache) + cache" where
  "remove_paths file_link [] c = Inr c"
| "remove_paths file_link (t # ts) c = rbind (remove_path file_link t c) (remove_paths file_link ts)"

fun check_paths :: "fs \<Rightarrow> bool \<Rightarrow> path list \<Rightarrow> cache_error + unit" where
  "check_paths fs file_link [] = Inr ()"
| "check_paths fs file_link (t # ts) = rbind (cache_path fs file_link t) (\<lambda>_. check_paths fs file_link ts)"

section \<open>Items\<close>

type_synonym key = "string \<times> string \<times> string"

definition bad_part :: "string \<Rightarrow> bool" where
  "bad_part s \<longleftrightarrow> s = [] \<or> s = ''.'' \<or> s = ''..''"

definition item_texts :: "json \<Rightarrow> py_error + json \<times> json \<times> json" where
  "item_texts item =
     rbind (jitem item ''source'') (\<lambda>s. rbind (jitem item ''repository'') (\<lambda>r. rbind (jitem item ''revision'') (\<lambda>v. Inr (s, r, v))))"

definition check_key :: "string \<Rightarrow> string \<Rightarrow> string \<Rightarrow> py_error + key" where
  "check_key source repository revision =
     (let parts = split_on (CHR ''/'') repository in
      if source = [] \<or> repository = [] \<or> revision = []
      then Inl (ValueError ''cache items require nonempty source, repository and revision'')
      else if (\<exists>p \<in> set parts. bad_part p) \<or> 2 < length parts \<or> revision = ''.'' \<or> revision = ''..'' \<or>
              (\<exists>c \<in> set (repository @ revision). c = CHR 0x5C \<or> c = CHR 0x00) \<or> CHR ''/'' \<in> set revision
      then Inl (ValueError ''cache item repository and revision must identify cache paths'')
      else if source = ''modelscope'' \<and> length parts \<noteq> 2
      then Inl (ValueError ''ModelScope cache items require an owner/name repository'')
      else Inr (source, repository, revision))"

definition item_key :: "json \<Rightarrow> py_error + key" where
  "item_key item =
     rbind (item_texts item) (\<lambda>texts.
     case texts of
       (JStr s, JStr r, JStr v) \<Rightarrow> check_key s r v
     | _ \<Rightarrow> Inl (ValueError ''cache items require nonempty source, repository and revision''))"

text \<open>\<open>distributed_directory\<close> and the two paths beside it.\<close>

definition peer_parent :: "string \<Rightarrow> string \<Rightarrow> path" where
  "peer_parent source repository = [''distributed'', source] @ split_on (CHR ''/'') repository"

definition peer_paths :: "key \<Rightarrow> path list" where
  "peer_paths k =
     (case k of (source, repository, revision) \<Rightarrow>
        map (\<lambda>name. peer_parent source repository @ [name]) [revision, ''.'' @ revision @ ''.partial'', ''.'' @ revision @ ''.lock''])"

section \<open>ModelScope\<close>

text \<open>\<open>s.replace(c, "___")\<close>.\<close>

definition underscored :: "char \<Rightarrow> string \<Rightarrow> string" where
  "underscored c s = concat (map (\<lambda>x. if x = c then ''___'' else [x]) s)"

definition alias_of :: "key \<Rightarrow> string \<times> string \<times> string" where
  "alias_of k =
     (case k of (_, repository, revision) \<Rightarrow>
        let parts = split_on (CHR ''/'') repository in (parts ! 0, underscored (CHR ''.'') (parts ! 1), revision))"

definition scope_version :: "string \<Rightarrow> path" where
  "scope_version revision = [''modelscope'', ''revisions'', revision]"

definition scope_paths :: "string \<Rightarrow> string \<Rightarrow> path list" where
  "scope_paths repository revision =
     (let parts = split_on (CHR ''/'') repository; owner = parts ! 0; name = parts ! 1 in
      [scope_version revision @ [owner, underscored (CHR ''.'') name],
       scope_version revision @ [''._____temp'', owner, name],
       scope_version revision @ [''.lock'', underscored (CHR ''/'') repository]])"

text \<open>\<open>collect\<close> of \<open>modelscope.py\<close>: whether the item was collected.\<close>

definition collect_modelscope :: "string \<Rightarrow> string \<Rightarrow> key list \<Rightarrow> cache \<Rightarrow> (cache_error \<times> cache) + bool \<times> cache" where
  "collect_modelscope repository revision live c =
     (if alias_of (''modelscope'', repository, revision) \<in> set (map alias_of (filter (\<lambda>k. fst k = ''modelscope'') live))
      then Inr (False, c)
      else
        rbind (failing c (cache_path (ca_fs c) False (scope_version revision))) (\<lambda>_.
        rbind (failing c (check_paths (ca_fs c) False (scope_paths repository revision))) (\<lambda>_.
        rbind (remove_paths False (scope_paths repository revision) c) (\<lambda>c'. Inr (True, c')))))"

section \<open>Hugging Face\<close>

definition hub :: path where "hub = [''hub'']"

definition repo_dir :: "string \<Rightarrow> path" where
  "repo_dir repository =
     hub @ [''models--'' @ concat (map (\<lambda>c. if c = CHR ''/'' then ''--'' else [c]) repository)]"

text \<open>\<open>_hub_links\<close>: the first target and the payload of every link below the Hub cache.\<close>

type_synonym links = "(path \<times> path \<times> path) list"

definition link_fact :: "fs \<Rightarrow> path \<times> node \<Rightarrow> cache_error + links" where
  "link_fact fs e =
     (case e of
        (p, Link t) \<Rightarrow>
          (case (t, resolve_path fs p) of
             (_, Loop) \<Rightarrow> Inl (LinkLoop p)
           | (Some first, At payload) \<Rightarrow>
               if entry fs payload = Some Dir then Inl (DirectoryLink p)
               else if prefix hub first \<and> prefix hub payload then Inr [(p, first, payload)] else Inl (LeavesArea p)
           | _ \<Rightarrow> Inl (LeavesArea p))
      | _ \<Rightarrow> Inr [])"

definition hub_links :: "fs \<Rightarrow> cache_error + links" where
  "hub_links fs =
     rbind (map_list (link_fact fs) (filter (\<lambda>(p, _). strict_prefix hub p) fs)) (\<lambda>found. Inr (concat found))"

text \<open>\<open>_check_repository\<close>: only the directories of the Hub layout.\<close>

definition children :: "fs \<Rightarrow> path \<Rightarrow> (string \<times> node) list" where
  "children fs d = map (\<lambda>(p, n). (last p, n)) (filter (\<lambda>(p, _). p \<noteq> [] \<and> butlast p = d) fs)"

definition check_repository :: "fs \<Rightarrow> path \<Rightarrow> cache_error + unit" where
  "check_repository fs d =
     (case find (\<lambda>(name, n). name \<notin> set [''blobs'', ''refs'', ''snapshots'', ''trees'', ''.no_exist''] \<or> n \<noteq> Dir) (children fs d) of
        None \<Rightarrow> Inr ()
      | Some (name, _) \<Rightarrow> Inl (UnmanagedEntry (d @ [name])))"

text \<open>What the Hub library reports of one repository, and the plan it makes for one revision.\<close>

record hub_revision =
  hr_commit :: string
  hr_snapshot :: path
  hr_payloads :: "path list"

record deletion =
  dl_repos :: "path list"
  dl_snapshots :: "path list"
  dl_refs :: "path list"
  dl_blobs :: "path list"
  dl_files :: "path list"
  dl_shared_store :: bool

record hub_library =
  hl_scan :: "fs \<Rightarrow> string \<Rightarrow> hub_revision list option"
  hl_plan :: "fs \<Rightarrow> string \<Rightarrow> string \<Rightarrow> deletion"
  hl_execute :: "deletion \<Rightarrow> fs \<Rightarrow> fs"

definition plan_trees :: "deletion \<Rightarrow> path list" where
  "plan_trees d = dl_repos d @ dl_snapshots d"

definition plan_targets :: "deletion \<Rightarrow> path list" where
  "plan_targets d = dl_repos d @ dl_snapshots d @ dl_refs d @ dl_blobs d @ dl_files d"

definition below_any :: "path list \<Rightarrow> path \<Rightarrow> bool" where
  "below_any trees p \<longleftrightarrow> (\<exists>t \<in> set trees. prefix t p)"

definition disappearing :: "deletion \<Rightarrow> path \<Rightarrow> bool" where
  "disappearing d p \<longleftrightarrow> p \<in> set (dl_files d) \<or> below_any (plan_trees d) p"

definition remaining_entries :: "deletion \<Rightarrow> links \<Rightarrow> path list" where
  "remaining_entries d links = map (\<lambda>(_, first, _). first) (filter (\<lambda>(p, _). \<not> disappearing d p) links)"

definition abandoned_links :: "deletion \<Rightarrow> path \<Rightarrow> links \<Rightarrow> path list" where
  "abandoned_links d repo links =
     map (\<lambda>(_, first, _). first)
       (filter (\<lambda>(p, first, _). disappearing d p \<and> first \<noteq> [] \<and> butlast first = repo @ [''blobs''] \<and>
                  first \<in> fst ` set links \<and> first \<notin> set (remaining_entries d links)) links)"

definition protected_payloads :: "deletion \<Rightarrow> path \<Rightarrow> links \<Rightarrow> path list" where
  "protected_payloads d repo links =
     map (\<lambda>(_, _, payload). payload)
       (filter (\<lambda>(p, _). \<not> disappearing d p \<and> p \<notin> set (abandoned_links d repo links)) links)"

definition freed_payloads :: "deletion \<Rightarrow> path \<Rightarrow> links \<Rightarrow> hub_revision \<Rightarrow> path list" where
  "freed_payloads d repo links selected =
     filter (\<lambda>p. p \<notin> set (protected_payloads d repo links))
       (hr_payloads selected @ map (\<lambda>(_, _, payload). payload) (filter (\<lambda>(p, _). disappearing d p) links))"

text \<open>The layout of the cache-wide blob store.\<close>

definition hex_digit :: "char \<Rightarrow> bool" where
  "hex_digit c \<longleftrightarrow> c \<in> set ''0123456789abcdef''"

definition shared_blob :: "fs \<Rightarrow> path \<Rightarrow> bool" where
  "shared_blob fs payload \<longleftrightarrow>
     (case payload of
        [h, b, x, y] \<Rightarrow>
          [h] = hub \<and> b = ''blobs'' \<and> length x = 2 \<and> length y = 64 \<and> list_all hex_digit y \<and> starts_with x y
      | _ \<Rightarrow> False) \<and>
     entry fs (hub @ [''blobs'', ''.huggingface-shared-blobs'']) = Some (File [CHR ''1'', CHR 0x0A])"

definition check_payload :: "deletion \<Rightarrow> fs \<Rightarrow> path \<Rightarrow> hub_revision \<Rightarrow> path \<Rightarrow> cache_error + unit" where
  "check_payload d fs repo selected payload =
     (if prefix (repo @ [''blobs'']) payload \<or> prefix (hr_snapshot selected) payload then Inr ()
      else if \<not> dl_shared_store d then Inl (SharedStore payload)
      else rbind (cache_path fs False (hub @ [''blobs'', ''.huggingface-shared-blobs''])) (\<lambda>_.
        if \<not> prefix (hub @ [''blobs'']) payload then Inl (UnmanagedPayload payload)
        else if shared_blob fs payload then Inr () else Inl (SharedStore payload)))"

fun check_payloads :: "deletion \<Rightarrow> fs \<Rightarrow> path \<Rightarrow> hub_revision \<Rightarrow> path list \<Rightarrow> cache_error + unit" where
  "check_payloads d fs repo selected [] = Inr ()"
| "check_payloads d fs repo selected (p # ps) =
     rbind (check_payload d fs repo selected p) (\<lambda>_. check_payloads d fs repo selected ps)"

definition check_protected :: "deletion \<Rightarrow> path list \<Rightarrow> cache_error + unit" where
  "check_protected d protected =
     (case find (below_any (plan_trees d)) protected of None \<Rightarrow> Inr () | Some p \<Rightarrow> Inl (StillReferenced p))"

definition check_gone :: "fs \<Rightarrow> path list \<Rightarrow> cache_error + unit" where
  "check_gone fs ps = (case find (\<lambda>p. entry fs p \<noteq> None) ps of None \<Rightarrow> Inr () | Some p \<Rightarrow> Inl (NotRemoved p))"

definition present_paths :: "fs \<Rightarrow> path list \<Rightarrow> path list" where
  "present_paths fs ps = filter (\<lambda>p. entry fs p \<noteq> None) ps"

text \<open>The collection of an indexed revision.\<close>

definition spared :: "path list \<Rightarrow> deletion \<Rightarrow> deletion" where
  "spared protected d = d\<lparr>dl_blobs := filter (\<lambda>p. p \<notin> set protected) (dl_blobs d)\<rparr>"

definition collect_revision ::
  "hub_library \<Rightarrow> string \<Rightarrow> string \<Rightarrow> string list \<Rightarrow> links \<Rightarrow> hub_revision \<Rightarrow> cache \<Rightarrow> (cache_error \<times> cache) + cache" where
  "collect_revision L repository revision live_revisions links selected c =
     (let fs = ca_fs c; repo = repo_dir repository; d = hl_plan L fs repository revision;
          protected = protected_payloads d repo links; freed = freed_payloads d repo links selected;
          abandoned = abandoned_links d repo links; targets = plan_targets (spared protected d) in
      rbind (failing c (if dl_repos d \<noteq> [] then
               if \<exists>v \<in> set live_revisions. v \<noteq> revision then Inl (LiveRevisions repository) else check_repository fs repo
             else Inr ())) (\<lambda>_.
      rbind (failing c (check_protected d protected)) (\<lambda>_.
      rbind (failing c (check_payloads d fs repo selected freed)) (\<lambda>_.
      rbind (failing c (check_paths fs True targets)) (\<lambda>_.
      let present = present_paths fs (targets @ hr_payloads selected @ map (\<lambda>(_, _, payload). payload) (filter (\<lambda>(p, _). disappearing d p) links));
          c1 = c\<lparr>ca_fs := hl_execute L (spared protected d) fs\<rparr> in
      rbind (failing c1 (check_gone (ca_fs c1) targets)) (\<lambda>_.
      rbind (remove_paths True abandoned c1) (\<lambda>c2.
      rbind (failing c2 (check_gone (ca_fs c2) freed)) (\<lambda>_.
        Inr (fold add_removed (filter (\<lambda>p. entry (ca_fs c2) p = None) present) c2)))))))))"

text \<open>A repository whose revision has no snapshot: a partial download, removed as a whole when nothing lives in it.\<close>

definition foreign_link :: "path \<Rightarrow> links \<Rightarrow> (path \<times> path \<times> path) option" where
  "foreign_link repo links = find (\<lambda>(p, _, payload). prefix repo payload \<noteq> prefix repo p) links"

definition collect_partial :: "string \<Rightarrow> string list \<Rightarrow> bool \<Rightarrow> links \<Rightarrow> cache \<Rightarrow> (cache_error \<times> cache) + cache" where
  "collect_partial repository live_revisions indexed links c =
     (let fs = ca_fs c; repo = repo_dir repository in
      if live_revisions \<noteq> [] \<or> indexed then Inr c
      else
        rbind (failing c (cache_path fs False (repo @ [''snapshots'']))) (\<lambda>_.
        if children fs (repo @ [''snapshots'']) \<noteq> [] then Inl (NotIndexed repo, c)
        else
          rbind (failing c (check_repository fs repo)) (\<lambda>_.
          case foreign_link repo links of
            Some (p, _, payload) \<Rightarrow> Inl (if prefix repo payload then StillReferenced payload else UnmanagedPayload payload, c)
          | None \<Rightarrow> remove_path False repo c)))"

definition collect_huggingface ::
  "hub_library \<Rightarrow> string \<Rightarrow> string \<Rightarrow> string list \<Rightarrow> cache \<Rightarrow> (cache_error \<times> cache) + cache" where
  "collect_huggingface L repository revision live_revisions c =
     (let fs = ca_fs c; repo = repo_dir repository; snapshot = repo @ [''snapshots'', revision] in
      rbind (failing c (cache_path fs False hub)) (\<lambda>_.
      rbind (failing c (cache_path fs False repo)) (\<lambda>_.
      rbind (failing c (cache_path fs False snapshot)) (\<lambda>_.
      if entry fs repo = None then Inr c
      else
        rbind (failing c (hub_links fs)) (\<lambda>links.
        let scanned = hl_scan L fs repository;
            selected = Option.bind scanned (find (\<lambda>r. hr_commit r = revision)) in
        case selected of
          Some r \<Rightarrow> collect_revision L repository revision live_revisions links r c
        | None \<Rightarrow>
            if entry fs snapshot \<noteq> None then Inl (NotIndexed snapshot, c)
            else collect_partial repository live_revisions (scanned \<noteq> None \<and> scanned \<noteq> Some []) links c)))))"

section \<open>The collection\<close>

record collection =
  co_collected :: "key list"
  co_retained :: "key list"
  co_cache :: cache

definition mark_collected :: "key \<Rightarrow> collection \<Rightarrow> cache \<Rightarrow> collection" where
  "mark_collected k st c = st\<lparr>co_collected := co_collected st @ [k], co_cache := c\<rparr>"

definition retained_item :: "key \<Rightarrow> collection \<Rightarrow> collection" where
  "retained_item k st = st\<lparr>co_retained := co_retained st @ [k]\<rparr>"

definition live_revisions_of :: "key list \<Rightarrow> string \<Rightarrow> string list" where
  "live_revisions_of live repository =
     map (\<lambda>(_, _, version). version) (filter (\<lambda>(provider, repo, _). provider = ''hf'' \<and> repo = repository) live)"

text \<open>One candidate that nothing holds: its provider first, then its peer paths.\<close>

definition remove_peers :: "key \<Rightarrow> collection \<Rightarrow> cache \<Rightarrow> (cache_error \<times> cache) + collection" where
  "remove_peers k st c = rbind (remove_paths False (peer_paths k) c) (\<lambda>c'. Inr (mark_collected k st c'))"

definition collect_released :: "hub_library \<Rightarrow> key list \<Rightarrow> key \<Rightarrow> collection \<Rightarrow> (cache_error \<times> cache) + collection" where
  "collect_released L live k st =
     (case k of (source, repository, revision) \<Rightarrow>
        if source = ''hf''
        then rbind (collect_huggingface L repository revision (live_revisions_of live repository) (co_cache st)) (remove_peers k st)
        else rbind (collect_modelscope repository revision live (co_cache st)) (\<lambda>(gone, c).
               if \<not> gone then Inr (retained_item k st) else remove_peers k st c))"

definition collect_item :: "hub_library \<Rightarrow> key list \<Rightarrow> key \<Rightarrow> collection \<Rightarrow> (cache_error \<times> cache) + collection" where
  "collect_item L live k st =
     (if k \<in> set live \<or> fst k \<notin> set [''hf'', ''modelscope''] then Inr (retained_item k st)
      else rbind (failing (co_cache st) (check_paths (ca_fs (co_cache st)) False (peer_paths k))) (\<lambda>_. collect_released L live k st))"

fun collect_keys :: "hub_library \<Rightarrow> key list \<Rightarrow> key list \<Rightarrow> collection \<Rightarrow> (cache_error \<times> cache) + collection" where
  "collect_keys L live [] st = Inr st"
| "collect_keys L live (k # ks) st = rbind (collect_item L live k st) (collect_keys L live ks)"

definition item_keys :: "json list \<Rightarrow> cache_error + key list" where
  "item_keys items = (case map_list item_key items of Inl e \<Rightarrow> Inl (BadItem e) | Inr ks \<Rightarrow> Inr ks)"

definition collect_cache_items ::
  "hub_library \<Rightarrow> faults \<Rightarrow> bool \<Rightarrow> json list \<Rightarrow> json list \<Rightarrow> fs \<Rightarrow> (cache_error \<times> cache) + collection" where
  "collect_cache_items L faults root_link candidates live fs =
     (let c = \<lparr>ca_fs = fs, ca_removed = [], ca_faults = faults\<rparr> in
      if root_link then Inl (RootLink, c)
      else
        rbind (failing c (item_keys live)) (\<lambda>live_keys.
        rbind (failing c (item_keys candidates)) (\<lambda>keys.
          collect_keys L live_keys (sort (remdups keys)) \<lparr>co_collected = [], co_retained = [], co_cache = c\<rparr>)))"

text \<open>The cache after a collection, whether it succeeded or failed.\<close>

fun final_cache :: "(cache_error \<times> cache) + collection \<Rightarrow> cache" where
  "final_cache (Inl (_, c)) = c"
| "final_cache (Inr st) = co_cache st"

text \<open>\<open>removed_paths\<close> of the result.\<close>

definition removed_paths :: "collection \<Rightarrow> string list" where
  "removed_paths st = sort (map (join ''/'') (ca_removed (co_cache st)))"

section \<open>What a removal touches\<close>

definition tree_ok :: "fs \<Rightarrow> bool" where
  "tree_ok fs \<longleftrightarrow> distinct (map fst fs) \<and>
     (\<forall>(p, n) \<in> set fs. \<forall>q \<in> set (prefixes p). q = [] \<or> q = p \<or> entry fs q = Some Dir)"

text \<open>Nothing but the entries that satisfy \<open>P\<close> is lost.\<close>

definition loses_only :: "(path \<Rightarrow> bool) \<Rightarrow> fs \<Rightarrow> fs \<Rightarrow> bool" where
  "loses_only P fs fs' \<longleftrightarrow> (\<forall>p. entry fs' p = entry fs p \<or> entry fs' p = None \<and> P p)"

text \<open>
  What the collection relies on of the Hub library. Carrying out a plan unlinks its files, removes its trees, and leaves
  a tree of entries. A plan stays inside the Hub cache; the trees of a plan for one revision of one repository are the
  directory of that repository and the snapshot of that revision, and it names no file inside another snapshot.
\<close>

definition snapshot_dir :: "string \<Rightarrow> string \<Rightarrow> path" where
  "snapshot_dir repository revision = repo_dir repository @ [''snapshots'', revision]"

definition hub_execute_ok :: "hub_library \<Rightarrow> bool" where
  "hub_execute_ok L \<longleftrightarrow>
     (\<forall>d fs. loses_only (\<lambda>p. p \<in> set (dl_refs d @ dl_blobs d @ dl_files d) \<or> below_any (plan_trees d) p) fs (hl_execute L d fs) \<and>
       (tree_ok fs \<longrightarrow> tree_ok (hl_execute L d fs)))"

definition plan_inside :: "string \<Rightarrow> string \<Rightarrow> deletion \<Rightarrow> bool" where
  "plan_inside repository revision d \<longleftrightarrow>
     set (dl_repos d) \<subseteq> {repo_dir repository} \<and> set (dl_snapshots d) \<subseteq> {snapshot_dir repository revision} \<and>
     (\<forall>t \<in> set (dl_refs d @ dl_blobs d @ dl_files d). prefix hub t \<and>
        (\<forall>r v. prefix (snapshot_dir r v) t \<longrightarrow> snapshot_dir r v = snapshot_dir repository revision))"

definition hub_plan_ok :: "hub_library \<Rightarrow> bool" where
  "hub_plan_ok L \<longleftrightarrow> (\<forall>fs repository revision. plan_inside repository revision (hl_plan L fs repository revision))"

lemma entry_filter: "entry (filter (\<lambda>(p, _). Q p) fs) p = (if Q p then entry fs p else None)"
  by (induction fs) auto

lemma entry_delete_tree [simp]: "entry (delete_tree t fs) p = (if prefix t p then None else entry fs p)"
  by (simp add: delete_tree_def entry_filter)

lemma entry_delete_file [simp]: "entry (delete_file t fs) p = (if p = t then None else entry fs p)"
  by (simp add: delete_file_def entry_filter)

lemma add_removed_fs [simp]: "ca_fs (add_removed t c) = ca_fs c"
  by (simp add: add_removed_def)

lemma fold_add_removed_fs [simp]: "ca_fs (fold add_removed ts c) = ca_fs c"
  by (induction ts arbitrary: c) auto

lemma loses_refl [simp]: "loses_only P fs fs"
  by (simp add: loses_only_def)

lemma loses_trans: "loses_only P fs fs' \<Longrightarrow> loses_only P fs' fs'' \<Longrightarrow> loses_only P fs fs''"
  unfolding loses_only_def by metis

lemma loses_mono: "loses_only P fs fs' \<Longrightarrow> (\<And>p. P p \<Longrightarrow> Q p) \<Longrightarrow> loses_only Q fs fs'"
  unfolding loses_only_def by blast

lemma loses_kept: "loses_only P fs fs' \<Longrightarrow> \<not> P p \<Longrightarrow> entry fs' p = entry fs p"
  unfolding loses_only_def by blast

lemma loses_None: "loses_only P fs fs' \<Longrightarrow> entry fs p = None \<Longrightarrow> entry fs' p = None"
  unfolding loses_only_def by metis

lemma failing_Inr [simp]: "failing c m = Inr x \<longleftrightarrow> m = Inr x"
  by (simp add: failing_def split: sum.splits)

text \<open>The same for an operation that may fail: \<open>view\<close> gives the cache of a success.\<close>

definition loses_at_most :: "(path \<Rightarrow> bool) \<Rightarrow> cache \<Rightarrow> ('a \<Rightarrow> cache) \<Rightarrow> (cache_error \<times> cache) + 'a \<Rightarrow> bool" where
  "loses_at_most P c view m = loses_only P (ca_fs c) (ca_fs (case m of Inl (_, c') \<Rightarrow> c' | Inr x \<Rightarrow> view x))"

lemma loses_at_most_simps [simp]:
  "loses_at_most P c view (Inl (e, c')) = loses_only P (ca_fs c) (ca_fs c')"
  "loses_at_most P c view (Inr x) = loses_only P (ca_fs c) (ca_fs (view x))"
  by (simp_all add: loses_at_most_def)

lemma loses_at_most_bind:
  "loses_at_most P c view m \<Longrightarrow> (\<And>x. m = Inr x \<Longrightarrow> loses_at_most P (view x) view' (f x)) \<Longrightarrow> loses_at_most P c view' (rbind m f)"
  by (cases m) (auto simp: loses_at_most_def intro: loses_trans)

lemma loses_at_most_check:
  "(\<And>x. m = Inr x \<Longrightarrow> loses_at_most P c view (f x)) \<Longrightarrow> loses_at_most P c view (rbind (failing c m) f)"
  by (cases m) (auto simp: failing_def)

lemma loses_at_most_mono: "loses_at_most P c view m \<Longrightarrow> (\<And>p. P p \<Longrightarrow> Q p) \<Longrightarrow> loses_at_most Q c view m"
  unfolding loses_at_most_def by (rule loses_mono)

lemma loses_at_most_from: "loses_only P (ca_fs c) (ca_fs c1) \<Longrightarrow> loses_at_most P c1 view m \<Longrightarrow> loses_at_most P c view m"
  unfolding loses_at_most_def by (rule loses_trans)

lemma cache_path_same: "cache_path fs l ps = Inr t \<Longrightarrow> t = ps"
  by (auto simp: cache_path_def split: if_splits elim!: rbind_InrE)

lemma entry_interrupted [simp]: "entry (interrupted t gone fs) p = (if prefix t p \<and> p \<in> set gone then None else entry fs p)"
  by (simp add: interrupted_def entry_filter)

lemma perform_removal_at_most:
  "loses_only (prefix t) (ca_fs c) left \<Longrightarrow> loses_at_most (prefix t) c (\<lambda>c. c) (perform_removal t left c)"
  by (auto simp: perform_removal_def loses_only_def split: option.splits)

lemma perform_removal_Inr: "perform_removal t left c = Inr c' \<Longrightarrow> ca_fs c' = left"
  by (auto simp: perform_removal_def split: option.splits)

lemma remove_path_at_most: "loses_at_most (prefix t) c (\<lambda>c. c) (remove_path l t c)"
  unfolding remove_path_def
  by (rule loses_at_most_check)
    (auto simp: loses_only_def dest!: cache_path_same intro!: perform_removal_at_most split: option.splits node.splits)

lemma remove_path_loses: "remove_path l t c = Inr c' \<Longrightarrow> loses_only (prefix t) (ca_fs c) (ca_fs c')"
  using remove_path_at_most [of t c l] by simp

lemma remove_path_gone: "remove_path l t c = Inr c' \<Longrightarrow> entry (ca_fs c') t = None"
  by (auto simp: remove_path_def dest!: cache_path_same perform_removal_Inr split: option.splits node.splits if_splits elim!: rbind_InrE)

lemma remove_path_unlinks:
  "remove_path l t c = Inr c' \<Longrightarrow> entry (ca_fs c) t \<noteq> Some Dir \<Longrightarrow> loses_only (\<lambda>p. p = t) (ca_fs c) (ca_fs c')"
  by (auto simp: remove_path_def loses_only_def dest!: cache_path_same perform_removal_Inr
      split: option.splits node.splits if_splits elim!: rbind_InrE)

lemma remove_paths_at_most: "loses_at_most (below_any ts) c (\<lambda>c. c) (remove_paths l ts c)"
proof (induction ts arbitrary: c)
  case (Cons t ts)
  have "loses_at_most (below_any (t # ts)) c (\<lambda>c. c) (remove_path l t c)"
    by (rule loses_at_most_mono [OF remove_path_at_most]) (simp add: below_any_def)
  moreover have "loses_at_most (below_any (t # ts)) c1 (\<lambda>c. c) (remove_paths l ts c1)" for c1
    by (rule loses_at_most_mono [OF Cons.IH]) (auto simp: below_any_def)
  ultimately show ?case
    unfolding remove_paths.simps by (rule loses_at_most_bind)
qed simp

lemma remove_paths_loses: "remove_paths l ts c = Inr c' \<Longrightarrow> loses_only (below_any ts) (ca_fs c) (ca_fs c')"
  using remove_paths_at_most [of ts c l] by simp

lemma remove_paths_gone: "remove_paths l ts c = Inr c' \<Longrightarrow> t \<in> set ts \<Longrightarrow> entry (ca_fs c') t = None"
proof (induction ts arbitrary: c)
  case (Cons u ts)
  then obtain c1 where first: "remove_path l u c = Inr c1" and rest: "remove_paths l ts c1 = Inr c'"
    by (auto elim!: rbind_InrE)
  show ?case
  proof (cases "t = u")
    case True
    then show ?thesis
      using loses_None [OF remove_paths_loses [OF rest]] remove_path_gone [OF first] by simp
  next
    case False
    then show ?thesis
      using Cons.IH [OF rest] Cons.prems(2) by simp
  qed
qed simp

lemma remove_paths_unlinks:
  "remove_paths l ts c = Inr c' \<Longrightarrow> (\<And>t. t \<in> set ts \<Longrightarrow> entry (ca_fs c) t \<noteq> Some Dir) \<Longrightarrow>
   loses_only (\<lambda>p. p \<in> set ts) (ca_fs c) (ca_fs c')"
proof (induction ts arbitrary: c)
  case (Cons t ts)
  then obtain c1 where first: "remove_path l t c = Inr c1" and rest: "remove_paths l ts c1 = Inr c'"
    by (auto elim!: rbind_InrE)
  have step: "loses_only (\<lambda>p. p = t) (ca_fs c) (ca_fs c1)"
    by (rule remove_path_unlinks [OF first]) (use Cons.prems(2) in simp)
  have "entry (ca_fs c1) u \<noteq> Some Dir" if "u \<in> set ts" for u
    using step Cons.prems(2) [of u] that unfolding loses_only_def by (metis list.set_intros(2) option.distinct(1))
  from Cons.IH [OF rest this] have "loses_only (\<lambda>p. p \<in> set ts) (ca_fs c1) (ca_fs c')"
    by blast
  then have later: "loses_only (\<lambda>p. p \<in> set (t # ts)) (ca_fs c1) (ca_fs c')"
    by (rule loses_mono) auto
  have "loses_only (\<lambda>p. p \<in> set (t # ts)) (ca_fs c) (ca_fs c1)"
    by (rule loses_mono [OF step]) simp
  then show ?case
    by (rule loses_trans [OF _ later])
qed simp

lemma tree_gone:
  assumes "tree_ok fs" and "entry fs t = None" and "prefix t p" and "t \<noteq> []"
  shows "entry fs p = None"
proof (rule ccontr)
  assume "entry fs p \<noteq> None"
  then obtain n where "(p, n) \<in> set fs"
    by (auto dest: map_of_SomeD)
  with assms(1) have "t = [] \<or> t = p \<or> entry fs t = Some Dir"
    using assms(3) unfolding tree_ok_def by (fastforce simp: in_set_prefixes)
  with assms \<open>entry fs p \<noteq> None\<close> show False
    by auto
qed

section \<open>Links and their payloads\<close>

lemma resolve_steps_not_link: "resolve_steps n fs p = At q \<Longrightarrow> entry fs q \<noteq> Some (Link t)"
proof (induction n arbitrary: p)
  case 0
  then show ?case
    by (subst (asm) resolve_steps.simps) (auto split: option.splits node.splits)
next
  case (Suc n)
  from Suc.prems show ?case
    by (subst (asm) resolve_steps.simps) (auto split: option.splits node.splits dest: Suc.IH)
qed

lemma hub_links_facts:
  assumes "hub_links fs = Inr links"
  obtains found where "Inr ` set found = link_fact fs ` set (filter (\<lambda>(p, _). strict_prefix hub p) fs)"
    and "links = concat found"
  using assms by (auto simp: hub_links_def elim!: rbind_InrE dest!: map_list_image)

lemma link_fact_Inr:
  "link_fact fs (p, n) = Inr l \<Longrightarrow> e \<in> set l \<Longrightarrow>
   \<exists>t first payload. n = Link t \<and> e = (p, first, payload) \<and> resolve_path fs p = At payload \<and> prefix hub first"
  by (auto simp: link_fact_def split: node.splits option.splits resolved.splits if_splits)

lemma link_fact_link:
  "link_fact fs (p, Link t) = Inr l \<Longrightarrow> resolve_path fs p = At payload \<Longrightarrow> \<exists>first. l = [(p, first, payload)]"
  by (auto simp: link_fact_def split: option.splits if_splits)

lemma hub_links_member:
  assumes "hub_links fs = Inr links" and "(p, Link t) \<in> set fs" and "strict_prefix hub p" and "resolve_path fs p = At payload"
  obtains first where "(p, first, payload) \<in> set links"
proof -
  obtain found where found: "Inr ` set found = link_fact fs ` set (filter (\<lambda>(p, _). strict_prefix hub p) fs)"
    and links: "links = concat found"
    using hub_links_facts [OF assms(1)] by blast
  have "link_fact fs (p, Link t) \<in> Inr ` set found"
    unfolding found by (rule imageI) (use assms(2,3) in simp)
  then obtain l where l: "l \<in> set found" and fact: "link_fact fs (p, Link t) = Inr l"
    by (elim imageE)
  obtain first where "l = [(p, first, payload)]"
    using link_fact_link [OF fact assms(4)] by (elim exE)
  with l links have "(p, first, payload) \<in> set links"
    by force
  then show thesis
    by (rule that)
qed

lemma hub_links_are_links:
  assumes "hub_links fs = Inr links" and "p \<in> fst ` set links"
  obtains t where "(p, Link t) \<in> set fs"
proof -
  obtain found where found: "Inr ` set found = link_fact fs ` set (filter (\<lambda>(p, _). strict_prefix hub p) fs)"
    and links: "links = concat found"
    using hub_links_facts [OF assms(1)] by blast
  obtain l e where l: "l \<in> set found" "e \<in> set l" "p = fst e"
    using assms(2) links by auto
  then have "Inr l \<in> link_fact fs ` set (filter (\<lambda>(p, _). strict_prefix hub p) fs)"
    unfolding found [symmetric] by simp
  then obtain q n where member: "(q, n) \<in> set fs" and fact: "link_fact fs (q, n) = Inr l"
    by (metis (no_types, lifting) filter_is_subset imageE subset_code(1) surj_pair)
  obtain t where "n = Link t" and "p = q"
    using link_fact_Inr [OF fact l(2)] l(3) by auto
  with member have "(p, Link t) \<in> set fs"
    by simp
  then show thesis
    by (rule that)
qed

lemma loses_cases: "loses_only P fs fs' \<Longrightarrow> entry fs' p = entry fs p \<or> entry fs' p = None"
  unfolding loses_only_def by metis

lemma check_paths_nonempty: "check_paths fs l ts = Inr () \<Longrightarrow> t \<in> set ts \<Longrightarrow> t \<noteq> []"
  by (induction ts) (auto simp: cache_path_def split: if_splits elim!: rbind_InrE)

lemma find_None_case: "(case find P xs of None \<Rightarrow> Inr () | Some x \<Rightarrow> Inl (f x)) = Inr () \<Longrightarrow> x \<in> set xs \<Longrightarrow> \<not> P x"
  by (auto simp: find_None_iff split: option.splits)

lemma check_gone_ok: "check_gone fs ps = Inr () \<Longrightarrow> p \<in> set ps \<Longrightarrow> entry fs p = None"
  unfolding check_gone_def by (drule (1) find_None_case) simp

lemma check_protected_ok: "check_protected d ps = Inr () \<Longrightarrow> p \<in> set ps \<Longrightarrow> \<not> below_any (plan_trees d) p"
  unfolding check_protected_def by (rule find_None_case)

lemma collect_revision_steps:
  assumes "collect_revision L repository revision live_revisions links selected c = Inr c'"
  defines "d \<equiv> hl_plan L (ca_fs c) repository revision"
  defines "protected \<equiv> protected_payloads d (repo_dir repository) links"
  defines "fs1 \<equiv> hl_execute L (spared protected d) (ca_fs c)"
  obtains c2 where "check_protected d protected = Inr ()"
    and "check_paths (ca_fs c) True (plan_targets (spared protected d)) = Inr ()"
    and "check_gone fs1 (plan_targets (spared protected d)) = Inr ()"
    and "remove_paths True (abandoned_links d (repo_dir repository) links) (c\<lparr>ca_fs := fs1\<rparr>) = Inr c2"
    and "ca_fs c' = ca_fs c2"
  using assms by (auto simp: collect_revision_def Let_def elim!: rbind_InrE)

text \<open>A link that is not in the plan and not abandoned has a protected payload.\<close>

lemma protected_member:
  "(p, first, payload) \<in> set links \<Longrightarrow> \<not> disappearing d p \<Longrightarrow> p \<notin> set (abandoned_links d repo links) \<Longrightarrow>
   payload \<in> set (protected_payloads d repo links)"
  by (force simp: protected_payloads_def)

lemma abandoned_are_links: "t \<in> set (abandoned_links d repo links) \<Longrightarrow> t \<in> fst ` set links"
  by (auto simp: abandoned_links_def)

lemma abandoned_is_link_entry:
  assumes "hub_links fs = Inr links" and "tree_ok fs" and "q \<in> set (abandoned_links d repo links)"
  shows "\<exists>t. entry fs q = Some (Link t)"
proof -
  obtain t where "(q, Link t) \<in> set fs"
    using hub_links_are_links [OF assms(1) abandoned_are_links [OF assms(3)]] by blast
  with assms(2) show ?thesis
    by (auto simp: tree_ok_def)
qed

lemma spared_sel [simp]:
  "plan_trees (spared ps d) = plan_trees d" "dl_refs (spared ps d) = dl_refs d" "dl_files (spared ps d) = dl_files d"
  "set (dl_blobs (spared ps d)) = set (dl_blobs d) - set ps"
  by (auto simp: spared_def plan_trees_def)

lemma disappearing_target:
  assumes "disappearing d p"
  obtains t where "t \<in> set (plan_targets (spared ps d))" and "prefix t p"
  using assms by (auto simp: disappearing_def below_any_def plan_trees_def plan_targets_def spared_def)

lemma hub_execute_loses:
  "hub_execute_ok L \<Longrightarrow>
   loses_only (\<lambda>p. p \<in> set (dl_refs d @ dl_blobs d @ dl_files d) \<or> below_any (plan_trees d) p) fs (hl_execute L d fs)"
  by (simp add: hub_execute_ok_def)

lemma hub_execute_tree: "hub_execute_ok L \<Longrightarrow> tree_ok fs \<Longrightarrow> tree_ok (hl_execute L d fs)"
  by (simp add: hub_execute_ok_def)

lemma collect_revision_keeps_payload:
  assumes run: "collect_revision L repository revision live_revisions links selected c = Inr c'"
    and links: "hub_links (ca_fs c) = Inr links"
    and ok: "hub_execute_ok L" and tree: "tree_ok (ca_fs c)"
    and member: "(p, first, payload) \<in> set links" and remains: "entry (ca_fs c') p \<noteq> None"
    and solid: "\<And>t. entry (ca_fs c) payload \<noteq> Some (Link t)"
    and plan: "payload \<notin> set (dl_refs (hl_plan L (ca_fs c) repository revision) @ dl_files (hl_plan L (ca_fs c) repository revision))"
  shows "entry (ca_fs c') payload = entry (ca_fs c) payload"
proof -
  define d where "d = hl_plan L (ca_fs c) repository revision"
  define repo where "repo = repo_dir repository"
  define protected where "protected = protected_payloads d repo links"
  define fs1 where "fs1 = hl_execute L (spared protected d) (ca_fs c)"
  note defs = d_def [symmetric] repo_def [symmetric] protected_def [symmetric] fs1_def [symmetric]
  obtain c2 where guard: "check_protected d protected = Inr ()"
    and paths: "check_paths (ca_fs c) True (plan_targets (spared protected d)) = Inr ()"
    and gone: "check_gone fs1 (plan_targets (spared protected d)) = Inr ()"
    and rest: "remove_paths True (abandoned_links d repo links) (c\<lparr>ca_fs := fs1\<rparr>) = Inr c2" and fs': "ca_fs c' = ca_fs c2"
    using collect_revision_steps [OF run] unfolding defs by blast
  have lost: "loses_only (\<lambda>p. p \<in> set (dl_refs d @ dl_files d) \<union> (set (dl_blobs d) - set protected) \<or> below_any (plan_trees d) p)
      (ca_fs c) fs1"
    unfolding fs1_def by (rule loses_mono [OF hub_execute_loses [OF ok]]) auto
  have tree1: "tree_ok fs1"
    unfolding fs1_def by (rule hub_execute_tree [OF ok tree])
  have after: "loses_only (below_any (abandoned_links d repo links)) fs1 (ca_fs c2)"
    using remove_paths_loses [OF rest] by simp
  have stays: "\<not> disappearing d p"
  proof
    assume "disappearing d p"
    then obtain t where t: "t \<in> set (plan_targets (spared protected d))" "prefix t p"
      by (rule disappearing_target)
    then have "entry fs1 p = None"
      using tree_gone [OF tree1 check_gone_ok [OF gone t(1)] t(2) check_paths_nonempty [OF paths t(1)]] by simp
    with loses_None [OF after] remains fs' show False
      by simp
  qed
  have "p \<notin> set (abandoned_links d repo links)"
    using remove_paths_gone [OF rest] remains fs' by auto
  then have safe: "payload \<in> set protected"
    unfolding protected_def by (rule protected_member [OF member stays])
  have "entry fs1 payload = entry (ca_fs c) payload"
    by (rule loses_kept [OF lost]) (use safe check_protected_ok [OF guard safe] plan d_def in auto)
  moreover have "loses_only (\<lambda>q. q \<in> set (abandoned_links d repo links)) fs1 (ca_fs c2)"
  proof -
    have "entry fs1 t \<noteq> Some Dir" if "t \<in> set (abandoned_links d repo links)" for t
      using abandoned_is_link_entry [OF links tree that] loses_cases [OF lost, of t] by auto
    then show ?thesis
      using remove_paths_unlinks [OF rest] by simp
  qed
  moreover have "payload \<notin> set (abandoned_links d repo links)"
    using abandoned_is_link_entry [OF links tree, of payload] solid by metis
  ultimately show ?thesis
    unfolding fs' by (simp add: loses_kept)
qed

lemma tree_ancestor: "tree_ok fs \<Longrightarrow> entry fs p \<noteq> None \<Longrightarrow> prefix t p \<Longrightarrow> t \<noteq> [] \<Longrightarrow> t = p \<or> entry fs t = Some Dir"
  unfolding tree_ok_def by (fastforce simp: in_set_prefixes dest: map_of_SomeD)

lemma remove_path_tree:
  assumes "remove_path l t c = Inr c'" and "tree_ok (ca_fs c)" and "prefix t p" and "t \<noteq> []"
  shows "entry (ca_fs c') p = None"
proof (cases "entry (ca_fs c) p = None \<or> t = p")
  case True
  then show ?thesis
    using remove_path_gone [OF assms(1)] loses_None [OF remove_path_loses [OF assms(1)]] by auto
next
  case False
  then have "entry (ca_fs c) t = Some Dir"
    using tree_ancestor [OF assms(2) _ assms(3,4)] by blast
  with assms(1,3) show ?thesis
    by (auto simp: remove_path_def elim!: rbind_InrE dest!: cache_path_same perform_removal_Inr)
qed

lemma collect_partial_cases:
  assumes "collect_partial repository live_revisions indexed links c = Inr c'"
  shows "c' = c \<or> foreign_link (repo_dir repository) links = None \<and> remove_path False (repo_dir repository) c = Inr c'"
  using assms by (auto simp: collect_partial_def Let_def split: if_splits option.splits elim!: rbind_InrE)

lemma foreign_link_None:
  "foreign_link repo links = None \<Longrightarrow> (p, first, payload) \<in> set links \<Longrightarrow> prefix repo payload = prefix repo p"
  unfolding foreign_link_def find_None_iff by fastforce

lemma repo_dir_hub [simp]: "prefix hub (repo_dir repository)" "repo_dir repository \<noteq> []"
  by (simp_all add: repo_dir_def hub_def)

lemma collect_partial_keeps_payload:
  assumes run: "collect_partial repository live_revisions indexed links c = Inr c'" and tree: "tree_ok (ca_fs c)"
    and member: "(p, first, payload) \<in> set links" and remains: "entry (ca_fs c') p \<noteq> None"
  shows "entry (ca_fs c') payload = entry (ca_fs c) payload"
proof (cases "c' = c")
  case False
  with collect_partial_cases [OF run]
  have local_links: "foreign_link (repo_dir repository) links = None" and gone: "remove_path False (repo_dir repository) c = Inr c'"
    by auto
  have "\<not> prefix (repo_dir repository) p"
    using remove_path_tree [OF gone tree] remains by auto
  then show ?thesis
    using loses_kept [OF remove_path_loses [OF gone]] foreign_link_None [OF local_links member] by simp
qed simp

lemma collect_huggingface_cases:
  assumes "collect_huggingface L repository revision live_revisions c = Inr c'"
  obtains (absent) "c' = c"
  | (revision) links selected where "hub_links (ca_fs c) = Inr links"
      and "collect_revision L repository revision live_revisions links selected c = Inr c'"
  | (partial) links indexed where "hub_links (ca_fs c) = Inr links"
      and "collect_partial repository live_revisions indexed links c = Inr c'"
  using assms by (auto simp: collect_huggingface_def Let_def split: if_splits option.splits elim!: rbind_InrE)

text \<open>C9: After the collection of a Hugging Face revision, every link of the Hub cache that is still there, of this or
  of any other repository, keeps its payload: the payload's entry is what it was. The collection may remove the
  payloads of the revision, the whole repository, and links to a blob store that several repositories share.
  The Hub library removes only what its plan names, and its plan does not name the payload as a reference file or as
  an entry of a snapshot.\<close>

theorem remaining_links_keep_payloads:
  assumes "collect_huggingface L repository revision live_revisions c = Inr c'"
    and "hub_execute_ok L" and "tree_ok (ca_fs c)"
    and "entry (ca_fs c) p = Some (Link t)" and "strict_prefix hub p" and "resolve_path (ca_fs c) p = At payload"
    and "entry (ca_fs c') p \<noteq> None"
    and "payload \<notin> set (dl_refs (hl_plan L (ca_fs c) repository revision) @ dl_files (hl_plan L (ca_fs c) repository revision))"
  shows "entry (ca_fs c') payload = entry (ca_fs c) payload"
  using assms(1)
proof (cases rule: collect_huggingface_cases)
  case (revision links selected)
  obtain first where "(p, first, payload) \<in> set links"
    using hub_links_member [OF revision(1) map_of_SomeD [OF assms(4)] assms(5,6)] .
  then show ?thesis
    using collect_revision_keeps_payload [OF revision(2,1) assms(2,3) _ assms(7) _ assms(8)]
      resolve_steps_not_link assms(6) unfolding resolve_path_def by blast
next
  case (partial links indexed)
  obtain first where "(p, first, payload) \<in> set links"
    using hub_links_member [OF partial(1) map_of_SomeD [OF assms(4)] assms(5,6)] .
  then show ?thesis
    using collect_partial_keeps_payload [OF partial(2) assms(3) _ assms(7)] by blast
qed simp

section \<open>Live items\<close>

text \<open>
  What collecting a revision of a Hub repository may take away: entries of the Hub cache outside the snapshots of live
  revisions. A live repository of another name does not share the directory of this one.
\<close>

definition hub_loses :: "key list \<Rightarrow> string \<Rightarrow> path \<Rightarrow> bool" where
  "hub_loses live repository p \<longleftrightarrow>
     prefix hub p \<and>
     (\<forall>r v. (''hf'', r, v) \<in> set live \<longrightarrow> (repo_dir r = repo_dir repository \<longrightarrow> r = repository) \<longrightarrow> \<not> prefix (snapshot_dir r v) p)"

lemma hub_loses_live:
  "hub_loses live repository p \<Longrightarrow> (''hf'', r, v) \<in> set live \<Longrightarrow> (repo_dir r = repo_dir repository \<Longrightarrow> r = repository) \<Longrightarrow>
   \<not> prefix (snapshot_dir r v) p"
  unfolding hub_loses_def by blast

lemma prefix_same: "prefix a p \<Longrightarrow> prefix b p \<Longrightarrow> length a = length b \<Longrightarrow> a = b"
  by (elim prefixE) (simp add: append_eq_append_conv)

lemma repo_dir_length: "length (repo_dir r) = 2"
  by (simp add: repo_dir_def hub_def)

lemma snapshot_dir_repo: "prefix (snapshot_dir r v) p \<Longrightarrow> prefix (repo_dir r) p"
  by (auto simp: snapshot_dir_def prefix_def)

lemma snapshot_dir_inj: "snapshot_dir r v = snapshot_dir r' v' \<Longrightarrow> repo_dir r = repo_dir r' \<and> v = v'"
  by (auto simp: snapshot_dir_def)

lemma hub_loses_repo:
  assumes "\<And>v. v \<in> set (live_revisions_of live repository) \<Longrightarrow> v = revision" and "(''hf'', repository, revision) \<notin> set live"
    and "prefix (repo_dir repository) p"
  shows "hub_loses live repository p"
  unfolding hub_loses_def
proof (intro conjI allI impI notI)
  show "prefix hub p" using repo_dir_hub(1) assms(3) prefix_order.trans by blast
  fix r v assume live: "(''hf'', r, v) \<in> set live" and name: "repo_dir r = repo_dir repository \<longrightarrow> r = repository"
    and below: "prefix (snapshot_dir r v) p"
  have "repo_dir r = repo_dir repository"
    using prefix_same [OF snapshot_dir_repo [OF below] assms(3)] by (simp add: repo_dir_length)
  then have "r = repository" using name by simp
  then have "v \<in> set (live_revisions_of live repository)" using live by (force simp: live_revisions_of_def)
  then show False using assms(1,2) live \<open>r = repository\<close> by blast
qed

lemma hub_loses_snapshot:
  assumes "(''hf'', repository, revision) \<notin> set live" and "prefix hub p"
    and "\<And>r v. prefix (snapshot_dir r v) p \<Longrightarrow> snapshot_dir r v = snapshot_dir repository revision"
  shows "hub_loses live repository p"
  unfolding hub_loses_def using assms snapshot_dir_inj by metis

lemma plan_loses:
  assumes plan: "plan_inside repository revision d" and dead: "(''hf'', repository, revision) \<notin> set live"
    and repos: "dl_repos d \<noteq> [] \<Longrightarrow> \<forall>v \<in> set (live_revisions_of live repository). v = revision"
    and lost: "p \<in> set (dl_refs d @ dl_blobs d @ dl_files d) \<or> below_any (plan_trees d) p"
  shows "hub_loses live repository p"
proof -
  consider "p \<in> set (dl_refs d @ dl_blobs d @ dl_files d)" | "dl_repos d \<noteq> []" "prefix (repo_dir repository) p"
    | "prefix (snapshot_dir repository revision) p"
    using lost plan by (fastforce simp: below_any_def plan_trees_def plan_inside_def)
  then show ?thesis
  proof cases
    case 1
    then show ?thesis using plan dead by (intro hub_loses_snapshot [of _ revision]) (auto simp: plan_inside_def)
  next
    case 2
    then show ?thesis using repos dead by (intro hub_loses_repo [of live repository revision]) blast+
  next
    case 3
    then have "prefix hub p" using snapshot_dir_repo repo_dir_hub(1) prefix_order.trans by blast
    moreover have "snapshot_dir r v = snapshot_dir repository revision" if "prefix (snapshot_dir r v) p" for r v
      using prefix_same [OF that 3] by (simp add: snapshot_dir_def repo_dir_length)
    ultimately show ?thesis using dead by (intro hub_loses_snapshot [of _ revision]) blast+
  qed
qed

lemma abandoned_loses:
  assumes "below_any (abandoned_links d (repo_dir repository) links) p"
  shows "hub_loses live repository p"
proof -
  obtain t where "prefix t p" and t: "butlast t = repo_dir repository @ [''blobs'']" "t \<noteq> []"
    using assms by (auto simp: below_any_def abandoned_links_def)
  then have blobs: "prefix (repo_dir repository @ [''blobs'']) p"
    by (metis append_butlast_last_id prefix_order.trans prefixI)
  then have "prefix hub p"
    using repo_dir_hub(1) prefix_order.trans by (metis prefixI)
  moreover have "\<not> prefix (snapshot_dir r v) p" for r v
  proof
    assume "prefix (snapshot_dir r v) p"
    then have "prefix (repo_dir r @ [''snapshots'']) p" by (auto simp: snapshot_dir_def prefix_def)
    from prefix_same [OF this blobs] show False by (simp add: repo_dir_length)
  qed
  ultimately show ?thesis by (simp add: hub_loses_def)
qed

text \<open>What follows the execution of the plan.\<close>

lemma after_execution_at_most:
  "loses_at_most (hub_loses live repository) c1 (\<lambda>c. c) (rbind (failing c1 m) (\<lambda>_.
     rbind (remove_paths True (abandoned_links d (repo_dir repository) links) c1) (\<lambda>c2.
     rbind (failing c2 (g c2)) (\<lambda>_. Inr (fold add_removed (h c2) c2)))))"
proof (rule loses_at_most_check, rule loses_at_most_bind [where view = "\<lambda>c. c"])
  show "loses_at_most (hub_loses live repository) c1 (\<lambda>c. c) (remove_paths True (abandoned_links d (repo_dir repository) links) c1)"
    by (rule loses_at_most_mono [OF remove_paths_at_most]) (rule abandoned_loses)
qed (rule loses_at_most_check, simp)

lemma collect_revision_at_most:
  assumes "hub_execute_ok L" and "hub_plan_ok L" and "(''hf'', repository, revision) \<notin> set live"
  shows "loses_at_most (hub_loses live repository) c (\<lambda>c. c)
    (collect_revision L repository revision (live_revisions_of live repository) links selected c)"
proof -
  define d where "d = hl_plan L (ca_fs c) repository revision"
  define protected where "protected = protected_payloads d (repo_dir repository) links"
  let ?c1 = "c\<lparr>ca_fs := hl_execute L (spared protected d) (ca_fs c)\<rparr>"
  have plan: "plan_inside repository revision d" using assms(2) by (simp add: hub_plan_ok_def d_def)
  have executed: "loses_only (hub_loses live repository) (ca_fs c) (ca_fs ?c1)"
    if "dl_repos d \<noteq> [] \<Longrightarrow> \<forall>v \<in> set (live_revisions_of live repository). v = revision"
  proof -
    have "hub_loses live repository p"
      if "p \<in> set (dl_refs (spared protected d) @ dl_blobs (spared protected d) @ dl_files (spared protected d)) \<or>
        below_any (plan_trees (spared protected d)) p" for p
      using plan_loses [OF plan assms(3) \<open>dl_repos d \<noteq> [] \<Longrightarrow> _\<close>, of p] that by auto
    then have "loses_only (hub_loses live repository) (ca_fs c) (hl_execute L (spared protected d) (ca_fs c))"
      by (rule loses_mono [OF hub_execute_loses [OF assms(1)]])
    then show ?thesis by simp
  qed
  have guarded: "loses_at_most (hub_loses live repository) c (\<lambda>c. c)
      (rbind (failing c (if dl_repos d \<noteq> [] then
          if \<exists>v \<in> set (live_revisions_of live repository). v \<noteq> revision then Inl (LiveRevisions repository)
          else check_repository (ca_fs c) (repo_dir repository) else Inr ())) rest)"
    if "\<And>x. loses_only (hub_loses live repository) (ca_fs c) (ca_fs ?c1) \<Longrightarrow>
      loses_at_most (hub_loses live repository) c (\<lambda>c. c) (rest x)" for rest
    by (rule loses_at_most_check) (rule that, rule executed, auto split: if_splits)
  show ?thesis
    unfolding collect_revision_def Let_def d_def [symmetric] protected_def [symmetric]
    by (rule guarded, intro loses_at_most_check, rule loses_at_most_from [OF _ after_execution_at_most], assumption)
qed

lemma collect_partial_at_most:
  assumes "(''hf'', repository, revision) \<notin> set live"
  shows "loses_at_most (hub_loses live repository) c (\<lambda>c. c) (collect_partial repository (live_revisions_of live repository) indexed links c)"
proof (cases "live_revisions_of live repository = []")
  case True
  have "loses_at_most (hub_loses live repository) c (\<lambda>c. c) (remove_path False (repo_dir repository) c)"
    by (rule loses_at_most_mono [OF remove_path_at_most], rule hub_loses_repo [OF _ assms]) (simp_all add: True)
  then show ?thesis
    by (auto simp: collect_partial_def Let_def intro!: loses_at_most_check split: option.splits)
qed (simp add: collect_partial_def Let_def)

lemma collect_huggingface_at_most:
  assumes "hub_execute_ok L" and "hub_plan_ok L" and "(''hf'', repository, revision) \<notin> set live"
  shows "loses_at_most (hub_loses live repository) c (\<lambda>c. c)
    (collect_huggingface L repository revision (live_revisions_of live repository) c)"
  by (auto simp: collect_huggingface_def Let_def collect_revision_at_most [OF assms] collect_partial_at_most [OF assms(3)]
      intro!: loses_at_most_check split: option.splits)

lemma collect_modelscope_at_most:
  "loses_at_most (\<lambda>p. alias_of (''modelscope'', repository, revision) \<notin> set (map alias_of (filter (\<lambda>k. fst k = ''modelscope'') live)) \<and>
     below_any (scope_paths repository revision) p) c snd (collect_modelscope repository revision live c)"
  unfolding collect_modelscope_def
  by (auto intro!: loses_at_most_check loses_at_most_bind [OF loses_at_most_mono [OF remove_paths_at_most]])

text \<open>What collecting one item may take away.\<close>

definition item_loses :: "key list \<Rightarrow> key \<Rightarrow> path \<Rightarrow> bool" where
  "item_loses live k p \<longleftrightarrow>
     k \<notin> set live \<and> (fst k = ''hf'' \<and> hub_loses live (fst (snd k)) p \<or> below_any (peer_paths k) p \<or>
       fst k = ''modelscope'' \<and> alias_of k \<notin> set (map alias_of (filter (\<lambda>k. fst k = ''modelscope'') live)) \<and>
       below_any (scope_paths (fst (snd k)) (snd (snd k))) p)"

lemma collect_modelscope_kept: "collect_modelscope repository revision live c = Inr (False, c') \<Longrightarrow> c' = c"
  by (auto simp: collect_modelscope_def split: if_splits elim!: rbind_InrE)

lemma remove_peers_at_most: "k \<notin> set live \<Longrightarrow> loses_at_most (item_loses live k) c co_cache (remove_peers k st c)"
  unfolding remove_peers_def
  by (rule loses_at_most_bind [OF loses_at_most_mono [OF remove_paths_at_most]]) (simp_all add: item_loses_def mark_collected_def)

lemma collect_released_at_most:
  assumes "hub_execute_ok L" and "hub_plan_ok L" and "k \<notin> set live" and "fst k \<in> set [''hf'', ''modelscope'']"
  shows "loses_at_most (item_loses live k) (co_cache st) co_cache (collect_released L live k st)"
proof -
  obtain source repository revision where k: "k = (source, repository, revision)"
    by (cases k)
  show ?thesis
  proof (cases "source = ''hf''")
    case True
    have "loses_at_most (item_loses live k) (co_cache st) (\<lambda>c. c)
        (collect_huggingface L repository revision (live_revisions_of live repository) (co_cache st))"
      by (rule loses_at_most_mono [OF collect_huggingface_at_most [OF assms(1,2)]]) (use assms(3) True in \<open>auto simp: item_loses_def k\<close>)
    from loses_at_most_bind [OF this remove_peers_at_most [OF assms(3)]] show ?thesis
      by (simp add: collect_released_def k True)
  next
    case False
    have "loses_at_most (item_loses live k) (co_cache st) snd (collect_modelscope repository revision live (co_cache st))"
      by (rule loses_at_most_mono [OF collect_modelscope_at_most]) (use assms(3,4) False in \<open>auto simp: item_loses_def k\<close>)
    then have "loses_at_most (item_loses live k) (co_cache st) co_cache
        (rbind (collect_modelscope repository revision live (co_cache st)) (\<lambda>(gone, c).
           if \<not> gone then Inr (retained_item k st) else remove_peers k st c))"
      by (rule loses_at_most_bind)
        (auto simp: retained_item_def intro!: remove_peers_at_most [OF assms(3)] dest!: collect_modelscope_kept)
    with False show ?thesis
      unfolding collect_released_def k prod.case by simp
  qed
qed

lemma collect_item_at_most:
  assumes "hub_execute_ok L" and "hub_plan_ok L"
  shows "loses_at_most (item_loses live k) (co_cache st) co_cache (collect_item L live k st)"
  unfolding collect_item_def using collect_released_at_most [OF assms, of k live st]
  by (auto simp: retained_item_def intro!: loses_at_most_check)

lemma collect_keys_at_most:
  assumes "hub_execute_ok L" and "hub_plan_ok L"
  shows "loses_at_most (\<lambda>p. \<exists>k \<in> set ks. item_loses live k p) (co_cache st) co_cache (collect_keys L live ks st)"
proof (induction ks arbitrary: st)
  case (Cons k ks)
  have "loses_at_most (\<lambda>p. \<exists>k \<in> set (k # ks). item_loses live k p) (co_cache st) co_cache (collect_item L live k st)"
    by (rule loses_at_most_mono [OF collect_item_at_most [OF assms]]) simp
  moreover have "loses_at_most (\<lambda>p. \<exists>k \<in> set (k # ks). item_loses live k p) (co_cache st1) co_cache (collect_keys L live ks st1)" for st1
    by (rule loses_at_most_mono [OF Cons.IH]) auto
  ultimately show ?case
    unfolding collect_keys.simps by (rule loses_at_most_bind)
qed simp

lemma final_cache_loses: "loses_at_most P c co_cache m \<Longrightarrow> loses_only P (ca_fs c) (ca_fs (final_cache m))"
  by (cases m) auto

lemma collect_cache_items_loses:
  assumes "item_keys live = Inr lives" and "item_keys candidates = Inr keys" and "hub_execute_ok L" and "hub_plan_ok L"
  shows "loses_only (\<lambda>p. \<exists>k \<in> set keys. item_loses lives k p) fs
    (ca_fs (final_cache (collect_cache_items L faults root_link candidates live fs)))"
proof -
  let ?st = "\<lparr>co_collected = [], co_retained = [], co_cache = \<lparr>ca_fs = fs, ca_removed = [], ca_faults = faults\<rparr>\<rparr>"
  show ?thesis
    using final_cache_loses [OF collect_keys_at_most [OF assms(3,4), of "sort (remdups keys)" lives ?st]] assms(1,2)
    by (simp add: collect_cache_items_def failing_def Let_def)
qed

definition valid_key :: "key \<Rightarrow> bool" where
  "valid_key k \<longleftrightarrow>
     (case k of (source, repository, revision) \<Rightarrow>
        repository \<noteq> [] \<and> revision \<noteq> [] \<and> length (split_on (CHR ''/'') repository) \<le> 2 \<and>
        (source = ''modelscope'' \<longrightarrow> length (split_on (CHR ''/'') repository) = 2))"

lemma item_key_valid: "item_key item = Inr k \<Longrightarrow> valid_key k"
  by (auto simp: item_key_def check_key_def valid_key_def Let_def split: json.splits prod.splits if_splits elim!: rbind_InrE)

lemma item_keys_valid: "item_keys items = Inr ks \<Longrightarrow> k \<in> set ks \<Longrightarrow> valid_key k"
  unfolding item_keys_def by (auto split: sum.splits dest!: map_list_image item_key_valid) (metis image_iff imageI item_key_valid)

lemma split_on_inj: "split_on c a = split_on c b \<Longrightarrow> a = b"
  by (metis join_split_on)

lemma prefix_equal_length: "prefix (xs @ [a]) (ys @ b # zs) \<Longrightarrow> length xs = length ys \<Longrightarrow> xs = ys \<and> a = b"
  by (auto simp: prefix_def)

lemma peer_paths_name:
  "t \<in> set (peer_paths (s, r, v)) \<Longrightarrow> \<exists>name. t = peer_parent s r @ [name] \<and> (name = v \<or> hd name = CHR ''.'')"
  by (auto simp: peer_paths_def)

text \<open>
  Two peer snapshots share directories when the repository of one is the repository of the other followed by its
  revision: the snapshot of the shorter repository then contains every snapshot of the longer one.
\<close>

definition peer_overlap :: "key \<Rightarrow> key \<Rightarrow> bool" where
  "peer_overlap a b \<longleftrightarrow>
     (case (a, b) of ((s, r, v), (s', r', v')) \<Rightarrow>
        s = s' \<and> (split_on (CHR ''/'') r @ [v] = split_on (CHR ''/'') r' \<or> split_on (CHR ''/'') r' @ [v'] = split_on (CHR ''/'') r))"

lemma short_parts: "xs \<noteq> [] \<Longrightarrow> length xs \<le> 2 \<Longrightarrow> (\<exists>a. xs = [a]) \<or> (\<exists>a b. xs = [a, b])"
  by (cases xs; cases "tl xs") auto

lemma peer_paths_apart:
  assumes below: "below_any (peer_paths (s2, r2, v2)) (peer_parent source repository @ revision # rest)"
    and valid: "valid_key (s2, r2, v2)" "valid_key (source, repository, revision)"
    and plain: "hd revision \<noteq> CHR ''.''" "\<And>part. part \<in> set (split_on (CHR ''/'') repository) \<Longrightarrow> hd part \<noteq> CHR ''.''"
    and apart: "\<not> peer_overlap (s2, r2, v2) (source, repository, revision)"
  shows "(s2, r2, v2) = (source, repository, revision)"
proof -
  obtain name where name: "name = v2 \<or> hd name = CHR ''.''"
    and "prefix (peer_parent s2 r2 @ [name]) (peer_parent source repository @ revision # rest)"
    using below peer_paths_name unfolding below_any_def by metis
  then have s: "s2 = source" and parts: "prefix (split_on (CHR ''/'') r2 @ [name]) (split_on (CHR ''/'') repository @ revision # rest)"
    by (auto simp: peer_parent_def)
  have apart': "split_on (CHR ''/'') r2 @ [v2] \<noteq> split_on (CHR ''/'') repository" "split_on (CHR ''/'') repository @ [revision] \<noteq> split_on (CHR ''/'') r2"
    using apart s by (auto simp: peer_overlap_def)
  have r2: "(\<exists>a. split_on (CHR ''/'') r2 = [a]) \<or> (\<exists>a b. split_on (CHR ''/'') r2 = [a, b])"
    using valid(1) split_on_nonempty by (intro short_parts) (auto simp: valid_key_def)
  have repository: "(\<exists>a. split_on (CHR ''/'') repository = [a]) \<or> (\<exists>a b. split_on (CHR ''/'') repository = [a, b])"
    using valid(2) split_on_nonempty by (intro short_parts) (auto simp: valid_key_def)
  have "split_on (CHR ''/'') r2 = split_on (CHR ''/'') repository \<and> name = revision"
    using r2 repository parts apart' name plain by auto
  then show ?thesis
    using s name plain(1) split_on_inj by auto
qed

lemma scope_paths_apart:
  assumes below: "below_any (scope_paths r2 v2) (hd (scope_paths repository revision) @ rest)"
    and plain: "hd (split_on (CHR ''/'') repository ! 0) \<noteq> CHR ''.''"
  shows "alias_of (s2, r2, v2) = alias_of (source, repository, revision)"
proof -
  have "''._____temp'' \<noteq> split_on (CHR ''/'') repository ! 0" "''.lock'' \<noteq> split_on (CHR ''/'') repository ! 0"
    using plain by (metis list.sel(1))+
  then show ?thesis
    using below by (auto simp: below_any_def scope_paths_def scope_version_def alias_of_def Let_def)
qed

lemma peer_head [simp]: "hd (peer_paths (source, repository, revision)) = peer_parent source repository @ [revision]"
  by (simp add: peer_paths_def)

lemma peer_survives:
  assumes "(source, repository, revision) \<in> set lives" and "valid_key k" and "valid_key (source, repository, revision)"
    and "hd revision \<noteq> CHR ''.''" and "\<And>part. part \<in> set (split_on (CHR ''/'') repository) \<Longrightarrow> hd part \<noteq> CHR ''.''"
    and "\<not> peer_overlap k (source, repository, revision)"
  shows "\<not> item_loses lives k (hd (peer_paths (source, repository, revision)) @ rest)"
proof -
  obtain s2 r2 v2 where k: "k = (s2, r2, v2)"
    by (cases k)
  have "\<not> hub_loses lives r2 (hd (peer_paths (source, repository, revision)) @ rest)"
    "\<not> below_any (scope_paths r2 v2) (hd (peer_paths (source, repository, revision)) @ rest)"
    by (auto simp: hub_loses_def hub_def peer_parent_def below_any_def scope_paths_def scope_version_def Let_def)
  then show ?thesis
    using peer_paths_apart [of s2 r2 v2 source repository revision rest] assms by (auto simp: item_loses_def k)
qed

lemma hub_survives:
  assumes "(''hf'', repository, revision) \<in> set lives"
    and "fst k = ''hf'' \<Longrightarrow> repo_dir repository = repo_dir (fst (snd k)) \<Longrightarrow> repository = fst (snd k)"
  shows "\<not> item_loses lives k (snapshot_dir repository revision @ rest)"
proof -
  obtain s2 r2 v2 where k: "k = (s2, r2, v2)"
    by (cases k)
  have "\<not> below_any (scope_paths r2 v2) (snapshot_dir repository revision @ rest)"
    "\<not> below_any (peer_paths k) (snapshot_dir repository revision @ rest)"
    by (auto simp: k snapshot_dir_def repo_dir_def hub_def peer_paths_def peer_parent_def below_any_def scope_paths_def scope_version_def Let_def)
  moreover have "\<not> hub_loses lives r2 (snapshot_dir repository revision @ rest)" if "s2 = ''hf''"
  proof
    assume "hub_loses lives r2 (snapshot_dir repository revision @ rest)"
    from hub_loses_live [OF this assms(1)] assms(2) that show False by (simp add: k)
  qed
  ultimately show ?thesis
    unfolding item_loses_def by (auto simp: k)
qed

lemma scope_survives:
  assumes "(''modelscope'', repository, revision) \<in> set lives" and "hd (split_on (CHR ''/'') repository ! 0) \<noteq> CHR ''.''"
  shows "\<not> item_loses lives k (hd (scope_paths repository revision) @ rest)"
proof -
  obtain s2 r2 v2 where k: "k = (s2, r2, v2)"
    by (cases k)
  have "\<not> hub_loses lives r2 (hd (scope_paths repository revision) @ rest)"
    "\<not> below_any (peer_paths k) (hd (scope_paths repository revision) @ rest)"
    by (auto simp: k hub_loses_def hub_def peer_paths_def peer_parent_def below_any_def scope_paths_def scope_version_def Let_def)
  then show ?thesis
    using scope_paths_apart [of r2 v2 repository revision rest s2 "''modelscope''"] assms
    by (auto simp: item_loses_def k image_iff)
qed

text \<open>C18: A collection, whether it ends or fails midway, also in the middle of removing a directory, leaves the artifacts of
  every live item as they are: every entry of its published peer snapshot, for a Hugging Face item every entry of its
  snapshot in the Hub cache, and for a ModelScope item every entry of its prepared snapshot, whatever candidates are
  collected, also those that share its repository or its revision. The payloads of the links that
  survive are treated separately. The Hub library is assumed to plan within the
  revision it is asked for and to remove only what it plans. Excluded are three clashes of names: a candidate whose peer
  snapshot lies in the directories of the live one or the other way round (peer_overlap, for which
  overlapping_peer_is_lost shows the loss), another spelling of the live repository with the same Hub directory,
  and parts of the live item that begin with a dot, as the cache's own working files do.\<close>

theorem live_items_survive:
  assumes "item_keys live = Inr lives" and "item_keys candidates = Inr keys"
    and "(source, repository, revision) \<in> set lives"
    and "hub_execute_ok L" and "hub_plan_ok L"
    and "hd revision \<noteq> CHR ''.''" and "\<forall>part \<in> set (split_on (CHR ''/'') repository). hd part \<noteq> CHR ''.''"
    and "\<forall>k \<in> set keys. \<not> peer_overlap k (source, repository, revision)"
    and "\<forall>(s, r, _) \<in> set keys. s = ''hf'' \<and> repo_dir repository = repo_dir r \<longrightarrow> repository = r"
    and after: "after = ca_fs (final_cache (collect_cache_items L faults root_link candidates live fs))"
  shows "entry after (hd (peer_paths (source, repository, revision)) @ rest) = entry fs (hd (peer_paths (source, repository, revision)) @ rest) \<and>
    (source = ''hf'' \<longrightarrow> entry after (snapshot_dir repository revision @ rest) = entry fs (snapshot_dir repository revision @ rest)) \<and>
    (source = ''modelscope'' \<longrightarrow>
      entry after (hd (scope_paths repository revision) @ rest) = entry fs (hd (scope_paths repository revision) @ rest))"
proof -
  note lost = collect_cache_items_loses [OF assms(1,2,4,5), of fs faults root_link, folded after]
  have "\<not> item_loses lives k (hd (peer_paths (source, repository, revision)) @ rest)" if "k \<in> set keys" for k
    using peer_survives [OF assms(3) item_keys_valid [OF assms(2) that] item_keys_valid [OF assms(1,3)] assms(6)] assms(7,8) that by blast
  moreover have "\<not> item_loses lives k (snapshot_dir repository revision @ rest)" if "source = ''hf''" "k \<in> set keys" for k
    using hub_survives [of repository revision lives k rest] assms(3,9) that by (auto simp: split_beta)
  moreover have "hd (split_on (CHR ''/'') repository ! 0) \<noteq> CHR ''.''"
    using assms(7) split_on_nonempty nth_mem [of 0] by (metis length_greater_0_conv)
  then have "\<not> item_loses lives k (hd (scope_paths repository revision) @ rest)" if "source = ''modelscope''" for k
    using scope_survives assms(3) that by simp
  ultimately show ?thesis
    using loses_kept [OF lost] by blast
qed

section \<open>An instance of the Hub library\<close>

definition demo_execute :: "deletion \<Rightarrow> fs \<Rightarrow> fs" where
  "demo_execute d fs =
     filter (\<lambda>(p, _). \<not> (below_any (plan_trees d) p \<or> p \<in> set (dl_refs d @ dl_blobs d @ dl_files d) \<and> entry fs p \<noteq> Some Dir)) fs"

definition demo_repo :: path where "demo_repo = [''hub'', ''models--a--m'']"

definition demo_hub :: hub_library where
  "demo_hub =
     \<lparr>hl_scan = (\<lambda>fs repository.
        if repository = ''a/m''
        then Some [\<lparr>hr_commit = ''r'', hr_snapshot = demo_repo @ [''snapshots'', ''r''], hr_payloads = [demo_repo @ [''blobs'', ''x'']]\<rparr>]
        else None),
      hl_plan = (\<lambda>fs repository revision.
        \<lparr>dl_repos = [], dl_snapshots = [snapshot_dir repository revision], dl_refs = [],
         dl_blobs = [demo_repo @ [''blobs'', ''x''], demo_repo @ [''blobs'', ''y'']], dl_files = [], dl_shared_store = False\<rparr>),
      hl_execute = demo_execute\<rparr>"

text \<open>Two repositories; the second one links a payload of the first.\<close>

definition demo_fs :: fs where
  "demo_fs =
     [([''hub''], Dir), (demo_repo, Dir), (demo_repo @ [''blobs''], Dir), (demo_repo @ [''snapshots''], Dir),
      (demo_repo @ [''snapshots'', ''r''], Dir),
      (demo_repo @ [''snapshots'', ''r'', ''v''], Link (Some (demo_repo @ [''blobs'', ''y'']))),
      (demo_repo @ [''snapshots'', ''r'', ''w''], Link (Some (demo_repo @ [''blobs'', ''x'']))),
      (demo_repo @ [''blobs'', ''x''], File ''1''), (demo_repo @ [''blobs'', ''y''], File ''2''),
      ([''hub'', ''w''], Link (Some (demo_repo @ [''blobs'', ''x''])))]"

definition demo_cache :: cache where "demo_cache = \<lparr>ca_fs = demo_fs, ca_removed = [], ca_faults = []\<rparr>"

lemma entry_demo_execute:
  "entry (demo_execute d fs) p =
     (if below_any (plan_trees d) p \<or> p \<in> set (dl_refs d @ dl_blobs d @ dl_files d) \<and> entry fs p \<noteq> Some Dir then None else entry fs p)"
  unfolding demo_execute_def by (subst entry_filter) simp

lemma demo_execute_tree:
  assumes "tree_ok fs"
  shows "tree_ok (demo_execute d fs)"
proof -
  have kept: "q = [] \<or> q = p \<or> entry (demo_execute d fs) q = Some Dir"
    if member: "(p, n) \<in> set (demo_execute d fs)" and below: "prefix q p" for p n q
  proof -
    have "(p, n) \<in> set fs" and outside: "\<not> below_any (plan_trees d) p"
      using member by (auto simp: demo_execute_def)
    then have "entry fs p \<noteq> None"
      by (metis not_None_eq weak_map_of_SomeI)
    with outside have "q = [] \<or> q = p \<or> entry fs q = Some Dir" and "\<not> below_any (plan_trees d) q"
      using tree_ancestor [OF assms _ below] below by (auto simp: below_any_def dest: prefix_order.trans)
    then show ?thesis
      by (auto simp: entry_demo_execute)
  qed
  show ?thesis
    unfolding tree_ok_def
  proof (intro conjI ballI)
    show "distinct (map fst (demo_execute d fs))"
      using assms by (simp add: tree_ok_def demo_execute_def distinct_map_filter)
    show "case e of (p, n) \<Rightarrow> \<forall>q \<in> set (prefixes p). q = [] \<or> q = p \<or> entry (demo_execute d fs) q = Some Dir"
      if "e \<in> set (demo_execute d fs)" for e
      using kept [of "fst e" "snd e"] that by (simp add: split_beta in_set_prefixes)
  qed
qed

lemma demo_hub_ok: "hub_execute_ok demo_hub"
  unfolding hub_execute_ok_def demo_hub_def loses_only_def by (auto simp: entry_demo_execute demo_execute_tree)

theorem remaining_links_keep_payloads_witness:
  "ca_fs (projr (collect_huggingface demo_hub ''a/m'' ''r'' [] demo_cache)) \<noteq> demo_fs \<and>
   entry (ca_fs (projr (collect_huggingface demo_hub ''a/m'' ''r'' [] demo_cache))) [''hub'', ''models--a--m'', ''blobs'', ''x''] = Some (File ''1'')"
proof -
  have run: "collect_huggingface demo_hub ''a/m'' ''r'' [] demo_cache =
      Inr (projr (collect_huggingface demo_hub ''a/m'' ''r'' [] demo_cache))"
    by code_simp
  have facts: "tree_ok (ca_fs demo_cache)" "entry (ca_fs demo_cache) [''hub'', ''w''] = Some (Link (Some (demo_repo @ [''blobs'', ''x''])))"
    "strict_prefix hub [''hub'', ''w'']" "resolve_path (ca_fs demo_cache) [''hub'', ''w''] = At (demo_repo @ [''blobs'', ''x''])"
    "entry (ca_fs (projr (collect_huggingface demo_hub ''a/m'' ''r'' [] demo_cache))) [''hub'', ''w''] \<noteq> None"
    "demo_repo @ [''blobs'', ''x''] \<notin> set (dl_refs (hl_plan demo_hub (ca_fs demo_cache) ''a/m'' ''r'') @ dl_files (hl_plan demo_hub (ca_fs demo_cache) ''a/m'' ''r''))"
    "ca_fs (projr (collect_huggingface demo_hub ''a/m'' ''r'' [] demo_cache)) \<noteq> demo_fs"
    "entry (ca_fs demo_cache) (demo_repo @ [''blobs'', ''x'']) = Some (File ''1'')"
    by code_simp+
  show ?thesis
    using remaining_links_keep_payloads [OF run demo_hub_ok facts(1-6)] facts(7,8) by (simp add: demo_repo_def)
qed


lemma demo_plan_ok: "hub_plan_ok demo_hub"
proof -
  have "\<not> prefix (snapshot_dir r v) (demo_repo @ [''blobs'', b])" for r v b
    by (auto simp: snapshot_dir_def repo_dir_def hub_def demo_repo_def)
  then show ?thesis
    by (auto simp: hub_plan_ok_def plan_inside_def demo_hub_def hub_def demo_repo_def)
qed

definition cache_item :: "string \<Rightarrow> string \<Rightarrow> string \<Rightarrow> json" where
  "cache_item source repository revision = JObj [(''source'', JStr source), (''repository'', JStr repository), (''revision'', JStr revision)]"

text \<open>A live and a released revision of one Hub repository.\<close>

definition live_hub_fs :: fs where
  "live_hub_fs =
     [([''hub''], Dir), (demo_repo, Dir), (demo_repo @ [''blobs''], Dir), (demo_repo @ [''snapshots''], Dir),
      (demo_repo @ [''snapshots'', ''r''], Dir), (demo_repo @ [''snapshots'', ''q''], Dir),
      (demo_repo @ [''snapshots'', ''q'', ''w''], Link (Some (demo_repo @ [''blobs'', ''x'']))), (demo_repo @ [''blobs'', ''x''], File ''1'')]"

definition hub_collection :: "(cache_error \<times> cache) + collection" where
  "hub_collection = collect_cache_items demo_hub [] False [cache_item ''hf'' ''a/m'' ''r''] [cache_item ''hf'' ''a/m'' ''q''] live_hub_fs"

text \<open>
  A live and a released revision of one ModelScope repository. The removal of the released snapshot fails after a file
  of it is gone.
\<close>

definition live_scope_fs :: fs where
  "live_scope_fs =
     [([''modelscope''], Dir), ([''modelscope'', ''revisions''], Dir), ([''modelscope'', ''revisions'', ''1''], Dir),
      ([''modelscope'', ''revisions'', ''1'', ''o''], Dir), ([''modelscope'', ''revisions'', ''1'', ''o'', ''n''], Dir),
      ([''modelscope'', ''revisions'', ''1'', ''o'', ''n'', ''w''], File ''0''),
      ([''modelscope'', ''revisions'', ''2''], Dir), ([''modelscope'', ''revisions'', ''2'', ''o''], Dir),
      ([''modelscope'', ''revisions'', ''2'', ''o'', ''n''], Dir), ([''modelscope'', ''revisions'', ''2'', ''o'', ''n'', ''w''], File ''1'')]"

definition demo_fault :: faults where
  "demo_fault = [([''modelscope'', ''revisions'', ''1'', ''o'', ''n''], [[''modelscope'', ''revisions'', ''1'', ''o'', ''n'', ''w'']])]"

definition scope_collection :: "(cache_error \<times> cache) + collection" where
  "scope_collection =
     collect_cache_items demo_hub demo_fault False [cache_item ''modelscope'' ''o/n'' ''1''] [cache_item ''modelscope'' ''o/n'' ''2''] live_scope_fs"

lemma demo_cache_keys:
  "item_keys [cache_item ''hf'' ''a/m'' ''q''] = Inr [(''hf'', ''a/m'', ''q'')]"
  "item_keys [cache_item ''hf'' ''a/m'' ''r''] = Inr [(''hf'', ''a/m'', ''r'')]"
  "item_keys [cache_item ''modelscope'' ''o/n'' ''2''] = Inr [(''modelscope'', ''o/n'', ''2'')]"
  "item_keys [cache_item ''modelscope'' ''o/n'' ''1''] = Inr [(''modelscope'', ''o/n'', ''1'')]"
  by code_simp+

lemma demo_cache_parts: "split_on (CHR ''/'') ''o/n'' = [''o'', ''n'']" "split_on (CHR ''/'') ''a/m'' = [''a'', ''m'']"
  by code_simp+

lemma hub_collected: "removed_paths (projr hub_collection) = [''hub/models--a--m/snapshots/r'']"
  by code_simp

lemma scope_interrupted:
  "fst (projl scope_collection) = RemovalFailed [''modelscope'', ''revisions'', ''1'', ''o'', ''n'']"
  "entry (ca_fs (final_cache scope_collection)) [''modelscope'', ''revisions'', ''1'', ''o'', ''n'', ''w''] = None"
  by code_simp+

lemma demo_cache_places:
  "snapshot_dir ''a/m'' ''q'' @ [''w''] = [''hub'', ''models--a--m'', ''snapshots'', ''q'', ''w'']"
  "hd (scope_paths ''o/n'' ''2'') @ [''w''] = [''modelscope'', ''revisions'', ''2'', ''o'', ''n'', ''w'']"
  "entry live_hub_fs [''hub'', ''models--a--m'', ''snapshots'', ''q'', ''w''] = Some (Link (Some (demo_repo @ [''blobs'', ''x''])))"
  "entry live_scope_fs [''modelscope'', ''revisions'', ''2'', ''o'', ''n'', ''w''] = Some (File ''1'')"
  by code_simp+

theorem live_items_survive_witness:
  "removed_paths (projr hub_collection) = [''hub/models--a--m/snapshots/r''] \<and>
   entry (ca_fs (final_cache hub_collection)) [''hub'', ''models--a--m'', ''snapshots'', ''q'', ''w''] =
     Some (Link (Some (demo_repo @ [''blobs'', ''x'']))) \<and>
   fst (projl scope_collection) = RemovalFailed [''modelscope'', ''revisions'', ''1'', ''o'', ''n''] \<and>
   entry (ca_fs (final_cache scope_collection)) [''modelscope'', ''revisions'', ''1'', ''o'', ''n'', ''w''] = None \<and>
   entry (ca_fs (final_cache scope_collection)) [''modelscope'', ''revisions'', ''2'', ''o'', ''n'', ''w''] = Some (File ''1'')"
proof -
  have "entry (ca_fs (final_cache hub_collection)) (snapshot_dir ''a/m'' ''q'' @ [''w'']) = entry live_hub_fs (snapshot_dir ''a/m'' ''q'' @ [''w''])"
    using live_items_survive [OF demo_cache_keys(1,2), of "''hf''" "''a/m''" "''q''" demo_hub _ "[]" False live_hub_fs "[''w'']"] demo_hub_ok demo_plan_ok
    by (simp add: demo_cache_parts hub_collection_def peer_overlap_def)
  moreover have "entry (ca_fs (final_cache scope_collection)) (hd (scope_paths ''o/n'' ''2'') @ [''w'']) =
      entry live_scope_fs (hd (scope_paths ''o/n'' ''2'') @ [''w''])"
    using live_items_survive [OF demo_cache_keys(3,4), of "''modelscope''" "''o/n''" "''2''" demo_hub _ demo_fault False live_scope_fs "[''w'']"]
      demo_hub_ok demo_plan_ok
    by (simp add: demo_cache_parts scope_collection_def peer_overlap_def)
  ultimately show ?thesis
    unfolding demo_cache_places using hub_collected scope_interrupted by simp
qed

text \<open>With overlapping names the live peer snapshot is lost: \<open>a/b\<close> at revision \<open>c\<close> lives inside the snapshot of \<open>a\<close> at \<open>b\<close>.\<close>

lemma overlapping_peer_is_lost:
  "peer_overlap (''hf'', ''a'', ''b'') (''hf'', ''a/b'', ''c'') \<and>
   entry (ca_fs (final_cache (collect_cache_items demo_hub [] False [cache_item ''hf'' ''a'' ''b''] [cache_item ''hf'' ''a/b'' ''c'']
     [([''distributed''], Dir), ([''distributed'', ''hf''], Dir), ([''distributed'', ''hf'', ''a''], Dir), ([''distributed'', ''hf'', ''a'', ''b''], Dir),
      ([''distributed'', ''hf'', ''a'', ''b'', ''c''], Dir), ([''distributed'', ''hf'', ''a'', ''b'', ''c'', ''w''], File ''1'')])))
     (hd (peer_paths (''hf'', ''a/b'', ''c'')) @ [''w'']) = None"
  by code_simp

end
